(* ===== verification/Prelude.thy ===== *)
theory Prelude
  imports Main "HOL-Library.Word" "HOL-Library.Signed_Division"
begin

text \<open>
  The prelude of the library: machine types, errors as values, the result type that every
  fallible Go function is translated into, and the generic lemmas on lists, results, words and
  big-endian numbers that the component theories share.

  Go's \<open>(T, error)\<close> returns become \<^typ>\<open>'a + 'b\<close> values with the error on the left. A run-time
  panic is an error value too (\<open>Panic\<close>), so no branch of the source is lost in HOL's total
  functions; \<open>OutOfFuel\<close> marks the fuel of a bounded recursion running out, and the component
  theories prove that it never does on well-formed inputs.
\<close>

section \<open>Machine types\<close>

type_synonym byte = "8 word"
type_synonym bytes = "8 word list"
type_synonym u16 = "16 word"
type_synonym u64 = "64 word"
type_synonym address = "8 word list"
type_synonym hash = "8 word list"

text \<open>Go's \<open>int64\<close> values are integers reduced to the signed 64-bit range after every
  operation that can leave it.\<close>

definition i64 :: "int \<Rightarrow> int" where
  "i64 x = signed_take_bit 63 x"

text \<open>\<open>common.Address\<close> and \<open>common.Hash\<close> are byte arrays of fixed length; the zero values are
  Go's \<open>common.Address{}\<close> and \<open>common.Hash{}\<close>.\<close>

abbreviation is_address :: "address \<Rightarrow> bool" where
  "is_address a \<equiv> length a = 20"

definition zero_address :: address where
  "zero_address = replicate 20 0"

definition zero_hash :: hash where
  "zero_hash = replicate 32 0"

lemma length_zero_address [simp]: "length zero_address = 20"
  by (simp add: zero_address_def)

lemma length_zero_hash [simp]: "length zero_hash = 32"
  by (simp add: zero_hash_def)

section \<open>Errors and results\<close>

datatype rlp_error =
    ErrUnexpectedEOF | EOF | EOL | ErrExpectedString | ErrExpectedList | ErrCanonInt
  | ErrCanonSize | ErrElemTooLarge | ErrValueTooLarge | ErrMoreThanOneValue
  | ErrNotInList | ErrNotAtEOL | ErrUintOverflow | ErrDecodeIntoNil | ErrNegativeBigInt
  | DecodeError string

text \<open>The error values of \<open>boker/protocol/protocol.go\<close>, and those of the virtual machine, the block processor
  and the consensus engine.\<close>

datatype protocol_error =
    ErrNilBlockHeader | ErrUnknownBlock | ErrInvalidProducer | ErrInvalidProducerTime
  | ErrInvalidCoinbase | ErrInvalidSystem | ErrMismatchSignerAndValidator | ErrNoSigner
  | ErrInvalidType | ErrInvalidAddress | ErrInvalidAction | ErrLoadConfig
  | ErrNotFoundAddress | ErrNotFoundType | ErrWriteJson | ErrOpenFile | ErrWriteFile
  | ErrContractExist | ErrSystem | ErrNotFoundContract | ErrNotFoundAccount
  | ErrNewContractService | ErrSaveContractTrie | ErrLevel | ErrPointerIsNil
  | ErrTransactionType | ErrSpecialAccount | ErrValidatorsIsFull | ErrExistsValidators
  | ErrGenesisBlock | ErrDecodeValidators | ErrEncodeValidators | ErrSetEpochTrieFail
  | ErrEpochTrieNil | ErrToIsNil | ErrTxType | ErrIsnStock | ErrIsnOwner | ErrStockLow

datatype chain_error =
    ErrOutOfGas | ErrCodeStoreOutOfGas | ErrDepth | ErrTraceLimitReached
  | ErrInsufficientBalance | ErrContractAddressCollision | errWriteProtection
  | errReturnDataOutOfBounds | errExecutionReverted | errMaxCodeSizeExceeded | ErrKnownBlock
  | ErrGasLimitReached | ErrBlacklistedHash | ErrNonceTooHigh | ErrNonceTooLow
  | errInsufficientBalanceForGas | ErrUnknownAncestor | ErrFutureBlock | ErrInvalidNumber
  | errMissingVanity | errMissingSignature | errInvalidMixDigest | errInvalidUncleHash
  | errInvalidDifficulty | ErrInvalidTimestamp | ErrWaitForPrevBlock | ErrMintFutureBlock

datatype err =
    RlpError rlp_error
  | MissingNodeError bytes bytes
  | NodeDecodeError err "string list"
  | TextError string
  | ProtocolError protocol_error
  | ChainError chain_error
  | Panic string
  | OutOfFuel

type_synonym 'a res = "err + 'a"

text \<open>An operation on a state: it may fail after having changed the state, so both come back.\<close>

type_synonym ('a, 's) op = "'s \<Rightarrow> 'a res \<times> 's"

definition sbind :: "('a, 's) op \<Rightarrow> ('a \<Rightarrow> ('b, 's) op) \<Rightarrow> ('b, 's) op" where
  "sbind m f s = (case m s of (Inl e, s') \<Rightarrow> (Inl e, s') | (Inr x, s') \<Rightarrow> f x s')"

definition sret :: "'a \<Rightarrow> ('a, 's) op" where
  "sret x s = (Inr x, s)"

definition sthrow :: "err \<Rightarrow> ('a, 's) op" where
  "sthrow e s = (Inl e, s)"

text \<open>A panic (and exhausted fuel) is not an error value that Go code can drop.\<close>

fun crash :: "err \<Rightarrow> bool" where
  "crash (Panic m) = True"
| "crash OutOfFuel = True"
| "crash _ = False"

text \<open>Go code that drops an error value carries on with the state the failed call left behind, and code that
  inspects it branches on it.\<close>

definition scatch :: "('a, 's) op \<Rightarrow> (err \<Rightarrow> ('b, 's) op) \<Rightarrow> ('a \<Rightarrow> ('b, 's) op) \<Rightarrow> ('b, 's) op" where
  "scatch m h f s =
     (case m s of
        (Inl e, s') \<Rightarrow> if crash e then (Inl e, s') else h e s'
      | (Inr x, s') \<Rightarrow> f x s')"

definition signore :: "('a, 's) op \<Rightarrow> (unit, 's) op" where
  "signore m = scatch m (\<lambda>_. sret ()) (\<lambda>_. sret ())"

lemma scatch_Inr [simp]: "m s = (Inr x, s') \<Longrightarrow> scatch m h f s = f x s'"
  and scatch_Inl: "m s = (Inl e, s') \<Longrightarrow> \<not> crash e \<Longrightarrow> scatch m h f s = h e s'"
  by (simp_all add: scatch_def)

lemma signore_Inr [simp]: "m s = (Inr x, s') \<Longrightarrow> signore m s = (Inr (), s')"
  and signore_Inl: "m s = (Inl e, s') \<Longrightarrow> \<not> crash e \<Longrightarrow> signore m s = (Inr (), s')"
  by (simp_all add: signore_def scatch_Inl sret_def)

lemma sbind_Inr [simp]: "m s = (Inr x, s') \<Longrightarrow> sbind m f s = f x s'"
  and sbind_Inl: "m s = (Inl e, s') \<Longrightarrow> sbind m f s = (Inl e, s')"
  by (simp_all add: sbind_def)

lemma sbind_sret [simp]: "sbind (sret x) f = f x"
  by (simp add: sbind_def sret_def fun_eq_iff)

lemma sbind_sthrow [simp]: "sbind (sthrow e) f = sthrow e"
  by (simp add: sbind_def sthrow_def fun_eq_iff)

lemma sbind_cong [fundef_cong]:
  "m s = m' s' \<Longrightarrow> (\<And>x t. m' s' = (Inr x, t) \<Longrightarrow> f x t = f' x t) \<Longrightarrow> sbind m f s = sbind m' f' s'"
  by (auto simp: sbind_def split: prod.splits sum.splits)

text \<open>Sequencing: Go's \<open>if err != nil { return ..., err }\<close>.\<close>

definition rbind :: "'a res \<Rightarrow> ('a \<Rightarrow> 'b res) \<Rightarrow> 'b res" where
  "rbind m f = (case m of Inl e \<Rightarrow> Inl e | Inr x \<Rightarrow> f x)"

lemma rbind_simps [simp]:
  "rbind (Inl e) f = Inl e"
  "rbind (Inr x) f = f x"
  by (simp_all add: rbind_def)

lemma rbind_Inr_iff: "rbind m f = Inr y \<longleftrightarrow> (\<exists>x. m = Inr x \<and> f x = Inr y)"
  by (simp add: rbind_def split: sum.split)

lemma rbind_cong [fundef_cong]:
  "m = m' \<Longrightarrow> (\<And>x. m' = Inr x \<Longrightarrow> f x = f' x) \<Longrightarrow> rbind m f = rbind m' f'"
  by (simp add: rbind_def split: sum.split)

section \<open>Lists\<close>

lemma take_drop_eq_append: "take (length ys) (drop (length xs) (xs @ ys @ zs)) = ys"
  by simp

lemma list_length_Suc_conv: "length xs = Suc n \<longleftrightarrow> (\<exists>y ys. xs = y # ys \<and> length ys = n)"
  by (cases xs) auto

lemma append_eq_same_length:
  "xs @ ys = us @ vs \<Longrightarrow> length xs = length us \<Longrightarrow> xs = us \<and> ys = vs"
  by simp

lemma sum_list_map_mono_bound:
  "(\<And>x. x \<in> set xs \<Longrightarrow> f x \<le> (c::nat)) \<Longrightarrow> sum_list (map f xs) \<le> c * length xs"
  by (induction xs) (auto simp: add_mono)

lemma in_set_length_concat_map:
  "x \<in> set xs \<Longrightarrow> length (f x) \<le> length (concat (map f xs))"
  by (induction xs) auto

section \<open>Words and big-endian numbers\<close>

text \<open>\<open>be_nat\<close> reads a byte string as an unsigned big-endian number, as
  \<open>binary.BigEndian.Uint64\<close> and \<open>big.Int.SetBytes\<close> do.\<close>

definition be_nat :: "bytes \<Rightarrow> nat" where
  "be_nat bs = foldl (\<lambda>acc b. 256 * acc + unat b) 0 bs"

lemma be_nat_Nil [simp]: "be_nat [] = 0"
  by (simp add: be_nat_def)

lemma be_nat_snoc: "be_nat (bs @ [b]) = 256 * be_nat bs + unat b"
  by (simp add: be_nat_def)

lemma foldl_be_nat:
  "foldl (\<lambda>acc b. 256 * acc + unat (b::byte)) a bs = a * 256 ^ length bs + be_nat bs"
proof (induction bs rule: rev_induct)
  case Nil
  then show ?case by simp
next
  case (snoc b bs)
  then show ?case by (simp add: be_nat_snoc algebra_simps)
qed

lemma be_nat_Cons: "be_nat (b # bs) = unat b * 256 ^ length bs + be_nat bs"
  by (simp add: be_nat_def) (use foldl_be_nat [of "unat b" bs] in \<open>simp add: be_nat_def\<close>)

lemma unat_byte_less: "unat (b::byte) < 256"
  using unsigned_less [of b, where ?'a = nat] by simp

lemma be_nat_less: "be_nat bs < 256 ^ length bs"
proof (induction bs rule: rev_induct)
  case Nil
  then show ?case by simp
next
  case (snoc b bs)
  have "256 * be_nat bs + unat b < 256 * (be_nat bs + 1)"
    using unat_byte_less [of b] by simp
  also have "\<dots> \<le> 256 * 256 ^ length bs"
    using snoc.IH by (intro mult_left_mono) auto
  finally show ?case by (simp add: be_nat_snoc)
qed

text \<open>\<open>nat_be\<close> writes a number in as few big-endian bytes as it needs, as \<open>big.Int.Bytes\<close>
  does (the number 0 is the empty string).\<close>

fun nat_be :: "nat \<Rightarrow> bytes" where
  "nat_be n = (if n = 0 then [] else nat_be (n div 256) @ [of_nat (n mod 256)])"

declare nat_be.simps [simp del]

lemma nat_be_0 [simp]: "nat_be 0 = []"
  by (simp add: nat_be.simps)

lemma unat_of_nat_byte: "n < 256 \<Longrightarrow> unat (of_nat n :: byte) = n"
  by (simp add: unat_of_nat)

lemma be_nat_nat_be [simp]: "be_nat (nat_be n) = n"
proof (induction n rule: nat_be.induct)
  case (1 n)
  show ?case
  proof (cases "n = 0")
    case True
    then show ?thesis by simp
  next
    case False
    then have "be_nat (nat_be (n div 256)) = n div 256"
      by (rule 1)
    with False show ?thesis
      by (subst nat_be.simps) (simp add: be_nat_snoc unat_of_nat_byte)
  qed
qed

lemma nat_be_Nil_iff [simp]: "nat_be n = [] \<longleftrightarrow> n = 0"
  by (subst nat_be.simps) simp

lemma hd_nat_be: "0 < n \<Longrightarrow> hd (nat_be n) \<noteq> 0"
proof (induction n rule: nat_be.induct)
  case (1 n)
  show ?case
  proof (cases "n < 256")
    case True
    then have "nat_be n = [of_nat n]"
      using 1 by (subst nat_be.simps) simp
    moreover have "(of_nat n :: byte) \<noteq> 0"
      using True 1 unat_of_nat_byte [of n] by (metis unat_0 less_numeral_extra(3))
    ultimately show ?thesis by simp
  next
    case False
    then have "0 < n div 256" by simp
    then have "hd (nat_be (n div 256)) \<noteq> 0" and "nat_be (n div 256) \<noteq> []"
      using 1 False by auto
    then show ?thesis
      using False by (subst nat_be.simps) auto
  qed
qed

lemma length_nat_be_le: "n < 256 ^ k \<Longrightarrow> length (nat_be n) \<le> k"
proof (induction n arbitrary: k rule: nat_be.induct)
  case (1 n)
  show ?case
  proof (cases "n = 0")
    case True
    then show ?thesis by simp
  next
    case False
    with 1 obtain j where k: "k = Suc j" by (cases k) auto
    with 1 have "n div 256 < 256 ^ j"
      by (simp add: less_mult_imp_div_less mult.commute)
    with 1 False have "length (nat_be (n div 256)) \<le> j" by blast
    then show ?thesis by (subst nat_be.simps) (simp add: k)
  qed
qed

lemma nat_be_step: "0 < n \<Longrightarrow> nat_be n = nat_be (n div 256) @ [of_nat n]"
proof -
  assume "0 < n"
  moreover have "(of_nat (n mod 256) :: byte) = of_nat n"
    by (rule word_unat_eq_iff [THEN iffD2]) (simp add: unat_of_nat)
  ultimately show ?thesis by (subst nat_be.simps) simp
qed

lemma unat_drop_bit8_u64: "unat (drop_bit 8 (i::u64)) = unat i div 256"
  by (simp add: drop_bit_eq_div unat_div)

lemma unat_drop_bit_u64: "unat (drop_bit k (i::u64)) = unat i div 2 ^ k"
  by (metis unat_drop_bit_eq drop_bit_eq_div)

lemma ucast_drop_bit_byte:
  "(ucast (drop_bit k (i::u64)) :: byte) = of_nat (unat i div 2 ^ k)"
proof -
  have "(ucast w :: byte) = of_nat (unat w)" for w :: u64
    by simp
  then show ?thesis by (metis unat_drop_bit_u64)
qed

lemma unat_ucast_u64_byte: "unat (ucast (i::u64) :: byte) = unat i mod 256"
  by (simp add: unsigned_ucast_eq take_bit_eq_mod)

lemma nat_be_digits:
  "256 ^ k \<le> n \<Longrightarrow> n < 256 ^ Suc k \<Longrightarrow>
   nat_be n = map (\<lambda>j. of_nat (n div 256 ^ (k - j))) [0..<Suc k]"
proof (induction k arbitrary: n)
  case 0
  then have "0 < n" and "n div 256 = 0" by auto
  then show ?case by (simp add: nat_be_step)
next
  case (Suc k)
  have "256 ^ k \<le> n div 256" 
    using Suc.prems(1) by (simp add: less_eq_div_iff_mult_less_eq mult.commute)
  moreover have "n div 256 < 256 ^ Suc k"
    using Suc.prems(2) by (simp add: less_mult_imp_div_less mult.commute)
  ultimately have "nat_be (n div 256) = map (\<lambda>j. of_nat (n div 256 div 256 ^ (k - j))) [0..<Suc k]"
    by (rule Suc.IH)
  also have "\<dots> = map (\<lambda>j. of_nat (n div 256 ^ (Suc k - j))) [0..<Suc k]"
    by (auto simp: div_mult2_eq [symmetric] Suc_diff_le)
  finally have *: "nat_be (n div 256) = map (\<lambda>j. of_nat (n div 256 ^ (Suc k - j))) [0..<Suc k]" .
  have "0 < (256::nat) ^ Suc k" by simp
  then have "0 < n" using Suc.prems(1) by linarith
  then show ?case using * by (simp add: nat_be_step [of n])
qed

lemma unat_ucast_byte_u64 [simp]: "unat (ucast (b::byte) :: u64) = unat b"
  using unat_byte_less [of b] by (simp add: unsigned_ucast_eq take_bit_nat_eq_self)

lemma unat_of_nat_u64: "n < 2 ^ 64 \<Longrightarrow> unat (of_nat n :: u64) = n"
  by (simp add: unat_of_nat)

lemma ucast_of_nat_u64: "n < 256 \<Longrightarrow> (ucast (of_nat n :: byte) :: u64) = of_nat n"
  by (rule word_unat_eq_iff [THEN iffD2]) (simp add: unat_of_nat)

lemma unat_small_tag: "t + n < 256 \<Longrightarrow> unat (of_nat t + of_nat n :: byte) = t + n"
  by (simp add: unat_word_ariths unat_of_nat)


text \<open>\<open>binary.BigEndian.PutUint64\<close>: all eight bytes, most significant first.\<close>

definition put_uint64 :: "u64 \<Rightarrow> bytes" where
  "put_uint64 x = map (\<lambda>i. ucast (drop_bit (8 * (7 - i)) x)) [0..<8]"

lemma length_put_uint64 [simp]: "length (put_uint64 x) = 8"
  by (simp add: put_uint64_def)

section \<open>Decimal numerals\<close>

text \<open>\<open>strconv.Itoa\<close> and \<open>strconv.Atoi\<close> on the numbers the code converts.\<close>

function nat_str :: "nat \<Rightarrow> string" where
  "nat_str n =
     (if n < 10 then [char_of (48 + n)] else nat_str (n div 10) @ [char_of (48 + n mod 10)])"
  by pat_completeness auto
termination by (relation "measure id") auto

declare nat_str.simps [simp del]

end
