(* ===== verification/Common.thy ===== *)
theory Common
  imports Prelude
begin

text \<open>
  Fixed-size byte arrays and the key/value database: \<open>src/chain/common/types.go\<close>,
  \<open>src/chain/common/bytes.go\<close> and \<open>src/chain/ethdb/memory_database.go\<close>. Hashes and addresses are
  byte lists of length 32 and 20; the database is a finite map from keys to values, with the
  write batch of \<open>memBatch\<close>. Shown here: the conversions give arrays of the right length and
  are the identity on arrays, and a written batch has the effect of its puts in order.
\<close>

section \<open>Byte arrays\<close>

definition LeftPadBytes :: "bytes \<Rightarrow> nat \<Rightarrow> bytes" where
  "LeftPadBytes b l =
     (if l \<le> length b then b else replicate (l - length b) 0 @ b)"

definition RightPadBytes :: "bytes \<Rightarrow> nat \<Rightarrow> bytes" where
  "RightPadBytes b l =
     (if l \<le> length b then b else b @ replicate (l - length b) 0)"

text \<open>\<open>SetBytes\<close> crops its argument from the left and copies it to the right end of the array.\<close>

definition SetBytes :: "bytes \<Rightarrow> bytes \<Rightarrow> bytes" where
  "SetBytes h b =
     (let b = (if length b > length h then drop (length b - length h) b else b)
      in take (length h - length b) h @ b)"

definition BytesToHash :: "bytes \<Rightarrow> hash" where
  "BytesToHash b = SetBytes zero_hash b"

definition BytesToAddress :: "bytes \<Rightarrow> address" where
  "BytesToAddress b = SetBytes zero_address b"

text \<open>The contents of a byte slice that may be nil: a nil slice reads as an empty one.\<close>

definition opt_bytes :: "bytes option \<Rightarrow> bytes" where
  "opt_bytes v = (case v of Some b \<Rightarrow> b | None \<Rightarrow> [])"

definition EmptyHash :: "hash \<Rightarrow> bool" where
  "EmptyHash h \<longleftrightarrow> h = zero_hash"

lemma length_SetBytes [simp]: "length (SetBytes h b) = length h"
  by (simp add: SetBytes_def Let_def)

lemma SetBytes_id: "length b = length h \<Longrightarrow> SetBytes h b = b"
  by (simp add: SetBytes_def)

lemma length_BytesToHash [simp]: "length (BytesToHash b) = 32"
  by (simp add: BytesToHash_def)

lemma length_BytesToAddress [simp]: "length (BytesToAddress b) = 20"
  by (simp add: BytesToAddress_def)

lemma BytesToHash_id [simp]: "length h = 32 \<Longrightarrow> BytesToHash h = h"
  by (simp add: BytesToHash_def SetBytes_id)

lemma BytesToAddress_id [simp]: "is_address a \<Longrightarrow> BytesToAddress a = a"
  by (simp add: BytesToAddress_def SetBytes_id)

lemma BytesToAddress_BytesToHash: "is_address a \<Longrightarrow> BytesToAddress (BytesToHash a) = a"
  by (simp add: BytesToAddress_def BytesToHash_def SetBytes_def zero_hash_def)

section \<open>The database\<close>

type_synonym database = "bytes \<rightharpoonup> bytes"

definition db_Put :: "bytes \<Rightarrow> bytes \<Rightarrow> database \<Rightarrow> database" where
  "db_Put key val db = db(key \<mapsto> val)"

definition db_Has :: "bytes \<Rightarrow> database \<Rightarrow> bool" where
  "db_Has key db \<longleftrightarrow> db key \<noteq> None"

definition db_Get :: "bytes \<Rightarrow> database \<Rightarrow> bytes res" where
  "db_Get key db = (case db key of None \<Rightarrow> Inl (TextError ''not found'') | Some entry \<Rightarrow> Inr entry)"

definition db_Delete :: "bytes \<Rightarrow> database \<Rightarrow> database" where
  "db_Delete key db = db(key := None)"

record memBatch =
  writes :: "(bytes \<times> bytes) list"
  batch_size :: nat

definition batch_Put :: "bytes \<Rightarrow> bytes \<Rightarrow> memBatch \<Rightarrow> memBatch" where
  "batch_Put key val b =
     b\<lparr>writes := writes b @ [(key, val)], batch_size := batch_size b + length val\<rparr>"

definition batch_Write :: "memBatch \<Rightarrow> database \<Rightarrow> database" where
  "batch_Write b db = foldl (\<lambda>d (k, v). d(k \<mapsto> v)) db (writes b)"

lemma batch_Write_Put: "batch_Write (batch_Put k v b) db = db_Put k v (batch_Write b db)"
  by (simp add: batch_Write_def batch_Put_def db_Put_def)

lemma db_Get_Put: "db_Get k (db_Put k' v db) = (if k = k' then Inr v else db_Get k db)"
  by (simp add: db_Get_def db_Put_def)

end
