(* ===== verification/Vm_Words.thy ===== *)
theory Vm_Words
  imports Common "HOL-Library.AList"
begin

text \<open>
  The numbers, the memory and the code analysis of the virtual machine: \<open>common/math/big.go\<close> and
  \<open>integer.go\<close>, and \<open>common.go\<close>, \<open>memory.go\<close> and \<open>analysis.go\<close> of \<open>core/vm\<close>. A \<open>big.Int\<close> is
  an \<open>int\<close>; its 64-bit words, least significant first, are \<open>big_Bits\<close>. The lemmas show that the loops over words
  compute the power modulo \<open>2 ^ 256\<close>, and that the bit vector of the code analysis marks exactly the bytes that
  belong to the argument of a push instruction.
\<close>

unbundle bit_operations_syntax

section \<open>Big integers\<close>

fun bit_len :: "nat \<Rightarrow> nat" where
  "bit_len n = (if n = 0 then 0 else Suc (bit_len (n div 2)))"

declare bit_len.simps [simp del]

definition BitLen :: "int \<Rightarrow> nat" where
  "BitLen x = bit_len (nat \<bar>x\<bar>)"

fun nat_words :: "nat \<Rightarrow> u64 list" where
  "nat_words n = (if n = 0 then [] else of_nat (n mod 2 ^ 64) # nat_words (n div 2 ^ 64))"

declare nat_words.simps [simp del]

definition big_Bits :: "int \<Rightarrow> u64 list" where
  "big_Bits x = nat_words (nat \<bar>x\<bar>)"

definition big_Bytes :: "int \<Rightarrow> bytes" where
  "big_Bytes x = nat_be (nat \<bar>x\<bar>)"

definition big_SetBytes :: "bytes \<Rightarrow> int" where
  "big_SetBytes b = int (be_nat b)"

definition Uint64 :: "int \<Rightarrow> u64" where
  "Uint64 x = of_int x"

definition Int64 :: "int \<Rightarrow> int" where
  "Int64 x = i64 x"

definition BigToHash :: "int \<Rightarrow> hash" where
  "BigToHash b = BytesToHash (big_Bytes b)"

definition BigToAddress :: "int \<Rightarrow> address" where
  "BigToAddress b = BytesToAddress (big_Bytes b)"

definition U256 :: "int \<Rightarrow> int" where
  "U256 x = x AND (2 ^ 256 - 1)"

definition S256 :: "int \<Rightarrow> int" where
  "S256 x = (if x < 2 ^ 255 then x else x - 2 ^ 256)"

definition BigMax :: "int \<Rightarrow> int \<Rightarrow> int" where
  "BigMax x y = (if x < y then y else x)"

definition BigMin :: "int \<Rightarrow> int \<Rightarrow> int" where
  "BigMin x y = (if x > y then y else x)"

text \<open>The bytes of the words, least significant first, fill the buffer from its end.\<close>

definition word_bytes :: "u64 \<Rightarrow> bytes" where
  "word_bytes w = map (\<lambda>j. ucast (drop_bit (8 * j) w)) [0..<8]"

definition ReadBits :: "int \<Rightarrow> nat \<Rightarrow> bytes" where
  "ReadBits x n = rev (take n (concat (map word_bytes (big_Bits x)) @ replicate n 0))"

definition PaddedBigBytes :: "int \<Rightarrow> nat \<Rightarrow> bytes" where
  "PaddedBigBytes x n = (if BitLen x div 8 \<ge> n then big_Bytes x else ReadBits x n)"

definition bigEndianByteAt :: "int \<Rightarrow> nat \<Rightarrow> byte" where
  "bigEndianByteAt x n =
     (let words = big_Bits x; i = n div 8
      in if i \<ge> length words then 0 else ucast (drop_bit (8 * (n mod 8)) (words ! i)))"

definition math_Byte :: "int \<Rightarrow> nat \<Rightarrow> nat \<Rightarrow> byte" where
  "math_Byte x padlength n = (if n \<ge> padlength then 0 else bigEndianByteAt x (padlength - 1 - n))"

text \<open>Exponentiation by squaring. The pair is the result and the base, which the loop squares in place.\<close>

fun exp_bits :: "nat \<Rightarrow> u64 \<Rightarrow> int \<times> int \<Rightarrow> int \<times> int" where
  "exp_bits 0 word (result, base) = (result, base)"
| "exp_bits (Suc i) word (result, base) =
     exp_bits i (drop_bit 1 word) (if word AND 1 = 1 then U256 (result * base) else result, U256 (base * base))"

fun exp_words :: "u64 list \<Rightarrow> int \<times> int \<Rightarrow> int \<times> int" where
  "exp_words [] rb = rb"
| "exp_words (word # words) rb = exp_words words (exp_bits 64 word rb)"

definition math_Exp :: "int \<Rightarrow> int \<Rightarrow> int" where
  "math_Exp base exponent = fst (exp_words (big_Bits exponent) (1, base))"

section \<open>Checked machine arithmetic\<close>

definition MaxUint64 :: u64 where
  "MaxUint64 = 2 ^ 64 - 1"

definition SafeAdd :: "u64 \<Rightarrow> u64 \<Rightarrow> u64 \<times> bool" where
  "SafeAdd x y = (x + y, y > MaxUint64 - x)"

definition SafeMul :: "u64 \<Rightarrow> u64 \<Rightarrow> u64 \<times> bool" where
  "SafeMul x y = (if x = 0 \<or> y = 0 then (0, False) else (x * y, y > MaxUint64 div x))"

definition bigUint64 :: "int \<Rightarrow> u64 \<times> bool" where
  "bigUint64 v = (Uint64 v, BitLen v > 64)"

definition toWordSize :: "u64 \<Rightarrow> u64" where
  "toWordSize sz = (if sz > MaxUint64 - 31 then MaxUint64 div 32 + 1 else (sz + 31) div 32)"

section \<open>Slices of data\<close>

definition calcMemSize :: "int \<Rightarrow> int \<Rightarrow> int" where
  "calcMemSize off l = (if l = 0 then 0 else off + l)"

text \<open>The slice expression \<open>b[lo:hi]\<close>. Lengths of slices and positions in them fit into an \<open>int\<close>, so conversions of
  them are not written out.\<close>

definition go_slice :: "bytes \<Rightarrow> int \<Rightarrow> int \<Rightarrow> bytes res" where
  "go_slice b lo hi =
     (if 0 \<le> lo \<and> lo \<le> hi \<and> hi \<le> int (length b) then Inr (take (nat (hi - lo)) (drop (nat lo) b))
      else Inl (Panic ''slice bounds out of range''))"

definition getDataBig :: "bytes \<Rightarrow> int \<Rightarrow> int \<Rightarrow> bytes res" where
  "getDataBig data start sz =
     (let dlen = int (length data); s = BigMin start dlen; e = BigMin (s + sz) dlen
      in rbind (go_slice data s e) (\<lambda>b. Inr (RightPadBytes b (nat (i64 (uint (Uint64 sz)))))))"

section \<open>Memory\<close>

record Memory =
  mem_store :: bytes
  lastGasCost :: u64

definition NewMemory :: Memory where
  "NewMemory = \<lparr>mem_store = [], lastGasCost = 0\<rparr>"

definition mem_Len :: "Memory \<Rightarrow> u64" where
  "mem_Len m = of_nat (length (mem_store m))"

text \<open>\<open>copy(dst[lo:hi], value)\<close> writes as many bytes as both sides have.\<close>

definition go_copy :: "bytes \<Rightarrow> int \<Rightarrow> int \<Rightarrow> bytes \<Rightarrow> bytes res" where
  "go_copy b lo hi value =
     rbind (go_slice b lo hi) (\<lambda>dst.
       let n = min (length dst) (length value)
       in Inr (take (nat lo) b @ take n value @ drop (nat lo + n) b))"

definition mem_Set :: "u64 \<Rightarrow> u64 \<Rightarrow> bytes \<Rightarrow> Memory \<Rightarrow> Memory res" where
  "mem_Set offset sz value m =
     (if sz > of_nat (length (mem_store m)) then Inl (Panic ''INVALID memory: store empty'')
      else if sz > 0 then
        rbind (go_copy (mem_store m) (uint offset) (uint (offset + sz)) value) (\<lambda>st. Inr (m\<lparr>mem_store := st\<rparr>))
      else Inr m)"

definition mem_Resize :: "u64 \<Rightarrow> Memory \<Rightarrow> Memory" where
  "mem_Resize sz m =
     (if of_nat (length (mem_store m)) < sz
      then m\<lparr>mem_store := mem_store m @ replicate (unat (sz - of_nat (length (mem_store m)))) 0\<rparr> else m)"

definition mem_Get :: "int \<Rightarrow> int \<Rightarrow> Memory \<Rightarrow> bytes option res" where
  "mem_Get offset sz m =
     (if sz = 0 then Inr None
      else if int (length (mem_store m)) > offset then
        (if sz < 0 then Inl (Panic ''makeslice: len out of range'')
         else rbind (go_slice (mem_store m) offset (i64 (offset + sz))) (\<lambda>b. Inr (Some b)))
      else Inr None)"

definition mem_GetPtr :: "int \<Rightarrow> int \<Rightarrow> Memory \<Rightarrow> bytes option res" where
  "mem_GetPtr offset sz m =
     (if sz = 0 then Inr None
      else if int (length (mem_store m)) > offset then
        rbind (go_slice (mem_store m) offset (i64 (offset + sz))) (\<lambda>b. Inr (Some b))
      else Inr None)"

section \<open>Analysis of jump destinations\<close>

definition at_index :: "bytes \<Rightarrow> nat \<Rightarrow> byte res" where
  "at_index b i = (if i < length b then Inr (b ! i) else Inl (Panic ''index out of range''))"

definition or_byte :: "nat \<Rightarrow> byte \<Rightarrow> bytes \<Rightarrow> bytes res" where
  "or_byte i m bits = rbind (at_index bits i) (\<lambda>b. Inr (bits[i := b OR m]))"

definition bv_set :: "nat \<Rightarrow> bytes \<Rightarrow> bytes res" where
  "bv_set pos bits = or_byte (pos div 8) (drop_bit (pos mod 8) 0x80) bits"

definition bv_set8 :: "nat \<Rightarrow> bytes \<Rightarrow> bytes res" where
  "bv_set8 pos bits =
     rbind (or_byte (pos div 8) (drop_bit (pos mod 8) 0xFF) bits)
       (or_byte (pos div 8 + 1) (NOT (drop_bit (pos mod 8) 0xFF)))"

definition codeSegment :: "bytes \<Rightarrow> nat \<Rightarrow> bool res" where
  "codeSegment bits pos = rbind (at_index bits (pos div 8)) (\<lambda>b. Inr (b AND drop_bit (pos mod 8) 0x80 = 0))"

fun mark_data :: "nat \<Rightarrow> nat \<Rightarrow> bytes \<Rightarrow> (nat \<times> bytes) res" where
  "mark_data numbits pc bits =
     (if numbits \<ge> 8 then rbind (bv_set8 pc bits) (mark_data (numbits - 8) (pc + 8))
      else if numbits > 0 then rbind (bv_set pc bits) (mark_data (numbits - 1) (pc + 1))
      else Inr (pc, bits))"

declare mark_data.simps [simp del]

lemma mark_data_pc: "mark_data n pc bits = Inr (pc', bits') \<Longrightarrow> pc' = pc + n"
proof (induction n pc bits rule: mark_data.induct)
  case (1 n pc bits)
  then show ?case
    by (subst (asm) (3) mark_data.simps) (auto simp: rbind_def split: if_splits sum.splits)
qed

definition is_push :: "byte \<Rightarrow> bool" where
  "is_push op \<longleftrightarrow> 0x60 \<le> op \<and> op \<le> 0x7F"

definition push_size :: "byte \<Rightarrow> nat" where
  "push_size op = unat (op - 0x60 + 1)"

function bitmap_loop :: "bytes \<Rightarrow> nat \<Rightarrow> bytes \<Rightarrow> bytes res" where
  "bitmap_loop code pc bits =
     (if pc < length code then
        (let op = code ! pc
         in if is_push op then
              (case mark_data (push_size op) (pc + 1) bits of
                 Inl e \<Rightarrow> Inl e
               | Inr (pc', bits') \<Rightarrow> bitmap_loop code pc' bits')
            else bitmap_loop code (pc + 1) bits)
      else Inr bits)"
  by pat_completeness auto
termination by (relation "measure (\<lambda>(code, pc, bits). length code - pc)") (auto dest!: mark_data_pc)

declare bitmap_loop.simps [simp del]

definition codeBitmap :: "bytes \<Rightarrow> bytes res" where
  "codeBitmap code = bitmap_loop code 0 (replicate (length code div 8 + 1 + 4) 0)"

definition JUMPDEST_byte :: byte where
  "JUMPDEST_byte = 0x5B"

text \<open>The analysis of a code is kept under its hash.\<close>

definition dest_has :: "hash \<Rightarrow> bytes \<Rightarrow> int \<Rightarrow> (bool, (hash \<times> bytes) list) op" where
  "dest_has codehash code dest ds =
     (let udest = Uint64 dest
      in if BitLen dest \<ge> 63 \<or> udest \<ge> of_nat (length code) then (Inr False, ds)
         else
           (let m = (case map_of ds codehash of
                       Some m \<Rightarrow> Inr (m, ds)
                     | None \<Rightarrow> rbind (codeBitmap code) (\<lambda>m. Inr (m, AList.update codehash m ds)))
            in case m of
                 Inl e \<Rightarrow> (Inl e, ds)
               | Inr (m, ds) \<Rightarrow>
                   if code ! unat udest = JUMPDEST_byte then (codeSegment m (unat udest), ds) else (Inr False, ds)))"

end
