(* ===== verification/Trie_Encoding.thy ===== *)
theory Trie_Encoding
  imports Prelude
begin

text \<open>
  The three key encodings of the Merkle Patricia trie, \<open>src/chain/trie/encoding.go\<close>: key bytes,
  hex nibbles with the terminator 16, and the compact (hex-prefix) form that is stored on disk.
  A \<open>hex_key\<close> is a string of nibbles that may end with the terminator; a \<open>term_key\<close> ends with
  it. Shown here: both conversions round-trip on the keys the trie uses, \<open>keybytesToHex\<close> makes
  terminated keys (so no key is a prefix of another one), and neither conversion ever panics on
  such keys.
\<close>

unbundle bit_operations_syntax

section \<open>Operations\<close>

definition hasTerm :: "bytes \<Rightarrow> bool" where
  "hasTerm s \<longleftrightarrow> length s > 0 \<and> s ! (length s - 1) = 16"

fun decodeNibbles :: "bytes \<Rightarrow> bytes res" where
  "decodeNibbles [] = Inr []"
| "decodeNibbles [x] = Inl (Panic ''index out of range'')"
| "decodeNibbles (x # y # nibbles) =
     rbind (decodeNibbles nibbles) (\<lambda>bs. Inr ((push_bit 4 x OR y) # bs))"

fun keybytesNibbles :: "bytes \<Rightarrow> bytes" where
  "keybytesNibbles [] = []"
| "keybytesNibbles (b # str) = (b div 16) # (b mod 16) # keybytesNibbles str"

definition keybytesToHex :: "bytes \<Rightarrow> bytes" where
  "keybytesToHex str = keybytesNibbles str @ [16]"

definition hexToCompact :: "bytes \<Rightarrow> bytes res" where
  "hexToCompact hex =
     (let terminator = (if hasTerm hex then 1 else 0 :: byte);
          hex1 = (if hasTerm hex then take (length hex - 1) hex else hex);
          flag = push_bit 5 terminator
      in if length hex1 mod 2 = 1
         then rbind (decodeNibbles (drop 1 hex1))
                (\<lambda>buf. Inr ((flag OR push_bit 4 1 OR hex1 ! 0) # buf))
         else rbind (decodeNibbles hex1) (\<lambda>buf. Inr (flag # buf)))"

definition compactToHex :: "bytes \<Rightarrow> bytes res" where
  "compactToHex compact =
     (let base = keybytesToHex compact;
          base = take (length base - 1) base
      in case base of
           [] \<Rightarrow> Inl (Panic ''index out of range'')
         | b # _ \<Rightarrow>
             (let base' = (if b \<ge> 2 then base @ [16] else base)
              in Inr (drop (unat (2 - (b AND 1))) base')))"

definition hexToKeybytes :: "bytes \<Rightarrow> bytes res" where
  "hexToKeybytes hex =
     (let hex1 = (if hasTerm hex then take (length hex - 1) hex else hex)
      in if length hex1 mod 2 \<noteq> 0 then Inl (Panic ''can't convert hex key of odd length'')
         else decodeNibbles hex1)"

fun prefixLen :: "bytes \<Rightarrow> bytes \<Rightarrow> nat" where
  "prefixLen (x # a) (y # b) = (if x \<noteq> y then 0 else Suc (prefixLen a b))"
| "prefixLen _ _ = 0"

section \<open>Keys\<close>

definition nibbles :: "bytes \<Rightarrow> bool" where
  "nibbles k \<longleftrightarrow> (\<forall>x \<in> set k. x < 16)"

definition term_key :: "bytes \<Rightarrow> bool" where
  "term_key k \<longleftrightarrow> (\<exists>n. nibbles n \<and> k = n @ [16])"

lemma nibbles_simps [simp]:
  "nibbles []" "nibbles (x # k) \<longleftrightarrow> x < 16 \<and> nibbles k"
  "nibbles (k @ l) \<longleftrightarrow> nibbles k \<and> nibbles l"
  by (auto simp: nibbles_def)

lemma nibbles_take_drop: "nibbles k \<Longrightarrow> nibbles (take n k)" "nibbles k \<Longrightarrow> nibbles (drop n k)"
  by (auto simp: nibbles_def dest: in_set_takeD in_set_dropD)

lemma term_key_Nil [simp]: "\<not> term_key []"
  by (simp add: term_key_def)

lemma term_key_Cons: "term_key (x # k) \<longleftrightarrow> (if k = [] then x = 16 else x < 16 \<and> term_key k)"
proof (cases k rule: rev_exhaust)
  case Nil
  then show ?thesis by (auto simp: term_key_def intro: exI [of _ "[]"])
next
  case (snoc ys y)
  have "x # k = n @ [16] \<longleftrightarrow> n = x # ys \<and> y = 16" for n
    using snoc by (cases n) auto
  then show ?thesis by (auto simp: term_key_def snoc)
qed

lemma term_key_Cons_term [simp]: "term_key (16 # k) \<longleftrightarrow> k = []"
  by (simp add: term_key_Cons)

lemma term_key_not_nibbles: "term_key k \<Longrightarrow> \<not> nibbles k"
  by (auto simp: term_key_def)

lemma term_key_append_nibbles: "nibbles n \<Longrightarrow> term_key (n @ k) \<longleftrightarrow> term_key k"
proof (induction n)
  case (Cons x n)
  then show ?case by (cases "n @ k = []") (auto simp: term_key_Cons)
qed simp

text \<open>Terminated keys are prefix free.\<close>

lemma term_key_prefix: "term_key k \<Longrightarrow> term_key (k @ l) \<Longrightarrow> l = []"
proof (induction k)
  case (Cons x k)
  then show ?case by (cases "k = []"; cases "l = []") (auto simp: term_key_Cons)
qed simp

lemma hasTerm_iff: "hasTerm s \<longleftrightarrow> s \<noteq> [] \<and> last s = 16"
  by (cases s rule: rev_cases) (auto simp: hasTerm_def)

lemma term_key_hasTerm: "term_key k \<Longrightarrow> hasTerm k"
  by (auto simp: hasTerm_iff term_key_def)

lemma nibbles_not_hasTerm: "nibbles k \<Longrightarrow> \<not> hasTerm k"
  by (cases k rule: rev_cases) (auto simp: hasTerm_iff)

section \<open>Common prefixes\<close>

lemma prefixLen_le: "prefixLen a b \<le> length a" "prefixLen a b \<le> length b"
  by (induction a b rule: prefixLen.induct) auto

lemma prefixLen_take: "take (prefixLen a b) a = take (prefixLen a b) b"
  by (induction a b rule: prefixLen.induct) auto

lemma prefixLen_differ:
  "prefixLen a b < length a \<Longrightarrow> prefixLen a b < length b \<Longrightarrow> a ! prefixLen a b \<noteq> b ! prefixLen a b"
  by (induction a b rule: prefixLen.induct) auto

lemma prefixLen_append: "prefixLen (s @ k) s = length s"
  by (induction s) auto

lemma prefixLen_full: "prefixLen k s = length s \<longleftrightarrow> (\<exists>l. k = s @ l)"
proof
  assume "prefixLen k s = length s"
  then have "take (length s) k = s" using prefixLen_take [of k s] by simp
  then show "\<exists>l. k = s @ l" by (metis append_take_drop_id)
qed (auto simp: prefixLen_append)

text \<open>The two ways a terminated key can meet the key of a short node.\<close>

lemma prefixLen_split:
  assumes "prefixLen k s \<noteq> length s" "prefixLen k s \<noteq> length k"
  obtains p x k' y s' where "k = p @ x # k'" "s = p @ y # s'" "x \<noteq> y" "prefixLen k s = length p"
proof -
  let ?m = "prefixLen k s"
  have m: "?m < length k" "?m < length s" using assms prefixLen_le [of k s] by simp_all
  have "k = take ?m k @ k ! ?m # drop (Suc ?m) k" using m(1) by (rule id_take_nth_drop)
  moreover have "s = take ?m k @ s ! ?m # drop (Suc ?m) s"
    using m(2) prefixLen_take [of k s] by (metis id_take_nth_drop)
  ultimately show ?thesis
    using m prefixLen_differ [OF m] that by (metis length_take min.absorb2 less_imp_le_nat)
qed

section \<open>Round trips\<close>

lemma length_keybytesNibbles [simp]: "length (keybytesNibbles str) = 2 * length str"
  by (induction str) auto

lemma unat_byte_div16: "unat ((b::byte) div 16) = unat b div 16"
  by (simp add: unat_div)

lemma unat_byte_mod16: "unat ((b::byte) mod 16) = unat b mod 16"
  by (simp add: unat_mod)

lemma nibbles_keybytesNibbles [simp]: "nibbles (keybytesNibbles str)"
proof (induction str)
  case (Cons b str)
  have "b div 16 < 16" "b mod 16 < 16"
    using unat_byte_less [of b]
    by (simp_all add: word_less_nat_alt unat_byte_div16 unat_byte_mod16 less_mult_imp_div_less)
  with Cons show ?case by simp
qed simp

lemma term_key_keybytesToHex [simp]: "term_key (keybytesToHex str)"
  by (auto simp: keybytesToHex_def term_key_def)

text \<open>A byte is its two nibbles.\<close>

lemma unat_join_nibbles:
  assumes "x < 16" "y < 16"
  shows "unat (push_bit 4 x OR y :: byte) = 16 * unat x + unat y"
proof -
  have l: "unat x < 16" "unat y < 16" using assms by (simp_all add: word_less_nat_alt)
  have "push_bit 4 x AND y = 0"
  proof (rule bit_eqI)
    fix n
    have "\<not> bit y n" if "4 \<le> n"
    proof -
      have "y = take_bit 4 y"
        using l(2) by (intro word_unat_eq_iff [THEN iffD2]) (simp add: unsigned_take_bit_eq take_bit_nat_eq_self)
      then show ?thesis using that by (metis bit_take_bit_iff leD)
    qed
    then show "bit (push_bit 4 x AND y) n \<longleftrightarrow> bit (0::byte) n" by (auto simp: bit_simps)
  qed
  then have "push_bit 4 x OR y = push_bit 4 x + y" by (simp add: disjunctive_add_eq_or)
  moreover have "unat (push_bit 4 x) = 16 * unat x"
    using l(1) by (simp add: push_bit_eq_mult unat_word_ariths)
  ultimately show ?thesis using l by (simp add: unat_word_ariths)
qed

lemma split_join_nibbles:
  assumes "x < 16" "y < 16"
  shows "(push_bit 4 x OR y :: byte) div 16 = x" "(push_bit 4 x OR y :: byte) mod 16 = y"
  using unat_join_nibbles [OF assms] assms
  by (simp_all add: word_unat_eq_iff unat_byte_div16 unat_byte_mod16 word_less_nat_alt)

lemma join_split_nibbles: "push_bit 4 ((b::byte) div 16) OR (b mod 16) = b"
proof -
  have "b div 16 < 16" "b mod 16 < 16"
    using nibbles_keybytesNibbles [of "[b]"] by simp_all
  from unat_join_nibbles [OF this] show ?thesis
    by (simp add: word_unat_eq_iff unat_byte_div16 unat_byte_mod16)
qed

lemma decodeNibbles_keybytesNibbles: "decodeNibbles (keybytesNibbles str) = Inr str"
  by (induction str) (simp_all add: join_split_nibbles)

lemma decodeNibbles_even:
  "even (length k) \<Longrightarrow> nibbles k \<Longrightarrow> \<exists>str. decodeNibbles k = Inr str \<and> keybytesNibbles str = k"
  by (induction k rule: decodeNibbles.induct) (auto simp: split_join_nibbles)

lemma keybytesToHex_inject: "keybytesToHex a = keybytesToHex b \<longleftrightarrow> a = b"
  by (metis append_eq_append_conv decodeNibbles_keybytesNibbles keybytesToHex_def sum.inject(2))

lemma hexToKeybytes_keybytesToHex: "hexToKeybytes (keybytesToHex str) = Inr str"
  using term_key_hasTerm [OF term_key_keybytesToHex [of str]]
  by (simp add: hexToKeybytes_def) (simp add: keybytesToHex_def decodeNibbles_keybytesNibbles)

text \<open>The compact form: the flag byte is the nibble \<open>2 * terminator + odd\<close> followed by the
  first nibble of an odd key or by 0.\<close>

lemma flag_even: "push_bit 5 t = (push_bit 4 (2 * t) OR 0 :: byte)"
  by (simp add: push_bit_double [symmetric] numeral_eq_Suc)

lemma flag_odd:
  assumes "t = 0 \<or> t = 1"
  shows "push_bit 5 t OR push_bit 4 1 OR x = (push_bit 4 (2 * t + 1) OR x :: byte)"
  using assms by (auto simp: or.assoc [symmetric])

lemma compactToHex_flag:
  assumes "t = 0 \<or> t = 1" and "q = 0 \<or> q = 1" and "x < 16"
  shows "compactToHex ((push_bit 4 (2 * t + q) OR x) # str) =
         Inr ((if q = 1 then [x] else []) @ keybytesNibbles str @ (if t = 1 then [16] else []))"
proof -
  have "2 * t + q < 16" using assms(1,2) by auto
  note n = split_join_nibbles [OF this assms(3)]
  show ?thesis
    using assms(1,2)
    by (auto simp: compactToHex_def keybytesToHex_def n Let_def word_le_nat_alt)
qed

lemma compactToHex_hexToCompact:
  assumes "nibbles n" and "k = n \<or> k = n @ [16]"
  shows "\<exists>c. hexToCompact k = Inr c \<and> compactToHex c = Inr k"
proof -
  define t :: byte where "t = (if k = n @ [16] then 1 else 0)"
  have t: "t = 0 \<or> t = 1" by (simp add: t_def)
  have h: "hasTerm k \<longleftrightarrow> k = n @ [16]"
    using assms nibbles_not_hasTerm [of n] by (auto simp: hasTerm_iff)
  have k: "k = n @ (if t = 1 then [16] else [])" using assms(2) by (auto simp: t_def)
  have hex1: "(if hasTerm k then take (length k - 1) k else k) = n"
    using assms(2) h by auto
  have eq: "hexToCompact k =
      (if length n mod 2 = 1
       then rbind (decodeNibbles (drop 1 n)) (\<lambda>buf. Inr ((push_bit 5 t OR push_bit 4 1 OR n ! 0) # buf))
       else rbind (decodeNibbles n) (\<lambda>buf. Inr (push_bit 5 t # buf)))"
    unfolding hexToCompact_def Let_def hex1 using h by (simp add: t_def)
  show ?thesis
  proof (cases "length n mod 2 = 1")
    case True
    then obtain x r where n: "n = x # r" by (cases n) auto
    with assms(1) True have r: "even (length r)" "nibbles r" and x: "x < 16"
      by (simp_all add: even_iff_mod_2_eq_zero mod_Suc split: if_splits)
    from decodeNibbles_even [OF r] obtain str
      where d: "decodeNibbles r = Inr str" "keybytesNibbles str = r" by blast
    have "hexToCompact k = Inr ((push_bit 4 (2 * t + 1) OR x) # str)"
      unfolding eq using True n d(1) flag_odd [OF t, of x] by simp
    moreover have "compactToHex ((push_bit 4 (2 * t + 1) OR x) # str) = Inr k"
      unfolding compactToHex_flag [of t 1 x str, OF t _ x, simplified] k n d(2) by simp
    ultimately show ?thesis by blast
  next
    case False
    then have "even (length n)" by presburger
    from decodeNibbles_even [OF this assms(1)] obtain str
      where d: "decodeNibbles n = Inr str" "keybytesNibbles str = n" by blast
    have "hexToCompact k = Inr ((push_bit 4 (2 * t + 0) OR 0) # str)"
      unfolding eq using False d(1) by (simp add: flag_even)
    moreover have "compactToHex ((push_bit 4 (2 * t + 0) OR 0) # str) = Inr k"
      using compactToHex_flag [of t 0 0 str, OF t] unfolding k d(2) by simp
    ultimately show ?thesis by blast
  qed
qed

section \<open>Properties\<close>

text \<open>C15. Key encodings are lossless: the compact form of a nibble key, with or without
  terminator, decodes to that key, and the hex form of a byte key decodes to the byte key.\<close>

theorem key_encodings_roundtrip:
  assumes "nibbles n" and "k = n \<or> k = n @ [16]"
  shows "(\<exists>c. hexToCompact k = Inr c \<and> compactToHex c = Inr k)
         \<and> hexToKeybytes (keybytesToHex str) = Inr str"
  using compactToHex_hexToCompact [OF assms] hexToKeybytes_keybytesToHex by blast

theorem key_encodings_roundtrip_witness:
  "(\<exists>c. hexToCompact [1, 2, 3, 16] = Inr c \<and> compactToHex c = Inr [1, 2, 3, 16])
   \<and> hexToKeybytes (keybytesToHex [0xAB]) = Inr [0xAB]"
  using key_encodings_roundtrip [of "[1, 2, 3]" "[1, 2, 3, 16]" "[0xAB]"] by simp

end
