(* ===== verification/Patricia.thy ===== *)
theory Patricia
  imports Trie_Encoding
begin

text \<open>The abstract Merkle Patricia trie: what the nodes of \<open>src/chain/trie\<close> mean once caching,
  hashing and the database are left out.  A trie is a value, a short node (a key fragment and what
  follows it) or a full node of 17 children.  \<open>ptrie_wf\<close> is the canonical form the insert and
  delete of \<open>trie.go\<close> maintain; \<open>pinsert\<close> and \<open>pdelete\<close> are the functional content of those two
  operations.  The lemmas show that lookup after insert and delete is that of a finite map, that
  the canonical form is preserved, and that it is unique: two canonical tries with the same
  contents are equal.  Theory Trie relates the code's own nodes to this specification.\<close>

section \<open>Tries and their well-formedness\<close>

datatype ptrie = PNil | PVal bytes | PShort bytes ptrie | PFull "ptrie list"

primrec plookup :: "ptrie \<Rightarrow> bytes \<Rightarrow> bytes option" where
  "plookup PNil k = None"
| "plookup (PVal v) k = Some v"
| "plookup (PShort s t) k =
     (if take (length s) k = s then plookup t (drop (length s) k) else None)"
| "plookup (PFull cs) k =
     (case k of
        [] \<Rightarrow> None
      | x # k' \<Rightarrow> if unat x < length cs then (map plookup cs ! unat x) k' else None)"

fun is_PVal :: "ptrie \<Rightarrow> bool" where
  "is_PVal (PVal v) = True"
| "is_PVal _ = False"

text \<open>\<open>pnode\<close> describes the short and full nodes that occur in a trie: a short node leads
  either to a value (its key is terminated) or to a full node (its key has nibbles only and at
  least one of them), a full node has 17 children, the last of which is a value, and at least
  two of them are present.\<close>

fun pnode :: "ptrie \<Rightarrow> bool" where
  "pnode (PShort s (PVal v)) \<longleftrightarrow> term_key s \<and> v \<noteq> []"
| "pnode (PShort s (PFull cs)) \<longleftrightarrow> s \<noteq> [] \<and> nibbles s \<and> pnode (PFull cs)"
| "pnode (PFull cs) \<longleftrightarrow>
     length cs = 17
     \<and> (\<forall>c \<in> set cs. c = PNil \<or> is_PVal c \<or> pnode c)
     \<and> (\<forall>i < 16. \<not> is_PVal (cs ! i))
     \<and> (cs ! 16 = PNil \<or> (\<exists>v. cs ! 16 = PVal v \<and> v \<noteq> []))
     \<and> 2 \<le> length (filter (\<lambda>c. c \<noteq> PNil) cs)"
| "pnode _ \<longleftrightarrow> False"

definition ptrie_wf :: "ptrie \<Rightarrow> bool" where
  "ptrie_wf t \<longleftrightarrow> t = PNil \<or> pnode t"

text \<open>A child of a full node at nibble \<open>x\<close>, and its key space: below the terminator there is
  only the empty key.\<close>

definition pchild :: "byte \<Rightarrow> ptrie \<Rightarrow> bool" where
  "pchild x t \<longleftrightarrow> (if x = 16 then t = PNil \<or> (\<exists>v. t = PVal v \<and> v \<noteq> []) else t = PNil \<or> pnode t)"

definition child_key :: "byte \<Rightarrow> bytes \<Rightarrow> bool" where
  "child_key x k \<longleftrightarrow> (if x = 16 then k = [] else term_key k)"

lemma term_key_Cons_child: "term_key (x # k) \<longleftrightarrow> x \<le> 16 \<and> child_key x k"
proof -
  have "x < 16 \<longleftrightarrow> x \<le> 16 \<and> x \<noteq> 16" by auto
  then show ?thesis by (auto simp: term_key_Cons child_key_def)
qed

lemma unat_le_16: "x \<le> 16 \<Longrightarrow> unat (x::byte) < 17"
  by (simp add: word_le_nat_alt)

lemma unat_lt_16: "x \<le> 16 \<Longrightarrow> x \<noteq> 16 \<Longrightarrow> unat (x::byte) < 16"
  by (simp add: word_le_nat_alt word_unat_eq_iff)

lemma pnode_child:
  assumes "pnode (PFull cs)" and "x \<le> 16"
  shows "pchild x (cs ! unat x)"
proof -
  have len: "length cs = 17" using assms(1) by simp
  have mem: "cs ! unat x \<in> set cs" using len unat_le_16 [OF assms(2)] by simp
  show ?thesis
  proof (cases "x = 16")
    case True
    then show ?thesis using assms(1) by (simp add: pchild_def)
  next
    case False
    then have "unat x < 16" using assms(2) by (intro unat_lt_16)
    then show ?thesis using False assms(1) mem by (auto simp: pchild_def)
  qed
qed

section \<open>Insertion and deletion\<close>

definition pleaf :: "bytes \<Rightarrow> ptrie \<Rightarrow> ptrie" where
  "pleaf k t = (if k = [] then t else PShort k t)"

definition pbranch :: "byte \<Rightarrow> ptrie \<Rightarrow> byte \<Rightarrow> ptrie \<Rightarrow> ptrie" where
  "pbranch x t y u = PFull ((replicate 17 PNil)[unat x := t, unat y := u])"

function pinsert :: "ptrie \<Rightarrow> bytes \<Rightarrow> bytes \<Rightarrow> ptrie" where
  "pinsert PNil k v = pleaf k (PVal v)"
| "pinsert (PVal w) k v = PVal v"
| "pinsert (PShort s t) k v =
     (let m = prefixLen k s
      in if m = length s then PShort s (pinsert t (drop m k) v)
         else pleaf (take m k)
                (pbranch (s ! m) (pleaf (drop (Suc m) s) t)
                         (k ! m) (pleaf (drop (Suc m) k) (PVal v))))"
| "pinsert (PFull cs) k v =
     (case k of
        [] \<Rightarrow> PVal v
      | x # k' \<Rightarrow> if unat x < length cs
                   then PFull (cs[unat x := pinsert (cs ! unat x) k' v]) else PFull cs)"
  by pat_completeness auto
termination
  by (relation "measure (\<lambda>(t, k, v). size t)")
     (auto simp: less_Suc_eq_le intro!: size_list_estimation' [OF nth_mem])

text \<open>The only child that is left in a full node, if there is just one.\<close>

definition ponly :: "ptrie list \<Rightarrow> nat option" where
  "ponly cs = (case filter (\<lambda>i. cs ! i \<noteq> PNil) [0..<length cs] of [i] \<Rightarrow> Some i | _ \<Rightarrow> None)"

definition pshort :: "bytes \<Rightarrow> ptrie \<Rightarrow> ptrie" where
  "pshort s t = (case t of PShort s' u \<Rightarrow> PShort (s @ s') u | _ \<Rightarrow> PShort s t)"

definition pshrink :: "ptrie list \<Rightarrow> ptrie" where
  "pshrink cs = (case ponly cs of None \<Rightarrow> PFull cs | Some i \<Rightarrow> pshort [of_nat i] (cs ! i))"

function pdelete :: "ptrie \<Rightarrow> bytes \<Rightarrow> ptrie" where
  "pdelete PNil k = PNil"
| "pdelete (PVal v) k = PNil"
| "pdelete (PShort s t) k =
     (let m = prefixLen k s
      in if m < length s then PShort s t
         else if m = length k then PNil
         else (let t' = pdelete t (drop m k) in if t' = t then PShort s t else pshort s t'))"
| "pdelete (PFull cs) k =
     (case k of
        [] \<Rightarrow> PFull cs
      | x # k' \<Rightarrow> if unat x < length cs
                   then (let t' = pdelete (cs ! unat x) k'
                         in if t' = cs ! unat x then PFull cs else pshrink (cs[unat x := t']))
                   else PFull cs)"
  by pat_completeness auto
termination
  by (relation "measure (\<lambda>(t, k). size t)")
     (auto simp: less_Suc_eq_le intro!: size_list_estimation' [OF nth_mem])

declare pinsert.simps [simp del] pdelete.simps [simp del]

section \<open>Full nodes\<close>

lemma nth_list_update':
  "xs[i := x] ! j = (if i = j \<and> j < length xs then x else xs ! j)"
  by (cases "i < length xs"; cases "i = j") (auto simp: list_update_beyond)

lemma unat_of_nat_17: "i < 17 \<Longrightarrow> unat (of_nat i :: byte) = i"
  by (simp add: unat_of_nat)

lemma of_nat_le_16: "i < 17 \<Longrightarrow> (of_nat i :: byte) \<le> 16"
  by (simp add: word_le_nat_alt unat_of_nat)

lemma of_nat_eq_16: "i < 17 \<Longrightarrow> (of_nat i :: byte) = 16 \<longleftrightarrow> i = 16"
  by (simp add: word_unat_eq_iff unat_of_nat)

lemma pnode_not_val: "pnode t \<Longrightarrow> \<not> is_PVal t"
  by (cases t) auto

lemma pnode_full_iff:
  "pnode (PFull cs) \<longleftrightarrow>
     length cs = 17 \<and> (\<forall>x \<le> 16. pchild x (cs ! unat x))
     \<and> 2 \<le> card {i. i < 17 \<and> cs ! i \<noteq> PNil}" (is "?l \<longleftrightarrow> ?r")
proof
  assume l: ?l
  then have "length cs = 17" by simp
  then have "length (filter (\<lambda>c. c \<noteq> PNil) cs) = card {i. i < 17 \<and> cs ! i \<noteq> PNil}"
    by (simp add: length_filter_conv_card)
  with l show ?r using pnode_child by auto
next
  assume r: ?r
  then have len: "length cs = 17" by simp
  have c: "pchild (of_nat i) (cs ! i)" if "i < 17" for i
    using r that of_nat_le_16 [OF that] unat_of_nat_17 [OF that] by metis
  have node: "cs ! i = PNil \<or> pnode (cs ! i)" if "i < 16" for i
    using c [of i] that of_nat_eq_16 [of i] by (simp add: pchild_def)
  have 16: "cs ! 16 = PNil \<or> (\<exists>v. cs ! 16 = PVal v \<and> v \<noteq> [])"
    using c [of 16] by (simp add: pchild_def)
  moreover have "\<forall>c \<in> set cs. c = PNil \<or> is_PVal c \<or> pnode c"
  proof
    fix c assume "c \<in> set cs"
    then obtain i where "i < 17" "c = cs ! i" by (metis len in_set_conv_nth)
    moreover from this have "i < 16 \<or> i = 16" by auto
    ultimately show "c = PNil \<or> is_PVal c \<or> pnode c" using node 16 by auto
  qed
  moreover have "length (filter (\<lambda>c. c \<noteq> PNil) cs) = card {i. i < 17 \<and> cs ! i \<noteq> PNil}"
    using len by (simp add: length_filter_conv_card)
  moreover have "\<not> is_PVal (cs ! i)" if "i < 16" for i
    using node [OF that] pnode_not_val by auto
  ultimately show ?l using r len 16 by auto
qed

declare pnode.simps(3) [simp del]

lemma plookup_full:
  "length cs = 17 \<Longrightarrow> x \<le> 16 \<Longrightarrow> plookup (PFull cs) (x # k) = plookup (cs ! unat x) k"
  using unat_le_16 [of x] by simp

lemma pnode_full_update:
  assumes "pnode (PFull cs)" "x \<le> 16" "pchild x t" "t \<noteq> PNil"
  shows "pnode (PFull (cs[unat x := t]))"
proof -
  have len: "length cs = 17" using assms(1) by (simp add: pnode_full_iff)
  have "{i. i < 17 \<and> cs ! i \<noteq> PNil} \<subseteq> {i. i < 17 \<and> cs[unat x := t] ! i \<noteq> PNil}"
    using assms(4) len by (auto simp: nth_list_update')
  from card_mono [OF _ this] have "2 \<le> card {i. i < 17 \<and> cs[unat x := t] ! i \<noteq> PNil}"
    using assms(1) by (simp add: pnode_full_iff)
  moreover have "pchild z (cs[unat x := t] ! unat z)" if "z \<le> 16" for z
  proof (cases "z = x")
    case False
    then have "unat z \<noteq> unat x" by (simp add: word_unat_eq_iff)
    then show ?thesis using assms(1) that by (simp add: pnode_full_iff)
  qed (use assms len unat_le_16 [OF that] in simp)
  ultimately show ?thesis using len by (simp add: pnode_full_iff)
qed

lemma pnode_branch:
  assumes "x \<noteq> y" "x \<le> 16" "y \<le> 16" "pchild x t" "pchild y u" "t \<noteq> PNil" "u \<noteq> PNil"
  shows "pnode (pbranch x t y u)"
proof -
  let ?cs = "(replicate 17 PNil)[unat x := t, unat y := u]"
  have u: "unat x < 17" "unat y < 17" "unat x \<noteq> unat y"
    using assms(1-3) unat_le_16 by (auto simp: word_unat_eq_iff)
  have "{unat x, unat y} \<subseteq> {i. i < 17 \<and> ?cs ! i \<noteq> PNil}"
    using u assms(6,7) by (auto simp: nth_list_update)
  from card_mono [OF _ this] have "2 \<le> card {i. i < 17 \<and> ?cs ! i \<noteq> PNil}"
    using u(3) by simp
  moreover have "pchild z (?cs ! unat z)" if "z \<le> 16" for z
    using u assms(4,5) unat_le_16 [OF that]
    by (auto simp: nth_list_update pchild_def word_unat_eq_iff)
  ultimately show ?thesis by (simp add: pbranch_def pnode_full_iff)
qed

lemma plookup_branch:
  assumes "x \<noteq> y" "x \<le> 16" "y \<le> 16" "z \<le> 16"
  shows "plookup (pbranch x t y u) (z # k) =
         (if z = y then plookup u k else if z = x then plookup t k else None)"
  using assms unat_le_16 [of x] unat_le_16 [of y] unat_le_16 [of z]
  by (simp add: pbranch_def plookup_full nth_list_update word_unat_eq_iff del: plookup.simps(4))

section \<open>Insertion\<close>

lemma plookup_pleaf:
  "plookup (pleaf p t) k = (if take (length p) k = p then plookup t (drop (length p) k) else None)"
  by (simp add: pleaf_def)

lemma pleaf_not_PNil: "t \<noteq> PNil \<Longrightarrow> pleaf k t \<noteq> PNil"
  by (simp add: pleaf_def)

text \<open>What may hang below a short key: the key space and the subtrie below a key \<open>s\<close>.\<close>

lemma pshort_cases:
  assumes "pnode (PShort s t)"
  obtains v where "t = PVal v" "term_key s" "v \<noteq> []"
  | cs where "t = PFull cs" "nibbles s" "s \<noteq> []" "pnode t"
  using assms by (cases t) auto

lemma pchild_pleaf_val: "child_key x k \<Longrightarrow> v \<noteq> [] \<Longrightarrow> pchild x (pleaf k (PVal v))"
  by (auto simp: pchild_def child_key_def pleaf_def split: if_splits)

lemma term_key_appendD: "term_key (p @ y # s) \<Longrightarrow> nibbles p \<and> term_key (y # s)"
  by (induction p) (auto simp: term_key_Cons split: if_splits)

lemma term_key_take: "term_key l \<Longrightarrow> term_key m \<Longrightarrow> take (length l) m = l \<longleftrightarrow> m = l"
  by (metis append_Nil2 append_take_drop_id term_key_prefix take_all order_refl)

lemma pchild_pleaf_tail:
  assumes "pnode (PShort (p @ y # s) t)"
  shows "nibbles p \<and> y \<le> 16 \<and> pchild y (pleaf s t) \<and> pleaf s t \<noteq> PNil"
  using assms
proof (cases rule: pshort_cases)
  case (1 v)
  from term_key_appendD [OF this(2)] 1(1,3) show ?thesis
    by (simp add: term_key_Cons_child pchild_pleaf_val pleaf_not_PNil)
next
  case (2 cs)
  then show ?thesis by (auto simp: pchild_def pleaf_def word_less_nat_alt word_le_nat_alt)
qed

text \<open>A terminated key that does not run through a whole short key leaves it at a nibble.\<close>

lemma short_key_split:
  assumes "pnode (PShort s t)" "term_key k" "prefixLen k s \<noteq> length s"
  obtains p x k' y s' where "k = p @ x # k'" "s = p @ y # s'" "x \<noteq> y" "prefixLen k s = length p"
proof (rule prefixLen_split [OF assms(3)])
  show "prefixLen k s \<noteq> length k"
  proof
    assume *: "prefixLen k s = length k"
    then obtain l where l: "s = k @ l" by (metis append_take_drop_id prefixLen_take take_all order_refl)
    from assms(1) show False
    proof (cases rule: pshort_cases)
      case (1 v)
      then show False using l assms(2,3) term_key_prefix * by force
    next
      case (2 cs)
      then show False using l assms(2) term_key_not_nibbles by auto
    qed
  qed
qed

text \<open>What one insertion does at a child slot \<open>x\<close>.\<close>

definition pinsert_ok :: "byte \<Rightarrow> ptrie \<Rightarrow> bytes \<Rightarrow> bytes \<Rightarrow> bool" where
  "pinsert_ok x t k v \<longleftrightarrow>
     pchild x (pinsert t k v) \<and> pinsert t k v \<noteq> PNil
     \<and> (\<forall>k'. child_key x k' \<longrightarrow>
            plookup (pinsert t k v) k' = (if k' = k then Some v else plookup t k'))"

lemma pinsert_full_is_full: "k \<noteq> [] \<Longrightarrow> \<exists>cs'. pinsert (PFull cs) k v = PFull cs'"
  by (cases k) (auto simp: pinsert.simps)

lemma pinsert_terminator:
  "t = PNil \<or> (\<exists>w. t = PVal w) \<Longrightarrow> v \<noteq> [] \<Longrightarrow> pinsert_ok 16 t [] v"
  by (auto simp: pinsert_ok_def pinsert.simps pchild_def child_key_def pleaf_def)

lemma pinsert_ok_full:
  assumes "pnode (PFull cs)" "y \<le> 16" "pinsert_ok y (cs ! unat y) k v" "child_key y k" "x \<noteq> 16"
  shows "pinsert_ok x (PFull cs) (y # k) v"
proof -
  have len: "length cs = 17" using assms(1) by (simp add: pnode_full_iff)
  have y: "unat y < 17" using unat_le_16 [OF assms(2)] .
  let ?u = "pinsert (cs ! unat y) k v"
  have ins: "pinsert (PFull cs) (y # k) v = PFull (cs[unat y := ?u])"
    using len y by (simp add: pinsert.simps)
  moreover have "pnode (PFull (cs[unat y := ?u]))"
    using assms(1-3) by (intro pnode_full_update) (auto simp: pinsert_ok_def)
  moreover have "plookup (PFull (cs[unat y := ?u])) k' =
      (if k' = y # k then Some v else plookup (PFull cs) k')" if "term_key k'" for k'
  proof (cases k')
    case (Cons z l)
    then have "z \<le> 16" "child_key z l" using that by (simp_all add: term_key_Cons_child)
    then show ?thesis
      using Cons assms(3) len y
      by (cases "z = y") (auto simp: plookup_full pinsert_ok_def word_unat_eq_iff
          simp del: plookup.simps(4))
  qed (use that in simp)
  ultimately show ?thesis using assms(5) by (simp add: pinsert_ok_def pchild_def child_key_def)
qed

lemma plookup_short_append: "plookup (PShort s t) (s @ l) = plookup t l"
  by simp

lemma pinsert_ok_short_through:
  assumes "pnode (PShort s (PFull cs))" "term_key l" "pinsert_ok 0 (PFull cs) l v" "x \<noteq> 16"
  shows "pinsert_ok x (PShort s (PFull cs)) (s @ l) v"
proof -
  obtain cs' where cs': "pinsert (PFull cs) l v = PFull cs'"
    using assms(2) pinsert_full_is_full [of l cs v] by (cases l) auto
  have s: "nibbles s" "s \<noteq> []" using assms(1) by simp_all
  have "plookup (PShort s (PFull cs')) k' =
      (if k' = s @ l then Some v else plookup (PShort s (PFull cs)) k')" if k': "term_key k'" for k'
  proof (cases "take (length s) k' = s")
    case True
    then obtain l' where l': "k' = s @ l'" by (metis append_take_drop_id)
    with k' s have "term_key l'" by (simp add: term_key_append_nibbles)
    then show ?thesis using assms(3) l' cs' by (simp add: pinsert_ok_def child_key_def del: plookup.simps(4))
  qed auto
  moreover have "pnode (PFull cs')" using assms(3) cs' by (simp add: pinsert_ok_def pchild_def)
  ultimately show ?thesis
    using assms(4) s cs' by (simp add: pinsert_ok_def pinsert.simps prefixLen_append pchild_def child_key_def)
qed

lemma pinsert_ok_short_split:
  assumes "pnode (PShort (p @ y # s) t)" "term_key (p @ z # l)" "y \<noteq> z" "v \<noteq> []" "x \<noteq> 16"
    "prefixLen (p @ z # l) (p @ y # s) = length p"
  shows "pinsert_ok x (PShort (p @ y # s) t) (p @ z # l) v"
proof -
  note tail = pchild_pleaf_tail [OF assms(1)]
  have z: "z \<le> 16" "child_key z l"
    using term_key_appendD [OF assms(2)] by (simp_all add: term_key_Cons_child)
  let ?b = "pbranch y (pleaf s t) z (pleaf l (PVal v))"
  have ins: "pinsert (PShort (p @ y # s) t) (p @ z # l) v = pleaf p ?b"
    using assms(6) by (simp add: pinsert.simps)
  have b: "pnode ?b"
    using tail z assms(3,4) by (intro pnode_branch) (auto simp: pchild_pleaf_val pleaf_not_PNil)
  then have "pnode (pleaf p ?b)" using tail by (auto simp: pleaf_def pbranch_def)
  moreover have "plookup (pleaf p ?b) k' =
      (if k' = p @ z # l then Some v else plookup (PShort (p @ y # s) t) k')" if k': "term_key k'" for k'
  proof (cases "take (length p) k' = p")
    case True
    then obtain m where m: "k' = p @ m" by (metis append_take_drop_id)
    then obtain c m' where c: "m = c # m'" "c \<le> 16" "child_key c m'"
      using k' tail by (cases m) (auto simp: term_key_append_nibbles term_key_Cons_child dest: term_key_not_nibbles)
    show ?thesis
      using c m tail z assms(3)
      by (auto simp: plookup_pleaf plookup_branch child_key_def term_key_take split: if_splits)
  next
    case False
    then have "take (Suc (length p + length s)) k' \<noteq> p @ y # s" by (metis append_eq_conv_conj append_take_drop_id length_append take_append take_take append.assoc length_Cons add_Suc_right min.absorb1 le_add1 le_SucI)
    with False show ?thesis by (auto simp: plookup_pleaf)
  qed
  ultimately show ?thesis using assms(5) ins by (auto simp: pinsert_ok_def pchild_def child_key_def)
qed

lemma pinsert_correct:
  assumes "pchild x t" "child_key x k" "v \<noteq> []"
  shows "pinsert_ok x t k v"
  using assms
proof (induction t k v arbitrary: x rule: pinsert.induct)
  case (1 k v)
  then show ?case
    by (auto simp: pinsert_ok_def pinsert.simps pchild_pleaf_val pleaf_not_PNil plookup_pleaf
        child_key_def term_key_take)
next
  case (2 w k v)
  then have "x = 16" "k = []" by (auto simp: pchild_def child_key_def split: if_splits)
  then show ?case using 2 pinsert_terminator by auto
next
  case (3 s t k v)
  then have x: "x \<noteq> 16" and s: "pnode (PShort s t)" and k: "term_key k"
    by (auto simp: pchild_def child_key_def split: if_splits)
  show ?case
  proof (cases "prefixLen k s = length s")
    case True
    then obtain l where l: "k = s @ l" by (auto simp: prefixLen_full)
    from s show ?thesis
    proof (cases rule: pshort_cases)
      case (1 w)
      then have "l = []" using l k term_key_prefix by blast
      moreover have "plookup (PShort s (PVal w)) k' = None" if "term_key k'" "k' \<noteq> s" for k' w
        using 1(2) that by (simp add: term_key_take)
      ultimately show ?thesis
        using 1 l x 3(4) by (simp add: pinsert_ok_def pinsert.simps pchild_def child_key_def
            prefixLen_append [of _ "[]", simplified] term_key_take)
    next
      case (2 cs)
      then have "term_key l" using k l by (simp add: term_key_append_nibbles)
      moreover have "pinsert_ok 0 t l v"
        using 3(1) [OF refl True, of 0] 2 3(4) True l \<open>term_key l\<close> by (simp add: pchild_def child_key_def)
      ultimately show ?thesis using s x 2(1) l pinsert_ok_short_through by blast
    qed
  next
    case False
    from short_key_split [OF s k this] obtain p z l y s'
      where ks: "k = p @ z # l" "s = p @ y # s'" "z \<noteq> y" "prefixLen k s = length p" by blast
    show ?thesis
      using pinsert_ok_short_split [of p y s' t z l v x] s k x 3(4) ks by simp
  qed
next
  case (4 cs k v)
  then have x: "x \<noteq> 16" and n: "pnode (PFull cs)" and k: "term_key k"
    by (auto simp: pchild_def child_key_def split: if_splits)
  from k obtain y l where y: "k = y # l" "y \<le> 16" "child_key y l"
    by (cases k) (auto simp: term_key_Cons_child)
  have "pinsert_ok y (cs ! unat y) l v"
    using 4(1) [OF y(1) _ pnode_child [OF n y(2)] y(3) 4(4)] n unat_le_16 [OF y(2)]
    by (simp add: pnode_full_iff)
  then show ?case using pinsert_ok_full [OF n y(2) _ y(3) x] y(1) by simp
qed

lemma ptrie_wf_pchild: "ptrie_wf t \<longleftrightarrow> pchild 0 t"
  by (simp add: ptrie_wf_def pchild_def)

theorem pinsert_wf: "ptrie_wf t \<Longrightarrow> term_key k \<Longrightarrow> v \<noteq> [] \<Longrightarrow> ptrie_wf (pinsert t k v)"
  using pinsert_correct [of 0 t k v] by (simp add: ptrie_wf_pchild pinsert_ok_def child_key_def)

theorem plookup_pinsert:
  "ptrie_wf t \<Longrightarrow> term_key k \<Longrightarrow> v \<noteq> [] \<Longrightarrow> term_key k'
   \<Longrightarrow> plookup (pinsert t k v) k' = (if k' = k then Some v else plookup t k')"
  using pinsert_correct [of 0 t k v] by (simp add: ptrie_wf_pchild pinsert_ok_def child_key_def)

section \<open>Deletion\<close>

lemma distinct_singleton: "distinct l \<Longrightarrow> set l = {i} \<longleftrightarrow> l = [i]"
  by (cases l rule: remdups_adj.cases) auto

lemma ponly_Some: "ponly cs = Some i \<longleftrightarrow> {j. j < length cs \<and> cs ! j \<noteq> PNil} = {i}"
proof -
  let ?l = "filter (\<lambda>i. cs ! i \<noteq> PNil) [0..<length cs]"
  have "{j. j < length cs \<and> cs ! j \<noteq> PNil} = {i} \<longleftrightarrow> ?l = [i]"
    using distinct_singleton [of ?l i] by auto
  then show ?thesis by (auto simp: ponly_def split: list.splits)
qed

lemma pnode_pshort:
  assumes "nibbles s" "s \<noteq> []" "pnode t"
  shows "pnode (pshort s t)"
proof (cases t)
  case (PShort s' u)
  then show ?thesis using assms by (cases u) (simp_all add: pshort_def term_key_append_nibbles)
qed (use assms in \<open>simp_all add: pshort_def\<close>)

lemma take_length_iff: "take (length s) k = s \<longleftrightarrow> (\<exists>l. k = s @ l)"
  by (metis append_eq_conv_conj append_take_drop_id)

lemma plookup_pshort: "plookup (pshort s t) k = plookup (PShort s t) k"
proof (cases t)
  case (PShort s' u)
  have "take (length s + length s') k = s @ s' \<longleftrightarrow>
        take (length s) k = s \<and> take (length s') (drop (length s) k) = s'"
    using take_length_iff [of "s @ s'" k] take_length_iff [of s k]
    by (auto simp: take_add)
  then show ?thesis using PShort by (auto simp: pshort_def add.commute)
qed (auto simp: pshort_def)

lemma pshort_not_nil: "pshort s t \<noteq> PNil"
  by (simp add: pshort_def split: ptrie.split)

text \<open>The state of a full node after one of its children changed: at least one child is left.\<close>

definition pwide :: "ptrie list \<Rightarrow> bool" where
  "pwide cs \<longleftrightarrow> length cs = 17 \<and> (\<forall>x \<le> 16. pchild x (cs ! unat x)) \<and> (\<exists>i < 17. cs ! i \<noteq> PNil)"

lemma pwide_update:
  assumes "pnode (PFull cs)" "x \<le> 16" "pchild x t"
  shows "pwide (cs[unat x := t])"
proof -
  have len: "length cs = 17" using assms(1) by (simp add: pnode_full_iff)
  have "\<not> {i. i < 17 \<and> cs ! i \<noteq> PNil} \<subseteq> {unat x}"
    using assms(1) card_mono [of "{unat x}" "{i. i < 17 \<and> cs ! i \<noteq> PNil}"]
    by (auto simp: pnode_full_iff)
  then obtain i where "i < 17" "cs ! i \<noteq> PNil" "i \<noteq> unat x" by auto
  then have "\<exists>i < 17. cs[unat x := t] ! i \<noteq> PNil" by (intro exI [of _ i]) simp
  moreover have "pchild z (cs[unat x := t] ! unat z)" if "z \<le> 16" for z
  proof (cases "z = x")
    case False
    then have "unat z \<noteq> unat x" by (simp add: word_unat_eq_iff)
    then show ?thesis using assms(1) that by (simp add: pnode_full_iff)
  qed (use assms len unat_le_16 [OF that] in simp)
  ultimately show ?thesis using len by (simp add: pwide_def)
qed

lemma pwide_only:
  assumes "pwide cs" "ponly cs = Some i"
  shows "i < 17" "pchild (of_nat i) (cs ! i)" "cs ! i \<noteq> PNil"
    "(x::byte) \<le> 16 \<Longrightarrow> unat x \<noteq> i \<Longrightarrow> cs ! unat x = PNil"
proof -
  have s: "{j. j < 17 \<and> cs ! j \<noteq> PNil} = {i}" using assms by (simp add: ponly_Some pwide_def)
  then show i: "i < 17" and "cs ! i \<noteq> PNil" by auto
  show "pchild (of_nat i) (cs ! i)"
    using assms(1) of_nat_le_16 [OF i] unat_of_nat_17 [OF i] by (metis pwide_def)
  show "cs ! unat x = PNil" if "x \<le> 16" "unat x \<noteq> i" using s that unat_le_16 [of x] by auto
qed

lemma pshrink_pnode:
  assumes "pwide cs" shows "pnode (pshrink cs)"
proof (cases "ponly cs")
  case None
  let ?s = "{j. j < 17 \<and> cs ! j \<noteq> PNil}"
  have "?s \<noteq> {}" using assms by (auto simp: pwide_def)
  moreover have "card ?s \<noteq> 1"
    using None assms ponly_Some [of cs] by (auto simp: card_1_singleton_iff pwide_def)
  moreover have "card ?s = 0 \<longleftrightarrow> ?s = {}" by (intro card_0_eq) simp
  ultimately have "2 \<le> card ?s" by linarith
  then show ?thesis using assms None by (simp add: pshrink_def pnode_full_iff pwide_def)
next
  case (Some i)
  note i = pwide_only [OF assms Some]
  show ?thesis
  proof (cases "i = 16")
    case True
    then show ?thesis using i Some by (auto simp: pshrink_def pchild_def pshort_def)
  next
    case False
    then have "(of_nat i :: byte) < 16" using i(1) by (simp add: word_less_nat_alt unat_of_nat)
    then show ?thesis
      using i(2,3) Some False of_nat_eq_16 [OF i(1)]
      by (auto simp: pshrink_def pchild_def intro!: pnode_pshort)
  qed
qed

lemma plookup_pshrink:
  assumes "pwide cs" "term_key k"
  shows "plookup (pshrink cs) k = plookup (PFull cs) k"
proof (cases "ponly cs")
  case (Some i)
  note i = pwide_only [OF assms(1) Some]
  obtain x l where x: "k = x # l" "x \<le> 16" using assms(2) by (cases k) (auto simp: term_key_Cons_child)
  have "x = of_nat i \<longleftrightarrow> unat x = i" using i(1) by (auto simp: unat_of_nat)
  then show ?thesis
    using Some x i(4) [of x] assms(1)
    by (cases "unat x = i") (auto simp: pshrink_def plookup_pshort plookup_full pwide_def
        simp del: plookup.simps(4))
qed (simp add: pshrink_def)

definition pdelete_ok :: "byte \<Rightarrow> ptrie \<Rightarrow> bytes \<Rightarrow> bool" where
  "pdelete_ok x t k \<longleftrightarrow>
     pchild x (pdelete t k) \<and> (plookup t k = None \<longrightarrow> pdelete t k = t)
     \<and> (\<forall>k'. child_key x k' \<longrightarrow>
            plookup (pdelete t k) k' = (if k' = k then None else plookup t k'))"

lemma pdelete_okI:
  assumes "x \<noteq> 16" "pnode (pdelete t k)" "plookup t k = None \<Longrightarrow> pdelete t k = t"
    "\<And>k'. term_key k' \<Longrightarrow> plookup (pdelete t k) k' = (if k' = k then None else plookup t k')"
  shows "pdelete_ok x t k"
  unfolding pdelete_ok_def pchild_def child_key_def using assms by simp

lemma pdelete_ok_absent: "pdelete_ok x t k \<Longrightarrow> plookup t k = None \<Longrightarrow> pdelete t k = t"
  unfolding pdelete_ok_def by blast

lemma pdelete_full_not_nil: "pdelete (PFull cs) k \<noteq> PNil"
  by (auto simp: pdelete.simps pshrink_def pshort_not_nil Let_def split: list.split option.split)

lemma pdelete_ok_full:
  assumes "pnode (PFull cs)" "y \<le> 16" "pdelete_ok y (cs ! unat y) k" "child_key y k" "x \<noteq> 16"
  shows "pdelete_ok x (PFull cs) (y # k)"
proof -
  have len: "length cs = 17" using assms(1) by (simp add: pnode_full_iff)
  have y: "unat y < 17" using unat_le_16 [OF assms(2)] .
  let ?u = "pdelete (cs ! unat y) k" and ?c = "cs ! unat y"
  have del: "pdelete (PFull cs) (y # k) = (if ?u = ?c then PFull cs else pshrink (cs[unat y := ?u]))"
    using len y by (simp add: pdelete.simps Let_def)
  have w: "pwide (cs[unat y := ?u])"
    using assms(1-3) by (intro pwide_update) (auto simp: pdelete_ok_def)
  have L: "plookup (PFull (cs[unat y := ?u])) k' =
      (if k' = y # k then None else plookup (PFull cs) k')" if "term_key k'" for k'
  proof (cases k')
    case (Cons z l)
    then have "z \<le> 16" "child_key z l" using that by (simp_all add: term_key_Cons_child)
    then show ?thesis
      using Cons assms(3) len y
      by (cases "z = y") (auto simp: plookup_full pdelete_ok_def word_unat_eq_iff
          simp del: plookup.simps(4))
  qed (use that in simp)
  have "plookup (pdelete (PFull cs) (y # k)) k' =
      (if k' = y # k then None else plookup (PFull cs) k')" if "term_key k'" for k'
  proof (cases "?u = ?c")
    case True
    show ?thesis
      using L [OF that] unfolding del if_P [OF True] unfolding True list_update_id .
  next
    case False
    show ?thesis
      unfolding del if_not_P [OF False] plookup_pshrink [OF w that] by (rule L [OF that])
  qed
  moreover have "?u = ?c" if "plookup (PFull cs) (y # k) = None"
    using pdelete_ok_absent [OF assms(3)] that unfolding plookup_full [OF len assms(2)] .
  moreover have "pnode (pdelete (PFull cs) (y # k))"
    using assms(1) pshrink_pnode [OF w] del by metis
  ultimately show ?thesis using del by (intro pdelete_okI [OF assms(5)]) metis+
qed

lemma pdelete_ok_short_through:
  assumes "pnode (PShort s (PFull cs))" "term_key l" "pdelete_ok 0 (PFull cs) l" "x \<noteq> 16"
  shows "pdelete_ok x (PShort s (PFull cs)) (s @ l)"
proof -
  let ?u = "pdelete (PFull cs) l"
  have s: "nibbles s" "s \<noteq> []" using assms(1) by simp_all
  have u: "pnode ?u" using assms(3) pdelete_full_not_nil by (auto simp: pdelete_ok_def pchild_def)
  have "l \<noteq> []" using assms(2) by auto
  then have del: "pdelete (PShort s (PFull cs)) (s @ l) =
      (if ?u = PFull cs then PShort s (PFull cs) else pshort s ?u)"
    by (simp add: pdelete.simps(3) prefixLen_append Let_def)
  have L: "plookup (PShort s ?u) k' =
      (if k' = s @ l then None else plookup (PShort s (PFull cs)) k')" if k': "term_key k'" for k'
  proof (cases "take (length s) k' = s")
    case True
    then obtain l' where l': "k' = s @ l'" by (metis append_take_drop_id)
    with k' s have "term_key l'" by (simp add: term_key_append_nibbles)
    then show ?thesis using assms(3) l' by (simp add: pdelete_ok_def child_key_def del: plookup.simps(4))
  qed auto
  have E: "plookup (pdelete (PShort s (PFull cs)) (s @ l)) k' = plookup (PShort s ?u) k'" for k'
    unfolding del by (cases "?u = PFull cs") (simp_all add: plookup_pshort del: plookup.simps)
  have "plookup (pdelete (PShort s (PFull cs)) (s @ l)) k' =
      (if k' = s @ l then None else plookup (PShort s (PFull cs)) k')" if "term_key k'" for k'
    using L [OF that] unfolding E .
  moreover have "?u = PFull cs" if "plookup (PShort s (PFull cs)) (s @ l) = None"
    using pdelete_ok_absent [OF assms(3)] that unfolding plookup_short_append .
  moreover have "pnode (pdelete (PShort s (PFull cs)) (s @ l))"
    using assms(1) pnode_pshort [OF s u] del by metis
  ultimately show ?thesis using del by (intro pdelete_okI [OF assms(4)]) metis+
qed

lemma pdelete_correct:
  assumes "pchild x t" "child_key x k"
  shows "pdelete_ok x t k"
  using assms
proof (induction t k arbitrary: x rule: pdelete.induct)
  case (1 k)
  then show ?case by (auto simp: pdelete_ok_def pdelete.simps)
next
  case (2 v k)
  then have "x = 16" "k = []" by (auto simp: pchild_def child_key_def split: if_splits)
  then show ?case by (auto simp: pdelete_ok_def pdelete.simps pchild_def child_key_def)
next
  case (3 s t k)
  then have x: "x \<noteq> 16" and s: "pnode (PShort s t)" and k: "term_key k"
    by (auto simp: pchild_def child_key_def split: if_splits)
  show ?case
  proof (cases "prefixLen k s = length s")
    case True
    then obtain l where l: "k = s @ l" by (auto simp: prefixLen_full)
    from s show ?thesis
    proof (cases rule: pshort_cases)
      case (1 w)
      then have "l = []" using l k term_key_prefix by blast
      then show ?thesis
        using 1 l x by (simp add: pdelete_ok_def pdelete.simps pchild_def child_key_def
            prefixLen_append [of _ "[]", simplified] term_key_take)
    next
      case (2 cs)
      then have "term_key l" using k l by (simp add: term_key_append_nibbles)
      moreover have "l \<noteq> []" using calculation by auto
      moreover have "pdelete_ok 0 t l"
        using 3(1) [OF refl, of 0] 2 True l calculation by (simp add: pchild_def child_key_def)
      ultimately show ?thesis using s x 2(1) l pdelete_ok_short_through by blast
    qed
  next
    case False
    moreover from this have "take (length s) k \<noteq> s"
      by (metis append_take_drop_id prefixLen_append)
    moreover have "prefixLen k s < length s" using False prefixLen_le(2) [of k s] by simp
    ultimately show ?thesis
      using s x by (auto simp: pdelete_ok_def pdelete.simps pchild_def)
  qed
next
  case (4 cs k)
  then have x: "x \<noteq> 16" and n: "pnode (PFull cs)" and k: "term_key k"
    by (auto simp: pchild_def child_key_def split: if_splits)
  from k obtain y l where y: "k = y # l" "y \<le> 16" "child_key y l"
    by (cases k) (auto simp: term_key_Cons_child)
  have "pdelete_ok y (cs ! unat y) l"
    using 4(1) [OF y(1) _ pnode_child [OF n y(2)] y(3)] n unat_le_16 [OF y(2)]
    by (simp add: pnode_full_iff)
  then show ?case using pdelete_ok_full [OF n y(2) _ y(3) x] y(1) by simp
qed

theorem pdelete_wf: "ptrie_wf t \<Longrightarrow> term_key k \<Longrightarrow> ptrie_wf (pdelete t k)"
  using pdelete_correct [of 0 t k] by (simp add: ptrie_wf_pchild pdelete_ok_def child_key_def)

theorem plookup_pdelete:
  "ptrie_wf t \<Longrightarrow> term_key k \<Longrightarrow> term_key k'
   \<Longrightarrow> plookup (pdelete t k) k' = (if k' = k then None else plookup t k')"
  using pdelete_correct [of 0 t k] by (simp add: ptrie_wf_pchild pdelete_ok_def child_key_def)

section \<open>Uniqueness of the canonical form\<close>

text \<open>A node is either a leaf or a full node below a possibly empty key fragment.\<close>

lemma pnode_shape:
  assumes "pnode t"
  obtains s v where "t = PShort s (PVal v)" "term_key s"
  | p cs where "t = pleaf p (PFull cs)" "nibbles p" "pnode (PFull cs)"
proof (cases t)
  case (PShort s u)
  from assms [unfolded PShort] show ?thesis
  proof (cases rule: pshort_cases)
    case (1 v)
    then show ?thesis using PShort that(1) by blast
  next
    case (2 cs)
    then show ?thesis using PShort that(2) [of s cs] by (simp add: pleaf_def)
  qed
next
  case (PFull cs)
  then show ?thesis using assms that(2) [of "[]" cs] by (simp add: pleaf_def)
qed (use assms in simp_all)

lemma size_nth_pfull: "i < length cs \<Longrightarrow> size (cs ! i) < size (pleaf p (PFull cs))"
  using size_list_estimation' [OF nth_mem, of i cs "size (cs ! i)" size]
  by (simp add: pleaf_def less_Suc_eq_le)

lemma pfull_nth_child:
  assumes "pnode (PFull cs)" "i < 17"
  shows "pchild (of_nat i) (cs ! i)"
    "plookup (PFull cs) (of_nat i # k) = plookup (cs ! i) k"
  using pnode_child [OF assms(1) of_nat_le_16 [OF assms(2)]] assms
    plookup_full [OF _ of_nat_le_16 [OF assms(2)], of cs k]
  by (auto simp: unat_of_nat pnode_full_iff)

text \<open>Every node holds a key, and a full node holds keys that start with different nibbles.\<close>

lemma pchild_has_key:
  assumes "pchild x t" "t \<noteq> PNil"
  shows "\<exists>k. child_key x k \<and> plookup t k \<noteq> None"
  using assms
proof (induction "size t" arbitrary: x t rule: less_induct)
  case less
  show ?case
  proof (cases "x = 16")
    case True
    then show ?thesis using less(2,3) by (auto simp: pchild_def child_key_def)
  next
    case False
    then have "pnode t" using less(2,3) by (simp add: pchild_def)
    then show ?thesis
    proof (cases rule: pnode_shape)
      case (1 s v)
      then show ?thesis using False by (auto simp: child_key_def)
    next
      case (2 p cs)
      have "2 \<le> card {i. i < 17 \<and> cs ! i \<noteq> PNil}" using 2(3) by (simp add: pnode_full_iff)
      then have "{i. i < 17 \<and> cs ! i \<noteq> PNil} \<noteq> {}" by (metis card.empty not_numeral_le_zero)
      then obtain i where i: "i < 17" "cs ! i \<noteq> PNil" by auto
      have "size (cs ! i) < size t" using i 2 size_nth_pfull by (simp add: pnode_full_iff)
      from less(1) [OF this pfull_nth_child(1) [OF 2(3) i(1)] i(2)]
      obtain k where "child_key (of_nat i) k" "plookup (cs ! i) k \<noteq> None" by blast
      then have "term_key (p @ of_nat i # k)" "plookup t (p @ of_nat i # k) \<noteq> None"
        using 2 i of_nat_le_16 [OF i(1)] pfull_nth_child(2) [OF 2(3) i(1)]
        by (simp_all add: term_key_append_nibbles term_key_Cons_child plookup_pleaf del: plookup.simps)
      then show ?thesis using False by (auto simp: child_key_def)
    qed
  qed
qed

lemma pfull_other_key:
  assumes "pnode (PFull cs)" "nibbles p"
  obtains y k where "y \<noteq> c" "term_key (p @ y # k)" "plookup (pleaf p (PFull cs)) (p @ y # k) \<noteq> None"
proof -
  have "\<not> {i. i < 17 \<and> cs ! i \<noteq> PNil} \<subseteq> {unat c}"
    using assms(1) card_mono [of "{unat c}" "{i. i < 17 \<and> cs ! i \<noteq> PNil}"]
    by (auto simp: pnode_full_iff)
  then obtain i where i: "i < 17" "cs ! i \<noteq> PNil" "i \<noteq> unat c" by auto
  from pchild_has_key [OF pfull_nth_child(1) [OF assms(1) i(1)] i(2)]
  obtain k where k: "child_key (of_nat i) k" "plookup (cs ! i) k \<noteq> None" by blast
  show thesis
  proof (rule that)
    show "of_nat i \<noteq> c" using i by (auto simp: unat_of_nat_17)
    show "term_key (p @ of_nat i # k)"
      using assms(2) k(1) of_nat_le_16 [OF i(1)] by (simp add: term_key_append_nibbles term_key_Cons_child)
    show "plookup (pleaf p (PFull cs)) (p @ of_nat i # k) \<noteq> None"
      using k(2) pfull_nth_child(2) [OF assms(1) i(1)] by (simp add: plookup_pleaf del: plookup.simps)
  qed
qed

lemma pfull_common_prefix:
  assumes "pnode (PFull cs)" "nibbles p"
    and all: "\<And>k. term_key k \<Longrightarrow> plookup (pleaf p (PFull cs)) k \<noteq> None \<Longrightarrow> \<exists>l. k = q @ l"
  shows "\<exists>r. p = q @ r"
proof (rule ccontr)
  assume no: "\<nexists>r. p = q @ r"
  obtain y k where yk: "y \<noteq> (q @ [0]) ! length p" "term_key (p @ y # k)"
    "plookup (pleaf p (PFull cs)) (p @ y # k) \<noteq> None"
    using pfull_other_key [OF assms(1,2)] by blast
  from all [OF yk(2,3)] obtain l where l: "p @ y # k = q @ l" by blast
  then obtain us where "p = q @ us \<or> q = p @ us \<and> y # k = us @ l"
    by (auto simp: append_eq_append_conv2)
  with no obtain c us' where "q = p @ c # us'" "y # k = c # us' @ l"
    by (cases us) auto
  then show False using yk(1) by (simp add: nth_append)
qed

lemma pleaf_full_unique:
  assumes "pnode (PFull cs)" "nibbles p" "pnode (PFull ds)" "nibbles q"
    and eq: "\<And>k. term_key k \<Longrightarrow> plookup (pleaf p (PFull cs)) k = plookup (pleaf q (PFull ds)) k"
  shows "p = q" "\<And>x k. x \<le> 16 \<Longrightarrow> child_key x k \<Longrightarrow> plookup (cs ! unat x) k = plookup (ds ! unat x) k"
proof -
  have pre: "plookup (pleaf p t) k \<noteq> None \<Longrightarrow> \<exists>l. k = p @ l" for p t k
    by (auto simp: plookup_pleaf take_length_iff split: if_splits)
  have "\<exists>r. p = q @ r" using pfull_common_prefix [OF assms(1,2)] eq pre by metis
  moreover have "\<exists>r. q = p @ r" using pfull_common_prefix [OF assms(3,4)] eq pre by metis
  ultimately show p: "p = q" by auto
  show "plookup (cs ! unat x) k = plookup (ds ! unat x) k" if "x \<le> 16" "child_key x k" for x k
    using eq [of "p @ x # k"] that assms p
    by (simp add: term_key_append_nibbles term_key_Cons_child plookup_pleaf plookup_full pnode_full_iff
        del: plookup.simps)
qed

lemma pchild_unique:
  assumes "pchild x t" "pchild x u" "\<And>k. child_key x k \<Longrightarrow> plookup t k = plookup u k"
  shows "t = u"
  using assms
proof (induction "size t" arbitrary: x t u rule: less_induct)
  case less
  show ?case
  proof (cases "x = 16 \<or> t = PNil \<or> u = PNil")
    case True
    then consider "x = 16" | "t = PNil \<or> u = PNil" by blast
    then show ?thesis
    proof cases
      case 1
      then show ?thesis using less(2-4) by (auto simp: pchild_def child_key_def)
    next
      case 2
      then show ?thesis
        using less(2-4) pchild_has_key [of x t] pchild_has_key [of x u] by fastforce
    qed
  next
    case False
    then have t: "pnode t" and u: "pnode u" and eq: "\<And>k. term_key k \<Longrightarrow> plookup t k = plookup u k"
      using less(2-4) by (auto simp: pchild_def child_key_def)
    have leaf: "plookup (PShort s (PVal v)) k = (if k = s then Some v else None)"
      if "term_key s" "term_key k" for s v k using that by (simp add: term_key_take)
    have mixed: False if "t' = PShort s (PVal v)" "term_key s" "u' = pleaf p (PFull cs)" "nibbles p"
      "pnode (PFull cs)" "\<And>k. term_key k \<Longrightarrow> plookup t' k = plookup u' k" for s v p cs t' u'
      using pfull_common_prefix [OF that(5,4), of s] that term_key_not_nibbles [OF that(2)]
      by (metis leaf append_Nil2 nibbles_simps(3))
    from t show ?thesis
    proof (cases rule: pnode_shape)
      case t1: (1 s v)
      from u show ?thesis
      proof (cases rule: pnode_shape)
        case (1 s' v')
        then show ?thesis using t1 eq [of s] leaf [of s s v] leaf [of s' s v'] by (auto split: if_splits)
      qed (use mixed t1 eq in blast)
    next
      case t2: (2 p cs)
      from u show ?thesis
      proof (cases rule: pnode_shape)
        case (1 s' v')
        then show ?thesis using mixed [OF 1 t2] eq by metis
      next
        case u2: (2 q ds)
        note un = pleaf_full_unique [OF t2(3,2) u2(3,2), folded t2(1) u2(1), OF eq]
        have len: "length cs = 17" "length ds = 17" using t2(3) u2(3) by (simp_all add: pnode_full_iff)
        have "cs ! i = ds ! i" if i: "i < 17" for i
        proof (rule less(1))
          show "size (cs ! i) < size t" using t2(1) len i size_nth_pfull by simp
          show "pchild (of_nat i) (cs ! i)" "pchild (of_nat i) (ds ! i)"
            using pfull_nth_child(1) t2(3) u2(3) i by blast+
          show "plookup (cs ! i) k = plookup (ds ! i) k" if "child_key (of_nat i) k" for k
            using un(2) [OF _ of_nat_le_16 [OF i] that] i by (simp add: unat_of_nat_17)
        qed
        then have "cs = ds" using len by (intro nth_equalityI) auto
        then show ?thesis using un(1) t2(1) u2(1) by simp
      qed
    qed
  qed
qed

theorem ptrie_unique:
  assumes "ptrie_wf t" "ptrie_wf u" "\<And>k. term_key k \<Longrightarrow> plookup t k = plookup u k"
  shows "t = u"
  using pchild_unique [of 0 t u] assms by (simp add: ptrie_wf_pchild child_key_def)

end
