(* ===== verification/Rlp.thy ===== *)
theory Rlp
  imports Prelude
begin

text \<open>
  Recursive length prefix encoding, \<open>src/chain/rlp/encode.go\<close> and \<open>src/chain/rlp/raw.go\<close>.

  The Go encoder walks a value by reflection and appends to an \<open>encbuf\<close>, which keeps string
  data and list headers apart and merges them in \<open>toBytes\<close>. The values the chain encodes are
  byte strings, unsigned integers, byte arrays, slices and structs of these: the type
  \<open>item\<close> is what the writers of such a value see, a tree of strings and lists. \<open>encode_item\<close>
  is the reference encoder, \<open>write_item\<close> followed by \<open>toBytes\<close> is the encoder as written, and
  \<open>EncodeToBytes_correct\<close> shows that both give the same bytes. \<open>readKind\<close>, \<open>Split\<close>,
  \<open>SplitString\<close>, \<open>SplitList\<close> and \<open>CountValues\<close> are the slice decoder the trie uses; they read
  back what the encoder wrote.
\<close>

unbundle bit_operations_syntax

section \<open>Integers and headers\<close>

definition putint :: "u64 \<Rightarrow> bytes" where
  "putint i =
     (if i < 2 ^ 8 then [ucast i]
      else if i < 2 ^ 16 then [ucast (drop_bit 8 i), ucast i]
      else if i < 2 ^ 24 then [ucast (drop_bit 16 i), ucast (drop_bit 8 i), ucast i]
      else if i < 2 ^ 32 then
        [ucast (drop_bit 24 i), ucast (drop_bit 16 i), ucast (drop_bit 8 i), ucast i]
      else if i < 2 ^ 40 then
        [ucast (drop_bit 32 i), ucast (drop_bit 24 i), ucast (drop_bit 16 i),
         ucast (drop_bit 8 i), ucast i]
      else if i < 2 ^ 48 then
        [ucast (drop_bit 40 i), ucast (drop_bit 32 i), ucast (drop_bit 24 i),
         ucast (drop_bit 16 i), ucast (drop_bit 8 i), ucast i]
      else if i < 2 ^ 56 then
        [ucast (drop_bit 48 i), ucast (drop_bit 40 i), ucast (drop_bit 32 i),
         ucast (drop_bit 24 i), ucast (drop_bit 16 i), ucast (drop_bit 8 i), ucast i]
      else
        [ucast (drop_bit 56 i), ucast (drop_bit 48 i), ucast (drop_bit 40 i),
         ucast (drop_bit 32 i), ucast (drop_bit 24 i), ucast (drop_bit 16 i),
         ucast (drop_bit 8 i), ucast i])"

function intsize :: "u64 \<Rightarrow> nat" where
  "intsize i = (let i' = drop_bit 8 i in if i' = 0 then 1 else Suc (intsize i'))"
  by pat_completeness auto
termination
proof (relation "measure unat")
  fix i i' :: u64
  assume i': "i' = drop_bit 8 i" and "i' \<noteq> 0"
  then have "unat i' = unat i div 256"
    by (simp only: unat_drop_bit8_u64)
  moreover from \<open>i' \<noteq> 0\<close> have "0 < unat i'"
    by (simp add: unat_gt_0)
  ultimately show "(i', i) \<in> measure unat" by simp
qed simp

declare intsize.simps [simp del]

definition headsize :: "u64 \<Rightarrow> nat" where
  "headsize sz = (if sz < 56 then 1 else 1 + intsize sz)"

definition puthead :: "byte \<Rightarrow> byte \<Rightarrow> u64 \<Rightarrow> bytes" where
  "puthead smalltag largetag sz =
     (if sz < 56 then [smalltag + ucast sz]
      else (let sizesize = putint sz
            in (largetag + of_nat (length sizesize)) # sizesize))"

definition encodeStringHeader :: "nat \<Rightarrow> bytes" where
  "encodeStringHeader sz =
     (if sz < 56 then [0x80 + of_nat sz]
      else (let sizesize = putint (of_nat sz)
            in (0xB7 + of_nat (length sizesize)) # sizesize))"

definition encodeString :: "bytes \<Rightarrow> bytes" where
  "encodeString b =
     (if length b = 1 \<and> b ! 0 \<le> 0x7F then [b ! 0]
      else encodeStringHeader (length b) @ b)"

definition writeUint :: "u64 \<Rightarrow> bytes" where
  "writeUint i =
     (if i = 0 then [0x80]
      else if i < 128 then [ucast i]
      else (let s = putint i in (0x80 + of_nat (length s)) # s))"

definition writeBigInt :: "int \<Rightarrow> bytes res" where
  "writeBigInt i =
     (if i < 0 then Inl (RlpError ErrNegativeBigInt)
      else if i = 0 then Inr [0x80]
      else Inr (encodeString (nat_be (nat i))))"

section \<open>The reference encoder and the buffered encoder\<close>

datatype item = Str bytes | Lst "item list"

fun encode_item :: "item \<Rightarrow> bytes" where
  "encode_item (Str b) = encodeString b"
| "encode_item (Lst xs) =
     puthead 0xC0 0xF7 (of_nat (length (concat (map encode_item xs))))
       @ concat (map encode_item xs)"

record encbuf =
  eb_str :: bytes
  eb_lheads :: "(nat \<times> nat) list"
  eb_lhsize :: nat

definition eb_reset :: encbuf where
  "eb_reset = \<lparr>eb_str = [], eb_lheads = [], eb_lhsize = 0\<rparr>"

definition eb_size :: "encbuf \<Rightarrow> nat" where
  "eb_size w = length (eb_str w) + eb_lhsize w"

definition eb_encodeString :: "bytes \<Rightarrow> encbuf \<Rightarrow> encbuf" where
  "eb_encodeString b w = w\<lparr>eb_str := eb_str w @ encodeString b\<rparr>"

text \<open>\<open>list\<close> returns a pointer to the new header; the model returns its index.\<close>

definition eb_list :: "encbuf \<Rightarrow> nat \<times> encbuf" where
  "eb_list w =
     (length (eb_lheads w), w\<lparr>eb_lheads := eb_lheads w @ [(length (eb_str w), eb_lhsize w)]\<rparr>)"

definition eb_listEnd :: "nat \<Rightarrow> encbuf \<Rightarrow> encbuf" where
  "eb_listEnd lh w =
     (let (offset, sz0) = eb_lheads w ! lh;
          sz = eb_size w - offset - sz0
      in w\<lparr>eb_lheads := (eb_lheads w)[lh := (offset, sz)],
           eb_lhsize := (if sz < 56 then eb_lhsize w + 1
                         else eb_lhsize w + (1 + intsize (of_nat sz)))\<rparr>)"

fun write_item :: "item \<Rightarrow> encbuf \<Rightarrow> encbuf"
  and write_items :: "item list \<Rightarrow> encbuf \<Rightarrow> encbuf" where
  "write_item (Str b) w = eb_encodeString b w"
| "write_item (Lst xs) w = (let (lh, w1) = eb_list w in eb_listEnd lh (write_items xs w1))"
| "write_items [] w = w"
| "write_items (x # xs) w = write_items xs (write_item x w)"

fun merge_heads :: "bytes \<Rightarrow> nat \<Rightarrow> (nat \<times> nat) list \<Rightarrow> bytes" where
  "merge_heads str strpos [] = drop strpos str"
| "merge_heads str strpos ((offset, sz) # heads) =
     take (offset - strpos) (drop strpos str) @ puthead 0xC0 0xF7 (of_nat sz)
       @ merge_heads str offset heads"

definition toBytes :: "encbuf \<Rightarrow> bytes" where
  "toBytes w = merge_heads (eb_str w) 0 (eb_lheads w)"

text \<open>\<open>toWriter\<close> sends the same bytes in pieces: the strings between headers, the headers, and
  what follows the last header, without empty writes.\<close>

fun write_heads :: "bytes \<Rightarrow> nat \<Rightarrow> (nat \<times> nat) list \<Rightarrow> bytes list" where
  "write_heads str strpos [] = (if strpos < length str then [drop strpos str] else [])"
| "write_heads str strpos ((offset, sz) # heads) =
     (if offset > strpos then [take (offset - strpos) (drop strpos str)] else [])
       @ [puthead 0xC0 0xF7 (of_nat sz)] @ write_heads str (max strpos offset) heads"

definition toWriter :: "encbuf \<Rightarrow> bytes list" where
  "toWriter w = write_heads (eb_str w) 0 (eb_lheads w)"

definition EncodeToBytes :: "item \<Rightarrow> bytes" where
  "EncodeToBytes x = toBytes (write_item x eb_reset)"

section \<open>The slice decoder\<close>

datatype kind = KByte | KString | KList

definition be_u64 :: "bytes \<Rightarrow> u64" where
  "be_u64 bs = foldl (\<lambda>s b. push_bit 8 s OR ucast b) 0 bs"

definition readSize :: "bytes \<Rightarrow> byte \<Rightarrow> u64 res" where
  "readSize b slen =
     (if unat slen > length b then Inl (RlpError ErrUnexpectedEOF)
      else (let s = be_u64 (take (unat slen) b)
            in if s < 56 \<or> b ! 0 = 0 then Inl (RlpError ErrCanonSize) else Inr s))"

definition readKind :: "bytes \<Rightarrow> (kind \<times> u64 \<times> u64) res" where
  "readKind buf =
     (case buf of
        [] \<Rightarrow> Inl (RlpError ErrUnexpectedEOF)
      | b # bs \<Rightarrow>
          rbind
            (if b < 0x80 then Inr (KByte, 0, 1)
             else if b < 0xB8 then
               (let contentsize = ucast (b - 0x80) :: u64
                in if contentsize = 1 then
                     (case bs of
                        [] \<Rightarrow> Inl (Panic ''index out of range'')
                      | c # _ \<Rightarrow> if c < 128 then Inl (RlpError ErrCanonSize)
                                 else Inr (KString, 1, contentsize))
                   else Inr (KString, 1, contentsize))
             else if b < 0xC0 then
               rbind (readSize bs (b - 0xB7)) (\<lambda>s. Inr (KString, ucast (b - 0xB7) + 1, s))
             else if b < 0xF8 then Inr (KList, 1, ucast (b - 0xC0))
             else rbind (readSize bs (b - 0xF7)) (\<lambda>s. Inr (KList, ucast (b - 0xF7) + 1, s)))
            (\<lambda>(k, tagsize, contentsize).
               if contentsize > of_nat (length buf) - tagsize
               then Inl (RlpError ErrValueTooLarge)
               else Inr (k, tagsize, contentsize)))"

definition Split :: "bytes \<Rightarrow> (kind \<times> bytes \<times> bytes) res" where
  "Split b =
     rbind (readKind b)
       (\<lambda>(k, ts, cs). Inr (k, take (unat cs) (drop (unat ts) b), drop (unat ts + unat cs) b))"

definition SplitString :: "bytes \<Rightarrow> (bytes \<times> bytes) res" where
  "SplitString b =
     rbind (Split b)
       (\<lambda>(k, content, rest).
          if k = KList then Inl (RlpError ErrExpectedString) else Inr (content, rest))"

definition SplitList :: "bytes \<Rightarrow> (bytes \<times> bytes) res" where
  "SplitList b =
     rbind (Split b)
       (\<lambda>(k, content, rest).
          if k \<noteq> KList then Inl (RlpError ErrExpectedList) else Inr (content, rest))"

lemma readSize_Inr: "readSize b slen = Inr s \<Longrightarrow> 56 \<le> s \<and> unat slen \<le> length b"
  by (auto simp: readSize_def Let_def split: if_splits)

lemma readKind_progress:
  assumes "readKind b = Inr (k, ts, cs)"
  shows "0 < unat ts + unat cs \<and> b \<noteq> []"
proof -
  have *: "0 < unat s" if "readSize c l = Inr s" for c l s
    using readSize_Inr [OF that] by (auto simp: word_le_nat_alt)
  show ?thesis
    using assms
    by (auto simp: readKind_def Let_def rbind_Inr_iff dest: * split: list.splits if_splits)
qed

function CountValues :: "bytes \<Rightarrow> nat res" where
  "CountValues b =
     (if b = [] then Inr 0
      else rbind (readKind b)
             (\<lambda>(k, tagsize, contentsize).
                rbind (CountValues (drop (unat tagsize + unat contentsize) b)) (\<lambda>i. Inr (Suc i))))"
  by pat_completeness auto
termination
  by (relation "measure length") (auto dest: readKind_progress)

declare CountValues.simps [simp del]

section \<open>Integers: the shortest big-endian form\<close>

lemma putint_nat_be:
  assumes "i \<noteq> 0"
  shows "putint i = nat_be (unat i)"
proof -
  have pos: "0 < unat i" using assms by (simp add: unat_gt_0)
  have lt: "unat i < 2 ^ 64"
    using unsigned_less [of i, where ?'a = nat] by simp
  have c: "ucast (drop_bit k i) = (of_nat (unat i div 2 ^ k) :: byte)" for k
    by (rule ucast_drop_bit_byte)
  have c0: "ucast i = (of_nat (unat i) :: byte)"
    using c [of 0] by simp
  note s = putint_def word_less_nat_alt c c0 and d = nat_be_digits [of _ "unat i"]
  consider "unat i < 2 ^ 8" | "2 ^ 8 \<le> unat i" "unat i < 2 ^ 16"
    | "2 ^ 16 \<le> unat i" "unat i < 2 ^ 24" | "2 ^ 24 \<le> unat i" "unat i < 2 ^ 32"
    | "2 ^ 32 \<le> unat i" "unat i < 2 ^ 40" | "2 ^ 40 \<le> unat i" "unat i < 2 ^ 48"
    | "2 ^ 48 \<le> unat i" "unat i < 2 ^ 56" | "2 ^ 56 \<le> unat i"
    by linarith
  then show ?thesis
  proof cases
    case 1 with pos d [of 0] show ?thesis by (simp only: s) (simp add: upt_rec)
  next
    case 2 with d [of 1] show ?thesis by (simp only: s) (simp add: upt_rec)
  next
    case 3 with d [of 2] show ?thesis by (simp only: s) (simp add: upt_rec)
  next
    case 4 with d [of 3] show ?thesis by (simp only: s) (simp add: upt_rec)
  next
    case 5 with d [of 4] show ?thesis by (simp only: s) (simp add: upt_rec)
  next
    case 6 with d [of 5] show ?thesis by (simp only: s) (simp add: upt_rec)
  next
    case 7 with d [of 6] show ?thesis by (simp only: s) (simp add: upt_rec)
  next
    case 8 with lt d [of 7] show ?thesis by (simp only: s) (simp add: upt_rec)
  qed
qed

lemma length_putint: "length (putint i) = intsize i"
proof (induction i rule: intsize.induct)
  case (1 i)
  show ?case
  proof (cases "drop_bit 8 i = 0")
    case True
    then have "unat i div 256 = 0"
      by (metis unat_drop_bit8_u64 unat_0)
    then have "unat i < 256" by auto
    then have "length (putint i) = 1"
      by (simp add: putint_def word_less_nat_alt)
    with True show ?thesis by (simp add: intsize.simps)
  next
    case False
    then have IH: "length (putint (drop_bit 8 i)) = intsize (drop_bit 8 i)"
      using 1 by simp
    from False have "i \<noteq> 0" by auto
    then have "nat_be (unat i) = nat_be (unat (drop_bit 8 i)) @ [of_nat (unat i)]"
      by (simp add: nat_be_step unat_drop_bit8_u64 unat_gt_0 del: drop_bit_eq_div)
    with IH False \<open>i \<noteq> 0\<close> show ?thesis
      by (simp add: putint_nat_be Let_def intsize.simps [of i] del: drop_bit_eq_div)
  qed
qed

lemma putint_props:
  assumes "i \<noteq> 0"
  shows "be_nat (putint i) = unat i" and "putint i \<noteq> []" and "hd (putint i) \<noteq> 0"
    and "length (putint i) \<le> 8"
proof -
  have lt: "unat i < 256 ^ 8"
    using unsigned_less [of i, where ?'a = nat] by simp
  show "be_nat (putint i) = unat i" "putint i \<noteq> []" "hd (putint i) \<noteq> 0"
    using assms by (simp_all add: putint_nat_be unat_gt_0 hd_nat_be)
  show "length (putint i) \<le> 8"
    using assms lt by (simp add: putint_nat_be length_nat_be_le)
qed

lemma unat_be_u64_step:
  assumes "unat s < 2 ^ 56"
  shows "unat (push_bit 8 s OR ucast (b::byte) :: u64) = 256 * unat s + unat b"
proof -
  have "push_bit 8 s AND (ucast b :: u64) = 0"
    by (rule bit_eqI) (auto simp: bit_simps dest: bit_imp_le_length)
  then have "push_bit 8 s OR ucast b = push_bit 8 s + (ucast b :: u64)"
    by (simp add: disjunctive_add_eq_or)
  moreover have "unat (push_bit 8 s) = 256 * unat s"
    using assms by (simp add: push_bit_eq_mult unat_word_ariths)
  moreover have "unat (ucast b :: u64) = unat b"
    by (rule unat_ucast_byte_u64)
  ultimately show ?thesis
    using assms unat_byte_less [of b] by (simp add: unat_word_ariths)
qed

lemma unat_be_u64: "length bs \<le> 8 \<Longrightarrow> unat (be_u64 bs) = be_nat bs"
proof (induction bs rule: rev_induct)
  case Nil
  then show ?case by (simp add: be_u64_def)
next
  case (snoc b bs)
  then have IH: "unat (be_u64 bs) = be_nat bs" by simp
  have "be_nat bs < 256 ^ length bs" by (rule be_nat_less)
  also have "\<dots> \<le> 256 ^ 7" using snoc.prems by (intro power_increasing) auto
  finally have "unat (be_u64 bs) < 2 ^ 56" using IH by simp
  then have "unat (push_bit 8 (be_u64 bs) OR ucast b) = 256 * be_nat bs + unat b"
    using unat_be_u64_step IH by metis
  then show ?case by (simp add: be_u64_def be_nat_snoc)
qed

section \<open>Reading back what the encoder wrote\<close>

lemma readSize_putint:
  assumes "56 \<le> s"
  shows "readSize (putint s @ c) (of_nat (length (putint s))) = Inr s"
proof -
  have "s \<noteq> 0" using assms by auto
  note p = putint_props [OF this]
  have l: "unat (of_nat (length (putint s)) :: byte) = length (putint s)"
    using p(4) by (simp add: unat_of_nat)
  have "be_u64 (putint s) = s"
    using unat_be_u64 p(1,4) by (metis word_unat_eq_iff)
  moreover have "(putint s @ c) ! 0 \<noteq> 0"
    using p(2,3) by (simp add: nth_append hd_conv_nth)
  ultimately show ?thesis
    using assms by (simp add: readSize_def l Let_def)
qed

text \<open>A header that \<open>puthead\<close> wrote (with the string or the list tags) is read back.\<close>

lemma unat_large_tag:
  assumes "s \<noteq> 0" and "t + 8 < 256"
  shows "unat (of_nat t + of_nat (length (putint s)) :: byte) = t + length (putint s)"
  using putint_props(4) [OF assms(1)] assms(2)
  by (simp add: unat_word_ariths unat_of_nat)

lemma readKind_large:
  assumes s: "56 \<le> s" and t: "t = 0xB7 \<or> t = 0xF7"
    and len: "unat s \<le> length c" "length (putint s) + length c + 1 < 2 ^ 64"
  shows "readKind ((of_nat t + of_nat (length (putint s))) # putint s @ c) =
         Inr (if t = 0xB7 then KString else KList, of_nat (Suc (length (putint s))), s)"
proof -
  have s0: "s \<noteq> 0" using s by auto
  note p = putint_props [OF s0]
  define l where "l = length (putint s)"
  define b where "b = (of_nat t + of_nat l :: byte)"
  have l: "0 < l" "l \<le> 8" using p(2,4) by (simp_all add: l_def)
  have tb: "unat b = t + l"
    unfolding b_def l_def using t s0 by (intro unat_large_tag) auto
  have bt: "b - of_nat t = of_nat l" by (simp add: b_def)
  have rs: "readSize (putint s @ c) (b - of_nat t) = Inr s"
    unfolding bt l_def by (rule readSize_putint [OF s])
  have uc: "ucast (b - of_nat t) + 1 = (of_nat (Suc l) :: u64)"
    unfolding bt using l by (intro word_unat_eq_iff [THEN iffD2]) (simp add: unat_word_ariths unat_of_nat)
  have lenc: "of_nat (length (b # putint s @ c)) - of_nat (Suc l) = (of_nat (length c) :: u64)"
    by (simp add: l_def)
  have big: "\<not> s > of_nat (length c)"
    using len by (simp add: word_less_nat_alt unat_of_nat)
  note eval = readKind_def list.case if_False if_True rbind_simps prod.case lenc big
  have "readKind (b # putint s @ c) = Inr (if t = 0xB7 then KString else KList, of_nat (Suc l), s)"
  proof (cases "t = 0xB7")
    case True
    then have "\<not> b < 0x80" "\<not> b < 0xB8" "b < 0xC0"
      using tb l by (simp_all add: word_less_nat_alt)
    then show ?thesis
      using rs uc unfolding True of_nat_numeral by (simp only: eval simp_thms)
  next
    case False
    then have "\<not> b < 0x80" "\<not> b < 0xB8" "\<not> b < 0xC0" "\<not> b < 0xF8" and t: "t = 0xF7"
      using t tb l by (simp_all add: word_less_nat_alt)
    then show ?thesis
      using rs uc False unfolding t of_nat_numeral by (simp only: eval simp_thms)
  qed
  then show ?thesis by (simp only: b_def l_def)
qed

lemma Split_of_readKind:
  assumes "readKind (h @ p @ r) = Inr (k, of_nat (length h), of_nat (length p))"
    and "length (h @ p @ r) < 2 ^ 64"
  shows "Split (h @ p @ r) = Inr (k, p, r)"
proof -
  have "unat (of_nat (length h) :: u64) = length h" "unat (of_nat (length p) :: u64) = length p"
    using assms(2) by (simp_all add: unat_of_nat)
  then show ?thesis by (simp add: Split_def assms(1))
qed

lemma not_too_large:
  assumes "m = length h" and "n \<le> length c" and "length h + length c < 2 ^ 64"
  shows "\<not> of_nat n > (of_nat (length (h @ c)) - of_nat m :: u64)"
proof -
  have "of_nat (length (h @ c)) - of_nat m = (of_nat (length c) :: u64)"
    using assms(1) by simp
  then show ?thesis
    using assms(2,3) by (simp add: word_less_nat_alt unat_of_nat)
qed

lemma readKind_small_list:
  assumes n: "n < 56" and len: "n \<le> length c" "Suc (length c) < 2 ^ 64"
  shows "readKind ((0xC0 + of_nat n) # c) = Inr (KList, 1, of_nat n)"
proof -
  define b where "b = (0xC0 + of_nat n :: byte)"
  have ub: "unat b = 0xC0 + n"
    using unat_small_tag [of "0xC0" n] n by (simp add: b_def)
  then have r: "\<not> b < 0x80" "\<not> b < 0xB8" "\<not> b < 0xC0" "b < 0xF8"
    using n by (simp_all add: word_less_nat_alt)
  have u: "ucast (b - 0xC0) = (of_nat n :: u64)"
    using n ucast_of_nat_u64 [of n] by (simp add: b_def)
  have "\<not> of_nat n > (of_nat (length (b # c)) - 1 :: u64)"
    using not_too_large [of 1 "[b]" n c] len by simp
  then have "readKind (b # c) = Inr (KList, 1, of_nat n)"
    using r by (simp only: readKind_def list.case if_False if_True rbind_simps prod.case u)
  then show ?thesis by (simp add: b_def)
qed

lemma readKind_small_string:
  assumes n: "n < 56" and len: "n \<le> length c" "Suc (length c) < 2 ^ 64"
    and one: "n = 1 \<Longrightarrow> \<not> c ! 0 < 128"
  shows "readKind ((0x80 + of_nat n) # c) = Inr (KString, 1, of_nat n)"
proof -
  define b where "b = (0x80 + of_nat n :: byte)"
  have ub: "unat b = 0x80 + n"
    using unat_small_tag [of "0x80" n] n by (simp add: b_def)
  then have r: "\<not> b < 0x80" "b < 0xB8"
    using n by (simp_all add: word_less_nat_alt)
  have u: "ucast (b - 0x80) = (of_nat n :: u64)"
    using n ucast_of_nat_u64 [of n] by (simp add: b_def)
  have one': "(of_nat n :: u64) = 1 \<longleftrightarrow> n = 1"
    using n by (simp add: word_unat_eq_iff unat_of_nat)
  have "\<not> of_nat n > (of_nat (length (b # c)) - 1 :: u64)"
    using not_too_large [of 1 "[b]" n c] len by simp
  moreover have "(if (of_nat n :: u64) = 1
      then case c of [] \<Rightarrow> Inl (Panic ''index out of range'')
           | d # _ \<Rightarrow> if d < 128 then Inl (RlpError ErrCanonSize) else Inr (KString, 1, of_nat n)
      else Inr (KString, 1, of_nat n)) = (Inr (KString, 1, of_nat n) :: (kind \<times> u64 \<times> u64) res)"
    using one len(1) by (cases c) (auto simp: one')
  ultimately have "readKind (b # c) = Inr (KString, 1, of_nat n)"
    using r by (simp only: readKind_def list.case if_False if_True rbind_simps prod.case u Let_def)
  then show ?thesis by (simp add: b_def)
qed

lemma Split_list_header:
  assumes len: "length (puthead 0xC0 0xF7 (of_nat (length p)) @ p @ r) < 2 ^ 64"
  shows "Split (puthead 0xC0 0xF7 (of_nat (length p)) @ p @ r) = Inr (KList, p, r)"
proof (rule Split_of_readKind [OF _ len])
  let ?s = "of_nat (length p) :: u64"
  have us: "unat ?s = length p" using len by (simp add: unat_of_nat)
  show "readKind (puthead 0xC0 0xF7 ?s @ p @ r) =
        Inr (KList, of_nat (length (puthead 0xC0 0xF7 ?s)), ?s)"
  proof (cases "length p < 56")
    case True
    moreover have "(ucast ?s :: byte) = of_nat (length p)"
      using us by (metis ucast_id unsigned_of_nat of_nat_unat)
    ultimately have "puthead 0xC0 0xF7 ?s = [0xC0 + of_nat (length p)]"
      using us by (simp add: puthead_def word_less_nat_alt)
    then show ?thesis
      using \<open>length p < 56\<close> len readKind_small_list [of "length p" "p @ r"] by simp
  next
    case False
    then have s: "56 \<le> ?s" using us by (simp add: word_le_nat_alt)
    then have "puthead 0xC0 0xF7 ?s = (0xF7 + of_nat (length (putint ?s))) # putint ?s"
      by (auto simp: puthead_def Let_def)
    then show ?thesis
      using s us len readKind_large [of ?s "0xF7" "p @ r"] by simp
  qed
qed

lemma Split_encodeString:
  assumes len: "length (encodeString b @ r) < 2 ^ 64"
  shows "Split (encodeString b @ r) =
         Inr (if length b = 1 \<and> b ! 0 \<le> 0x7F then KByte else KString, b, r)"
proof (cases "length b = 1 \<and> b ! 0 \<le> 0x7F")
  case True
  then obtain x where b: "b = [x]" by (cases b) auto
  with True have "x < 0x80" by (simp add: word_le_nat_alt word_less_nat_alt)
  moreover have "\<not> (1::u64) > of_nat (length (x # r)) - 0"
    using not_too_large [of 0 "[]" 1 "x # r"] len True b by (simp add: encodeString_def)
  ultimately have "readKind (x # r) = Inr (KByte, 0, 1)"
    by (simp only: readKind_def list.case if_False if_True rbind_simps prod.case)
  then show ?thesis using True b by (simp add: encodeString_def Split_def)
next
  case False
  let ?n = "length b" and ?h = "encodeStringHeader (length b)"
  have e: "encodeString b = ?h @ b" using False by (auto simp: encodeString_def)
  then have len': "length (?h @ b @ r) < 2 ^ 64" using len by simp
  have us: "unat (of_nat ?n :: u64) = ?n" using len' by (simp add: unat_of_nat)
  have "readKind (?h @ b @ r) = Inr (KString, of_nat (length ?h), of_nat ?n)"
  proof (cases "?n < 56")
    case True
    have "\<not> (b @ r) ! 0 < 128" if "?n = 1"
      using False that by (cases b) (auto simp: word_le_nat_alt word_less_nat_alt)
    then show ?thesis
      using True len' readKind_small_string [of ?n "b @ r"] by (simp add: encodeStringHeader_def)
  next
    case F: False
    then have "56 \<le> (of_nat ?n :: u64)" using us by (simp add: word_le_nat_alt)
    then show ?thesis
      using F us len' readKind_large [of "of_nat ?n" "0xB7" "b @ r"]
      by (simp add: encodeStringHeader_def Let_def)
  qed
  from Split_of_readKind [OF this len'] show ?thesis using False e by auto
qed

fun item_kind :: "item \<Rightarrow> kind" where
  "item_kind (Str b) = (if length b = 1 \<and> b ! 0 \<le> 0x7F then KByte else KString)"
| "item_kind (Lst xs) = KList"

fun item_content :: "item \<Rightarrow> bytes" where
  "item_content (Str b) = b"
| "item_content (Lst xs) = concat (map encode_item xs)"

lemma Split_encode_item:
  "length (encode_item x @ r) < 2 ^ 64 \<Longrightarrow>
   Split (encode_item x @ r) = Inr (item_kind x, item_content x, r)"
  by (cases x) (simp_all add: Split_encodeString Split_list_header)

lemma CountValues_encode_items:
  "length (concat (map encode_item xs)) < 2 ^ 64 \<Longrightarrow>
   CountValues (concat (map encode_item xs)) = Inr (length xs)"
proof (induction xs)
  case Nil
  then show ?case by (simp add: CountValues.simps)
next
  case (Cons x xs)
  let ?r = "concat (map encode_item xs)"
  from Cons.prems have "Split (encode_item x @ ?r) = Inr (item_kind x, item_content x, ?r)"
    by (intro Split_encode_item) simp
  then obtain k ts cs where rk: "readKind (encode_item x @ ?r) = Inr (k, ts, cs)"
    and rest: "drop (unat ts + unat cs) (encode_item x @ ?r) = ?r"
    by (auto simp: Split_def rbind_Inr_iff)
  from readKind_progress [OF rk] have ne: "encode_item x @ ?r \<noteq> []" ..
  have "CountValues ?r = Inr (length xs)" using Cons by simp
  then show ?case
    using ne rk rest by (simp add: CountValues.simps [of "encode_item x @ ?r"] del: append_is_Nil_conv)
qed

section \<open>The buffered encoder computes the reference encoding\<close>

text \<open>What \<open>write_item\<close> adds to the string data and to the list of headers.\<close>

fun item_str :: "item \<Rightarrow> bytes" where
  "item_str (Str b) = encodeString b"
| "item_str (Lst xs) = concat (map item_str xs)"

fun item_heads :: "nat \<Rightarrow> item \<Rightarrow> (nat \<times> nat) list"
  and items_heads :: "nat \<Rightarrow> item list \<Rightarrow> (nat \<times> nat) list" where
  "item_heads off (Str b) = []"
| "item_heads off (Lst xs) = (off, length (concat (map encode_item xs))) # items_heads off xs"
| "items_heads off [] = []"
| "items_heads off (x # xs) = item_heads off x @ items_heads (off + length (item_str x)) xs"

lemma length_puthead: "length (puthead st lt sz) = headsize sz"
  by (simp add: puthead_def headsize_def length_putint Let_def)

lemma headsize_of_nat:
  "n < 2 ^ 64 \<Longrightarrow> headsize (of_nat n) = (if n < 56 then 1 else 1 + intsize (of_nat n))"
  by (simp add: headsize_def word_less_nat_alt unat_of_nat)

lemma write_item_effect:
  "length (encode_item x) < 2 ^ 64 \<Longrightarrow>
     write_item x w =
       w\<lparr>eb_str := eb_str w @ item_str x,
         eb_lheads := eb_lheads w @ item_heads (length (eb_str w)) x,
         eb_lhsize := eb_lhsize w + (length (encode_item x) - length (item_str x))\<rparr>
     \<and> length (item_str x) \<le> length (encode_item x)"
  and write_items_effect:
  "length (concat (map encode_item xs)) < 2 ^ 64 \<Longrightarrow>
     write_items xs w =
       w\<lparr>eb_str := eb_str w @ concat (map item_str xs),
         eb_lheads := eb_lheads w @ items_heads (length (eb_str w)) xs,
         eb_lhsize := eb_lhsize w +
           (length (concat (map encode_item xs)) - length (concat (map item_str xs)))\<rparr>
     \<and> length (concat (map item_str xs)) \<le> length (concat (map encode_item xs))"
proof (induction x w and xs w rule: write_item_write_items.induct)
  case (1 b w)
  then show ?case by (simp add: eb_encodeString_def)
next
  case (2 xs w)
  let ?e = "concat (map encode_item xs)" and ?s = "concat (map item_str xs)"
  have len: "length ?e < 2 ^ 64" using "2.prems" by simp
  define w1 where "w1 = w\<lparr>eb_lheads := eb_lheads w @ [(length (eb_str w), eb_lhsize w)]\<rparr>"
  have l: "eb_list w = (length (eb_lheads w), w1)" by (simp add: eb_list_def w1_def)
  have IH: "write_items xs w1 = w1\<lparr>eb_str := eb_str w1 @ ?s,
         eb_lheads := eb_lheads w1 @ items_heads (length (eb_str w1)) xs,
         eb_lhsize := eb_lhsize w1 + (length ?e - length ?s)\<rparr> \<and> length ?s \<le> length ?e"
    using "2.IH" [OF l [symmetric] refl len] by simp
  have hs: "length (encode_item (Lst xs)) = headsize (of_nat (length ?e)) + length ?e"
    by (simp add: length_puthead)
  show ?case
    using IH len
    by (auto simp: l eb_listEnd_def eb_size_def w1_def hs headsize_of_nat nth_append
        list_update_append Let_def intro!: encbuf.equality simp del: encode_item.simps(2))
next
  case (3 w)
  then show ?case by simp
next
  case (4 x xs w)
  then show ?case by auto
qed

text \<open>Merging the headers back into the string data.\<close>

lemma merge_heads_skip:
  "strpos \<le> length pre \<Longrightarrow> (\<forall>h \<in> set hs. length pre \<le> fst h) \<Longrightarrow>
   merge_heads (pre @ s) strpos hs = drop strpos pre @ merge_heads (pre @ s) (length pre) hs"
proof (cases hs)
  case (Cons h hs')
  assume a: "strpos \<le> length pre" "\<forall>h \<in> set hs. length pre \<le> fst h"
  obtain off sz where h: "h = (off, sz)" by (cases h)
  with a Cons have "length pre \<le> off" by simp
  then have "take (off - strpos) (drop strpos (pre @ s)) = drop strpos pre @ take (off - length pre) s"
    using a(1) by (simp add: take_drop)
  then show ?thesis by (simp add: Cons h)
qed simp

lemma heads_ge:
  "h \<in> set (item_heads off x) \<Longrightarrow> off \<le> fst h"
  "h \<in> set (items_heads off xs) \<Longrightarrow> off \<le> fst h"
  by (induction off x and off xs rule: item_heads_items_heads.induct) force+

lemma merge_item_heads:
  "(\<forall>h \<in> set hs. length (pre @ item_str x) \<le> fst h) \<Longrightarrow>
   merge_heads (pre @ item_str x @ s) (length pre) (item_heads (length pre) x @ hs) =
   encode_item x @ merge_heads (pre @ item_str x @ s) (length (pre @ item_str x)) hs"
  "(\<forall>h \<in> set hs. length (pre @ concat (map item_str xs)) \<le> fst h) \<Longrightarrow>
   merge_heads (pre @ concat (map item_str xs) @ s) (length pre) (items_heads (length pre) xs @ hs) =
   concat (map encode_item xs) @
   merge_heads (pre @ concat (map item_str xs) @ s) (length (pre @ concat (map item_str xs))) hs"
proof (induction "length pre" x and "length pre" xs arbitrary: pre s hs and pre s hs
    rule: item_heads_items_heads.induct)
  case (1 b)
  then show ?case
    using merge_heads_skip [of "length pre" "pre @ encodeString b" hs s] by simp
next
  case (2 xs)
  then show ?case by simp
next
  case 3
  then show ?case by simp
next
  case (4 x xs)
  have "\<forall>h \<in> set (items_heads (length (pre @ item_str x)) xs @ hs). length (pre @ item_str x) \<le> fst h"
    using 4(3) heads_ge(2) by force
  from 4(1) [OF refl this, of "concat (map item_str xs) @ s"]
    4(2) [of "pre @ item_str x" hs s] 4(3)
  show ?case by simp
qed

lemma EncodeToBytes_reference:
  assumes "length (encode_item x) < 2 ^ 64"
  shows "EncodeToBytes x = encode_item x"
    and "eb_size (write_item x eb_reset) = length (encode_item x)"
  using write_item_effect [OF assms, of eb_reset] merge_item_heads(1) [of "[]" "[]" x "[]"]
  by (simp_all add: EncodeToBytes_def toBytes_def eb_reset_def eb_size_def)

lemma writeUint_encodeString: "writeUint i = encodeString (nat_be (unat i))"
proof -
  consider "i = 0" | "i \<noteq> 0" "i < 128" | "i \<noteq> 0" "\<not> i < 128" by blast
  then show ?thesis
  proof cases
    case 2
    then have "nat_be (unat i) = [ucast i]"
      using putint_nat_be [of i] by (simp add: putint_def word_less_nat_alt)
    moreover have "(ucast i :: byte) \<le> 0x7F"
      using 2(2) by (simp add: word_le_nat_alt word_less_nat_alt unat_ucast_u64_byte)
    ultimately show ?thesis
      using 2 by (simp add: writeUint_def encodeString_def)
  next
    case 3
    note p = putint_props [OF 3(1)]
    have "\<not> (length (putint i) = 1 \<and> putint i ! 0 \<le> 0x7F)"
    proof
      assume "length (putint i) = 1 \<and> putint i ! 0 \<le> 0x7F"
      then obtain x where "putint i = [x]" "x \<le> 0x7F" by (cases "putint i") auto
      with p(1) 3(2) show False
        by (simp add: be_nat_Cons word_le_nat_alt word_less_nat_alt)
    qed
    then show ?thesis
      using 3 p(4) putint_nat_be [OF 3(1)]
      by (auto simp: writeUint_def encodeString_def encodeStringHeader_def Let_def)
  qed (simp add: writeUint_def encodeString_def encodeStringHeader_def)
qed

lemma writeBigInt_encodeString: "0 \<le> i \<Longrightarrow> writeBigInt i = Inr (encodeString (nat_be (nat i)))"
  by (auto simp: writeBigInt_def encodeString_def encodeStringHeader_def)

text \<open>The headers are recorded in the order of their offsets, so writing piecewise sends the same
  bytes.\<close>

lemma heads_sorted:
  "sorted (map fst (item_heads off x)) \<and> (\<forall>h \<in> set (item_heads off x). fst h \<le> off + length (item_str x))"
  "sorted (map fst (items_heads off xs))
   \<and> (\<forall>h \<in> set (items_heads off xs). fst h \<le> off + length (concat (map item_str xs)))"
proof (induction off x and off xs rule: item_heads_items_heads.induct)
  case (4 off x xs)
  moreover have "fst a \<le> fst b"
    if "a \<in> set (item_heads off x)" "b \<in> set (items_heads (off + length (item_str x)) xs)" for a b
    using 4(1) that heads_ge(2) [OF that(2)] by fastforce
  ultimately show ?case by (fastforce simp: sorted_append)
qed (auto dest: heads_ge(2))

lemma concat_write_heads:
  "sorted (p # map fst hs) \<Longrightarrow> concat (write_heads str p hs) = merge_heads str p hs"
  by (induction str p hs rule: write_heads.induct) (auto simp: max_def)

lemma toWriter_toBytes:
  assumes "length (encode_item x) < 2 ^ 64"
  shows "concat (toWriter (write_item x eb_reset)) = toBytes (write_item x eb_reset)"
  using write_item_effect [OF assms, of eb_reset] heads_sorted(1) [of 0 x]
    concat_write_heads [of 0 "item_heads 0 x" "item_str x"]
  by (simp add: toWriter_def toBytes_def eb_reset_def)

section \<open>Properties\<close>

text \<open>C12. The buffered encoder agrees with the reference encoder: writing a value into an
  \<open>encbuf\<close> (string data and list headers kept apart) and merging them in \<open>toBytes\<close> gives the
  RLP encoding of the value, writing it out piecewise sends the same bytes, and the size the
  buffer reports is the length of that encoding.\<close>

theorem EncodeToBytes_correct:
  assumes "length (encode_item x) < 2 ^ 64"
  shows "EncodeToBytes x = encode_item x
    \<and> concat (toWriter (write_item x eb_reset)) = encode_item x
    \<and> eb_size (write_item x eb_reset) = length (encode_item x)"
  using EncodeToBytes_reference [OF assms] toWriter_toBytes [OF assms] by (simp add: EncodeToBytes_def)

theorem EncodeToBytes_correct_witness:
  "EncodeToBytes (Lst [Str [1], Lst [], Str [0x80, 2]]) = [0xC5, 1, 0xC0, 0x82, 0x80, 2]"
proof -
  have e: "encode_item (Lst [Str [1], Lst [], Str [0x80, 2]]) = [0xC5, 1, 0xC0, 0x82, 0x80, 2]"
    by (simp add: encodeString_def encodeStringHeader_def puthead_def)
  then show ?thesis
    using EncodeToBytes_correct [of "Lst [Str [1], Lst [], Str [0x80, 2]]"] by simp
qed

text \<open>C13. \<open>Split\<close> reads back what the encoder wrote: on the encoding of a value followed by any
  rest it returns the kind of the value, its content and exactly that rest.\<close>

theorem Split_EncodeToBytes:
  assumes "length (encode_item x @ r) < 2 ^ 64"
  shows "Split (EncodeToBytes x @ r) = Inr (item_kind x, item_content x, r)"
  using assms EncodeToBytes_reference(1) [of x] Split_encode_item [OF assms] by simp

theorem Split_EncodeToBytes_witness:
  "Split (EncodeToBytes (Str [7, 8]) @ [9]) = Inr (KString, [7, 8], [9])"
  using Split_EncodeToBytes [of "Str [7, 8]" "[9]"]
  by (simp add: encodeString_def encodeStringHeader_def)

text \<open>C14. \<open>readKind\<close> never indexes out of range except on the one-byte input \<open>[0x81]\<close>, where the
  test for a non-canonical single byte reads \<open>buf[1]\<close> without checking the length.\<close>

theorem readKind_panics_iff: "(\<exists>m. readKind b = Inl (Panic m)) \<longleftrightarrow> b = [0x81]"
proof
  have rs: "readSize c l \<noteq> Inl (Panic m)" for c l m by (simp add: readSize_def Let_def)
  assume "\<exists>m. readKind b = Inl (Panic m)"
  then obtain m where m: "readKind b = Inl (Panic m)" ..
  obtain x bs where b: "b = x # bs" using m by (cases b) (auto simp: readKind_def)
  have 1: "x = 0x81" if "ucast (x - 0x80) = (1::u64)"
  proof -
    have "unat (x - 0x80) = 1" using that
      by (metis unat_ucast_byte_u64 unat_1)
    then have "x - 0x80 = 1" by (metis word_unat_eq_iff unat_1)
    then have "x = 1 + 0x80" by (metis diff_add_cancel)
    then show ?thesis by simp
  qed
  from m show "b = [0x81]"
    unfolding b readKind_def
    by (auto simp: Let_def rbind_def rs 1 split: if_splits list.splits sum.splits)
next
  show "\<exists>m. readKind b = Inl (Panic m)" if "b = [0x81]"
    using that by (simp add: readKind_def)
qed

end
