(* ===== verification/Trie.thy ===== *)
theory Trie
  imports Common Rlp Trie_Encoding
begin

text \<open>
  The Merkle Patricia trie as it is implemented: nodes with cached hashes and lazily loaded
  children (\<open>src/chain/trie/node.go\<close>), lookup, insertion, deletion and commit
  (\<open>src/chain/trie/trie.go\<close>), and the hasher that collapses a trie into its root hash and
  writes its nodes to the database (\<open>src/chain/trie/hasher.go\<close>).

  The Keccak-256 function is the argument \<open>H\<close>. The database is passed along as a value; a trie
  only records whether it has one. Descending into a child that is only known by its hash loads
  it from the database, so the recursion of lookup, insertion and deletion is bounded by a fuel
  argument; theory Trie_Correct shows that the fuel the entry points pass always suffices.
\<close>

section \<open>Nodes\<close>

record nodeFlag =
  nf_hash :: "bytes option"
  nf_gen :: u16
  nf_dirty :: bool

datatype node =
    NilNode
  | ShortNode bytes node nodeFlag
  | FullNode "node list" nodeFlag
  | HashNode bytes
  | ValueNode bytes

fun isShort :: "node \<Rightarrow> bool" where
  "isShort (ShortNode k v f) = True"
| "isShort _ = False"

fun isValue :: "node \<Rightarrow> bool" where
  "isValue (ValueNode v) = True"
| "isValue _ = False"

text \<open>The method \<open>cache\<close> of a nil interface is a nil dereference.\<close>

fun cache :: "node \<Rightarrow> (bytes option \<times> bool) res" where
  "cache (FullNode cs f) = Inr (nf_hash f, nf_dirty f)"
| "cache (ShortNode k v f) = Inr (nf_hash f, nf_dirty f)"
| "cache (HashNode h) = Inr (None, True)"
| "cache (ValueNode v) = Inr (None, True)"
| "cache NilNode = Inl (Panic ''nil pointer dereference'')"

definition flag_canUnload :: "nodeFlag \<Rightarrow> u16 \<Rightarrow> u16 \<Rightarrow> bool" where
  "flag_canUnload f cachegen cachelimit \<longleftrightarrow> \<not> nf_dirty f \<and> cachegen - nf_gen f \<ge> cachelimit"

fun canUnload :: "node \<Rightarrow> u16 \<Rightarrow> u16 \<Rightarrow> bool" where
  "canUnload (FullNode cs f) gen limit = flag_canUnload f gen limit"
| "canUnload (ShortNode k v f) gen limit = flag_canUnload f gen limit"
| "canUnload _ gen limit = False"

text \<open>What the RLP encoder sees of a (collapsed) node: the exported fields of a short node, the
  children of a full node, the bytes of a hash or value; a nil interface is the empty list.\<close>

fun node_item :: "node \<Rightarrow> item" where
  "node_item NilNode = Lst []"
| "node_item (ShortNode k v f) = Lst [Str k, node_item v]"
| "node_item (FullNode cs f) = Lst (map node_item cs)"
| "node_item (HashNode h) = Str h"
| "node_item (ValueNode v) = Str v"

section \<open>Decoding nodes\<close>

fun wrapError :: "err \<Rightarrow> string \<Rightarrow> err" where
  "wrapError (NodeDecodeError what stack) ctx = NodeDecodeError what (stack @ [ctx])"
| "wrapError (Panic m) ctx = Panic m"
| "wrapError e ctx = NodeDecodeError e [ctx]"

text \<open>\<open>fmt.Errorf\<close> with the inner error as an argument; panics pass through.\<close>

fun errorf :: "string \<Rightarrow> err \<Rightarrow> err" where
  "errorf s (Panic m) = Panic m"
| "errorf s e = TextError s"

definition map_err :: "(err \<Rightarrow> err) \<Rightarrow> 'a res \<Rightarrow> 'a res" where
  "map_err f r = (case r of Inl e \<Rightarrow> Inl (f e) | Inr x \<Rightarrow> Inr x)"

lemma map_err_simps [simp]:
  "map_err f (Inl e) = Inl (f e)" "map_err f (Inr x) = Inr x"
  by (simp_all add: map_err_def)

lemma map_err_Inr_iff: "map_err f r = Inr x \<longleftrightarrow> r = Inr x"
  by (simp add: map_err_def split: sum.split)

lemma unat_ucast_Suc: "unat (ucast (y::byte) + 1 :: u64) = Suc (unat y)"
  using unat_byte_less [of y] by (simp add: unat_word_ariths)

lemma Split_shorter:
  assumes "Split b = Inr (k, c, r)"
  shows "length r < length b" and "k = KList \<Longrightarrow> length c < length b"
proof -
  obtain ts cs where rk: "readKind b = Inr (k, ts, cs)"
    and cr: "c = take (unat cs) (drop (unat ts) b)" "r = drop (unat ts + unat cs) b"
    using assms by (auto simp: Split_def rbind_Inr_iff)
  note p = readKind_progress [OF rk]
  then show "length r < length b" by (simp add: cr)
  show "length c < length b" if "k = KList"
  proof -
    have "0 < unat ts"
      using rk that
      by (auto simp: readKind_def Let_def rbind_Inr_iff unat_ucast_Suc split: list.splits if_splits)
    then show ?thesis using p by (simp add: cr min_less_iff_disj)
  qed
qed

lemma SplitList_shorter: "SplitList b = Inr (elems, r) \<Longrightarrow> length elems < length b"
  by (auto simp: SplitList_def rbind_Inr_iff split: if_splits dest: Split_shorter(2))

lemma SplitString_shorter: "SplitString b = Inr (c, r) \<Longrightarrow> length r < length b"
  by (auto simp: SplitString_def rbind_Inr_iff split: if_splits dest: Split_shorter(1))

definition dec_flag :: "bytes option \<Rightarrow> u16 \<Rightarrow> nodeFlag" where
  "dec_flag hash cachegen = \<lparr>nf_hash = hash, nf_gen = cachegen, nf_dirty = False\<rparr>"

text \<open>\<open>CountValues\<close> returns the count 0 with an error, and the caller only looks at the count.\<close>

definition count_elems :: "bytes \<Rightarrow> nat res" where
  "count_elems elems =
     (case CountValues elems of
        Inr c \<Rightarrow> Inr c
      | Inl (Panic m) \<Rightarrow> Inl (Panic m)
      | Inl _ \<Rightarrow> Inr 0)"

function decodeNode :: "bytes option \<Rightarrow> bytes \<Rightarrow> u16 \<Rightarrow> node res"
  and decodeShort :: "bytes option \<Rightarrow> bytes \<Rightarrow> u16 \<Rightarrow> node res"
  and decodeFull_loop :: "nat \<Rightarrow> bytes \<Rightarrow> u16 \<Rightarrow> (node list \<times> bytes) res"
  and decodeFull :: "bytes option \<Rightarrow> bytes \<Rightarrow> u16 \<Rightarrow> node res"
  and decodeRef :: "bytes \<Rightarrow> u16 \<Rightarrow> (node \<times> bytes) res" where
  "decodeNode hash buf cachegen =
     (if length buf = 0 then Inl (RlpError ErrUnexpectedEOF)
      else rbind (map_err (errorf ''decode error'') (SplitList buf)) (\<lambda>(elems, _).
        rbind (count_elems elems) (\<lambda>c.
          if c = 2 then map_err (\<lambda>e. wrapError e ''short'') (decodeShort hash elems cachegen)
          else if c = 17 then map_err (\<lambda>e. wrapError e ''full'') (decodeFull hash elems cachegen)
          else Inl (TextError ''invalid number of list elements''))))"
| "decodeShort hash elems cachegen =
     rbind (SplitString elems) (\<lambda>(kbuf, rest).
       rbind (compactToHex kbuf) (\<lambda>key.
         if hasTerm key then
           rbind (map_err (errorf ''invalid value node'') (SplitString rest)) (\<lambda>(val, _).
             Inr (ShortNode key (ValueNode val) (dec_flag hash cachegen)))
         else
           rbind (map_err (\<lambda>e. wrapError e ''val'') (decodeRef rest cachegen)) (\<lambda>(r, _).
             Inr (ShortNode key r (dec_flag hash cachegen)))))"
| "decodeFull_loop i elems cachegen =
     (if i < 16 then
        rbind (map_err (\<lambda>e. wrapError e (''['' @ nat_str i @ '']'')) (decodeRef elems cachegen)) (\<lambda>(cld, rest).
          rbind (decodeFull_loop (Suc i) rest cachegen) (\<lambda>(cs, rest'). Inr (cld # cs, rest')))
      else Inr ([], elems))"
| "decodeFull hash elems cachegen =
     rbind (decodeFull_loop 0 elems cachegen) (\<lambda>(cs, rest).
       rbind (SplitString rest) (\<lambda>(val, _).
         Inr (FullNode (cs @ [if length val > 0 then ValueNode val else NilNode])
                (dec_flag hash cachegen))))"
| "decodeRef buf cachegen =
     rbind (Split buf) (\<lambda>(kind, val, rest).
       if kind = KList then
         (if length buf - length rest > 32 then Inl (TextError ''oversized embedded node'')
          else rbind (decodeNode None buf cachegen) (\<lambda>n. Inr (n, rest)))
       else if kind = KString \<and> length val = 0 then Inr (NilNode, rest)
       else if kind = KString \<and> length val = 32 then Inr (HashNode val, rest)
       else Inl (TextError ''invalid RLP string size''))"
  by pat_completeness auto
termination
proof -
  have rest: "length rest < length buf"
    if "decodeNode_decodeShort_decodeFull_loop_decodeFull_decodeRef_dom (Inr (Inr (Inr (buf, g))))"
      "decodeRef buf g = Inr (n, rest)" for buf g n rest
    using that
    by (auto simp: decodeRef.psimps rbind_Inr_iff dest: Split_shorter(1) split: if_splits)
  show ?thesis
    by (relation "measure (\<lambda>x. case x of
        Inl (Inl (h, b, g)) \<Rightarrow> 40 * length b
      | Inl (Inr (h, b, g)) \<Rightarrow> 40 * length b + 39
      | Inr (Inl (i, b, g)) \<Rightarrow> 40 * length b + 20 - i
      | Inr (Inr (Inl (h, b, g))) \<Rightarrow> 40 * length b + 30
      | Inr (Inr (Inr (b, g))) \<Rightarrow> 40 * length b + 1)")
      (fastforce simp: map_err_Inr_iff dest: rest SplitList_shorter SplitString_shorter)+
qed

declare decodeNode.simps [simp del] decodeShort.simps [simp del] decodeFull_loop.simps [simp del]
  decodeFull.simps [simp del] decodeRef.simps [simp del]

text \<open>\<open>mustDecodeNode\<close> turns every decoding error into a panic.\<close>

definition mustDecodeNode :: "bytes \<Rightarrow> bytes \<Rightarrow> u16 \<Rightarrow> node res" where
  "mustDecodeNode hash buf cachegen =
     map_err (\<lambda>e. Panic ''node: decode error'') (decodeNode (Some hash) buf cachegen)"

section \<open>The trie\<close>

record trie =
  t_root :: node
  t_hasdb :: bool
  t_originalRoot :: hash
  t_prefix :: "bytes option"
  t_cachegen :: u16
  t_cachelimit :: u16

definition emptyRoot :: hash where
  "emptyRoot =
     [0x56, 0xe8, 0x1f, 0x17, 0x1b, 0xcc, 0x55, 0xa6, 0xff, 0x83, 0x45, 0xe6, 0x92, 0xc0, 0xf8, 0x6e,
      0x5b, 0x48, 0xe0, 0x1b, 0x99, 0x6c, 0xad, 0xc0, 0x01, 0x62, 0x2f, 0xb5, 0xe3, 0x63, 0xb4, 0x21]"

definition newFlag :: "trie \<Rightarrow> nodeFlag" where
  "newFlag t = \<lparr>nf_hash = None, nf_gen = t_cachegen t, nf_dirty = True\<rparr>"

definition resolveHash :: "trie \<Rightarrow> database \<Rightarrow> bytes \<Rightarrow> bytes \<Rightarrow> node res" where
  "resolveHash t db n prefix =
     (if \<not> t_hasdb t then Inl (Panic ''nil pointer dereference'')
      else case db_Get n db of
        Inl _ \<Rightarrow> Inl (MissingNodeError (BytesToHash n) prefix)
      | Inr enc \<Rightarrow> mustDecodeNode n enc (t_cachegen t))"

definition resolve :: "trie \<Rightarrow> database \<Rightarrow> node \<Rightarrow> bytes \<Rightarrow> node res" where
  "resolve t db n prefix = (case n of HashNode h \<Rightarrow> resolveHash t db h prefix | _ \<Rightarrow> Inr n)"

definition New :: "hash \<Rightarrow> bool \<Rightarrow> database \<Rightarrow> trie res" where
  "New root hasdb db =
     (let t = \<lparr>t_root = NilNode, t_hasdb = hasdb, t_originalRoot = root, t_prefix = None,
               t_cachegen = 0, t_cachelimit = 0\<rparr>
      in if root \<noteq> zero_hash \<and> root \<noteq> emptyRoot then
           (if \<not> hasdb then Inl (Panic ''trie.New: cannot use existing root without a database'')
            else rbind (resolveHash t db root []) (\<lambda>rootnode. Inr (t\<lparr>t_root := rootnode\<rparr>)))
         else Inr t)"

definition NewTrieWithPrefix :: "hash \<Rightarrow> bytes \<Rightarrow> bool \<Rightarrow> database \<Rightarrow> trie res" where
  "NewTrieWithPrefix root prefix hasdb db =
     rbind (New root hasdb db) (\<lambda>t. Inr (t\<lparr>t_prefix := Some prefix\<rparr>))"

definition SetCacheLimit :: "u16 \<Rightarrow> trie \<Rightarrow> trie" where
  "SetCacheLimit l t = t\<lparr>t_cachelimit := l\<rparr>"

definition trie_key :: "trie \<Rightarrow> bytes \<Rightarrow> bytes" where
  "trie_key t key = (case t_prefix t of None \<Rightarrow> key | Some p \<Rightarrow> p @ key)"

text \<open>The children of a full node are an array of 17: other indices panic.\<close>

definition child :: "node list \<Rightarrow> byte \<Rightarrow> node res" where
  "child cs i = (if unat i < length cs then Inr (cs ! unat i) else Inl (Panic ''index out of range''))"

fun tryGet :: "trie \<Rightarrow> database \<Rightarrow> nat \<Rightarrow> node \<Rightarrow> bytes \<Rightarrow> nat \<Rightarrow> (bytes option \<times> node \<times> bool) res" where
  "tryGet t db 0 origNode key pos = Inl OutOfFuel"
| "tryGet t db (Suc fuel) origNode key pos =
     (case origNode of
        NilNode \<Rightarrow> Inr (None, NilNode, False)
      | ValueNode v \<Rightarrow> Inr (Some v, origNode, False)
      | ShortNode k v f \<Rightarrow>
          if length key - pos < length k \<or> k \<noteq> take (length k) (drop pos key)
          then Inr (None, origNode, False)
          else rbind (tryGet t db fuel v key (pos + length k)) (\<lambda>(value, newnode, didResolve).
            Inr (value,
                 if didResolve then ShortNode k newnode (f\<lparr>nf_gen := t_cachegen t\<rparr>) else origNode,
                 didResolve))
      | FullNode cs f \<Rightarrow>
          if \<not> pos < length key then Inl (Panic ''index out of range'')
          else rbind (child cs (key ! pos)) (\<lambda>c.
            rbind (tryGet t db fuel c key (pos + 1)) (\<lambda>(value, newnode, didResolve).
              Inr (value,
                   if didResolve
                   then FullNode (cs[unat (key ! pos) := newnode]) (f\<lparr>nf_gen := t_cachegen t\<rparr>)
                   else origNode,
                   didResolve)))
      | HashNode h \<Rightarrow>
          rbind (resolveHash t db h (take pos key)) (\<lambda>c.
            rbind (tryGet t db fuel c key pos) (\<lambda>(value, newnode, _). Inr (value, newnode, True))))"

definition trie_fuel :: "bytes \<Rightarrow> nat" where
  "trie_fuel key = 2 * length key + 2"

definition TryGet :: "trie \<Rightarrow> database \<Rightarrow> bytes \<Rightarrow> bytes option res \<times> trie" where
  "TryGet t db key =
     (let key = keybytesToHex (trie_key t key)
      in case tryGet t db (trie_fuel key) (t_root t) key 0 of
           Inl e \<Rightarrow> (Inl e, t)
         | Inr (value, newroot, didResolve) \<Rightarrow>
             (Inr value, if didResolve then t\<lparr>t_root := newroot\<rparr> else t))"

text \<open>\<open>Get\<close> logs an error and returns the (nil) value.\<close>

definition trie_Get :: "trie \<Rightarrow> database \<Rightarrow> bytes \<Rightarrow> bytes option res \<times> trie" where
  "trie_Get t db key = scatch (\<lambda>t. TryGet t db key) (\<lambda>_. sret None) sret t"

section \<open>Insertion\<close>

definition set_child :: "node list \<Rightarrow> byte \<Rightarrow> node \<Rightarrow> node list res" where
  "set_child cs i c =
     (if unat i < length cs then Inr (cs[unat i := c]) else Inl (Panic ''index out of range''))"

fun insert_node :: "trie \<Rightarrow> database \<Rightarrow> nat \<Rightarrow> node \<Rightarrow> bytes \<Rightarrow> bytes \<Rightarrow> node \<Rightarrow> (bool \<times> node) res" where
  "insert_node t db 0 n prefix key value = Inl OutOfFuel"
| "insert_node t db (Suc fuel) n prefix key value =
     (if length key = 0 then
        (case n of
           ValueNode v \<Rightarrow>
             (case value of
                ValueNode w \<Rightarrow> Inr (v \<noteq> w, value)
              | _ \<Rightarrow> Inl (Panic ''interface conversion''))
         | _ \<Rightarrow> Inr (True, value))
      else case n of
        ShortNode k v f \<Rightarrow>
          (let matchlen = prefixLen key k
           in if matchlen = length k then
                rbind (insert_node t db fuel v (prefix @ take matchlen key) (drop matchlen key) value)
                  (\<lambda>(dirty, nn).
                     if \<not> dirty then Inr (False, n) else Inr (True, ShortNode k nn (newFlag t)))
              else
                rbind (insert_node t db fuel NilNode (prefix @ take (matchlen + 1) k)
                         (drop (matchlen + 1) k) v) (\<lambda>(_, c1).
                rbind (set_child (replicate 17 NilNode) (k ! matchlen) c1) (\<lambda>cs1.
                if \<not> matchlen < length key then Inl (Panic ''index out of range'')
                else
                rbind (insert_node t db fuel NilNode (prefix @ take (matchlen + 1) key)
                         (drop (matchlen + 1) key) value) (\<lambda>(_, c2).
                rbind (set_child cs1 (key ! matchlen) c2) (\<lambda>cs2.
                  let branch = FullNode cs2 (newFlag t)
                  in if matchlen = 0 then Inr (True, branch)
                     else Inr (True, ShortNode (take matchlen key) branch (newFlag t)))))))
      | FullNode cs f \<Rightarrow>
          rbind (child cs (key ! 0)) (\<lambda>c.
          rbind (insert_node t db fuel c (prefix @ [key ! 0]) (drop 1 key) value) (\<lambda>(dirty, nn).
            if \<not> dirty then Inr (False, n)
            else Inr (True, FullNode (cs[unat (key ! 0) := nn]) (newFlag t))))
      | NilNode \<Rightarrow> Inr (True, ShortNode key value (newFlag t))
      | HashNode h \<Rightarrow>
          rbind (resolveHash t db h prefix) (\<lambda>rn.
          rbind (insert_node t db fuel rn prefix key value) (\<lambda>(dirty, nn).
            if \<not> dirty then Inr (False, rn) else Inr (True, nn)))
      | ValueNode v \<Rightarrow> Inl (Panic ''invalid node''))"

section \<open>Deletion\<close>

fun child_pos :: "node list \<Rightarrow> int \<Rightarrow> int \<Rightarrow> int" where
  "child_pos [] i pos = pos"
| "child_pos (cld # cs) i pos =
     (if cld \<noteq> NilNode then (if pos = -1 then child_pos cs (i + 1) i else -2)
      else child_pos cs (i + 1) pos)"

text \<open>The end of the full node case of \<open>delete\<close>: a full node with a single child left becomes a
  short node.\<close>

definition reduce_full :: "trie \<Rightarrow> database \<Rightarrow> bytes \<Rightarrow> node list \<Rightarrow> (bool \<times> node) res" where
  "reduce_full t db prefix cs =
     (let pos = child_pos cs 0 (-1)
      in if pos \<ge> 0 then
           (let cld = cs ! nat pos; one = ShortNode [of_int pos] cld (newFlag t)
            in if pos \<noteq> 16 then
                 rbind (resolve t db cld prefix) (\<lambda>cnode.
                   case cnode of
                     ShortNode ck cv cf \<Rightarrow> Inr (True, ShortNode (of_int pos # ck) cv (newFlag t))
                   | _ \<Rightarrow> Inr (True, one))
               else Inr (True, one))
         else Inr (True, FullNode cs (newFlag t)))"

fun delete_node :: "trie \<Rightarrow> database \<Rightarrow> nat \<Rightarrow> node \<Rightarrow> bytes \<Rightarrow> bytes \<Rightarrow> (bool \<times> node) res" where
  "delete_node t db 0 n prefix key = Inl OutOfFuel"
| "delete_node t db (Suc fuel) n prefix key =
     (case n of
        ShortNode k v f \<Rightarrow>
          (let matchlen = prefixLen key k
           in if matchlen < length k then Inr (False, n)
              else if matchlen = length key then Inr (True, NilNode)
              else
                rbind (delete_node t db fuel v (prefix @ take (length k) key) (drop (length k) key))
                  (\<lambda>(dirty, c).
                     if \<not> dirty then Inr (False, n)
                     else case c of
                       ShortNode ck cv cf \<Rightarrow> Inr (True, ShortNode (k @ ck) cv (newFlag t))
                     | _ \<Rightarrow> Inr (True, ShortNode k c (newFlag t))))
      | FullNode cs f \<Rightarrow>
          if length key = 0 then Inl (Panic ''index out of range'')
          else
            rbind (child cs (key ! 0)) (\<lambda>c.
            rbind (delete_node t db fuel c (prefix @ [key ! 0]) (drop 1 key)) (\<lambda>(dirty, nn).
              if \<not> dirty then Inr (False, n)
              else reduce_full t db prefix (cs[unat (key ! 0) := nn])))
      | ValueNode v \<Rightarrow> Inr (True, NilNode)
      | NilNode \<Rightarrow> Inr (False, NilNode)
      | HashNode h \<Rightarrow>
          rbind (resolveHash t db h prefix) (\<lambda>rn.
          rbind (delete_node t db fuel rn prefix key) (\<lambda>(dirty, nn).
            if \<not> dirty then Inr (False, rn) else Inr (True, nn))))"

definition set_root :: "trie \<Rightarrow> (bool \<times> node) res \<Rightarrow> unit res \<times> trie" where
  "set_root t r = (case r of Inl e \<Rightarrow> (Inl e, t) | Inr (_, n) \<Rightarrow> (Inr (), t\<lparr>t_root := n\<rparr>))"

definition TryUpdate :: "trie \<Rightarrow> database \<Rightarrow> bytes \<Rightarrow> bytes \<Rightarrow> unit res \<times> trie" where
  "TryUpdate t db key value =
     (let k = keybytesToHex (trie_key t key)
      in set_root t
           (if length value \<noteq> 0
            then insert_node t db (trie_fuel k) (t_root t) [] k (ValueNode value)
            else delete_node t db (trie_fuel k) (t_root t) [] k))"

definition TryDelete :: "trie \<Rightarrow> database \<Rightarrow> bytes \<Rightarrow> unit res \<times> trie" where
  "TryDelete t db key =
     (let k = keybytesToHex (trie_key t key)
      in set_root t (delete_node t db (trie_fuel k) (t_root t) [] k))"

text \<open>\<open>Update\<close> and \<open>Delete\<close> log an error and carry on.\<close>

definition trie_Update :: "trie \<Rightarrow> database \<Rightarrow> bytes \<Rightarrow> bytes \<Rightarrow> unit res \<times> trie" where
  "trie_Update t db key value = signore (\<lambda>t. TryUpdate t db key value) t"

definition trie_Delete :: "trie \<Rightarrow> database \<Rightarrow> bytes \<Rightarrow> unit res \<times> trie" where
  "trie_Delete t db key = signore (\<lambda>t. TryDelete t db key) t"

section \<open>Hashing and commit\<close>

text \<open>The database argument of the hasher is \<open>None\<close> when the trie is only hashed (\<open>Hash\<close>) and the
  database that is written to when it is committed (\<open>CommitTo\<close>).\<close>

definition store :: "(bytes \<Rightarrow> bytes) \<Rightarrow> node \<Rightarrow> database option \<Rightarrow> bool \<Rightarrow> (node \<times> database option) res" where
  "store H n db force =
     (case n of
        NilNode \<Rightarrow> Inr (n, db)
      | HashNode h \<Rightarrow> Inr (n, db)
      | _ \<Rightarrow>
          (let tmp = EncodeToBytes (node_item n)
           in if length tmp < 32 \<and> \<not> force then Inr (n, db)
              else rbind (cache n) (\<lambda>(h, _).
                     let hash = (case h of None \<Rightarrow> H tmp | Some h' \<Rightarrow> h')
                     in Inr (HashNode hash, map_option (db_Put hash tmp) db))))"

text \<open>The shortcut at the start of \<open>hash\<close>: what is returned for a node whose hash is cached.\<close>

definition cached_hash :: "u16 \<Rightarrow> u16 \<Rightarrow> node \<Rightarrow> bytes option \<times> bool \<Rightarrow> database option \<Rightarrow> (node \<times> node) option" where
  "cached_hash cachegen cachelimit n c db =
     (case c of
        (None, _) \<Rightarrow> None
      | (Some hash, dirty) \<Rightarrow>
          if db = None then Some (HashNode hash, n)
          else if canUnload n cachegen cachelimit then Some (HashNode hash, HashNode hash)
          else if \<not> dirty then Some (HashNode hash, n)
          else None)"

definition set_flags :: "node \<Rightarrow> node \<Rightarrow> bool \<Rightarrow> node" where
  "set_flags cached hashed commit =
     (let cachedHash = (case hashed of HashNode h \<Rightarrow> Some h | _ \<Rightarrow> None);
          upd = (\<lambda>f. let f' = f\<lparr>nf_hash := cachedHash\<rparr>
                     in if commit then f'\<lparr>nf_dirty := False\<rparr> else f')
      in case cached of
           ShortNode k v f \<Rightarrow> ShortNode k v (upd f)
         | FullNode cs f \<Rightarrow> FullNode cs (upd f)
         | _ \<Rightarrow> cached)"

definition nil_value :: "node \<Rightarrow> node" where
  "nil_value n = (if n = NilNode then ValueNode [] else n)"

fun hash_node :: "(bytes \<Rightarrow> bytes) \<Rightarrow> u16 \<Rightarrow> u16 \<Rightarrow> node \<Rightarrow> database option \<Rightarrow> bool
    \<Rightarrow> (node \<times> node \<times> database option) res"
  and hashChildren :: "(bytes \<Rightarrow> bytes) \<Rightarrow> u16 \<Rightarrow> u16 \<Rightarrow> node \<Rightarrow> database option
    \<Rightarrow> (node \<times> node \<times> database option) res"
  and hashChildren_loop :: "(bytes \<Rightarrow> bytes) \<Rightarrow> u16 \<Rightarrow> u16 \<Rightarrow> nat \<Rightarrow> node list \<Rightarrow> database option
    \<Rightarrow> (node list \<times> node list \<times> database option) res" where
  "hash_node H gen lim n db force =
     rbind (cache n) (\<lambda>c.
       case cached_hash gen lim n c db of
         Some (hashed, cached) \<Rightarrow> Inr (hashed, cached, db)
       | None \<Rightarrow>
           rbind (hashChildren H gen lim n db) (\<lambda>(collapsed, cached, db1).
           rbind (store H collapsed db1 force) (\<lambda>(hashed, db2).
             Inr (hashed, set_flags cached hashed (db \<noteq> None), db2))))"
| "hashChildren H gen lim (ShortNode k v f) db =
     rbind (hexToCompact k) (\<lambda>ck.
       if isValue v then Inr (ShortNode ck v f, ShortNode k v f, db)
       else rbind (hash_node H gen lim v db False) (\<lambda>(hv, cv, db1).
              Inr (ShortNode ck (nil_value hv) f, ShortNode k cv f, db1)))"
| "hashChildren H gen lim (FullNode cs f) db =
     rbind (hashChildren_loop H gen lim 0 cs db) (\<lambda>(collapsed, cached, db1).
       Inr (FullNode collapsed f, FullNode cached f, db1))"
| "hashChildren H gen lim n db = Inr (n, n, db)"
| "hashChildren_loop H gen lim i [] db = Inr ([], [], db)"
| "hashChildren_loop H gen lim i (c # cs) db =
     rbind (if i < 16 \<and> c \<noteq> NilNode then hash_node H gen lim c db False
            else Inr (nil_value c, c, db)) (\<lambda>(hc, cc, db1).
     rbind (hashChildren_loop H gen lim (Suc i) cs db1) (\<lambda>(hcs, ccs, db2).
       Inr (hc # hcs, cc # ccs, db2)))"

declare hash_node.simps [simp del]

definition hashRoot :: "(bytes \<Rightarrow> bytes) \<Rightarrow> trie \<Rightarrow> database option \<Rightarrow> (node \<times> node \<times> database option) res" where
  "hashRoot H t db =
     (if t_root t = NilNode then Inr (HashNode emptyRoot, NilNode, db)
      else hash_node H (t_cachegen t) (t_cachelimit t) (t_root t) db True)"

fun as_hash :: "node \<Rightarrow> hash res" where
  "as_hash (HashNode h) = Inr (BytesToHash h)"
| "as_hash _ = Inl (Panic ''interface conversion'')"

definition trie_Hash :: "(bytes \<Rightarrow> bytes) \<Rightarrow> trie \<Rightarrow> hash res \<times> trie" where
  "trie_Hash H t =
     (case hashRoot H t None of
        Inl e \<Rightarrow> (Inl e, t)
      | Inr (hash, cached, _) \<Rightarrow> (as_hash hash, t\<lparr>t_root := cached\<rparr>))"

definition CommitTo :: "(bytes \<Rightarrow> bytes) \<Rightarrow> trie \<Rightarrow> database \<Rightarrow> hash res \<times> trie \<times> database" where
  "CommitTo H t db =
     (case hashRoot H t (Some db) of
        Inl e \<Rightarrow> (Inl e, t, db)
      | Inr (hash, cached, db') \<Rightarrow>
          (as_hash hash, t\<lparr>t_root := cached, t_cachegen := t_cachegen t + 1\<rparr>,
           case db' of Some d \<Rightarrow> d | None \<Rightarrow> db))"

definition Commit :: "(bytes \<Rightarrow> bytes) \<Rightarrow> trie \<Rightarrow> database \<Rightarrow> hash res \<times> trie \<times> database" where
  "Commit H t db =
     (if \<not> t_hasdb t then (Inl (Panic ''Commit called on trie with nil database''), t, db)
      else CommitTo H t db)"

end
