(* ===== verification/Trie_Rep.thy ===== *)
theory Trie_Rep
  imports Patricia Trie
begin

text \<open>
  What the nodes of the code stand for.  \<open>penc\<close> and \<open>phash\<close> are the RLP form and the hash of a trie
  of theory Patricia; \<open>rep\<close> relates a node of the code, together with the database, to the trie
  it stands for, with everything the code may have cached or unloaded.  The lemmas show that
  decoding a stored node gives a representation of it and that \<open>tryGet\<close>, \<open>insert_node\<close> and
  \<open>delete_node\<close> refine lookup, \<open>pinsert\<close> and \<open>pdelete\<close>, with enough fuel.
\<close>

section \<open>Encoding a trie\<close>

fun is_pnode :: "ptrie \<Rightarrow> bool" where
  "is_pnode (PShort s t) = True"
| "is_pnode (PFull cs) = True"
| "is_pnode _ = False"

definition compact :: "bytes \<Rightarrow> bytes" where
  "compact s = (case hexToCompact s of Inr c \<Rightarrow> c | Inl _ \<Rightarrow> [])"

definition collapse :: "(bytes \<Rightarrow> bytes) \<Rightarrow> ptrie \<Rightarrow> item \<Rightarrow> item" where
  "collapse H t x =
     (if is_pnode t \<and> 32 \<le> length (encode_item x) then Str (H (encode_item x)) else x)"

fun penc :: "(bytes \<Rightarrow> bytes) \<Rightarrow> ptrie \<Rightarrow> item" where
  "penc H PNil = Str []"
| "penc H (PVal v) = Str v"
| "penc H (PShort s t) = Lst [Str (compact s), collapse H t (penc H t)]"
| "penc H (PFull cs) = Lst (map (\<lambda>c. collapse H c (penc H c)) cs)"

definition pref :: "(bytes \<Rightarrow> bytes) \<Rightarrow> ptrie \<Rightarrow> item" where
  "pref H t = collapse H t (penc H t)"

definition nenc :: "(bytes \<Rightarrow> bytes) \<Rightarrow> ptrie \<Rightarrow> bytes" where
  "nenc H t = encode_item (penc H t)"

definition phash :: "(bytes \<Rightarrow> bytes) \<Rightarrow> ptrie \<Rightarrow> hash" where
  "phash H t = H (nenc H t)"

definition big :: "(bytes \<Rightarrow> bytes) \<Rightarrow> ptrie \<Rightarrow> bool" where
  "big H t \<longleftrightarrow> is_pnode t \<and> 32 \<le> length (nenc H t)"

lemma pref_eq: "pref H t = (if big H t then Str (phash H t) else penc H t)"
  by (simp add: pref_def collapse_def big_def nenc_def phash_def)

lemma penc_short: "penc H (PShort s t) = Lst [Str (compact s), pref H t]"
  by (simp add: pref_def)

lemma penc_full: "penc H (PFull cs) = Lst (map (pref H) cs)"
  by (simp add: pref_def [abs_def])

lemma pnode_is_pnode: "pnode t \<Longrightarrow> is_pnode t"
  by (cases t) simp_all

lemma is_pnode_pchild: "pchild x t \<Longrightarrow> is_pnode t \<Longrightarrow> pnode t \<and> x \<noteq> 16"
  by (auto simp: pchild_def split: if_splits)

text \<open>Keys and values of a trie are far shorter than what an RLP length can express.\<close>

definition pbnd :: "byte \<Rightarrow> ptrie \<Rightarrow> bool" where
  "pbnd x t \<longleftrightarrow> (\<forall>k v. child_key x k \<longrightarrow> plookup t k = Some v \<longrightarrow> length k < 2 ^ 32 \<and> length v < 2 ^ 32)"

lemma pbndD: "pbnd x t \<Longrightarrow> child_key x k \<Longrightarrow> plookup t k = Some v \<Longrightarrow> length k < 2 ^ 32 \<and> length v < 2 ^ 32"
  by (auto simp: pbnd_def)

lemma pbnd_PNil [simp]: "pbnd x PNil"
  by (simp add: pbnd_def)

lemma pbnd_short_val:
  assumes "pnode (PShort s (PVal v))" "pbnd 0 (PShort s (PVal v))"
  shows "length s < 2 ^ 32" "length v < 2 ^ 32"
  using assms by (auto simp: pbnd_def child_key_def dest: spec [of _ s])

lemma pbnd_short_full:
  assumes "pnode (PShort s (PFull cs))" "pbnd 0 (PShort s (PFull cs))"
  shows "length s < 2 ^ 32" "pbnd 0 (PFull cs)"
proof -
  have s: "nibbles s" "pnode (PFull cs)" using assms(1) by auto
  have *: "length (s @ k) < 2 ^ 32 \<and> length v < 2 ^ 32"
    if "term_key k" "plookup (PFull cs) k = Some v" for k v
    using pbndD [OF assms(2), of "s @ k" v] that s(1) plookup_short_append [of s "PFull cs" k]
    by (simp add: child_key_def term_key_append_nibbles del: plookup.simps)
  then show "pbnd 0 (PFull cs)" by (fastforce simp: pbnd_def child_key_def simp del: plookup.simps)
  obtain k where "term_key k" "plookup (PFull cs) k \<noteq> None"
    using pchild_has_key [of 0 "PFull cs"] s(2) by (auto simp: pchild_def child_key_def)
  then show "length s < 2 ^ 32" using * by fastforce
qed

lemma pbnd_child:
  assumes "pnode (PFull cs)" "pbnd 0 (PFull cs)" "x \<le> 16"
  shows "pbnd x (cs ! unat x)"
  unfolding pbnd_def
proof (intro allI impI)
  fix k v assume "child_key x k" "plookup (cs ! unat x) k = Some v"
  then have "term_key (x # k)" "plookup (PFull cs) (x # k) = Some v"
    using assms by (simp_all add: term_key_Cons_child plookup_full pnode_full_iff del: plookup.simps)
  then show "length k < 2 ^ 32 \<and> length v < 2 ^ 32"
    using pbndD [OF assms(2), of "x # k" v] by (simp add: child_key_def del: plookup.simps)
qed

lemma pbnd_terminator: "pbnd 16 (PVal v) \<Longrightarrow> length v < 2 ^ 32"
  by (simp add: pbnd_def child_key_def)

section \<open>Lengths of encodings\<close>

lemma length_putint_le: "length (putint i) \<le> 8"
  by (simp add: putint_def)

lemma length_puthead_le: "length (puthead a b sz) \<le> 9"
  using length_putint_le [of sz] by (simp add: puthead_def Let_def)

lemma length_encodeString_le: "length (encodeString b) \<le> length b + 9"
  using length_putint_le [of "of_nat (length b)"]
  by (simp add: encodeString_def encodeStringHeader_def Let_def)

lemma length_encode_Lst_le: "length (encode_item (Lst xs)) \<le> 9 + length (concat (map encode_item xs))"
  using length_puthead_le by simp

lemma length_decodeNibbles: "decodeNibbles k = Inr c \<Longrightarrow> length c \<le> length k"
  by (induction k arbitrary: c rule: decodeNibbles.induct) (fastforce simp: rbind_Inr_iff)+

lemma length_compact: "length (compact s) \<le> length s + 1"
  by (auto simp: compact_def hexToCompact_def Let_def rbind_def split: sum.splits
      dest!: length_decodeNibbles)

lemma compactToHex_compact:
  "nibbles s \<or> term_key s \<Longrightarrow> hexToCompact s = Inr (compact s) \<and> compactToHex (compact s) = Inr s"
  using compactToHex_hexToCompact [of s s] compactToHex_hexToCompact [of "butlast s" s]
  by (auto simp: compact_def term_key_def)

text \<open>The hash function returns 32 bytes.\<close>

definition hash32 :: "(bytes \<Rightarrow> bytes) \<Rightarrow> bool" where
  "hash32 H \<longleftrightarrow> (\<forall>x. length (H x) = 32)"

lemma hash32_length: "hash32 H \<Longrightarrow> length (H x) = 32"
  by (simp add: hash32_def)

lemma length_pref_le:
  assumes "hash32 H"
  shows "length (encode_item (pref H t)) \<le> (case t of PVal v \<Rightarrow> length v + 9 | _ \<Rightarrow> 41)"
  using hash32_length [OF assms] length_encodeString_le [of "phash H t"] length_encodeString_le
  by (cases t) (auto simp: pref_eq big_def nenc_def phash_def encodeString_def encodeStringHeader_def
      simp del: encode_item.simps(2))

lemma nenc_bound:
  assumes H: "hash32 H" and "pnode t" "pbnd 0 t"
  shows "length (nenc H t) < 2 ^ 40"
proof (cases t rule: pnode.cases)
  case (1 s v)
  then show ?thesis
    using pbnd_short_val [of s v] assms(2,3) length_encode_Lst_le [of "[Str (compact s), Str v]"]
      length_encodeString_le [of "compact s"] length_encodeString_le [of v] length_compact [of s]
    by (simp add: nenc_def penc_short pref_eq big_def del: penc.simps(3) encode_item.simps(2))
next
  case (2 s cs)
  then show ?thesis
    using pbnd_short_full [of s cs] assms(2,3)
      length_encode_Lst_le [of "[Str (compact s), pref H (PFull cs)]"]
      length_encodeString_le [of "compact s"] length_compact [of s] length_pref_le [OF H, of "PFull cs"]
    by (simp add: nenc_def penc_short del: penc.simps encode_item.simps(2))
next
  case (3 cs)
  have len: "length cs = 17" using assms(2) 3 by (simp add: pnode_full_iff)
  have "length (encode_item (pref H c)) \<le> 2 ^ 32 + 41" if c: "c \<in> set cs" for c
  proof (cases c)
    case (PVal v)
    obtain i where i: "i < 17" "c = cs ! i" using c len by (metis in_set_conv_nth)
    have "\<not> pnode (cs ! i)" by (metis PVal i(2) is_PVal.simps(1) pnode_not_val)
    then have "i = 16" using pfull_nth_child(1) [of cs i] assms(2) 3 i PVal of_nat_eq_16 [of i]
      by (auto simp: pchild_def split: if_splits)
    then have "pbnd 16 (PVal v)" using pbnd_child [of cs 16] assms(2,3) 3 i PVal by simp
    then show ?thesis using PVal length_pref_le [OF H, of c] pbnd_terminator [of v] by simp
  qed (use length_pref_le [OF H, of c] in auto)
  then have "length (concat (map encode_item (map (pref H) cs))) \<le> (2 ^ 32 + 41) * 17"
    using sum_list_map_mono_bound [of cs "\<lambda>c. length (encode_item (pref H c))" "2 ^ 32 + 41"] len
    by (simp add: length_concat comp_def)
  then show ?thesis
    using 3 length_encode_Lst_le [of "map (pref H) cs"]
    by (simp add: nenc_def penc_full del: penc.simps encode_item.simps(2))
qed (use assms(2) in simp_all)

section \<open>Decoding a stored node\<close>

text \<open>The node that \<open>decodeNode\<close> makes of the encoding of a trie: children of at least 32 bytes are
  hash references, smaller ones are decoded in place.\<close>

fun dnode :: "(bytes \<Rightarrow> bytes) \<Rightarrow> u16 \<Rightarrow> bytes option \<Rightarrow> ptrie \<Rightarrow> node" where
  "dnode H g h PNil = NilNode"
| "dnode H g h (PVal v) = ValueNode v"
| "dnode H g h (PShort s t) =
     ShortNode s (if big H t then HashNode (phash H t) else dnode H g None t) (dec_flag h g)"
| "dnode H g h (PFull cs) =
     FullNode (map (\<lambda>c. if big H c then HashNode (phash H c) else dnode H g None c) cs) (dec_flag h g)"

definition dref :: "(bytes \<Rightarrow> bytes) \<Rightarrow> u16 \<Rightarrow> ptrie \<Rightarrow> node" where
  "dref H g t = (if big H t then HashNode (phash H t) else dnode H g None t)"

lemma dnode_short: "dnode H g h (PShort s t) = ShortNode s (dref H g t) (dec_flag h g)"
  by (simp add: dref_def)

lemma dnode_full: "dnode H g h (PFull cs) = FullNode (map (dref H g) cs) (dec_flag h g)"
  by (simp add: dref_def [abs_def])

lemma count_elems_encode:
  "length (concat (map encode_item xs)) < 2 ^ 64 \<Longrightarrow> count_elems (concat (map encode_item xs)) = Inr (length xs)"
  by (simp add: count_elems_def CountValues_encode_items)

lemma SplitList_encode:
  "length (encode_item (Lst xs) @ r) < 2 ^ 64
   \<Longrightarrow> SplitList (encode_item (Lst xs) @ r) = Inr (concat (map encode_item xs), r)"
  using Split_encode_item [of "Lst xs" r] by (simp add: SplitList_def)

lemma SplitString_encode:
  "length (encode_item (Str b) @ r) < 2 ^ 64 \<Longrightarrow> SplitString (encode_item (Str b) @ r) = Inr (b, r)"
  using Split_encode_item [of "Str b" r] by (simp add: SplitString_def)

text \<open>Decoding the payload of a list header commutes with the choice of node kind.\<close>

lemma decodeNode_list:
  assumes "length (encode_item (Lst xs) @ r) < 2 ^ 64" "length xs = 2 \<or> length xs = 17"
  shows "decodeNode h (encode_item (Lst xs) @ r) g =
    (if length xs = 2
     then map_err (\<lambda>e. wrapError e ''short'') (decodeShort h (concat (map encode_item xs)) g)
     else map_err (\<lambda>e. wrapError e ''full'') (decodeFull h (concat (map encode_item xs)) g))"
proof -
  have ne: "encode_item (Lst xs) @ r \<noteq> []" by (simp add: puthead_def Let_def)
  have "length (concat (map encode_item xs)) < 2 ^ 64" using assms(1) by simp
  from count_elems_encode [OF this] show ?thesis
    using SplitList_encode [OF assms(1)] ne assms(2)
    by (auto simp: decodeNode.simps simp del: encode_item.simps append_is_Nil_conv)
qed

lemma decodeShort_val:
  assumes "term_key s" "length (encode_item (Str (compact s)) @ encode_item (Str v)) < 2 ^ 64"
  shows "decodeShort h (encode_item (Str (compact s)) @ encode_item (Str v)) g =
         Inr (ShortNode s (ValueNode v) (dec_flag h g))"
  using SplitString_encode [OF assms(2)] SplitString_encode [of v "[]"] assms
    compactToHex_compact [of s] term_key_hasTerm [OF assms(1)]
  by (simp add: decodeShort.simps)

lemma decodeShort_ref:
  assumes "nibbles s" "length (encode_item (Str (compact s)) @ r) < 2 ^ 64"
    and "decodeRef r g = Inr (n, r')"
  shows "decodeShort h (encode_item (Str (compact s)) @ r) g = Inr (ShortNode s n (dec_flag h g))"
  using SplitString_encode [OF assms(2)] assms compactToHex_compact [of s] nibbles_not_hasTerm [OF assms(1)]
  by (simp add: decodeShort.simps)

lemma decodeFull_loop_refs:
  assumes "\<And>j r. i \<le> j \<Longrightarrow> j < 16 \<Longrightarrow> length r \<le> length rest + length (concat (map enc (drop (Suc j) cs)))
      \<Longrightarrow> decodeRef (enc (cs ! j) @ r) g = Inr (d (cs ! j), r)"
    and "i \<le> 16" "length cs = 16"
  shows "decodeFull_loop i (concat (map enc (drop i cs)) @ rest) g = Inr (map d (drop i cs), rest)"
  using assms(2,1)
proof (induction rule: inc_induct)
  case base
  then show ?case using assms(3) by (simp add: decodeFull_loop.simps)
next
  case (step n)
  have d: "drop n cs = cs ! n # drop (Suc n) cs" using step.hyps assms(3) by (simp add: Cons_nth_drop_Suc)
  have "decodeFull_loop (Suc n) (concat (map enc (drop (Suc n) cs)) @ rest) g =
        Inr (map d (drop (Suc n) cs), rest)"
    using step.prems by (intro step.IH) simp_all
  then show ?case
    using step.hyps step.prems [of n "concat (map enc (drop (Suc n) cs)) @ rest"]
    by (simp add: decodeFull_loop.simps [of n] d)
qed

lemma dref_terminator: "pchild 16 t \<Longrightarrow> dref H g t = (case t of PVal v \<Rightarrow> ValueNode v | _ \<Rightarrow> NilNode)"
  by (auto simp: pchild_def dref_def big_def)

lemma decodeFull_refs:
  assumes cs: "length cs = 17" "pchild 16 (cs ! 16)"
    and refs: "\<And>j r. j < 16 \<Longrightarrow> length r \<le> length (concat (map (\<lambda>c. encode_item (pref H c)) cs))
      \<Longrightarrow> decodeRef (encode_item (pref H (cs ! j)) @ r) g = Inr (dref H g (cs ! j), r)"
    and len: "length (concat (map (\<lambda>c. encode_item (pref H c)) cs)) < 2 ^ 64"
  shows "decodeFull h (concat (map (\<lambda>c. encode_item (pref H c)) cs)) g =
         Inr (FullNode (map (dref H g) cs) (dec_flag h g))"
proof -
  let ?e = "\<lambda>c. encode_item (pref H c)" and ?l = "cs ! 16"
  have split: "cs = take 16 cs @ [?l]"
    using cs(1) take_Suc_conv_app_nth [of 16 cs] by simp
  have conc: "concat (map ?e cs) = concat (map ?e (drop 0 (take 16 cs))) @ ?e ?l"
    by (subst (1) split) simp
  have loop: "decodeFull_loop 0 (concat (map ?e (drop 0 (take 16 cs))) @ ?e ?l) g =
      Inr (map (dref H g) (drop 0 (take 16 cs)), ?e ?l)"
  proof (rule decodeFull_loop_refs)
    fix j and r :: bytes assume "j < 16" "length r \<le> length (?e ?l) + length (concat (map ?e (drop (Suc j) (take 16 cs))))"
    moreover have "length (concat (map ?e (drop (Suc j) (take 16 cs)))) \<le> length (concat (map ?e (take 16 cs)))"
      by (metis append_take_drop_id [of "Suc j" "take 16 cs"] concat_append le_add2 length_append map_append)
    ultimately show "decodeRef (?e (take 16 cs ! j) @ r) g = Inr (dref H g (take 16 cs ! j), r)"
      using refs [of j r] conc by simp
  qed (use cs(1) in simp_all)
  obtain v where v: "pref H ?l = Str v" "v = (case ?l of PVal w \<Rightarrow> w | _ \<Rightarrow> [])"
    using cs(2) by (auto simp: pchild_def pref_eq big_def)
  have "SplitString (?e ?l) = Inr (v, [])"
    using SplitString_encode [of v "[]"] v len conc by simp
  moreover have "dref H g ?l = (if length v > 0 then ValueNode v else NilNode)"
    using cs(2) v(2) by (auto simp: pchild_def dref_terminator)
  ultimately show ?thesis
    using loop unfolding conc by (subst (2) split) (simp add: decodeFull.simps)
qed

lemma penc_node_list: "is_pnode t \<Longrightarrow> \<exists>xs. penc H t = Lst xs"
  by (cases t) auto

lemma decodeRef_pref:
  assumes H: "hash32 H" and t: "t = PNil \<or> pnode t" and b: "pbnd 0 t" and r: "length r < 2 ^ 60"
    and dec: "pnode t \<Longrightarrow> decodeNode None (nenc H t @ r) g = Inr (dnode H g None t)"
  shows "decodeRef (encode_item (pref H t) @ r) g = Inr (dref H g t, r)"
proof (cases "t = PNil")
  case True
  then show ?thesis
    using Split_encode_item [of "Str []" r] r
    by (simp add: pref_eq big_def dref_def decodeRef.simps encodeString_def encodeStringHeader_def)
next
  case False
  then have n: "pnode t" using t by simp
  have enc: "length (nenc H t @ r) < 2 ^ 64" using nenc_bound [OF H n b] r by simp
  show ?thesis
  proof (cases "big H t")
    case True
    have "length (phash H t) = 32" using hash32_length [OF H] by (simp add: phash_def)
    moreover have "length (encode_item (Str (phash H t)) @ r) < 2 ^ 64"
      using length_encodeString_le [of "phash H t"] calculation r by simp
    ultimately show ?thesis
      using Split_encode_item [of "Str (phash H t)" r] True
      by (auto simp: pref_eq dref_def decodeRef.simps)
  next
    case False
    obtain xs where xs: "penc H t = Lst xs" using penc_node_list [OF pnode_is_pnode [OF n]] by blast
    have "Split (nenc H t @ r) = Inr (KList, item_content (penc H t), r)"
      using Split_encode_item [of "penc H t" r] enc xs by (simp add: nenc_def del: encode_item.simps)
    moreover have "length (nenc H t) < 32" using False pnode_is_pnode [OF n] by (simp add: big_def)
    ultimately show ?thesis
      using dec [OF n] False by (simp add: pref_eq dref_def decodeRef.simps nenc_def [symmetric])
  qed
qed

lemma decode_node:
  assumes H: "hash32 H"
  shows "pnode t \<Longrightarrow> pbnd 0 t \<Longrightarrow> length r < 2 ^ 60
    \<Longrightarrow> decodeNode h (nenc H t @ r) g = Inr (dnode H g h t)"
proof (induction "size t" arbitrary: t r h rule: less_induct)
  case less
  note enc = nenc_bound [OF H less(2,3)]
  have ref: "decodeRef (encode_item (pref H u) @ r') g = Inr (dref H g u, r')"
    if "size u < size t" "u = PNil \<or> pnode u" "pbnd 0 u" "length r' < 2 ^ 60" for u r'
    using that less(1) [of u r' None] by (intro decodeRef_pref H) auto
  show ?case
  proof (cases t rule: pnode.cases)
    case (1 s v)
    let ?xs = "[Str (compact s), Str v]"
    have p: "penc H t = Lst ?xs" using 1 by (simp add: penc_short pref_eq big_def del: penc.simps(3))
    have k: "term_key s" using 1 less(2) by simp
    have "decodeShort h (concat (map encode_item ?xs)) g = Inr (dnode H g h t)"
      using decodeShort_val [OF k, of v h g] enc p 1 by (simp add: nenc_def big_def)
    then show ?thesis
      using decodeNode_list [of ?xs r h g] enc less(4) p by (simp add: nenc_def del: encode_item.simps)
  next
    case (2 s cs)
    let ?xs = "[Str (compact s), pref H (PFull cs)]"
    have p: "penc H t = Lst ?xs" using 2 by (simp only: penc_short)
    have k: "nibbles s" "pnode (PFull cs)" using 2 less(2) by simp_all
    have "decodeRef (encode_item (pref H (PFull cs)) @ []) g = Inr (dref H g (PFull cs), [])"
      using pbnd_short_full(2) [of s cs] less(2,3) 2 k by (intro ref) simp_all
    then have "decodeShort h (concat (map encode_item ?xs)) g = Inr (dnode H g h t)"
      using decodeShort_ref [OF k(1), of "encode_item (pref H (PFull cs))" g _ _ h] enc p 2
      by (simp add: nenc_def dref_def del: encode_item.simps(1))
    then show ?thesis
      using decodeNode_list [of ?xs r h g] enc less(4) p by (simp add: nenc_def del: encode_item.simps)
  next
    case (3 cs)
    let ?xs = "map (pref H) cs"
    have n: "pnode (PFull cs)" "pbnd 0 (PFull cs)" using 3 less(2,3) by simp_all
    have len: "length cs = 17" using n(1) by (simp add: pnode_full_iff)
    have p: "penc H t = Lst ?xs" using 3 by (simp only: penc_full)
    have e: "length (concat (map encode_item ?xs)) < 2 ^ 40" using enc p by (simp add: nenc_def)
    have "decodeFull h (concat (map (\<lambda>c. encode_item (pref H c)) cs)) g = Inr (dnode H g h t)"
      unfolding 3 dnode_full
    proof (rule decodeFull_refs)
      show "pchild 16 (cs ! 16)" using pnode_child [OF n(1), of 16] by simp
      fix j :: nat and r' :: bytes
      assume j: "j < 16" "length r' \<le> length (concat (map (\<lambda>c. encode_item (pref H c)) cs))"
      show "decodeRef (encode_item (pref H (cs ! j)) @ r') g = Inr (dref H g (cs ! j), r')"
      proof (rule ref)
        show "size (cs ! j) < size t" using size_nth_pfull [of j cs "[]"] len j 3 by (simp add: pleaf_def)
        show "cs ! j = PNil \<or> pnode (cs ! j)"
          using pfull_nth_child(1) [OF n(1), of j] j of_nat_eq_16 [of j] by (simp add: pchild_def)
        have "pbnd (of_nat j) (cs ! j)"
          using pbnd_child [OF n of_nat_le_16, of j] j by (simp add: unat_of_nat_17)
        then show "pbnd 0 (cs ! j)" using j of_nat_eq_16 [of j] by (simp add: pbnd_def child_key_def)
        show "length r' < 2 ^ 60" using j e by (simp add: comp_def)
      qed
    qed (use len e in \<open>simp_all add: comp_def\<close>)
    then show ?thesis
      using decodeNode_list [of ?xs r h g] enc less(4) p len
      by (simp add: nenc_def comp_def del: encode_item.simps)
  qed (use less(2) in simp_all)
qed

section \<open>Representation\<close>

definition saved :: "(bytes \<Rightarrow> bytes) \<Rightarrow> database \<Rightarrow> ptrie \<Rightarrow> bool" where
  "saved H d t \<longleftrightarrow> d (phash H t) = Some (nenc H t)"

text \<open>Every node of at least 32 bytes below and including \<open>t\<close> is in the database.\<close>

fun pstored :: "(bytes \<Rightarrow> bytes) \<Rightarrow> database \<Rightarrow> ptrie \<Rightarrow> bool" where
  "pstored H d PNil = True"
| "pstored H d (PVal v) = True"
| "pstored H d (PShort s t) \<longleftrightarrow> (big H (PShort s t) \<longrightarrow> saved H d (PShort s t)) \<and> pstored H d t"
| "pstored H d (PFull cs) \<longleftrightarrow>
     (big H (PFull cs) \<longrightarrow> saved H d (PFull cs)) \<and> (\<forall>c \<in> set cs. pstored H d c)"

text \<open>A cached hash is the hash of the node, only the root may have one with less than 32 bytes,
  and a node that is not dirty has been written to the database with everything below it, or is
  so small that it is kept inside its parent.\<close>

definition flag_ok :: "(bytes \<Rightarrow> bytes) \<Rightarrow> database \<Rightarrow> bool \<Rightarrow> nodeFlag \<Rightarrow> ptrie \<Rightarrow> bool" where
  "flag_ok H d root f t \<longleftrightarrow>
     (case nf_hash f of
        None \<Rightarrow> nf_dirty f \<or> \<not> root \<and> \<not> big H t
      | Some h \<Rightarrow> h = phash H t \<and> (root \<or> big H t)
                  \<and> (\<not> nf_dirty f \<longrightarrow> saved H d t \<and> pstored H d t))"

fun rep :: "(bytes \<Rightarrow> bytes) \<Rightarrow> database \<Rightarrow> bool \<Rightarrow> node \<Rightarrow> ptrie \<Rightarrow> bool" where
  "rep H d root NilNode t \<longleftrightarrow> t = PNil"
| "rep H d root (ValueNode v) t \<longleftrightarrow> t = PVal v"
| "rep H d root (HashNode h) t \<longleftrightarrow>
     is_pnode t \<and> h = phash H t \<and> (root \<or> big H t) \<and> saved H d t \<and> pstored H d t"
| "rep H d root (ShortNode k v f) t \<longleftrightarrow>
     (\<exists>u. t = PShort k u \<and> rep H d False v u) \<and> flag_ok H d root f t"
| "rep H d root (FullNode cs f) t \<longleftrightarrow>
     (\<exists>ts. t = PFull ts \<and> list_all2 (rep H d False) cs ts) \<and> flag_ok H d root f t"

lemma saved_mono: "d \<subseteq>\<^sub>m d' \<Longrightarrow> saved H d t \<Longrightarrow> saved H d' t"
  by (auto simp: saved_def map_le_def dom_def)

lemma pstored_mono: "d \<subseteq>\<^sub>m d' \<Longrightarrow> pstored H d t \<Longrightarrow> pstored H d' t"
  by (induction t) (auto intro: saved_mono)

lemma flag_ok_mono: "d \<subseteq>\<^sub>m d' \<Longrightarrow> flag_ok H d root f t \<Longrightarrow> flag_ok H d' root f t"
  by (auto simp: flag_ok_def intro: saved_mono pstored_mono split: option.splits)

lemma rep_mono: "d \<subseteq>\<^sub>m d' \<Longrightarrow> rep H d root n t \<Longrightarrow> rep H d' root n t"
proof (induction H d root n t rule: rep.induct)
  case (5 H d root cs f t)
  have "list_all2 (rep H d' False) cs ts" if "list_all2 (rep H d False) cs ts" for ts
    using 5(1) [OF _ _ 5(2)] by (rule list.rel_mono_strong [OF that])
  then show ?case using 5 by (auto intro: flag_ok_mono)
qed (auto intro: saved_mono pstored_mono flag_ok_mono)

lemma flag_ok_new [simp]: "flag_ok H d root (newFlag tr) t"
  by (simp add: flag_ok_def newFlag_def)

lemma flag_ok_gen [simp]: "flag_ok H d root (f\<lparr>nf_gen := g\<rparr>) t = flag_ok H d root f t"
  by (simp add: flag_ok_def split: option.split)

lemma rep_nil_iff: "rep H d root n PNil \<longleftrightarrow> n = NilNode"
  by (cases n) auto

lemma rep_val_iff: "rep H d root n (PVal v) \<longleftrightarrow> n = ValueNode v"
  by (cases n) auto

lemma rep_nil_node: "rep H d root n t \<Longrightarrow> n = NilNode \<longleftrightarrow> t = PNil"
  using rep_nil_iff by fastforce

lemma pstored_child: "pstored H d (PFull cs) \<Longrightarrow> c \<in> set cs \<Longrightarrow> pstored H d c"
  by simp

lemma pstored_saved: "pstored H d t \<Longrightarrow> big H t \<Longrightarrow> saved H d t"
  by (cases t) (auto simp: big_def)

lemma rep_dnode:
  "pstored H d t \<Longrightarrow> (case h of None \<Rightarrow> \<not> root \<and> \<not> big H t | Some h' \<Rightarrow> h' = phash H t \<and> (root \<or> big H t) \<and> saved H d t)
   \<Longrightarrow> rep H d root (dnode H g h t) t"
proof (induction H g h t arbitrary: root rule: dnode.induct)
  case (3 H g h s t)
  then show ?case
    by (auto simp: dec_flag_def flag_ok_def big_def split: option.splits dest: pstored_saved)
next
  case (4 H g h cs)
  have "rep H d False (dref H g c) c" if "c \<in> set cs" for c
    using 4 that pstored_saved [of H d c] by (auto simp: dref_def big_def)
  then have "list_all2 (rep H d False) (map (dref H g) cs) cs"
    by (simp add: list_all2_map1 list.rel_refl_strong)
  then show ?case
    using 4(2,3) unfolding dnode_full by (auto simp: dec_flag_def flag_ok_def split: option.splits)
qed auto

lemma resolveHash_correct:
  assumes "hash32 H" "t_hasdb tr" "pnode t" "pbnd 0 t" "rep H d root (HashNode h) t"
  shows "\<exists>n. resolveHash tr d h p = Inr n \<and> rep H d root n t \<and> (\<forall>h'. n \<noteq> HashNode h')"
proof -
  have d: "db_Get h d = Inr (nenc H t)" using assms(5) by (simp add: db_Get_def saved_def)
  have "decodeNode (Some h) (nenc H t) (t_cachegen tr) = Inr (dnode H (t_cachegen tr) (Some h) t)"
    using decode_node [OF assms(1,3,4), of "[]"] by simp
  moreover have "rep H d root (dnode H (t_cachegen tr) (Some h) t) t"
    using assms(5) by (intro rep_dnode) auto
  moreover have "dnode H (t_cachegen tr) (Some h) t \<noteq> HashNode h'" for h'
    using assms(3) by (cases t) auto
  ultimately show ?thesis using assms(2) d by (simp add: resolveHash_def mustDecodeNode_def)
qed

section \<open>Slots\<close>

text \<open>A slot is a place in the trie: the node \<open>n\<close> that the code has there represents \<open>t\<close>, a
  subtrie that may stand below nibble \<open>x\<close>.\<close>

definition slot :: "(bytes \<Rightarrow> bytes) \<Rightarrow> database \<Rightarrow> bool \<Rightarrow> node \<Rightarrow> byte \<Rightarrow> ptrie \<Rightarrow> bool" where
  "slot H d root n x t \<longleftrightarrow> rep H d root n t \<and> pchild x t \<and> pbnd x t"

text \<open>What hangs below the key of a short node.\<close>

lemma short_slot:
  assumes "pnode (PShort s u)" "pbnd 0 (PShort s u)"
  obtains y where "pchild y u" "pbnd y u" "s \<noteq> []" "\<And>l. term_key (s @ l) \<Longrightarrow> child_key y l"
  using assms(1)
proof (cases rule: pshort_cases)
  case (1 v)
  moreover have "s \<noteq> []" using 1(2) by auto
  ultimately show ?thesis
    using that [of 16] pbnd_short_val [of s v] assms term_key_prefix [of s]
    by (auto simp: pchild_def pbnd_def child_key_def)
next
  case (2 cs)
  then show ?thesis
    using that [of 0] pbnd_short_full [of s cs] assms
    by (auto simp: pchild_def child_key_def term_key_append_nibbles)
qed

lemma slot_pnode:
  assumes "slot H d root n x t" "is_pnode t"
  shows "pnode t" "x \<noteq> 16" "pbnd 0 t" "child_key x k \<longleftrightarrow> term_key k"
  using assms is_pnode_pchild by (auto simp: slot_def pbnd_def child_key_def)

lemma slot_nil: "slot H d root NilNode x t \<longleftrightarrow> t = PNil"
  by (auto simp: slot_def pchild_def)

lemma slot_value: "slot H d root (ValueNode v) x t \<Longrightarrow> t = PVal v \<and> x = 16"
  by (auto simp: slot_def pchild_def split: if_splits)

lemma slot_hash:
  assumes "hash32 H" "t_hasdb tr" "slot H d root (HashNode h) x t"
  obtains c where "resolveHash tr d h p = Inr c" "slot H d root c x t" "\<forall>h'. c \<noteq> HashNode h'"
proof -
  have "is_pnode t" using assms(3) by (simp add: slot_def)
  from slot_pnode [OF assms(3) this] assms that show thesis
    using resolveHash_correct [OF assms(1,2), of t d root h p] by (auto simp: slot_def)
qed

lemma slot_short:
  assumes "slot H d root (ShortNode k v f) x t"
  obtains u y where "t = PShort k u" "slot H d False v y u" "k \<noteq> []"
    "\<And>l. term_key (k @ l) \<Longrightarrow> child_key y l" "flag_ok H d root f t" "pnode t" "x \<noteq> 16"
proof -
  obtain u where u: "t = PShort k u" "rep H d False v u" "flag_ok H d root f t"
    using assms by (auto simp: slot_def)
  then have "is_pnode t" by simp
  note n = slot_pnode [OF assms this, unfolded u(1)]
  from short_slot [OF n(1,3)] obtain y where "pchild y u" "pbnd y u" "k \<noteq> []"
    "\<And>l. term_key (k @ l) \<Longrightarrow> child_key y l" by blast
  then show thesis using that [of u y] u n by (simp add: slot_def)
qed

lemma slot_full:
  assumes "slot H d root (FullNode cs f) x t"
  obtains ts where "t = PFull ts" "list_all2 (rep H d False) cs ts" "length cs = 17" "length ts = 17"
    "\<And>y. y \<le> 16 \<Longrightarrow> child cs y = Inr (cs ! unat y) \<and> slot H d False (cs ! unat y) y (ts ! unat y)"
    "flag_ok H d root f t" "pnode t" "x \<noteq> 16"
proof -
  obtain ts where ts: "t = PFull ts" "list_all2 (rep H d False) cs ts" "flag_ok H d root f t"
    using assms by (auto simp: slot_def)
  then have "is_pnode t" by simp
  note n = slot_pnode [OF assms this, unfolded ts(1)]
  have len: "length ts = 17" "length cs = 17"
    using n(1) ts(2) by (auto simp: pnode_full_iff list_all2_lengthD)
  have "child cs y = Inr (cs ! unat y) \<and> slot H d False (cs ! unat y) y (ts ! unat y)"
    if "y \<le> 16" for y
    using len unat_le_16 [OF that] ts(2) pnode_child [OF n(1) that] pbnd_child [OF n(1,3) that]
    by (auto simp: child_def slot_def list_all2_conv_all_nth)
  then show thesis using that [of ts] ts len n by simp
qed

lemma slot_full_update:
  assumes "list_all2 (rep H d False) cs ts" "rep H d False n u"
  shows "list_all2 (rep H d False) (cs[i := n]) (ts[i := u])"
  using assms by (simp add: list_all2_update_cong)

definition node_fuel :: "node \<Rightarrow> nat \<Rightarrow> nat" where
  "node_fuel n len = 2 * len + (case n of HashNode h \<Rightarrow> 2 | _ \<Rightarrow> 1)"

lemma node_fuel_le: "node_fuel n len \<le> 2 * len + 2"
  by (simp add: node_fuel_def split: node.split)

lemma node_fuel_loaded: "\<forall>h. n \<noteq> HashNode h \<Longrightarrow> node_fuel n len = 2 * len + 1"
  by (cases n) (simp_all add: node_fuel_def)

lemma node_fuel_hash: "node_fuel (HashNode h) len = 2 * len + 2"
  by (simp add: node_fuel_def)

section \<open>Lookup\<close>

definition get_spec :: "(bytes \<Rightarrow> bytes) \<Rightarrow> trie \<Rightarrow> database \<Rightarrow> nat \<Rightarrow> bool" where
  "get_spec H tr d fuel \<longleftrightarrow>
     (\<forall>root n x t key pos.
        slot H d root n x t \<longrightarrow> child_key x (drop pos key) \<longrightarrow> pos \<le> length key
        \<longrightarrow> node_fuel n (length key - pos) \<le> fuel
        \<longrightarrow> (\<exists>n' b. tryGet tr d fuel n key pos = Inr (plookup t (drop pos key), n', b)
                   \<and> rep H d root n' t))"

lemma get_specD:
  assumes "get_spec H tr d fuel" "slot H d root n x t" "child_key x (drop pos key)" "pos \<le> length key"
    "node_fuel n (length key - pos) \<le> fuel"
  obtains n' b where "tryGet tr d fuel n key pos = Inr (plookup t (drop pos key), n', b)" "rep H d root n' t"
  using assms unfolding get_spec_def by blast

lemma get_short:
  assumes "get_spec H tr d fuel" "slot H d root (ShortNode k v f) x t" "child_key x (drop pos key)"
    "pos \<le> length key" "node_fuel (ShortNode k v f) (length key - pos) \<le> Suc fuel"
  shows "\<exists>n' b. tryGet tr d (Suc fuel) (ShortNode k v f) key pos = Inr (plookup t (drop pos key), n', b)
                \<and> rep H d root n' t"
proof -
  obtain u y where u: "t = PShort k u" "slot H d False v y u" "k \<noteq> []"
    "\<And>l. term_key (k @ l) \<Longrightarrow> child_key y l" "flag_ok H d root f t" "pnode t" "x \<noteq> 16"
    using slot_short [OF assms(2)] by blast
  show ?thesis
  proof (cases "take (length k) (drop pos key) = k")
    case True
    have len: "length k \<le> length key - pos"
      using True by (metis length_drop length_take min.cobounded1 min.commute)
    have dk: "drop pos key = k @ drop (pos + length k) key"
      using True by (metis append_take_drop_id add.commute drop_drop)
    have "node_fuel v (length key - (pos + length k)) \<le> fuel"
      using node_fuel_le [of v "length key - (pos + length k)"] assms(5) len u(3)
      by (cases k) (auto simp: node_fuel_def)
    moreover have "term_key (k @ drop (pos + length k) key)" "pos + length k \<le> length key"
      using u(7) dk len assms(3,4) by (simp_all add: child_key_def)
    moreover note u(4) [OF this(1)]
    ultimately obtain n' b
      where "tryGet tr d fuel v key (pos + length k) = Inr (plookup u (drop (pos + length k) key), n', b)"
        "rep H d False n' u" using get_specD [OF assms(1) u(2)] by blast
    then show ?thesis using u True len dk assms(2) by (auto simp: add.commute slot_def)
  next
    case False
    then show ?thesis using u(1) assms(2) by (auto simp: slot_def)
  qed
qed

lemma get_full:
  assumes "get_spec H tr d fuel" "slot H d root (FullNode cs f) x t" "child_key x (drop pos key)"
    "node_fuel (FullNode cs f) (length key - pos) \<le> Suc fuel"
  shows "\<exists>n' b. tryGet tr d (Suc fuel) (FullNode cs f) key pos = Inr (plookup t (drop pos key), n', b)
                \<and> rep H d root n' t"
proof -
  obtain ts where ts: "t = PFull ts" "list_all2 (rep H d False) cs ts" "length cs = 17" "length ts = 17"
    "\<And>y. y \<le> 16 \<Longrightarrow> child cs y = Inr (cs ! unat y) \<and> slot H d False (cs ! unat y) y (ts ! unat y)"
    "flag_ok H d root f t" "pnode t" "x \<noteq> 16"
    using slot_full [OF assms(2)] by blast
  have k: "term_key (drop pos key)" using assms(3) ts(8) by (simp add: child_key_def)
  then have pos: "pos < length key" by (cases "pos < length key") auto
  define y where "y = key ! pos"
  have dk: "drop pos key = y # drop (pos + 1) key" using pos by (simp add: y_def Cons_nth_drop_Suc)
  have y: "y \<le> 16" "child_key y (drop (pos + 1) key)" using k dk by (auto simp: term_key_Cons_child)
  note c = ts(5) [OF y(1)]
  have "node_fuel (cs ! unat y) (length key - (pos + 1)) \<le> fuel"
    using node_fuel_le [of "cs ! unat y" "length key - (pos + 1)"] assms(4) pos
    by (simp add: node_fuel_def)
  with get_specD [OF assms(1) conjunct2 [OF c] y(2)] pos
  obtain n' b where g: "tryGet tr d fuel (cs ! unat y) key (pos + 1) =
      Inr (plookup (ts ! unat y) (drop (pos + 1) key), n', b)" "rep H d False n' (ts ! unat y)"
    by (metis Suc_eq_plus1 Suc_leI)
  from slot_full_update [OF ts(2) g(2), of "unat y"] show ?thesis
    using ts(1,6) g(1) c pos plookup_full [OF ts(4) y(1)] dk assms(2)
    by (auto simp: slot_def y_def [symmetric] simp del: plookup.simps)
qed

lemma get_hash:
  assumes "hash32 H" "t_hasdb tr" "get_spec H tr d fuel" "slot H d root (HashNode h) x t"
    "child_key x (drop pos key)" "pos \<le> length key" "node_fuel (HashNode h) (length key - pos) \<le> Suc fuel"
  shows "\<exists>n' b. tryGet tr d (Suc fuel) (HashNode h) key pos = Inr (plookup t (drop pos key), n', b)
                \<and> rep H d root n' t"
proof -
  obtain c where c: "resolveHash tr d h (take pos key) = Inr c" "slot H d root c x t" "\<forall>h'. c \<noteq> HashNode h'"
    using slot_hash [OF assms(1,2,4)] by blast
  have "node_fuel c (length key - pos) \<le> fuel"
    using node_fuel_loaded [OF c(3)] assms(7) by (simp add: node_fuel_hash)
  from get_specD [OF assms(3) c(2) assms(5,6) this] obtain n' b
    where "tryGet tr d fuel c key pos = Inr (plookup t (drop pos key), n', b)" "rep H d root n' t" .
  then show ?thesis using c(1) by auto
qed

lemma get_spec:
  assumes "hash32 H" "t_hasdb tr"
  shows "get_spec H tr d fuel"
proof (induction fuel)
  case 0
  then show ?case by (simp add: get_spec_def node_fuel_def split: node.split)
next
  case (Suc fuel)
  show ?case
    unfolding get_spec_def
  proof (intro allI impI)
    fix root n x t key pos
    assume a: "slot H d root n x t" "child_key x (drop pos key)" "pos \<le> length key"
      "node_fuel n (length key - pos) \<le> Suc fuel"
    show "\<exists>n' b. tryGet tr d (Suc fuel) n key pos = Inr (plookup t (drop pos key), n', b) \<and> rep H d root n' t"
    proof (cases n)
      case NilNode
      then show ?thesis using a(1) by (auto simp: slot_nil)
    next
      case (ValueNode v)
      then show ?thesis using slot_value [of H d root v x t] a(1) by auto
    next
      case (ShortNode k v f)
      show ?thesis using a get_short [OF Suc] unfolding ShortNode by blast
    next
      case (FullNode cs f)
      show ?thesis using a get_full [OF Suc] unfolding FullNode by blast
    next
      case (HashNode h)
      show ?thesis using a get_hash [OF assms Suc] unfolding HashNode by blast
    qed
  qed
qed

section \<open>Insertion\<close>

definition insert_spec :: "(bytes \<Rightarrow> bytes) \<Rightarrow> trie \<Rightarrow> database \<Rightarrow> bytes \<Rightarrow> nat \<Rightarrow> bool" where
  "insert_spec H tr d v fuel \<longleftrightarrow>
     (\<forall>root n x t pre key.
        slot H d root n x t \<longrightarrow> child_key x key \<longrightarrow> node_fuel n (length key) \<le> fuel
        \<longrightarrow> (\<exists>b n'. insert_node tr d fuel n pre key (ValueNode v) = Inr (b, n')
                   \<and> rep H d root n' (pinsert t key v) \<and> (b \<or> pinsert t key v = t)))"

lemma insert_specD:
  assumes "insert_spec H tr d v fuel" "slot H d root n x t" "child_key x key"
    "node_fuel n (length key) \<le> fuel"
  obtains b n' where "insert_node tr d fuel n pre key (ValueNode v) = Inr (b, n')"
    "rep H d root n' (pinsert t key v)" "b \<or> pinsert t key v = t"
  using assms unfolding insert_spec_def by blast

lemma insert_into_nil:
  "insert_node tr d (Suc fuel) NilNode pre key value =
   Inr (True, if key = [] then value else ShortNode key value (newFlag tr))"
  by simp

lemma rep_pleaf:
  "rep H d False n t \<Longrightarrow> rep H d False (if key = [] then n else ShortNode key n (newFlag tr)) (pleaf key t)"
  by (simp add: pleaf_def)

lemma set_child_17: "length cs = 17 \<Longrightarrow> x \<le> 16 \<Longrightarrow> set_child cs x c = Inr (cs[unat x := c])"
  using unat_le_16 [of x] by (simp add: set_child_def)

lemma insert_short_through:
  assumes "insert_spec H tr d v fuel" "slot H d root (ShortNode k w f) x t" "child_key x key"
    "node_fuel (ShortNode k w f) (length key) \<le> Suc fuel" "prefixLen key k = length k"
  shows "\<exists>b n'. insert_node tr d (Suc fuel) (ShortNode k w f) pre key (ValueNode v) = Inr (b, n')
           \<and> rep H d root n' (pinsert t key v) \<and> (b \<or> pinsert t key v = t)"
proof -
  obtain u y where u: "t = PShort k u" "slot H d False w y u" "k \<noteq> []"
    "\<And>l. term_key (k @ l) \<Longrightarrow> child_key y l" "x \<noteq> 16"
    using slot_short [OF assms(2)] by blast
  obtain l where l: "key = k @ l" using assms(5) by (auto simp: prefixLen_full)
  have ck: "child_key y l" using u(4,5) assms(3) l by (simp add: child_key_def)
  have "node_fuel w (length l) \<le> fuel"
    using node_fuel_le [of w "length l"] assms(4) l u(3) by (cases k) (auto simp: node_fuel_def)
  then obtain b n' where r: "insert_node tr d fuel w (pre @ take (length k) key) l (ValueNode v) = Inr (b, n')"
    "rep H d False n' (pinsert u l v)" "b \<or> pinsert u l v = u"
    by (rule insert_specD [OF assms(1) u(2) ck])
  have p: "pinsert t key v = PShort k (pinsert u l v)"
    using u(1) assms(5) l by (simp add: pinsert.simps)
  have "insert_node tr d (Suc fuel) (ShortNode k w f) pre key (ValueNode v) =
      Inr (if b then (True, ShortNode k n' (newFlag tr)) else (False, ShortNode k w f))"
    using r(1) assms(5) l u(3) by simp
  moreover have "rep H d root (ShortNode k w f) t" using assms(2) by (simp only: slot_def)
  ultimately show ?thesis using r(2,3) unfolding p by (cases b) (auto simp: u(1))
qed

lemma insert_short_split:
  assumes "slot H d root (ShortNode k w f) x t" "child_key x key"
    "node_fuel (ShortNode k w f) (length key) \<le> Suc fuel" "prefixLen key k \<noteq> length k"
  shows "\<exists>b n'. insert_node tr d (Suc fuel) (ShortNode k w f) pre key (ValueNode v) = Inr (b, n')
           \<and> rep H d root n' (pinsert t key v) \<and> (b \<or> pinsert t key v = t)"
proof -
  obtain u y0 where u: "t = PShort k u" "slot H d False w y0 u" "pnode t" "x \<noteq> 16"
    using slot_short [OF assms(1)] by blast
  have tk: "term_key key" using assms(2) u(4) by (simp add: child_key_def)
  from short_key_split [OF u(3) [unfolded u(1)] tk assms(4)] obtain p z l y s
    where ks: "key = p @ z # l" "k = p @ y # s" "z \<noteq> y" "prefixLen key k = length p" by blast
  have yz: "y \<le> 16" "z \<le> 16"
    using pchild_pleaf_tail [of p y s u] u(1,3) ks(2) term_key_appendD [of p z l] tk ks(1)
    by (auto simp: term_key_Cons_child)
  obtain fuel' where f: "fuel = Suc fuel'" using assms(3) ks(1) by (cases fuel) (auto simp: node_fuel_def)
  let ?leaf = "\<lambda>s n. if s = [] then n else ShortNode s n (newFlag tr)"
  let ?cs = "(replicate 17 NilNode)[unat y := ?leaf s w, unat z := ?leaf l (ValueNode v)]"
  have "insert_node tr d (Suc fuel) (ShortNode k w f) pre key (ValueNode v) =
      Inr (True, ?leaf p (FullNode ?cs (newFlag tr)))"
    using ks(4) set_child_17 [OF _ yz(1)] set_child_17 [OF _ yz(2)] unfolding ks(1,2) f
    by (simp add: insert_into_nil Let_def)
  moreover have "list_all2 (rep H d False) ?cs
      ((replicate 17 PNil)[unat y := pleaf s u, unat z := pleaf l (PVal v)])"
    using u(2) by (intro slot_full_update rep_pleaf) (auto simp: slot_def list_all2_conv_all_nth)
  then have "rep H d root (?leaf p (FullNode ?cs (newFlag tr)))
      (pleaf p (pbranch y (pleaf s u) z (pleaf l (PVal v))))"
    by (auto simp: pleaf_def pbranch_def)
  then have "rep H d root (?leaf p (FullNode ?cs (newFlag tr))) (pinsert t key v)"
    using u(1) ks by (simp add: pinsert.simps)
  ultimately show ?thesis by blast
qed

lemma insert_full:
  assumes "insert_spec H tr d v fuel" "slot H d root (FullNode cs f) x t" "child_key x key"
    "node_fuel (FullNode cs f) (length key) \<le> Suc fuel"
  shows "\<exists>b n'. insert_node tr d (Suc fuel) (FullNode cs f) pre key (ValueNode v) = Inr (b, n')
           \<and> rep H d root n' (pinsert t key v) \<and> (b \<or> pinsert t key v = t)"
proof -
  obtain ts where ts: "t = PFull ts" "list_all2 (rep H d False) cs ts" "length cs = 17" "length ts = 17"
    "\<And>y. y \<le> 16 \<Longrightarrow> child cs y = Inr (cs ! unat y) \<and> slot H d False (cs ! unat y) y (ts ! unat y)"
    "x \<noteq> 16"
    using slot_full [OF assms(2)] by blast
  obtain y l where y: "key = y # l" "y \<le> 16" "child_key y l"
    using assms(3) ts(6) by (cases key) (auto simp: child_key_def term_key_Cons_child)
  note c = ts(5) [OF y(2)]
  have "node_fuel (cs ! unat y) (length l) \<le> fuel"
    using node_fuel_le [of "cs ! unat y" "length l"] assms(4) y(1) by (simp add: node_fuel_def)
  then obtain b n' where r: "insert_node tr d fuel (cs ! unat y) (pre @ [y]) l (ValueNode v) = Inr (b, n')"
    "rep H d False n' (pinsert (ts ! unat y) l v)" "b \<or> pinsert (ts ! unat y) l v = ts ! unat y"
    by (rule insert_specD [OF assms(1) conjunct2 [OF c] y(3)])
  have p: "pinsert t key v = PFull (ts[unat y := pinsert (ts ! unat y) l v])"
    using ts(1,4) y(1) unat_le_16 [OF y(2)] by (simp add: pinsert.simps)
  have "insert_node tr d (Suc fuel) (FullNode cs f) pre key (ValueNode v) =
      Inr (if b then (True, FullNode (cs[unat y := n']) (newFlag tr)) else (False, FullNode cs f))"
    using r(1) y(1) c by simp
  moreover have "rep H d root (FullNode cs f) t" using assms(2) by (simp only: slot_def)
  ultimately show ?thesis
    using r(3) slot_full_update [OF ts(2) r(2), of "unat y"] unfolding p by (cases b) (auto simp: ts(1))
qed

lemma insert_hash:
  assumes "hash32 H" "t_hasdb tr" "insert_spec H tr d v fuel" "slot H d root (HashNode h) x t"
    "child_key x key" "node_fuel (HashNode h) (length key) \<le> Suc fuel"
  shows "\<exists>b n'. insert_node tr d (Suc fuel) (HashNode h) pre key (ValueNode v) = Inr (b, n')
           \<and> rep H d root n' (pinsert t key v) \<and> (b \<or> pinsert t key v = t)"
proof -
  obtain c where c: "resolveHash tr d h pre = Inr c" "slot H d root c x t" "\<forall>h'. c \<noteq> HashNode h'"
    using slot_hash [OF assms(1,2,4)] by blast
  have "node_fuel c (length key) \<le> fuel"
    using node_fuel_loaded [OF c(3)] assms(6) by (simp add: node_fuel_hash)
  then obtain b n'
    where r: "insert_node tr d fuel c pre key (ValueNode v) = Inr (b, n')"
      "rep H d root n' (pinsert t key v)" "b \<or> pinsert t key v = t"
    by (rule insert_specD [OF assms(3) c(2) assms(5)])
  have "is_pnode t" using assms(4) by (simp add: slot_def)
  then have "key \<noteq> []" using assms(5) slot_pnode(4) [OF assms(4)] by auto
  then have "insert_node tr d (Suc fuel) (HashNode h) pre key (ValueNode v) =
      Inr (if b then (True, n') else (False, c))"
    using c(1) r(1) by simp
  moreover have "rep H d root c t" using c(2) by (simp only: slot_def)
  ultimately show ?thesis using r(2,3) by (cases b) auto
qed

lemma insert_spec:
  assumes "hash32 H" "t_hasdb tr"
  shows "insert_spec H tr d v fuel"
proof (induction fuel)
  case 0
  then show ?case by (simp add: insert_spec_def node_fuel_def split: node.split)
next
  case (Suc fuel)
  show ?case
    unfolding insert_spec_def
  proof (intro allI impI)
    fix root n x t pre key
    assume a: "slot H d root n x t" "child_key x key" "node_fuel n (length key) \<le> Suc fuel"
    show "\<exists>b n'. insert_node tr d (Suc fuel) n pre key (ValueNode v) = Inr (b, n')
           \<and> rep H d root n' (pinsert t key v) \<and> (b \<or> pinsert t key v = t)"
    proof (cases n)
      case NilNode
      then show ?thesis using a(1) by (auto simp: slot_nil pinsert.simps pleaf_def)
    next
      case (ValueNode w)
      then show ?thesis
        using slot_value [of H d root w x t] a(1,2) by (auto simp: child_key_def pinsert.simps)
    next
      case (ShortNode k w f)
      note a' = a(1) [unfolded ShortNode] a(2) a(3) [unfolded ShortNode]
      show ?thesis
        unfolding ShortNode
        by (cases "prefixLen key k = length k")
          (rule insert_short_through [OF Suc a'] insert_short_split [OF a'], assumption)+
    next
      case (FullNode cs f)
      show ?thesis using a insert_full [OF Suc] unfolding FullNode by blast
    next
      case (HashNode h)
      show ?thesis using a insert_hash [OF assms Suc] unfolding HashNode by blast
    qed
  qed
qed

section \<open>Deletion\<close>

lemma child_pos_found:
  "0 \<le> p \<Longrightarrow> child_pos cs i p = (if \<forall>c \<in> set cs. c = NilNode then p else -2)"
  by (induction cs arbitrary: i) auto

lemma child_pos_filter:
  assumes "0 \<le> i"
  shows "child_pos cs i (-1) = (case filter (\<lambda>j. cs ! j \<noteq> NilNode) [0..<length cs] of
    [] \<Rightarrow> -1 | j # js \<Rightarrow> if js = [] then i + int j else -2)"
  using assms
proof (induction cs arbitrary: i)
  case (Cons c cs)
  have f: "filter (\<lambda>j. (c # cs) ! j \<noteq> NilNode) [0..<length (c # cs)] =
     (if c \<noteq> NilNode then [0] else []) @ map Suc (filter (\<lambda>j. cs ! j \<noteq> NilNode) [0..<length cs])"
    by (simp add: upt_conv_Cons map_Suc_upt [symmetric] filter_map comp_def del: upt_Suc)
  show ?case
  proof (cases "c = NilNode")
    case True
    then show ?thesis
      using Cons.IH [of "i + 1"] Cons.prems unfolding f by (auto split: list.splits)
  next
    case False
    have "(\<forall>c \<in> set cs. c = NilNode) \<longleftrightarrow> filter (\<lambda>j. cs ! j \<noteq> NilNode) [0..<length cs] = []"
      by (auto simp: filter_empty_conv all_set_conv_all_nth)
    then show ?thesis using False child_pos_found [OF Cons.prems] unfolding f by simp
  qed
qed simp

lemma child_pos_ponly:
  assumes "list_all2 (rep H d False) cs ts"
  shows "child_pos cs 0 (-1) = (case ponly ts of Some i \<Rightarrow> int i | None \<Rightarrow> child_pos cs 0 (-1))"
    and "ponly ts = None \<Longrightarrow> child_pos cs 0 (-1) < 0"
proof -
  have "filter (\<lambda>j. cs ! j \<noteq> NilNode) [0..<length cs] = filter (\<lambda>j. ts ! j \<noteq> PNil) [0..<length ts]"
    using assms by (auto simp: list_all2_conv_all_nth rep_nil_node intro!: filter_cong)
  then have p: "child_pos cs 0 (-1) = (case filter (\<lambda>j. ts ! j \<noteq> PNil) [0..<length ts] of
    [] \<Rightarrow> -1 | j # js \<Rightarrow> if js = [] then int j else -2)"
    using child_pos_filter [of 0 cs] by (simp split: list.split)
  show "child_pos cs 0 (-1) = (case ponly ts of Some i \<Rightarrow> int i | None \<Rightarrow> child_pos cs 0 (-1))"
    unfolding p ponly_def by (auto split: list.splits)
  show "child_pos cs 0 (-1) < 0" if "ponly ts = None"
    using that unfolding p ponly_def by (auto split: list.splits)
qed

text \<open>Prepending a key fragment to a loaded node.\<close>

definition join_short :: "trie \<Rightarrow> bytes \<Rightarrow> node \<Rightarrow> node \<Rightarrow> node" where
  "join_short tr k c c' =
     (case c of ShortNode ck cv cf \<Rightarrow> ShortNode (k @ ck) cv (newFlag tr) | _ \<Rightarrow> ShortNode k c' (newFlag tr))"

lemma rep_join_short:
  assumes "rep H d False c t" "rep H d False c' t" "\<forall>h. c \<noteq> HashNode h"
  shows "rep H d root (join_short tr k c c') (pshort k t)"
  using assms by (cases c) (auto simp: join_short_def pshort_def)

lemma join_short_loaded: "join_short tr k c c' \<noteq> HashNode h"
  by (cases c) (simp_all add: join_short_def)

lemma pdelete_slot:
  assumes "slot H d root n x t" "child_key x key"
  shows "pdelete t key = t \<longleftrightarrow> plookup t key = None" "pchild x (pdelete t key)" "pbnd x (pdelete t key)"
proof -
  have ok: "pdelete_ok x t key" using assms pdelete_correct by (simp add: slot_def)
  show "pdelete t key = t \<longleftrightarrow> plookup t key = None"
    using ok assms(2) unfolding pdelete_ok_def by metis
  show "pchild x (pdelete t key)" using ok by (simp add: pdelete_ok_def)
  show "pbnd x (pdelete t key)"
    using ok assms(1) unfolding pdelete_ok_def slot_def pbnd_def by (metis option.distinct(1))
qed

definition delete_ok :: "(bytes \<Rightarrow> bytes) \<Rightarrow> trie \<Rightarrow> database \<Rightarrow> nat \<Rightarrow> bool \<Rightarrow> node \<Rightarrow> ptrie \<Rightarrow> bytes \<Rightarrow> bytes \<Rightarrow> bool" where
  "delete_ok H tr d fuel root n t pre key \<longleftrightarrow>
     (\<exists>b n'. delete_node tr d fuel n pre key = Inr (b, n') \<and> rep H d root n' (pdelete t key)
             \<and> (b \<longleftrightarrow> plookup t key \<noteq> None) \<and> (b \<longrightarrow> (\<forall>h. n' \<noteq> HashNode h)))"

definition delete_spec :: "(bytes \<Rightarrow> bytes) \<Rightarrow> trie \<Rightarrow> database \<Rightarrow> nat \<Rightarrow> bool" where
  "delete_spec H tr d fuel \<longleftrightarrow>
     (\<forall>root n x t pre key.
        slot H d root n x t \<longrightarrow> child_key x key \<longrightarrow> node_fuel n (length key) \<le> fuel
        \<longrightarrow> delete_ok H tr d fuel root n t pre key)"

lemma delete_specD:
  assumes "delete_spec H tr d fuel" "slot H d root n x t" "child_key x key"
    "node_fuel n (length key) \<le> fuel"
  obtains b n' where "delete_node tr d fuel n pre key = Inr (b, n')" "rep H d root n' (pdelete t key)"
    "b \<longleftrightarrow> plookup t key \<noteq> None" "b \<longrightarrow> (\<forall>h. n' \<noteq> HashNode h)"
  using assms unfolding delete_spec_def delete_ok_def by metis

lemma delete_okI:
  assumes "delete_node tr d fuel n pre key = Inr (b, n')" "rep H d root n' (pdelete t key)"
    "b \<longleftrightarrow> plookup t key \<noteq> None" "b \<longrightarrow> (\<forall>h. n' \<noteq> HashNode h)"
  shows "delete_ok H tr d fuel root n t pre key"
  using assms by (auto simp: delete_ok_def)

lemma delete_absent:
  assumes "slot H d root n x t" "child_key x key" "plookup t key = None"
    "delete_node tr d fuel n pre key = Inr (False, n)"
  shows "delete_ok H tr d fuel root n t pre key"
  using assms pdelete_slot(1) [OF assms(1,2)] by (intro delete_okI [OF assms(4)]) (auto simp: slot_def)

lemma delete_short_through:
  assumes "delete_spec H tr d fuel" "slot H d root (ShortNode k w f) x (PShort k (PFull cs))"
    "slot H d False w y (PFull cs)" "term_key l"
    "node_fuel (ShortNode k w f) (length (k @ l)) \<le> Suc fuel" "k \<noteq> []"
  shows "delete_ok H tr d (Suc fuel) root (ShortNode k w f) (PShort k (PFull cs)) pre (k @ l)"
proof -
  let ?u = "PFull cs"
  have ck: "child_key y l" using slot_pnode(4) [OF assms(3)] assms(4) by simp
  have "node_fuel w (length l) \<le> fuel"
    using node_fuel_le [of w "length l"] assms(5,6) by (cases k) (auto simp: node_fuel_def)
  then obtain b n' where r: "delete_node tr d fuel w (pre @ k) l = Inr (b, n')"
    "rep H d False n' (pdelete ?u l)" "b \<longleftrightarrow> plookup ?u l \<noteq> None" "b \<longrightarrow> (\<forall>h. n' \<noteq> HashNode h)"
    by (rule delete_specD [OF assms(1,3) ck])
  have l: "l \<noteq> []" using assms(4) by auto
  have step: "delete_node tr d (Suc fuel) (ShortNode k w f) pre (k @ l) =
      Inr (if b then (True, join_short tr k n' n') else (False, ShortNode k w f))"
    using r(1) l by (simp add: prefixLen_append join_short_def split: node.split)
  note lk = plookup_short_append [of k ?u l]
  show ?thesis
  proof (cases b)
    case False
    then have "plookup (PShort k ?u) (k @ l) = None" using r(3) lk by (metis (full_types))
    moreover have "child_key x (k @ l)"
      using slot_pnode(1,4) [OF assms(2)] assms(4) by (simp add: term_key_append_nibbles)
    ultimately show ?thesis using delete_absent [OF assms(2)] step False by simp
  next
    case True
    have "pdelete ?u l \<noteq> ?u" using pdelete_slot(1) [OF assms(3) ck] r(3) True by simp
    then have "pdelete (PShort k ?u) (k @ l) = pshort k (pdelete ?u l)"
      using l by (simp add: pdelete.simps(3) prefixLen_append Let_def)
    moreover have "rep H d root (join_short tr k n' n') (pshort k (pdelete ?u l))"
      using r(2,4) True by (intro rep_join_short) auto
    moreover have "plookup (PShort k ?u) (k @ l) \<noteq> None" using r(3) lk True by metis
    ultimately show ?thesis
      using step True join_short_loaded
      by (intro delete_okI [where b = True and n' = "join_short tr k n' n'"])
        (simp_all del: delete_node.simps plookup.simps)
  qed
qed

lemma delete_short:
  assumes "delete_spec H tr d fuel" "slot H d root (ShortNode k w f) x t" "child_key x key"
    "node_fuel (ShortNode k w f) (length key) \<le> Suc fuel"
  shows "delete_ok H tr d (Suc fuel) root (ShortNode k w f) t pre key"
proof -
  obtain u y where u: "t = PShort k u" "slot H d False w y u" "k \<noteq> []" "pnode t" "x \<noteq> 16"
    using slot_short [OF assms(2)] by blast
  have tk: "term_key key" using assms(3) u(5) by (simp add: child_key_def)
  show ?thesis
  proof (cases "prefixLen key k = length k")
    case False
    then have "prefixLen key k < length k" using prefixLen_le(2) [of key k] by simp
    moreover have "plookup t key = None"
      using u(1) False by (auto simp: take_length_iff prefixLen_append)
    ultimately show ?thesis using delete_absent [OF assms(2,3)] by simp
  next
    case True
    then obtain l where l: "key = k @ l" by (auto simp: prefixLen_full)
    from u(4) [unfolded u(1)] show ?thesis
    proof (cases rule: pshort_cases)
      case (1 v)
      then have "l = []" using l tk term_key_prefix by blast
      then show ?thesis
        using u(1,3) l 1(1) prefixLen_append [of k "[]"]
        by (intro delete_okI [where b = True and n' = NilNode]) (auto simp: pdelete.simps)
    next
      case (2 cs)
      then have "term_key l" using tk l by (simp add: term_key_append_nibbles)
      then show ?thesis
        using delete_short_through [OF assms(1) _ _ _ _ u(3)] assms(2,4) u(1,2) 2(1) l by simp
    qed
  qed
qed

lemma reduce_full_correct:
  assumes "hash32 H" "t_hasdb tr" "pwide ts" "list_all2 (rep H d False) cs ts"
    and bnd: "\<And>i. i < 17 \<Longrightarrow> pbnd (of_nat i) (ts ! i)"
  shows "\<exists>n'. reduce_full tr d pre cs = Inr (True, n') \<and> rep H d root n' (pshrink ts) \<and> (\<forall>h. n' \<noteq> HashNode h)"
proof (cases "ponly ts")
  case None
  then show ?thesis
    using child_pos_ponly(2) [OF assms(4)] assms(4) by (auto simp: reduce_full_def pshrink_def)
next
  case (Some i)
  note i = pwide_only [OF assms(3) Some]
  have pos: "child_pos cs 0 (-1) = int i" using child_pos_ponly(1) [OF assms(4)] Some by simp
  have "length ts = 17" using assms(3) by (simp add: pwide_def)
  then have r: "rep H d False (cs ! i) (ts ! i)"
    using assms(4) i(1) by (simp add: list_all2_conv_all_nth)
  then have sl: "slot H d False (cs ! i) (of_nat i) (ts ! i)" using i bnd by (simp add: slot_def)
  have join: "pshrink ts = pshort [of_nat i] (ts ! i)" using Some by (simp add: pshrink_def)
  show ?thesis
  proof (cases "i = 16")
    case True
    then obtain v where "ts ! 16 = PVal v" using i(2,3) by (auto simp: pchild_def)
    then show ?thesis using r pos True join by (auto simp: reduce_full_def pshort_def)
  next
    case False
    obtain c where c: "resolve tr d (cs ! i) pre = Inr c" "rep H d False c (ts ! i)" "\<forall>h. c \<noteq> HashNode h"
    proof (cases "cs ! i")
      case (HashNode h)
      from slot_hash [OF assms(1,2) sl [unfolded HashNode]] that HashNode show ?thesis
        by (auto simp: resolve_def slot_def)
    qed (use that r in \<open>auto simp: resolve_def\<close>)
    have "reduce_full tr d pre cs = Inr (True, join_short tr [of_nat i] c (cs ! i))"
      using pos False c(1) by (simp add: reduce_full_def join_short_def split: node.split)
    then show ?thesis
      using rep_join_short [OF c(2) r c(3)] join_short_loaded unfolding join by blast
  qed
qed

lemma delete_full:
  assumes "hash32 H" "t_hasdb tr" "delete_spec H tr d fuel" "slot H d root (FullNode cs f) x t"
    "child_key x key" "node_fuel (FullNode cs f) (length key) \<le> Suc fuel"
  shows "delete_ok H tr d (Suc fuel) root (FullNode cs f) t pre key"
proof -
  obtain ts where ts: "t = PFull ts" "list_all2 (rep H d False) cs ts" "length cs = 17" "length ts = 17"
    "\<And>y. y \<le> 16 \<Longrightarrow> child cs y = Inr (cs ! unat y) \<and> slot H d False (cs ! unat y) y (ts ! unat y)"
    "pnode t" "x \<noteq> 16"
    using slot_full [OF assms(4)] by blast
  obtain y l where y: "key = y # l" "y \<le> 16" "child_key y l"
    using assms(5) ts(7) by (cases key) (auto simp: child_key_def term_key_Cons_child)
  have c: "child cs y = Inr (cs ! unat y)" "slot H d False (cs ! unat y) y (ts ! unat y)"
    using ts(5) [OF y(2)] by simp_all
  have "node_fuel (cs ! unat y) (length l) \<le> fuel"
    using node_fuel_le [of "cs ! unat y" "length l"] assms(6) y(1) by (simp add: node_fuel_def)
  then obtain b n' where r: "delete_node tr d fuel (cs ! unat y) (pre @ [y]) l = Inr (b, n')"
    "rep H d False n' (pdelete (ts ! unat y) l)" "b \<longleftrightarrow> plookup (ts ! unat y) l \<noteq> None"
    by (rule delete_specD [OF assms(3) c(2) y(3)])
  note del = pdelete_slot [OF c(2) y(3)]
  have lk: "plookup t key = plookup (ts ! unat y) l"
    unfolding ts(1) y(1) by (rule plookup_full [OF ts(4) y(2)])
  show ?thesis
  proof (cases b)
    case False
    then show ?thesis
      using delete_absent [OF assms(4,5)] lk r(1,3) c(1) y(1) by (simp del: plookup.simps)
  next
    case True
    let ?ts = "ts[unat y := pdelete (ts ! unat y) l]" and ?cs = "cs[unat y := n']"
    have w: "pwide ?ts" using pwide_update [of ts y] ts(1,6) y(2) del(2) by simp
    have bnd: "pbnd (of_nat i) (?ts ! i)" if "i < 17" for i
    proof (cases "i = unat y")
      case True
      then show ?thesis using del(3) ts(4) that by simp
    next
      case False
      then show ?thesis
        using ts(5) [OF of_nat_le_16 [OF that]] that by (simp add: slot_def unat_of_nat_17)
    qed
    from reduce_full_correct [OF assms(1,2) w slot_full_update [OF ts(2) r(2)] bnd, of pre root]
    obtain m where m: "reduce_full tr d pre ?cs = Inr (True, m)" "rep H d root m (pshrink ?ts)"
      "\<forall>h. m \<noteq> HashNode h" by blast
    have "delete_node tr d (Suc fuel) (FullNode cs f) pre key = Inr (True, m)"
      using r(1) c(1) y(1) True m(1) by simp
    moreover have "pdelete t key = pshrink ?ts"
      using del(1) r(3) True ts(1,4) y(1) unat_le_16 [OF y(2)] by (auto simp: pdelete.simps Let_def)
    ultimately show ?thesis
      using m(2,3) lk r(3) True
      by (intro delete_okI [where b = True and n' = m]) (simp_all del: delete_node.simps plookup.simps)
  qed
qed

lemma delete_hash:
  assumes "hash32 H" "t_hasdb tr" "delete_spec H tr d fuel" "slot H d root (HashNode h) x t"
    "child_key x key" "node_fuel (HashNode h) (length key) \<le> Suc fuel"
  shows "delete_ok H tr d (Suc fuel) root (HashNode h) t pre key"
proof -
  obtain c where c: "resolveHash tr d h pre = Inr c" "slot H d root c x t" "\<forall>h'. c \<noteq> HashNode h'"
    using slot_hash [OF assms(1,2,4)] by blast
  have "node_fuel c (length key) \<le> fuel"
    using node_fuel_loaded [OF c(3)] assms(6) by (simp add: node_fuel_hash)
  then obtain b n' where r: "delete_node tr d fuel c pre key = Inr (b, n')"
    "rep H d root n' (pdelete t key)" "b \<longleftrightarrow> plookup t key \<noteq> None" "b \<longrightarrow> (\<forall>h. n' \<noteq> HashNode h)"
    by (rule delete_specD [OF assms(3) c(2) assms(5)])
  have step: "delete_node tr d (Suc fuel) (HashNode h) pre key = Inr (if b then (True, n') else (False, c))"
    using c(1) r(1) by simp
  have rc: "rep H d root c t" using c(2) by (simp only: slot_def)
  show ?thesis
  proof (cases b)
    case True
    then show ?thesis using r step by (intro delete_okI [where b = b and n' = n']) (simp_all del: delete_node.simps)
  next
    case False
    then show ?thesis
      using r(3) step rc pdelete_slot(1) [OF c(2) assms(5)]
      by (intro delete_okI [where b = b and n' = c]) (simp_all del: delete_node.simps)
  qed
qed

lemma delete_spec:
  assumes "hash32 H" "t_hasdb tr"
  shows "delete_spec H tr d fuel"
proof (induction fuel)
  case 0
  then show ?case by (simp add: delete_spec_def node_fuel_def split: node.split)
next
  case (Suc fuel)
  show ?case
    unfolding delete_spec_def
  proof (intro allI impI)
    fix root n x t pre key
    assume a: "slot H d root n x t" "child_key x key" "node_fuel n (length key) \<le> Suc fuel"
    show "delete_ok H tr d (Suc fuel) root n t pre key"
    proof (cases n)
      case NilNode
      then show ?thesis using a(1) by (auto simp: delete_ok_def slot_nil pdelete.simps)
    next
      case (ValueNode w)
      then show ?thesis using slot_value [of H d root w x t] a(1) by (auto simp: delete_ok_def pdelete.simps)
    next
      case (ShortNode k w f)
      show ?thesis using a delete_short [OF Suc] unfolding ShortNode by blast
    next
      case (FullNode cs f)
      show ?thesis using a delete_full [OF assms Suc] unfolding FullNode by blast
    next
      case (HashNode h)
      show ?thesis using a delete_hash [OF assms Suc] unfolding HashNode by blast
    qed
  qed
qed

end
