(* ===== verification/Trie_Correct.thy ===== *)
theory Trie_Correct
  imports Trie_Rep
begin

text \<open>
  Hashing, commit and the trie as a finite map.  Hashing a represented trie gives its hash and
  keeps the representation; a commit writes every node that is not yet stored, so that opening
  a trie at the returned root gives the same contents again.  Put together, a trie behaves as a
  finite map from keys to values whose root hash is a function of the contents.  The locale
  \<open>kv_store\<close> is the contract the other components rely on, interpreted by the trie.
\<close>

section \<open>Hashing and commit\<close>

text \<open>\<open>U\<close> is the set of node encodings the database ever holds; the hash function is injective
  on it. Every entry under a 32-byte key is such an encoding, filed under its hash.\<close>

definition within :: "(bytes \<Rightarrow> bytes) \<Rightarrow> bytes set \<Rightarrow> database \<Rightarrow> bool" where
  "within H U d \<longleftrightarrow> (\<forall>h e. d h = Some e \<longrightarrow> length h = 32 \<longrightarrow> e \<in> U \<and> h = H e)"

fun pencs :: "(bytes \<Rightarrow> bytes) \<Rightarrow> ptrie \<Rightarrow> bytes set" where
  "pencs H PNil = {}"
| "pencs H (PVal v) = {}"
| "pencs H (PShort s t) = insert (nenc H (PShort s t)) (pencs H t)"
| "pencs H (PFull cs) = insert (nenc H (PFull cs)) (\<Union>c \<in> set cs. pencs H c)"

lemma nenc_in_pencs: "is_pnode t \<Longrightarrow> nenc H t \<in> pencs H t"
  by (cases t) simp_all

definition ext :: "(bytes \<Rightarrow> bytes) \<Rightarrow> bytes set \<Rightarrow> bool \<Rightarrow> database \<Rightarrow> database \<Rightarrow> bool" where
  "ext H U c d d' \<longleftrightarrow> (if c then d \<subseteq>\<^sub>m d' \<and> within H U d' \<and> (\<forall>x. length x \<noteq> 32 \<longrightarrow> d' x = d x) else d' = d)"

lemma ext_refl: "(c \<Longrightarrow> within H U d) \<Longrightarrow> ext H U c d d"
  by (simp add: ext_def)

lemma extD: "ext H U c d d' \<Longrightarrow> d \<subseteq>\<^sub>m d'" "ext H U c d d' \<Longrightarrow> c \<Longrightarrow> within H U d'"
  "ext H U c d d' \<Longrightarrow> length x \<noteq> 32 \<Longrightarrow> d' x = d x"
  by (auto simp: ext_def split: if_splits)

lemma ext_trans: "ext H U c d d' \<Longrightarrow> ext H U c d' d'' \<Longrightarrow> ext H U c d d''"
  by (auto simp: ext_def intro: map_le_trans split: if_splits)

lemma ext_put:
  assumes "hash32 H" "inj_on H U" "within H U d" "e \<in> U"
  shows "ext H U True d (db_Put (H e) e d)"
proof -
  have "d (H e) = None \<or> d (H e) = Some e"
    using assms(2-4) hash32_length [OF assms(1), of e]
    by (cases "d (H e)") (auto simp: within_def dest: inj_onD)
  then have "d \<subseteq>\<^sub>m db_Put (H e) e d" by (auto simp: db_Put_def map_le_def)
  moreover have "within H U (db_Put (H e) e d)" using assms(3,4) by (auto simp: within_def db_Put_def)
  moreover have "\<forall>x. length x \<noteq> 32 \<longrightarrow> db_Put (H e) e d x = d x"
    using hash32_length [OF assms(1), of e] by (auto simp: db_Put_def)
  ultimately show ?thesis by (simp add: ext_def)
qed

definition odb :: "bool \<Rightarrow> database \<Rightarrow> database option" where
  "odb c d = (if c then Some d else None)"

lemma odb_eq_None: "odb c d = None \<longleftrightarrow> \<not> c"
  by (simp add: odb_def)

definition hash_ok :: "(bytes \<Rightarrow> bytes) \<Rightarrow> bytes set \<Rightarrow> bool \<Rightarrow> database \<Rightarrow> bool \<Rightarrow> ptrie
    \<Rightarrow> (node \<times> node \<times> database option) res \<Rightarrow> bool" where
  "hash_ok H U c d force t r \<longleftrightarrow>
     (\<exists>hashed cached d'.
        r = Inr (hashed, cached, odb c d') \<and> ext H U c d d'
        \<and> (if force \<or> big H t then hashed = HashNode (phash H t)
           else node_item hashed = penc H t \<and> hashed \<noteq> NilNode)
        \<and> rep H d' force cached t
        \<and> (c \<longrightarrow> pstored H d' t \<and> (force \<longrightarrow> saved H d' t)))"

lemma hash_okI:
  assumes "r = Inr (hashed, cached, odb c d')" "ext H U c d d'"
    "force \<or> big H t \<Longrightarrow> hashed = HashNode (phash H t)"
    "\<not> force \<and> \<not> big H t \<Longrightarrow> node_item hashed = penc H t \<and> hashed \<noteq> NilNode"
    "rep H d' force cached t" "c \<Longrightarrow> pstored H d' t" "c \<Longrightarrow> force \<Longrightarrow> saved H d' t"
  shows "hash_ok H U c d force t r"
  using assms by (auto simp: hash_ok_def)

lemma hash_ok_cached:
  assumes "hash_node H g l n (odb c d) force = Inr (HashNode (phash H t), cached, odb c d)"
    "c \<Longrightarrow> within H U d" "force \<or> big H t" "rep H d force cached t" "c \<Longrightarrow> saved H d t \<and> pstored H d t"
  shows "hash_ok H U c d force t (hash_node H g l n (odb c d) force)"
  using assms by (intro hash_okI [OF assms(1)]) (auto simp: ext_refl)

lemma hash_of_HashNode:
  assumes "rep H d force (HashNode h) t" "c \<Longrightarrow> within H U d"
  shows "hash_ok H U c d force t (hash_node H g l (HashNode h) (odb c d) force)"
  using assms
  by (intro hash_ok_cached [where cached = "HashNode h"])
    (auto simp: hash_node.simps cached_hash_def store_def set_flags_def)

text \<open>The shortcut for a node with a cached hash.\<close>

lemma hash_of_cached:
  assumes "rep H d force n t" "is_pnode t" "c \<Longrightarrow> within H U d" "cache n = Inr (Some h, dirty)" "\<not> (c \<and> dirty)"
  shows "hash_ok H U c d force t (hash_node H g l n (odb c d) force)"
proof -
  have h: "h = phash H t" "force \<or> big H t" "\<not> dirty \<Longrightarrow> saved H d t \<and> pstored H d t"
    using assms(1,4) by (cases n; auto simp: flag_ok_def)+
  let ?cached = "if c \<and> canUnload n g l then HashNode h else n"
  have "canUnload n g l \<Longrightarrow> \<not> dirty" using assms(4) by (cases n) (auto simp: flag_canUnload_def)
  then have "hash_node H g l n (odb c d) force = Inr (HashNode (phash H t), ?cached, odb c d)"
    using assms(4,5) h(1) by (auto simp: hash_node.simps cached_hash_def odb_def)
  moreover have "rep H d force ?cached t" using assms(1,2,5) h by auto
  ultimately show ?thesis using assms(3,5) h by (intro hash_ok_cached) auto
qed

lemma store_correct:
  assumes H: "hash32 H" and n: "pnode t" "pbnd 0 t"
    and col: "node_item col = penc H t" "cache col = Inr (ho, dirty)" "ho = None \<or> ho = Some (phash H t)"
  shows "store H col (odb c d) force =
    Inr (if force \<or> big H t
         then (HashNode (phash H t), odb c (if c then db_Put (phash H t) (nenc H t) d else d))
         else (col, odb c d))"
proof -
  have b: "big H t \<longleftrightarrow> 32 \<le> length (nenc H t)" using n(1) pnode_is_pnode by (simp add: big_def)
  have "length (nenc H t) < 2 ^ 64" using nenc_bound [OF H n] by simp
  then have e: "EncodeToBytes (node_item col) = nenc H t"
    using EncodeToBytes_reference(1) [of "penc H t"] col(1) by (simp add: nenc_def)
  obtain xs where "penc H t = Lst xs" using penc_node_list [OF pnode_is_pnode [OF n(1)]] by blast
  then have "(\<exists>k v f. col = ShortNode k v f) \<or> (\<exists>cs f. col = FullNode cs f)"
    using col(1,2) by (cases col) auto
  then show ?thesis
    using e b col(2,3) by (auto simp: store_def odb_def phash_def not_le Let_def)
qed

text \<open>What \<open>hashChildren\<close> leaves of a node: the collapsed node has the item of the trie, and the
  cached copy represents it whatever flags it is then given.\<close>

fun set_flag :: "node \<Rightarrow> nodeFlag \<Rightarrow> node" where
  "set_flag (ShortNode k v f) f' = ShortNode k v f'"
| "set_flag (FullNode cs f) f' = FullNode cs f'"
| "set_flag n f' = n"

fun pbelow :: "(bytes \<Rightarrow> bytes) \<Rightarrow> database \<Rightarrow> ptrie \<Rightarrow> bool" where
  "pbelow H d (PShort s t) = pstored H d t"
| "pbelow H d (PFull cs) = (\<forall>c \<in> set cs. pstored H d c)"
| "pbelow H d t = True"

lemma pstored_below: "pstored H d t \<longleftrightarrow> (big H t \<longrightarrow> saved H d t) \<and> pbelow H d t"
  by (cases t) (auto simp: big_def)

lemma pbelow_mono: "d \<subseteq>\<^sub>m d' \<Longrightarrow> pbelow H d t \<Longrightarrow> pbelow H d' t"
  by (cases t) (auto intro: pstored_mono)

definition loaded :: "node \<Rightarrow> bool" where
  "loaded n \<longleftrightarrow> isShort n \<or> (\<exists>cs f. n = FullNode cs f)"

definition children_ok :: "(bytes \<Rightarrow> bytes) \<Rightarrow> bytes set \<Rightarrow> bool \<Rightarrow> database \<Rightarrow> nodeFlag \<Rightarrow> ptrie
    \<Rightarrow> (node \<times> node \<times> database option) res \<Rightarrow> bool" where
  "children_ok H U c d f t r \<longleftrightarrow>
     (\<exists>col cached d'.
        r = Inr (col, cached, odb c d') \<and> ext H U c d d' \<and> node_item col = penc H t
        \<and> cache col = Inr (nf_hash f, nf_dirty f) \<and> loaded cached \<and> cached = set_flag cached f
        \<and> (\<forall>d'' root f'. d' \<subseteq>\<^sub>m d'' \<longrightarrow> flag_ok H d'' root f' t \<longrightarrow> rep H d'' root (set_flag cached f') t)
        \<and> (c \<longrightarrow> pbelow H d' t))"

lemma set_flags_eq:
  assumes "cached = set_flag cached f" "loaded cached"
  shows "set_flags cached hashed c = set_flag cached
    (f\<lparr>nf_hash := (case hashed of HashNode h \<Rightarrow> Some h | _ \<Rightarrow> None), nf_dirty := (if c then False else nf_dirty f)\<rparr>)"
  using assms by (cases cached) (auto simp: set_flags_def Let_def loaded_def)

lemma loaded_flags:
  assumes "loaded n" "rep H d force n t"
  obtains f where "cache n = Inr (nf_hash f, nf_dirty f)" "flag_ok H d force f t"
    "canUnload n g l \<Longrightarrow> \<not> nf_dirty f" "n = set_flag n f"
  using assms by (cases n) (auto simp: loaded_def flag_canUnload_def)

lemma hash_of_node:
  assumes H: "hash32 H" "inj_on H U" and n: "pnode t" "pbnd 0 t" and U: "c \<Longrightarrow> pencs H t \<subseteq> U" "c \<Longrightarrow> within H U d"
    and f: "cache n = Inr (nf_hash f, nf_dirty f)" "flag_ok H d force f t" "canUnload n g l \<Longrightarrow> \<not> nf_dirty f"
    and walk: "nf_hash f = None \<or> c \<and> nf_dirty f"
    and ch: "children_ok H U c d f t (hashChildren H g l n (odb c d))"
  shows "hash_ok H U c d force t (hash_node H g l n (odb c d) force)"
proof -
  obtain col cached d' where ch: "hashChildren H g l n (odb c d) = Inr (col, cached, odb c d')"
    "ext H U c d d'" "node_item col = penc H t" "cache col = Inr (nf_hash f, nf_dirty f)"
    "loaded cached" "cached = set_flag cached f"
    "\<And>d'' root f'. d' \<subseteq>\<^sub>m d'' \<Longrightarrow> flag_ok H d'' root f' t \<Longrightarrow> rep H d'' root (set_flag cached f') t"
    "c \<Longrightarrow> pbelow H d' t"
    using ch unfolding children_ok_def by blast
  let ?p = "force \<or> big H t"
  let ?hashed = "if ?p then HashNode (phash H t) else col"
  let ?d = "if ?p \<and> c then db_Put (phash H t) (nenc H t) d' else d'"
  let ?f = "f\<lparr>nf_hash := (if ?p then Some (phash H t) else None), nf_dirty := (if c then False else nf_dirty f)\<rparr>"
  have col: "col \<noteq> NilNode" "\<And>h. col \<noteq> HashNode h" using ch(4) penc_node_list [OF pnode_is_pnode [OF n(1)], of H] ch(3) by auto
  have "nf_hash f = None \<or> nf_hash f = Some (phash H t)"
    using f(2) by (cases "nf_hash f") (simp_all add: flag_ok_def)
  from store_correct [OF H(1) n ch(3,4) this, of c d' force]
  have st: "store H col (odb c d') force = Inr (?hashed, odb c ?d)" by (auto simp: odb_def)
  have "cached_hash g l n (nf_hash f, nf_dirty f) (odb c d) = None"
    using walk f(3) by (auto simp: cached_hash_def odb_def split: option.split)
  moreover have "(case ?hashed of HashNode h \<Rightarrow> Some h | _ \<Rightarrow> None) = (if ?p then Some (phash H t) else None)"
    using col(2) by (cases col) auto
  with set_flags_eq [OF ch(6,5), of ?hashed c] have "set_flags cached ?hashed c = set_flag cached ?f" by simp
  ultimately have r: "hash_node H g l n (odb c d) force = Inr (?hashed, set_flag cached ?f, odb c ?d)"
    by (simp only: hash_node.simps f(1) ch(1) st rbind_simps option.case prod.case odb_eq_None not_not)
  have w: "within H U d'" if c using ch(2) that by (rule extD(2))
  have "ext H U c d' ?d"
    using ext_put [OF H w, of "nenc H t"] U(1) nenc_in_pencs [OF pnode_is_pnode [OF n(1)], of H]
      ext_refl [of c, OF w] by (auto simp: phash_def)
  then have e: "ext H U c d ?d" "d' \<subseteq>\<^sub>m ?d" using ext_trans [OF ch(2)] extD(1) by auto
  have sv: "saved H ?d t" if c ?p using that by (simp add: saved_def db_Put_def)
  have ps: "pstored H ?d t" if c using sv that pbelow_mono [OF e(2) ch(8)] by (auto simp: pstored_below)
  have "flag_ok H ?d force ?f t"
    using sv ps f(2) walk by (auto simp: flag_ok_def)
  from ch(7) [OF e(2) this] show ?thesis
    using e(1) ch(3) col(1) sv ps by (intro hash_okI [OF r]) auto
qed

definition hash_spec :: "(bytes \<Rightarrow> bytes) \<Rightarrow> bytes set \<Rightarrow> node \<Rightarrow> bool" where
  "hash_spec H U n \<longleftrightarrow>
     (\<forall>c d g l force x t.
        slot H d force n x t \<longrightarrow> is_pnode t \<longrightarrow> (c \<longrightarrow> pencs H t \<subseteq> U \<and> within H U d)
        \<longrightarrow> hash_ok H U c d force t (hash_node H g l n (odb c d) force))"

lemma hash_specD:
  assumes "hash_spec H U n" "slot H d False n x t" "is_pnode t" "c \<Longrightarrow> pencs H t \<subseteq> U \<and> within H U d"
  obtains hn cn d' where "hash_node H g l n (odb c d) False = Inr (hn, cn, odb c d')" "ext H U c d d'"
    "node_item hn = pref H t" "hn \<noteq> NilNode" "rep H d' False cn t" "c \<Longrightarrow> pstored H d' t"
proof -
  have "hash_ok H U c d False t (hash_node H g l n (odb c d) False)"
    using assms unfolding hash_spec_def by blast
  then obtain hn cn d' where "hash_node H g l n (odb c d) False = Inr (hn, cn, odb c d')" "ext H U c d d'"
    "if big H t then hn = HashNode (phash H t) else node_item hn = penc H t \<and> hn \<noteq> NilNode"
    "rep H d' False cn t" "c \<Longrightarrow> pstored H d' t"
    unfolding hash_ok_def by auto
  then show thesis using that [of hn cn d'] by (auto simp: pref_eq split: if_splits)
qed

lemma short_key_compact:
  "pnode (PShort k u) \<Longrightarrow> hexToCompact k = Inr (compact k)"
  by (erule pshort_cases) (use compactToHex_compact in blast)+

lemma children_short:
  assumes "hash_spec H U v" "slot H d force (ShortNode k v f) x t"
    "c \<Longrightarrow> pencs H t \<subseteq> U \<and> within H U d"
  shows "children_ok H U c d f t (hashChildren H g l (ShortNode k v f) (odb c d))"
proof -
  obtain u y where u: "t = PShort k u" "slot H d False v y u" "pnode t"
    using slot_short [OF assms(2)] by blast
  have k: "hexToCompact k = Inr (compact k)" using short_key_compact [of k u] u(1,3) by simp
  show ?thesis
  proof (cases "isValue v")
    case True
    then obtain w where w: "v = ValueNode w" by (cases v) auto
    then have pv: "u = PVal w" using u(2) by (simp add: slot_def)
    have "hashChildren H g l (ShortNode k v f) (odb c d) = Inr (ShortNode (compact k) v f, ShortNode k v f, odb c d)"
      using k True by simp
    moreover have "node_item (ShortNode (compact k) v f) = penc H t"
      using w u(1) pv by (simp add: penc_short pref_eq big_def del: penc.simps(3))
    ultimately show ?thesis
      unfolding children_ok_def using ext_refl [of c H U d] assms(3) w u(1) pv
      by (auto simp: loaded_def simp del: node_item.simps)
  next
    case False
    have n: "is_pnode u"
      using u(1,3) u(2) False by (cases u) (auto simp: slot_def rep_val_iff)
    have pre: "c \<Longrightarrow> pencs H u \<subseteq> U \<and> within H U d" using assms(3) u(1) by simp
    obtain hv cv d' where h: "hash_node H g l v (odb c d) False = Inr (hv, cv, odb c d')" "ext H U c d d'"
      "node_item hv = pref H u" "hv \<noteq> NilNode" "rep H d' False cv u" "c \<Longrightarrow> pstored H d' u"
      using hash_specD [OF assms(1) u(2) n pre, of c g l] by metis
    have "hashChildren H g l (ShortNode k v f) (odb c d) =
        Inr (ShortNode (compact k) hv f, ShortNode k cv f, odb c d')"
      using k False h(1,4) by (simp add: nil_value_def)
    moreover have "node_item (ShortNode (compact k) hv f) = penc H t"
      using h(3) u(1) by (simp add: penc_short del: penc.simps(3))
    ultimately show ?thesis
      unfolding children_ok_def using h(2,5,6) u(1)
      by (auto simp: loaded_def intro: rep_mono simp del: node_item.simps)
  qed
qed

lemma children_loop:
  assumes "\<And>n. n \<in> set cs \<Longrightarrow> hash_spec H U n" "i + length cs = 17" "length ts = length cs"
    "\<And>j. j < length cs \<Longrightarrow> slot H d False (cs ! j) (of_nat (i + j)) (ts ! j) \<and> (c \<longrightarrow> pencs H (ts ! j) \<subseteq> U)"
    "c \<Longrightarrow> within H U d"
  shows "\<exists>hcs ccs d'. hashChildren_loop H g l i cs (odb c d) = Inr (hcs, ccs, odb c d')
    \<and> ext H U c d d' \<and> map node_item hcs = map (pref H) ts \<and> list_all2 (rep H d' False) ccs ts
    \<and> (c \<longrightarrow> (\<forall>t \<in> set ts. pstored H d' t))"
  using assms
proof (induction cs arbitrary: i ts d)
  case Nil
  then show ?case using ext_refl by auto
next
  case (Cons n cs)
  obtain t ts' where ts: "ts = t # ts'" "length ts' = length cs" using Cons.prems(3) by (cases ts) auto
  have s: "slot H d False n (of_nat i) t" "c \<Longrightarrow> pencs H t \<subseteq> U \<and> within H U d" using Cons.prems(5) Cons.prems(4) [of 0] ts by simp_all
  have ilt: "i < 17" using Cons.prems(2) by simp
  have "\<exists>hn cn d'. (if i < 16 \<and> n \<noteq> NilNode then hash_node H g l n (odb c d) False
      else Inr (nil_value n, n, odb c d)) = Inr (hn, cn, odb c d') \<and> ext H U c d d'
      \<and> node_item hn = pref H t \<and> rep H d' False cn t \<and> (c \<longrightarrow> pstored H d' t)"
  proof (cases "i < 16 \<and> n \<noteq> NilNode")
    case True
    then have "is_pnode t"
      using s(1) of_nat_eq_16 [OF ilt] pnode_is_pnode rep_nil_node [of H d False n t]
      by (auto simp: slot_def pchild_def)
    from hash_specD [OF Cons.prems(1) [OF list.set_intros(1)] s(1) this s(2), of c g l]
    obtain hn cn d' where "hash_node H g l n (odb c d) False = Inr (hn, cn, odb c d')" "ext H U c d d'"
      "node_item hn = pref H t" "rep H d' False cn t" "c \<Longrightarrow> pstored H d' t" by metis
    then show ?thesis using True by auto
  next
    case False
    then have "(n = NilNode \<and> t = PNil) \<or> (\<exists>v. t = PVal v \<and> n = ValueNode v)"
      using s(1) of_nat_eq_16 [OF ilt] ilt rep_nil_node [of H d False n t]
      by (auto simp: slot_def pchild_def rep_val_iff split: if_splits)
    then show ?thesis
      using False ext_refl [of c, OF Cons.prems(5)] by (auto simp: nil_value_def pref_eq big_def)
  qed
  then obtain hn cn d1 where h: "(if i < 16 \<and> n \<noteq> NilNode then hash_node H g l n (odb c d) False
      else Inr (nil_value n, n, odb c d)) = Inr (hn, cn, odb c d1)" "ext H U c d d1"
    "node_item hn = pref H t" "rep H d1 False cn t" "c \<longrightarrow> pstored H d1 t" by blast
  have mono: "d \<subseteq>\<^sub>m d1" "c \<Longrightarrow> within H U d1" using extD [OF h(2)] by simp_all
  have "\<exists>hcs ccs d'. hashChildren_loop H g l (Suc i) cs (odb c d1) = Inr (hcs, ccs, odb c d')
    \<and> ext H U c d1 d' \<and> map node_item hcs = map (pref H) ts' \<and> list_all2 (rep H d' False) ccs ts'
    \<and> (c \<longrightarrow> (\<forall>t \<in> set ts'. pstored H d' t))"
  proof (rule Cons.IH)
    fix j assume "j < length cs"
    then show "slot H d1 False (cs ! j) (of_nat (Suc i + j)) (ts' ! j) \<and> (c \<longrightarrow> pencs H (ts' ! j) \<subseteq> U)"
      using Cons.prems(4) [of "Suc j"] ts(1) rep_mono [OF mono(1)] by (simp add: slot_def)
  qed (use Cons.prems ts mono in auto)
  then obtain hcs ccs d2 where r: "hashChildren_loop H g l (Suc i) cs (odb c d1) = Inr (hcs, ccs, odb c d2)"
    "ext H U c d1 d2" "map node_item hcs = map (pref H) ts'" "list_all2 (rep H d2 False) ccs ts'"
    "c \<longrightarrow> (\<forall>t \<in> set ts'. pstored H d2 t)" by blast
  have m2: "d1 \<subseteq>\<^sub>m d2" using extD(1) [OF r(2)] .
  have "hashChildren_loop H g l i (n # cs) (odb c d) = Inr (hn # hcs, cn # ccs, odb c d2)"
    using h(1) r(1) by simp
  then show ?case
    using ext_trans [OF h(2) r(2)] h(3,5) r(3,4,5) rep_mono [OF m2 h(4)] pstored_mono [OF m2] ts(1) by auto
qed

lemma children_full:
  assumes "\<And>n. n \<in> set cs \<Longrightarrow> hash_spec H U n" "slot H d force (FullNode cs f) x t"
    "c \<Longrightarrow> pencs H t \<subseteq> U \<and> within H U d"
  shows "children_ok H U c d f t (hashChildren H g l (FullNode cs f) (odb c d))"
proof -
  obtain ts where ts: "t = PFull ts" "length cs = 17" "length ts = 17"
    "\<And>y. y \<le> 16 \<Longrightarrow> child cs y = Inr (cs ! unat y) \<and> slot H d False (cs ! unat y) y (ts ! unat y)"
    using slot_full [OF assms(2)] by blast
  have "\<exists>hcs ccs d'. hashChildren_loop H g l 0 cs (odb c d) = Inr (hcs, ccs, odb c d')
    \<and> ext H U c d d' \<and> map node_item hcs = map (pref H) ts \<and> list_all2 (rep H d' False) ccs ts
    \<and> (c \<longrightarrow> (\<forall>t \<in> set ts. pstored H d' t))"
  proof (rule children_loop)
    fix j assume j: "j < length cs"
    then have "j < 17" "ts ! j \<in> set ts" using ts by simp_all
    then show "slot H d False (cs ! j) (of_nat (0 + j)) (ts ! j) \<and> (c \<longrightarrow> pencs H (ts ! j) \<subseteq> U)"
      using ts(4) [OF of_nat_le_16, of j] assms(3) ts(1) by (auto simp: unat_of_nat_17)
  qed (use assms ts in auto)
  then obtain hcs ccs d' where r: "hashChildren_loop H g l 0 cs (odb c d) = Inr (hcs, ccs, odb c d')"
    "ext H U c d d'" "map node_item hcs = map (pref H) ts" "list_all2 (rep H d' False) ccs ts"
    "c \<longrightarrow> (\<forall>t \<in> set ts. pstored H d' t)" by blast
  have "list_all2 (rep H d'' False) ccs ts" if "d' \<subseteq>\<^sub>m d''" for d''
    using r(4) rep_mono [OF that] by (rule list.rel_mono_strong)
  moreover have "node_item (FullNode hcs f) = penc H t"
    using r(3) ts(1) by (simp add: penc_full del: penc.simps(4))
  ultimately show ?thesis
    unfolding children_ok_def using r(1,2,5) ts(1) by (auto simp: loaded_def simp del: node_item.simps)
qed

lemma hash_spec:
  assumes H: "hash32 H" "inj_on H U"
  shows "hash_spec H U n"
proof (induction n)
  case (ShortNode k v f)
  show ?case
    unfolding hash_spec_def
  proof (intro allI impI)
    fix c d g l force x t
    assume a: "slot H d force (ShortNode k v f) x t" "is_pnode t" "c \<longrightarrow> pencs H t \<subseteq> U \<and> within H U d"
    show "hash_ok H U c d force t (hash_node H g l (ShortNode k v f) (odb c d) force)"
    proof (cases "nf_hash f = None \<or> c \<and> nf_dirty f")
      case True
      show ?thesis
        using a(1) slot_pnode [OF a(1,2)] children_short [OF ShortNode a(1)] a(3) True
        by (intro hash_of_node [OF H, where f = f]) (auto simp: slot_def flag_canUnload_def)
    next
      case False
      then obtain h where "nf_hash f = Some h" by auto
      then show ?thesis using a False by (intro hash_of_cached) (auto simp: slot_def)
    qed
  qed
next
  case (FullNode cs f)
  show ?case
    unfolding hash_spec_def
  proof (intro allI impI)
    fix c d g l force x t
    assume a: "slot H d force (FullNode cs f) x t" "is_pnode t" "c \<longrightarrow> pencs H t \<subseteq> U \<and> within H U d"
    show "hash_ok H U c d force t (hash_node H g l (FullNode cs f) (odb c d) force)"
    proof (cases "nf_hash f = None \<or> c \<and> nf_dirty f")
      case True
      show ?thesis
        using a(1) slot_pnode [OF a(1,2)] children_full [OF FullNode a(1)] a(3) True
        by (intro hash_of_node [OF H, where f = f]) (auto simp: slot_def flag_canUnload_def)
    next
      case False
      then obtain h where "nf_hash f = Some h" by auto
      then show ?thesis using a False by (intro hash_of_cached) (auto simp: slot_def)
    qed
  qed
qed (auto simp: hash_spec_def slot_def intro: hash_of_HashNode simp del: rep.simps(3))

section \<open>Tries as finite maps\<close>

text \<open>\<open>tracks\<close>: the trie object stands for \<open>t\<close>. \<open>models\<close>: it holds the finite map \<open>m\<close> from full
  keys (prefix included) to values.\<close>

definition tracks :: "(bytes \<Rightarrow> bytes) \<Rightarrow> database \<Rightarrow> trie \<Rightarrow> ptrie \<Rightarrow> bool" where
  "tracks H d tr t \<longleftrightarrow> hash32 H \<and> t_hasdb tr \<and> slot H d True (t_root tr) 0 t"

definition contents :: "ptrie \<Rightarrow> (bytes \<rightharpoonup> bytes) \<Rightarrow> bool" where
  "contents t m \<longleftrightarrow>
     (\<forall>b. plookup t (keybytesToHex b) = m b)
     \<and> (\<forall>k. term_key k \<longrightarrow> plookup t k \<noteq> None \<longrightarrow> (\<exists>b. k = keybytesToHex b))"

definition models :: "(bytes \<Rightarrow> bytes) \<Rightarrow> database \<Rightarrow> trie \<Rightarrow> (bytes \<rightharpoonup> bytes) \<Rightarrow> bool" where
  "models H d tr m \<longleftrightarrow> (\<exists>t. tracks H d tr t \<and> contents t m)"

definition root_hash :: "(bytes \<Rightarrow> bytes) \<Rightarrow> ptrie \<Rightarrow> hash" where
  "root_hash H t = (if t = PNil then emptyRoot else phash H t)"

lemma tracks_wf: "tracks H d tr t \<Longrightarrow> ptrie_wf t"
  by (simp add: tracks_def slot_def ptrie_wf_pchild)

lemma contents_unique:
  assumes "contents t m" "contents u m" "ptrie_wf t" "ptrie_wf u"
  shows "t = u"
proof (rule ptrie_unique [OF assms(3,4)])
  fix k assume k: "term_key k"
  show "plookup t k = plookup u k"
  proof (cases "\<exists>b. k = keybytesToHex b")
    case True
    then show ?thesis using assms(1,2) by (auto simp: contents_def)
  next
    case False
    then have "plookup t k = None" "plookup u k = None" using assms(1,2) k by (auto simp: contents_def)
    then show ?thesis by simp
  qed
qed

lemma tracks_set_root:
  "tracks H d (tr\<lparr>t_root := n\<rparr>) t \<longleftrightarrow> hash32 H \<and> t_hasdb tr \<and> slot H d True n 0 t"
  by (simp add: tracks_def)

lemma tracks_mono: "d \<subseteq>\<^sub>m d' \<Longrightarrow> tracks H d tr t \<Longrightarrow> tracks H d' tr t"
  by (auto simp: tracks_def slot_def intro: rep_mono)

lemma models_mono: "d \<subseteq>\<^sub>m d' \<Longrightarrow> models H d tr m \<Longrightarrow> models H d' tr m"
  by (auto simp: models_def intro: tracks_mono)

lemma slot_fuel: "child_key 0 k \<longleftrightarrow> term_key k" "node_fuel n (length k) \<le> trie_fuel k"
  using node_fuel_le [of n "length k"] by (simp_all add: child_key_def trie_fuel_def)

lemma child_key_hex: "child_key 0 (keybytesToHex b)"
  by (simp add: slot_fuel(1))

lemma TryGet_tracks:
  assumes "tracks H d tr t"
  shows "\<exists>n. TryGet tr d key = (Inr (plookup t (keybytesToHex (trie_key tr key))), tr\<lparr>t_root := n\<rparr>)
             \<and> tracks H d (tr\<lparr>t_root := n\<rparr>) t"
proof -
  let ?k = "keybytesToHex (trie_key tr key)"
  have t: "hash32 H" "t_hasdb tr" "slot H d True (t_root tr) 0 t" using assms by (simp_all add: tracks_def)
  obtain n b where r: "tryGet tr d (trie_fuel ?k) (t_root tr) ?k 0 = Inr (plookup t ?k, n, b)" "rep H d True n t"
    using get_specD [OF get_spec [OF t(1,2)] t(3), of 0 ?k "trie_fuel ?k"]
    by (auto simp: slot_fuel)
  have "tracks H d (tr\<lparr>t_root := if b then n else t_root tr\<rparr>) t"
    using t r(2) by (simp add: tracks_def slot_def)
  then show ?thesis using r(1) by (intro exI [of _ "if b then n else t_root tr"]) (simp add: TryGet_def)
qed

lemma set_root_Inr: "set_root tr (Inr (b, n)) = (Inr (), tr\<lparr>t_root := n\<rparr>)"
  by (simp add: set_root_def)

text \<open>Bounds on keys and values: an RLP string of that size never overflows a length.\<close>

definition small_key :: "bytes \<Rightarrow> bool" where
  "small_key k \<longleftrightarrow> length k < 2 ^ 30"

definition small_value :: "bytes \<Rightarrow> bool" where
  "small_value v \<longleftrightarrow> length v < 2 ^ 32"

lemma pinsert_slot:
  assumes "slot H d root n 0 t" "v \<noteq> []" "small_key b" "small_value v" "rep H d root n' (pinsert t (keybytesToHex b) v)"
  shows "slot H d root n' 0 (pinsert t (keybytesToHex b) v)"
proof -
  let ?k = "keybytesToHex b"
  have ok: "pinsert_ok 0 t ?k v"
    using pinsert_correct [of 0 t ?k v] assms(1,2) by (simp add: slot_def child_key_def)
  have "length ?k < 2 ^ 32" "length v < 2 ^ 32"
    using assms(3,4) by (simp_all add: keybytesToHex_def small_key_def small_value_def)
  then have "pbnd 0 (pinsert t ?k v)"
    using ok assms(1) unfolding pinsert_ok_def pbnd_def slot_def by (auto split: if_splits)
  then show ?thesis using ok assms(5) by (simp add: slot_def pinsert_ok_def)
qed

lemma contents_pinsert:
  assumes "contents t m" "ptrie_wf t" "v \<noteq> []"
  shows "contents (pinsert t (keybytesToHex b) v) (m(b \<mapsto> v))"
  using assms plookup_pinsert [OF assms(2) _ assms(3), of "keybytesToHex b"]
  by (auto simp: contents_def keybytesToHex_inject)

lemma contents_pdelete:
  assumes "contents t m" "ptrie_wf t"
  shows "contents (pdelete t (keybytesToHex b)) (m(b := None))"
  using assms plookup_pdelete [OF assms(2), of "keybytesToHex b"]
  by (auto simp: contents_def keybytesToHex_inject split: if_splits)

lemma TryUpdate_tracks:
  assumes "tracks H d tr t" "v \<noteq> []" "small_key (trie_key tr key)" "small_value v"
  shows "\<exists>n. TryUpdate tr d key v = (Inr (), tr\<lparr>t_root := n\<rparr>)
             \<and> tracks H d (tr\<lparr>t_root := n\<rparr>) (pinsert t (keybytesToHex (trie_key tr key)) v)"
proof -
  let ?k = "keybytesToHex (trie_key tr key)"
  have t: "hash32 H" "t_hasdb tr" "slot H d True (t_root tr) 0 t" using assms(1) by (simp_all add: tracks_def)
  obtain b n where r: "insert_node tr d (trie_fuel ?k) (t_root tr) [] ?k (ValueNode v) = Inr (b, n)"
    "rep H d True n (pinsert t ?k v)" "b \<or> pinsert t ?k v = t"
    by (rule insert_specD [OF insert_spec [OF t(1,2)] t(3) child_key_hex slot_fuel(2)])
  then show ?thesis
    using pinsert_slot [OF t(3) assms(2-4) r(2)] t(1,2) assms(2)
    by (auto simp: TryUpdate_def set_root_Inr tracks_set_root)
qed

lemma delete_tracks:
  assumes "tracks H d tr t"
  shows "\<exists>n. set_root tr (delete_node tr d (trie_fuel (keybytesToHex b)) (t_root tr) [] (keybytesToHex b))
               = (Inr (), tr\<lparr>t_root := n\<rparr>)
             \<and> tracks H d (tr\<lparr>t_root := n\<rparr>) (pdelete t (keybytesToHex b))"
proof -
  let ?k = "keybytesToHex b"
  have t: "hash32 H" "t_hasdb tr" "slot H d True (t_root tr) 0 t" using assms(1) by (simp_all add: tracks_def)
  obtain b n where r: "delete_node tr d (trie_fuel ?k) (t_root tr) [] ?k = Inr (b, n)"
    "rep H d True n (pdelete t ?k)" "b \<longleftrightarrow> plookup t ?k \<noteq> None" "b \<longrightarrow> (\<forall>h. n \<noteq> HashNode h)"
    by (rule delete_specD [OF delete_spec [OF t(1,2)] t(3) child_key_hex slot_fuel(2)])
  then show ?thesis
    using pdelete_slot(2,3) [OF t(3), of ?k] t(1,2)
    by (auto simp: set_root_Inr tracks_set_root slot_def slot_fuel(1))
qed

lemma hashRoot_tracks:
  assumes "tracks H d tr t" "inj_on H U" "c \<Longrightarrow> pencs H t \<subseteq> U \<and> within H U d"
  shows "\<exists>n d'. hashRoot H tr (odb c d) = Inr (HashNode (root_hash H t), n, odb c d')
    \<and> ext H U c d d' \<and> tracks H d' (tr\<lparr>t_root := n\<rparr>) t
    \<and> (c \<longrightarrow> t \<noteq> PNil \<longrightarrow> pstored H d' t \<and> saved H d' t)"
proof (cases "t = PNil")
  case True
  then have "t_root tr = NilNode" using assms(1) by (simp add: tracks_def slot_def rep_nil_iff)
  then show ?thesis
    using True assms ext_refl [of c H U d]
    by (auto simp: hashRoot_def root_hash_def tracks_def slot_nil intro!: exI [of _ d])
next
  case False
  have t: "hash32 H" "t_hasdb tr" "slot H d True (t_root tr) 0 t" using assms(1) by (simp_all add: tracks_def)
  then have n: "pnode t" "is_pnode t" "t_root tr \<noteq> NilNode"
    using False pnode_is_pnode by (auto simp: slot_def pchild_def)
  have "hash_ok H U c d True t (hash_node H (t_cachegen tr) (t_cachelimit tr) (t_root tr) (odb c d) True)"
    using hash_spec [OF t(1) assms(2), of "t_root tr"] t(3) n(2) assms(3) unfolding hash_spec_def by blast
  then show ?thesis
    using t n(3) False by (auto simp: hash_ok_def hashRoot_def root_hash_def tracks_def slot_def)
qed

lemma length_root_hash: "hash32 H \<Longrightarrow> length (root_hash H t) = 32"
  by (simp add: root_hash_def emptyRoot_def phash_def hash32_length)

lemma Hash_tracks:
  assumes "tracks H d tr t"
  shows "\<exists>n. trie_Hash H tr = (Inr (root_hash H t), tr\<lparr>t_root := n\<rparr>) \<and> tracks H d (tr\<lparr>t_root := n\<rparr>) t"
  using hashRoot_tracks [OF assms, of "{}" False] assms
  by (auto simp: trie_Hash_def odb_def ext_def length_root_hash tracks_def)

lemma CommitTo_tracks:
  assumes "tracks H d tr t" "inj_on H U" "pencs H t \<subseteq> U" "within H U d"
  shows "\<exists>n d'. CommitTo H tr d = (Inr (root_hash H t), tr\<lparr>t_root := n, t_cachegen := t_cachegen tr + 1\<rparr>, d')
    \<and> ext H U True d d' \<and> tracks H d' (tr\<lparr>t_root := n, t_cachegen := t_cachegen tr + 1\<rparr>) t
    \<and> (t \<noteq> PNil \<longrightarrow> pstored H d' t \<and> saved H d' t)"
  using hashRoot_tracks [OF assms(1,2), of True] assms
  by (auto simp: CommitTo_def odb_def length_root_hash tracks_def)

text \<open>Opening a trie at the root hash of a stored trie gives that trie.\<close>

lemma New_tracks:
  assumes "hash32 H" "ptrie_wf t" "pbnd 0 t" "t \<noteq> PNil \<longrightarrow> pstored H d t \<and> saved H d t"
    "root_hash H t \<noteq> zero_hash" "t \<noteq> PNil \<longrightarrow> root_hash H t \<noteq> emptyRoot"
  shows "\<exists>tr. New (root_hash H t) True d = Inr tr \<and> tracks H d tr t \<and> t_prefix tr = None"
proof (cases "t = PNil")
  case True
  then show ?thesis using assms(1) by (simp add: New_def root_hash_def tracks_def slot_nil)
next
  case False
  then have n: "pnode t" using assms(2) by (simp add: ptrie_wf_def)
  let ?tr = "\<lparr>t_root = NilNode, t_hasdb = True, t_originalRoot = phash H t, t_prefix = None,
              t_cachegen = 0, t_cachelimit = 0\<rparr>"
  have "rep H d True (HashNode (phash H t)) t" using False assms(4) pnode_is_pnode [OF n] by simp
  from resolveHash_correct [OF assms(1) _ n assms(3) this, of ?tr "[]"] obtain c
    where "resolveHash ?tr d (phash H t) [] = Inr c" "rep H d True c t" by auto
  then show ?thesis
    using False assms n by (simp add: New_def root_hash_def tracks_def slot_def pchild_def)
qed

text \<open>The operations on the finite map.\<close>

lemma TryGet_models:
  assumes "models H d tr m"
  shows "\<exists>n. TryGet tr d k = (Inr (m (trie_key tr k)), tr\<lparr>t_root := n\<rparr>) \<and> models H d (tr\<lparr>t_root := n\<rparr>) m"
  using assms TryGet_tracks by (fastforce simp: models_def contents_def)

lemma TryDelete_models:
  assumes "models H d tr m"
  shows "\<exists>n. TryDelete tr d k = (Inr (), tr\<lparr>t_root := n\<rparr>)
             \<and> models H d (tr\<lparr>t_root := n\<rparr>) (m(trie_key tr k := None))"
proof -
  obtain t where t: "tracks H d tr t" "contents t m" using assms by (auto simp: models_def)
  from delete_tracks [OF t(1), of "trie_key tr k"] contents_pdelete [OF t(2) tracks_wf [OF t(1)]]
  show ?thesis by (fastforce simp: models_def TryDelete_def)
qed

lemma TryUpdate_models:
  assumes "models H d tr m" "small_key (trie_key tr k)" "small_value v"
  shows "\<exists>n. TryUpdate tr d k v = (Inr (), tr\<lparr>t_root := n\<rparr>)
    \<and> models H d (tr\<lparr>t_root := n\<rparr>) (m(trie_key tr k := if v = [] then None else Some v))"
proof (cases "v = []")
  case True
  then show ?thesis using TryDelete_models [OF assms(1)] by (simp add: TryUpdate_def TryDelete_def)
next
  case False
  obtain t where t: "tracks H d tr t" "contents t m" using assms(1) by (auto simp: models_def)
  from TryUpdate_tracks [OF t(1) False assms(2,3)] contents_pinsert [OF t(2) tracks_wf [OF t(1)] False]
  show ?thesis using False by (fastforce simp: models_def)
qed

lemma Hash_models:
  assumes "models H d tr m" "models H d' tr' m"
  shows "\<exists>h. fst (trie_Hash H tr) = Inr h \<and> fst (trie_Hash H tr') = Inr h \<and> length h = 32"
proof -
  obtain t u where t: "tracks H d tr t" "contents t m" and u: "tracks H d' tr' u" "contents u m"
    using assms by (auto simp: models_def)
  have "t = u" using contents_unique [OF t(2) u(2)] tracks_wf t(1) u(1) by blast
  then show ?thesis
    using Hash_tracks [OF t(1)] Hash_tracks [OF u(1)] length_root_hash t(1) by (auto simp: tracks_def)
qed

lemma Hash_models_keeps:
  assumes "models H d tr m"
  shows "\<exists>h n. trie_Hash H tr = (Inr h, tr\<lparr>t_root := n\<rparr>) \<and> models H d (tr\<lparr>t_root := n\<rparr>) m"
  using assms Hash_tracks by (fastforce simp: models_def)

section \<open>The interface of a key/value store\<close>

text \<open>What the clients of a trie (the consensus and application contexts) rely on. The client
  lemmas are proved from these laws only; the trie is the instance the code uses.\<close>

locale kv_store =
  fixes holds :: "'s \<Rightarrow> (bytes \<rightharpoonup> bytes) \<Rightarrow> bool"
    and full_key :: "'s \<Rightarrow> bytes \<Rightarrow> bytes"
    and get :: "'s \<Rightarrow> bytes \<Rightarrow> bytes option res \<times> 's"
    and upd :: "'s \<Rightarrow> bytes \<Rightarrow> bytes \<Rightarrow> unit res \<times> 's"
    and del :: "'s \<Rightarrow> bytes \<Rightarrow> unit res \<times> 's"
  assumes get_law: "holds s m \<Longrightarrow>
      \<exists>s'. get s k = (Inr (m (full_key s k)), s') \<and> holds s' m \<and> full_key s' = full_key s"
    and upd_law: "holds s m \<Longrightarrow> small_key (full_key s k) \<Longrightarrow> small_value v \<Longrightarrow>
      \<exists>s'. upd s k v = (Inr (), s') \<and> holds s' (m(full_key s k := if v = [] then None else Some v))
           \<and> full_key s' = full_key s"
    and del_law: "holds s m \<Longrightarrow>
      \<exists>s'. del s k = (Inr (), s') \<and> holds s' (m(full_key s k := None)) \<and> full_key s' = full_key s"
    and full_key_inj: "full_key s a = full_key s b \<longleftrightarrow> a = b"
begin

lemma get_after_upd:
  assumes "holds s m" "small_key (full_key s k)" "small_value v" "v \<noteq> []"
  shows "fst (get (snd (upd s k v)) k') = (if k' = k then Inr (Some v) else fst (get s k'))"
proof -
  obtain s' where s': "upd s k v = (Inr (), s')" "holds s' (m(full_key s k \<mapsto> v))" "full_key s' = full_key s"
    using upd_law [OF assms(1-3)] assms(4) by auto
  show ?thesis
    using get_law [OF s'(2), of k'] get_law [OF assms(1), of k'] s' full_key_inj [of s k' k] by auto
qed

lemma get_after_del:
  assumes "holds s m"
  shows "fst (get (snd (del s k)) k') = (if k' = k then Inr None else fst (get s k'))"
proof -
  obtain s' where s': "del s k = (Inr (), s')" "holds s' (m(full_key s k := None))" "full_key s' = full_key s"
    using del_law [OF assms] by blast
  show ?thesis
    using get_law [OF s'(2), of k'] get_law [OF assms, of k'] s' full_key_inj [of s k' k] by auto
qed

lemma get_after_get:
  assumes "holds s m"
  shows "fst (get (snd (get s k)) k') = fst (get s k')"
  using get_law [OF assms, of k] get_law [OF assms, of k'] get_law by (metis fst_conv snd_conv)

end

lemma trie_key_inj: "trie_key tr a = trie_key tr b \<longleftrightarrow> a = b"
  by (simp add: trie_key_def split: option.split)

lemma trie_key_root [simp]: "trie_key (tr\<lparr>t_root := n\<rparr>) = trie_key tr"
  by (simp add: trie_key_def fun_eq_iff)

interpretation trie_store: kv_store "models H d" trie_key "\<lambda>tr k. TryGet tr d k" "\<lambda>tr k v. TryUpdate tr d k v"
  "\<lambda>tr k. TryDelete tr d k" for H d
proof unfold_locales
  show "\<exists>s'. TryGet s d k = (Inr (m (trie_key s k)), s') \<and> models H d s' m \<and> trie_key s' = trie_key s"
    if "models H d s m" for s m k using TryGet_models [OF that, of k] by auto
  show "\<exists>s'. TryUpdate s d k v = (Inr (), s')
      \<and> models H d s' (m(trie_key s k := if v = [] then None else Some v)) \<and> trie_key s' = trie_key s"
    if "models H d s m" "small_key (trie_key s k)" "small_value v" for s m k v
    using TryUpdate_models [OF that] by auto
  show "\<exists>s'. TryDelete s d k = (Inr (), s') \<and> models H d s' (m(trie_key s k := None)) \<and> trie_key s' = trie_key s"
    if "models H d s m" for s m k using TryDelete_models [OF that, of k] by auto
qed (rule trie_key_inj)

section \<open>Properties\<close>

text \<open>A concrete hash function, used to show that the hypotheses of the properties can hold.\<close>

definition pad_hash :: "bytes \<Rightarrow> bytes" where
  "pad_hash x = take 32 (x @ replicate 32 0)"

lemma hash32_pad: "hash32 pad_hash"
  by (simp add: hash32_def pad_hash_def min_def)

definition empty_trie :: trie where
  "empty_trie = \<lparr>t_root = NilNode, t_hasdb = True, t_originalRoot = zero_hash, t_prefix = None,
                 t_cachegen = 0, t_cachelimit = 0\<rparr>"

lemma New_empty: "New zero_hash True d = Inr empty_trie"
  by (simp add: New_def empty_trie_def)

lemma models_empty: "hash32 H \<Longrightarrow> models H d empty_trie Map.empty"
  by (auto simp: models_def tracks_def contents_def empty_trie_def slot_nil intro!: exI [of _ PNil])

lemma trie_key_empty [simp]: "trie_key empty_trie k = k"
  by (simp add: trie_key_def empty_trie_def)

lemma hd_roots: "hd emptyRoot = 0x56" "hd zero_hash = 0"
  by (simp_all add: emptyRoot_def zero_hash_def)

lemma not_reserved_root: "hd h \<noteq> 0x56 \<Longrightarrow> h \<noteq> emptyRoot" "hd h \<noteq> 0 \<Longrightarrow> h \<noteq> zero_hash"
  using hd_roots by auto

lemma emptyRoot_not_zero: "emptyRoot \<noteq> zero_hash"
  by (rule not_reserved_root) (simp add: hd_roots)

lemma hd_pad_hash: "x \<noteq> [] \<Longrightarrow> hd (pad_hash x) = hd x"
  by (cases x) (simp_all add: pad_hash_def)

text \<open>The encodings of the nodes of the trie that holds \<open>m\<close>.\<close>

definition encodings :: "(bytes \<Rightarrow> bytes) \<Rightarrow> (bytes \<rightharpoonup> bytes) \<Rightarrow> bytes set" where
  "encodings H m = (\<Union>t \<in> {t. ptrie_wf t \<and> contents t m}. pencs H t)"

lemma CommitTo_models:
  assumes m: "models H d tr m" and U: "inj_on H U" "encodings H m \<subseteq> U" "within H U d"
    and fresh: "zero_hash \<notin> H ` U" "emptyRoot \<notin> H ` U"
  shows "\<exists>h n g d'. CommitTo H tr d = (Inr h, tr\<lparr>t_root := n, t_cachegen := g\<rparr>, d')
    \<and> d \<subseteq>\<^sub>m d' \<and> within H U d' \<and> models H d' (tr\<lparr>t_root := n, t_cachegen := g\<rparr>) m
    \<and> fst (trie_Hash H tr) = Inr h \<and> (\<forall>x. length x \<noteq> 32 \<longrightarrow> d' x = d x)
    \<and> (\<exists>tr'. New h True d' = Inr tr' \<and> models H d' tr' m \<and> t_prefix tr' = None)"
proof -
  obtain t where t: "tracks H d tr t" "contents t m" using m by (auto simp: models_def)
  have enc: "pencs H t \<subseteq> U" using U(2) t tracks_wf [OF t(1)] by (auto simp: encodings_def)
  from CommitTo_tracks [OF t(1) U(1) enc U(3)] obtain n d' where
    c: "CommitTo H tr d = (Inr (root_hash H t), tr\<lparr>t_root := n, t_cachegen := t_cachegen tr + 1\<rparr>, d')"
    "ext H U True d d'" "tracks H d' (tr\<lparr>t_root := n, t_cachegen := t_cachegen tr + 1\<rparr>) t"
    "t \<noteq> PNil \<longrightarrow> pstored H d' t \<and> saved H d' t" by blast
  have wf: "ptrie_wf t" "hash32 H" "pbnd 0 t" using t(1) tracks_wf by (auto simp: tracks_def slot_def)
  have "root_hash H t \<noteq> zero_hash \<and> (t \<noteq> PNil \<longrightarrow> root_hash H t \<noteq> emptyRoot)"
  proof (cases "t = PNil")
    case False
    then have "nenc H t \<in> U" using enc nenc_in_pencs [of t H] wf(1) pnode_is_pnode by (auto simp: ptrie_wf_def)
    then have "phash H t \<in> H ` U" by (simp add: phash_def)
    then show ?thesis using False fresh by (auto simp: root_hash_def)
  qed (simp add: root_hash_def emptyRoot_not_zero)
  then obtain tr' where tr': "New (root_hash H t) True d' = Inr tr'" "tracks H d' tr' t" "t_prefix tr' = None"
    using New_tracks [OF wf(2,1,3) c(4)] by blast
  have "models H d' (tr\<lparr>t_root := n, t_cachegen := t_cachegen tr + 1\<rparr>) m" "models H d' tr' m"
    "fst (trie_Hash H tr) = Inr (root_hash H t)"
    using c(3) tr'(2) t Hash_tracks [OF t(1)] by (auto simp: models_def)
  moreover have "d \<subseteq>\<^sub>m d'" "within H U d'" "\<forall>x. length x \<noteq> 32 \<longrightarrow> d' x = d x" using extD [OF c(2)] by simp_all
  ultimately show ?thesis using c(1) tr'(1,3) by blast
qed

text \<open>C1. A trie is a finite map. Whatever mixture of loaded, cached and unloaded nodes it
  consists of, \<open>TryGet\<close> returns the value of the key, \<open>TryUpdate\<close> sets it (an empty value removes
  it) and \<open>TryDelete\<close> removes it; none of them fails, panics or runs out of fuel, and the object
  afterwards holds exactly the updated map.\<close>

theorem trie_refines_map:
  assumes "models H d tr m" and "small_key (trie_key tr k)" and "small_value v"
  shows "(\<exists>tr'. TryGet tr d k = (Inr (m (trie_key tr k)), tr') \<and> models H d tr' m)
    \<and> (\<exists>tr'. TryUpdate tr d k v = (Inr (), tr')
             \<and> models H d tr' (m(trie_key tr k := if v = [] then None else Some v)))
    \<and> (\<exists>tr'. TryDelete tr d k = (Inr (), tr') \<and> models H d tr' (m(trie_key tr k := None)))"
  using TryGet_models [OF assms(1)] TryUpdate_models [OF assms] TryDelete_models [OF assms(1)] by blast

theorem trie_refines_map_witness:
  "\<exists>tr'. TryUpdate empty_trie Map.empty [1] [2] = (Inr (), tr') \<and> models pad_hash Map.empty tr' [[1] \<mapsto> [2]]"
  using trie_refines_map [OF models_empty [OF hash32_pad, of Map.empty], of "[1]" "[2]"]
  by (simp add: small_key_def small_value_def)

text \<open>C10. The root hash is a function of the contents: two tries that hold the same map hash to
  the same 32 bytes, whatever the order of insertions and deletions that made them, whatever is
  cached, and whatever databases they sit on.\<close>

theorem trie_hash_of_contents:
  assumes "models H d tr m" and "models H d' tr' m"
  shows "\<exists>h. fst (trie_Hash H tr) = Inr h \<and> fst (trie_Hash H tr') = Inr h \<and> length h = 32"
  by (rule Hash_models [OF assms])

theorem trie_hash_of_contents_witness:
  "\<exists>h. fst (trie_Hash pad_hash (snd (TryUpdate empty_trie Map.empty [1] [2]))) = Inr h
     \<and> fst (trie_Hash pad_hash (snd (TryUpdate (snd (TryUpdate empty_trie Map.empty [1] [3])) Map.empty [1] [2]))) = Inr h
     \<and> length h = 32"
proof -
  note e = models_empty [OF hash32_pad, of Map.empty]
  obtain a where a: "TryUpdate empty_trie Map.empty [1] [2] = (Inr (), empty_trie\<lparr>t_root := a\<rparr>)"
    "models pad_hash Map.empty (empty_trie\<lparr>t_root := a\<rparr>) [[1] \<mapsto> [2]]"
    using TryUpdate_models [OF e, of "[1]" "[2]"] by (auto simp: small_key_def small_value_def)
  obtain b where b: "TryUpdate empty_trie Map.empty [1] [3] = (Inr (), empty_trie\<lparr>t_root := b\<rparr>)"
    "models pad_hash Map.empty (empty_trie\<lparr>t_root := b\<rparr>) [[1] \<mapsto> [3]]"
    using TryUpdate_models [OF e, of "[1]" "[3]"] by (auto simp: small_key_def small_value_def)
  obtain c where c: "TryUpdate (empty_trie\<lparr>t_root := b\<rparr>) Map.empty [1] [2] = (Inr (), empty_trie\<lparr>t_root := c\<rparr>)"
    "models pad_hash Map.empty (empty_trie\<lparr>t_root := c\<rparr>) [[1] \<mapsto> [2]]"
    using TryUpdate_models [OF b(2), of "[1]" "[2]"] by (auto simp: small_key_def small_value_def)
  show ?thesis using trie_hash_of_contents [OF a(2) c(2)] a(1) b(1) c(1) by simp
qed

text \<open>C2. A commit persists the trie: it returns the root hash, keeps everything the database
  held, and a trie opened at that root on the new database holds the same map, as does the
  committed object. The hash function is only assumed to have no collision among the node
  encodings involved and not to produce the two reserved roots.\<close>

theorem commit_persists:
  assumes "models H d tr m" and "inj_on H U" and "encodings H m \<subseteq> U" and "within H U d"
    and "zero_hash \<notin> H ` U" and "emptyRoot \<notin> H ` U"
  shows "\<exists>h tr1 d1 tr2. CommitTo H tr d = (Inr h, tr1, d1) \<and> fst (trie_Hash H tr) = Inr h
    \<and> d \<subseteq>\<^sub>m d1 \<and> within H U d1 \<and> models H d1 tr1 m
    \<and> New h True d1 = Inr tr2 \<and> models H d1 tr2 m"
  using CommitTo_models [OF assms] by blast

theorem commit_persists_witness:
  "\<exists>h tr1 d1 tr2.
     CommitTo pad_hash (snd (TryUpdate empty_trie Map.empty [1] [2])) Map.empty = (Inr h, tr1, d1)
     \<and> New h True d1 = Inr tr2 \<and> models pad_hash d1 tr2 [[1] \<mapsto> [2]]"
proof -
  let ?t = "PShort [0, 1, 16] (PVal [2])" and ?m = "[[1] \<mapsto> [2]] :: bytes \<rightharpoonup> bytes"
  let ?U = "{nenc pad_hash ?t}"
  obtain a where a: "TryUpdate empty_trie Map.empty [1] [2] = (Inr (), empty_trie\<lparr>t_root := a\<rparr>)"
    "models pad_hash Map.empty (empty_trie\<lparr>t_root := a\<rparr>) ?m"
    using TryUpdate_models [OF models_empty [OF hash32_pad, of Map.empty], of "[1]" "[2]"]
    by (auto simp: small_key_def small_value_def)
  have k: "keybytesToHex [1] = [0, 1, 16]" by (simp add: keybytesToHex_def)
  have "contents (pinsert PNil (keybytesToHex [1]) [2]) ?m"
    by (rule contents_pinsert) (auto simp: contents_def ptrie_wf_def)
  then have c: "contents ?t ?m" by (simp add: pinsert.simps pleaf_def k)
  have "ptrie_wf ?t" by (simp add: ptrie_wf_def term_key_Cons)
  then have "{t. ptrie_wf t \<and> contents t ?m} = {?t}" using contents_unique [OF _ c] c by blast
  then have "encodings pad_hash ?m \<subseteq> ?U" by (simp add: encodings_def)
  moreover have "nenc pad_hash ?t = [0xC4, 0x82, 0x20, 1, 2]"
    by (simp add: nenc_def penc_short compact_def hexToCompact_def hasTerm_def pref_eq big_def
        encodeString_def encodeStringHeader_def puthead_def del: penc.simps(3))
  then have "hd (pad_hash (nenc pad_hash ?t)) = 0xC4" by (simp add: hd_pad_hash)
  then have "zero_hash \<notin> pad_hash ` ?U" "emptyRoot \<notin> pad_hash ` ?U"
    using not_reserved_root [of "pad_hash (nenc pad_hash ?t)"] by auto
  moreover have "within pad_hash ?U Map.empty" by (simp add: within_def)
  ultimately show ?thesis
    using commit_persists [OF a(2), of ?U] a(1) by (simp; blast)
qed

text \<open>C11. A missing node is an error, never a wrong answer: if the root is only known by its hash
  and the database does not have it, opening, reading, updating and deleting all report the
  missing hash, and the trie object is left as it was.\<close>

theorem missing_root_reported:
  assumes "t_root tr = HashNode h" and "t_hasdb tr" and "d h = None" and "length h = 32"
    and "h \<noteq> zero_hash" and "h \<noteq> emptyRoot"
  shows "New h True d = Inl (MissingNodeError h [])
    \<and> TryGet tr d k = (Inl (MissingNodeError h []), tr)
    \<and> TryUpdate tr d k v = (Inl (MissingNodeError h []), tr)
    \<and> TryDelete tr d k = (Inl (MissingNodeError h []), tr)"
proof -
  have r: "resolveHash t d h [] = Inl (MissingNodeError h [])" if "t_hasdb t" for t
    using assms(3,4) that by (simp add: resolveHash_def db_Get_def)
  have k: "keybytesToHex b \<noteq> []" for b by (simp add: keybytesToHex_def)
  show ?thesis
    using assms r by (simp add: New_def TryGet_def TryUpdate_def TryDelete_def set_root_def trie_fuel_def k Let_def)
qed

theorem missing_root_reported_witness:
  "TryGet (empty_trie\<lparr>t_root := HashNode (replicate 32 7)\<rparr>) Map.empty [1] =
     (Inl (MissingNodeError (replicate 32 7) []), empty_trie\<lparr>t_root := HashNode (replicate 32 7)\<rparr>)"
  using missing_root_reported [of "empty_trie\<lparr>t_root := HashNode (replicate 32 7)\<rparr>" "replicate 32 7" Map.empty "[1]"]
    not_reserved_root [of "replicate 32 7"]
  by (simp add: empty_trie_def)

end
