(* ===== verification/Trie_View.thy ===== *)
theory Trie_View
  imports Trie_Correct
begin

text \<open>
  The view that the clients of a prefixed trie have of it: a finite map from the keys they use to
  values, with the prefix of the trie hidden. \<open>map_store\<close> is the interface they rely on, and the trie
  with \<open>TryGet\<close>, \<open>TryUpdate\<close> and \<open>TryDelete\<close> is its instance. \<open>sound_db\<close> and \<open>covers\<close> name what a commit
  needs of the hash function: no collision among the encodings of the nodes involved.
\<close>

section \<open>The prefixed map\<close>

definition prefixed :: "bytes \<Rightarrow> (bytes \<rightharpoonup> bytes) \<Rightarrow> (bytes \<rightharpoonup> bytes)" where
  "prefixed p f k = (if take (length p) k = p then f (drop (length p) k) else None)"

lemma prefixed_append [simp]: "prefixed p f (p @ k) = f k"
  by (simp add: prefixed_def)

lemma prefixed_upd: "(prefixed p f)(p @ k := x) = prefixed p (f(k := x))"
proof
  fix j
  show "((prefixed p f)(p @ k := x)) j = prefixed p (f(k := x)) j"
  proof (cases "take (length p) j = p")
    case True
    then obtain i where "j = p @ i" by (metis append_take_drop_id)
    then show ?thesis by simp
  next
    case False
    then show ?thesis by (auto simp: prefixed_def)
  qed
qed

lemma prefixed_empty [simp]: "prefixed p Map.empty = Map.empty"
  by (auto simp: prefixed_def)

lemma prefixed_single: "prefixed p [k \<mapsto> v] = [p @ k \<mapsto> v]"
  using prefixed_upd [of p Map.empty k "Some v"] by simp

definition stores :: "(bytes \<Rightarrow> bytes) \<Rightarrow> database \<Rightarrow> bytes \<Rightarrow> trie \<Rightarrow> (bytes \<rightharpoonup> bytes) \<Rightarrow> bool" where
  "stores H d p tr f \<longleftrightarrow> t_prefix tr = Some p \<and> length p \<le> 64 \<and> models H d tr (prefixed p f)"

definition short_key :: "bytes \<Rightarrow> bool" where
  "short_key k \<longleftrightarrow> length k \<le> 64"

lemma stores_key: "stores H d p tr f \<Longrightarrow> trie_key tr k = p @ k"
  by (simp add: stores_def trie_key_def)

lemma TryGet_stores:
  assumes "stores H d p tr f"
  shows "\<exists>tr'. TryGet tr d k = (Inr (f k), tr') \<and> stores H d p tr' f"
proof -
  obtain n where "TryGet tr d k = (Inr (f k), tr\<lparr>t_root := n\<rparr>)" "models H d (tr\<lparr>t_root := n\<rparr>) (prefixed p f)"
    using TryGet_models [of H d tr "prefixed p f" k] assms stores_key [OF assms] by (auto simp: stores_def)
  then show ?thesis using assms by (auto simp: stores_def)
qed

lemma TryUpdate_stores:
  assumes "stores H d p tr f" "short_key k" "small_value v" "v \<noteq> []"
  shows "\<exists>tr'. TryUpdate tr d k v = (Inr (), tr') \<and> stores H d p tr' (f(k \<mapsto> v))"
proof -
  have "small_key (trie_key tr k)"
    using assms(1,2) stores_key [OF assms(1)] by (simp add: stores_def short_key_def small_key_def)
  then obtain n where "TryUpdate tr d k v = (Inr (), tr\<lparr>t_root := n\<rparr>)"
    "models H d (tr\<lparr>t_root := n\<rparr>) (prefixed p (f(k \<mapsto> v)))"
    using TryUpdate_models [of H d tr "prefixed p f" k v] assms stores_key [OF assms(1)] prefixed_upd [of p f k "Some v"]
    by (auto simp: stores_def)
  then show ?thesis using assms(1) by (auto simp: stores_def)
qed

lemma TryDelete_stores:
  assumes "stores H d p tr f"
  shows "\<exists>tr'. TryDelete tr d k = (Inr (), tr') \<and> stores H d p tr' (f(k := None))"
proof -
  obtain n where "TryDelete tr d k = (Inr (), tr\<lparr>t_root := n\<rparr>)"
    "models H d (tr\<lparr>t_root := n\<rparr>) (prefixed p (f(k := None)))"
    using TryDelete_models [of H d tr "prefixed p f" k] assms stores_key [OF assms] prefixed_upd [of p f k None]
    by (auto simp: stores_def)
  then show ?thesis using assms by (auto simp: stores_def)
qed

section \<open>The interface\<close>

locale map_store =
  fixes holds :: "'s \<Rightarrow> (bytes \<rightharpoonup> bytes) \<Rightarrow> bool"
    and get :: "bytes \<Rightarrow> (bytes option, 's) op"
    and upd :: "bytes \<Rightarrow> bytes \<Rightarrow> (unit, 's) op"
    and del :: "bytes \<Rightarrow> (unit, 's) op"
  assumes get_law: "holds s f \<Longrightarrow> \<exists>s'. get k s = (Inr (f k), s') \<and> holds s' f"
    and upd_law: "holds s f \<Longrightarrow> short_key k \<Longrightarrow> small_value v \<Longrightarrow> v \<noteq> [] \<Longrightarrow>
      \<exists>s'. upd k v s = (Inr (), s') \<and> holds s' (f(k \<mapsto> v))"
    and del_law: "holds s f \<Longrightarrow> \<exists>s'. del k s = (Inr (), s') \<and> holds s' (f(k := None))"
begin

text \<open>Handlers that log an error and carry on see no error.\<close>

lemma catch_get:
  "holds s f \<Longrightarrow> \<exists>s'. scatch (get k) h sret s = (Inr (f k), s') \<and> holds s' f"
  using get_law [of s f k] by (auto simp: sret_def)

lemma ignore_upd:
  "holds s f \<Longrightarrow> short_key k \<Longrightarrow> small_value v \<Longrightarrow> v \<noteq> [] \<Longrightarrow>
   \<exists>s'. signore (upd k v) s = (Inr (), s') \<and> holds s' (f(k \<mapsto> v))"
  using upd_law [of s f k v] by auto

lemma read_your_write:
  assumes "holds s f" "short_key k" "small_value v" "v \<noteq> []"
  shows "fst (sbind (upd k v) (\<lambda>_. get k') s) = (if k' = k then Inr (Some v) else fst (get k' s))"
proof -
  obtain s' where s': "upd k v s = (Inr (), s')" "holds s' (f(k \<mapsto> v))" using upd_law [OF assms] by blast
  show ?thesis using s' get_law [OF s'(2), of k'] get_law [OF assms(1), of k'] by auto
qed

end

interpretation view: map_store "stores H d p" "\<lambda>k tr. TryGet tr d k" "\<lambda>k v tr. TryUpdate tr d k v" "\<lambda>k tr. TryDelete tr d k"
  for H d p
  by unfold_locales (simp_all add: TryGet_stores TryUpdate_stores TryDelete_stores)

lemma trie_Get_stores:
  "stores H d p tr f \<Longrightarrow> \<exists>tr'. trie_Get tr d k = (Inr (f k), tr') \<and> stores H d p tr' f"
  unfolding trie_Get_def by (rule view.catch_get)

lemma trie_Update_stores:
  "stores H d p tr f \<Longrightarrow> short_key k \<Longrightarrow> small_value v \<Longrightarrow> v \<noteq> [] \<Longrightarrow>
   \<exists>tr'. trie_Update tr d k v = (Inr (), tr') \<and> stores H d p tr' (f(k \<mapsto> v))"
  unfolding trie_Update_def by (rule view.ignore_upd)

section \<open>Opening, hashing and commit\<close>

lemma stores_mono: "d \<subseteq>\<^sub>m d' \<Longrightarrow> stores H d p tr f \<Longrightarrow> stores H d' p tr f"
  by (auto simp: stores_def intro: models_mono)

lemma New_prefix_empty:
  assumes "hash32 H" "length p \<le> 64"
  shows "\<exists>tr. NewTrieWithPrefix zero_hash p hasdb d = Inr tr \<and> (hasdb \<longrightarrow> stores H d p tr Map.empty)"
  using assms models_empty [OF assms(1), of d]
  by (auto simp: NewTrieWithPrefix_def New_def stores_def empty_trie_def models_def tracks_def)

lemma Hash_stores:
  assumes "stores H d p tr f"
  shows "\<exists>h tr'. trie_Hash H tr = (Inr h, tr') \<and> stores H d p tr' f \<and> length h = 32"
  using Hash_models_keeps [of H d tr "prefixed p f"] Hash_models [of H d tr "prefixed p f" d tr] assms
  by (fastforce simp: stores_def)

lemma Hash_stores_eq:
  assumes "stores H d p tr f" "stores H d' p tr' f"
  shows "fst (trie_Hash H tr) = fst (trie_Hash H tr')"
  using Hash_models [of H d tr "prefixed p f" d' tr'] assms by (auto simp: stores_def)

definition sound_db :: "(bytes \<Rightarrow> bytes) \<Rightarrow> bytes set \<Rightarrow> database \<Rightarrow> bool" where
  "sound_db H U d \<longleftrightarrow> inj_on H U \<and> within H U d \<and> zero_hash \<notin> H ` U \<and> emptyRoot \<notin> H ` U"

definition covers :: "(bytes \<Rightarrow> bytes) \<Rightarrow> bytes set \<Rightarrow> bytes \<Rightarrow> (bytes \<rightharpoonup> bytes) \<Rightarrow> bool" where
  "covers H U p f \<longleftrightarrow> encodings H (prefixed p f) \<subseteq> U"

lemma New_mono:
  assumes "New h True d = Inr tr" "d \<subseteq>\<^sub>m d'"
  shows "New h True d' = Inr tr"
proof (cases "d h")
  case None
  then show ?thesis using assms(1) by (auto simp: New_def Let_def resolveHash_def db_Get_def split: if_splits)
next
  case (Some v)
  then have "d' h = Some v" using assms(2) by (metis domI map_le_def)
  then have "resolveHash t d' h q = resolveHash t d h q" for t q
    using Some by (simp add: resolveHash_def db_Get_def)
  then have "New h True d' = New h True d" by (simp add: New_def Let_def)
  then show ?thesis using assms(1) by simp
qed

lemma CommitTo_stores:
  assumes "stores H d p tr f" "sound_db H U d" "covers H U p f"
  shows "\<exists>h tr' d'. CommitTo H tr d = (Inr h, tr', d') \<and> Commit H tr d = (Inr h, tr', d')
    \<and> d \<subseteq>\<^sub>m d' \<and> sound_db H U d' \<and> stores H d' p tr' f \<and> fst (trie_Hash H tr) = Inr h
    \<and> (\<forall>e. d' \<subseteq>\<^sub>m e \<longrightarrow> (\<exists>tr2. NewTrieWithPrefix h p True e = Inr tr2 \<and> stores H e p tr2 f))"
proof -
  have m: "models H d tr (prefixed p f)" and hd: "t_hasdb tr" using assms(1) by (auto simp: stores_def models_def tracks_def)
  obtain h n g d' tr2 where c: "CommitTo H tr d = (Inr h, tr\<lparr>t_root := n, t_cachegen := g\<rparr>, d')"
    "d \<subseteq>\<^sub>m d'" "within H U d'" "models H d' (tr\<lparr>t_root := n, t_cachegen := g\<rparr>) (prefixed p f)"
    "fst (trie_Hash H tr) = Inr h" "New h True d' = Inr tr2" "models H d' tr2 (prefixed p f)"
    using CommitTo_models [OF m, of U] assms(2,3) unfolding sound_db_def covers_def by blast
  have "\<exists>t. NewTrieWithPrefix h p True e = Inr t \<and> stores H e p t f" if e: "d' \<subseteq>\<^sub>m e" for e
    using New_mono [OF c(6) e] models_mono [OF e c(7)] assms(1)
    by (auto simp: NewTrieWithPrefix_def stores_def models_def tracks_def)
  moreover have "sound_db H U d'" using assms(2) c(3) by (simp add: sound_db_def)
  moreover have "stores H d' p (tr\<lparr>t_root := n, t_cachegen := g\<rparr>) f" using assms(1) c(4) by (simp add: stores_def)
  ultimately show ?thesis using c(1,2,5) hd by (fastforce simp: Commit_def)
qed

section \<open>Tries with one entry\<close>

text \<open>The encodings of a trie with one entry, used to exhibit collision-free sets.\<close>

definition leaf_enc :: "bytes \<Rightarrow> bytes \<Rightarrow> bytes" where
  "leaf_enc k v = encode_item (Lst [Str (compact (keybytesToHex k)), Str v])"

lemma keybytesToHex_cons: "keybytesToHex k = hd (keybytesToHex k) # tl (keybytesToHex k)"
  by (cases "keybytesToHex k") (simp_all add: keybytesToHex_def)

lemma encodings_single:
  assumes "v \<noteq> []"
  shows "encodings H [k \<mapsto> v] = {leaf_enc k v}"
proof -
  let ?k = "keybytesToHex k" let ?t = "PShort ?k (PVal v)"
  have ne: "?k \<noteq> []" by (simp add: keybytesToHex_def)
  have "contents (pinsert PNil ?k v) [k \<mapsto> v]"
    by (rule contents_pinsert) (use assms in \<open>auto simp: contents_def ptrie_wf_def\<close>)
  then have c: "contents ?t [k \<mapsto> v]" using ne by (cases ?k) (simp_all add: pinsert.simps pleaf_def)
  have "ptrie_wf ?t" using assms ne slot_fuel(1) [of ?k] child_key_hex [of k] by (simp add: ptrie_wf_def)
  then have "{t. ptrie_wf t \<and> contents t [k \<mapsto> v]} = {?t}" using contents_unique [OF _ c] c by blast
  then show ?thesis by (simp add: encodings_def nenc_def leaf_enc_def penc_short pref_eq big_def del: penc.simps(3))
qed

lemma encodings_empty: "encodings H Map.empty = {}"
proof -
  have "contents PNil Map.empty" "ptrie_wf PNil" by (simp_all add: contents_def ptrie_wf_def)
  then have "{t. ptrie_wf t \<and> contents t Map.empty} = {PNil}" using contents_unique by blast
  then show ?thesis by (simp add: encodings_def)
qed

lemma covers_single: "v \<noteq> [] \<Longrightarrow> covers H U p [k \<mapsto> v] \<longleftrightarrow> leaf_enc (p @ k) v \<in> U"
  by (simp add: covers_def prefixed_single encodings_single)

lemma covers_empty: "covers H U p Map.empty"
  by (simp add: covers_def encodings_empty)

text \<open>The first byte of an encoded list is at least \<open>0xC0\<close>, so that padding never yields a reserved root.\<close>

lemma hd_leaf_enc: "leaf_enc k v \<noteq> [] \<and> 0xC0 \<le> unat (hd (leaf_enc k v))"
proof -
  let ?z = "of_nat (length (encode_item (Str (compact (keybytesToHex k))) @ encode_item (Str v))) :: u64"
  have e: "leaf_enc k v = puthead 0xC0 0xF7 ?z @ encode_item (Str (compact (keybytesToHex k))) @ encode_item (Str v)"
    by (simp add: leaf_enc_def)
  show ?thesis
  proof (cases "?z < 56")
    case True
    have n: "unat ?z < 56" using True by (simp add: word_less_nat_alt)
    have "unat (0xC0 + ucast ?z :: byte) = 0xC0 + unat ?z"
      using unat_small_tag [of "0xC0" "unat ?z"] n by (simp add: unat_word_ariths unat_ucast_u64_byte)
    then show ?thesis unfolding e using True by (simp add: puthead_def)
  next
    case False
    then have "?z \<noteq> 0" by auto
    then have "length (putint ?z) \<le> 8" by (rule putint_props(4))
    then have "unat (0xF7 + of_nat (length (putint ?z)) :: byte) = 0xF7 + length (putint ?z)"
      using unat_small_tag [of "0xF7" "length (putint ?z)"] by simp
    then show ?thesis unfolding e using False by (simp add: puthead_def Let_def)
  qed
qed

lemma pad_hash_sound:
  assumes "inj_on pad_hash U" "\<And>x. x \<in> U \<Longrightarrow> \<exists>k v. x = leaf_enc k v"
  shows "sound_db pad_hash U Map.empty"
proof -
  have "pad_hash x \<noteq> zero_hash \<and> pad_hash x \<noteq> emptyRoot" if xU: "x \<in> U" for x
  proof -
    obtain k v where "x = leaf_enc k v" using assms(2) [OF xU] by blast
    then have "x \<noteq> []" "0xC0 \<le> unat (hd x)" using hd_leaf_enc by auto
    then have "0xC0 \<le> unat (hd (pad_hash x))" by (simp add: hd_pad_hash)
    then have "hd (pad_hash x) \<noteq> 0 \<and> hd (pad_hash x) \<noteq> 0x56" by auto
    then show ?thesis using not_reserved_root by blast
  qed
  then have "zero_hash \<notin> pad_hash ` U" "emptyRoot \<notin> pad_hash ` U" by (metis imageE)+
  then show ?thesis using assms(1) by (simp add: sound_db_def within_def)
qed

end
