(* ===== verification/Secure_Trie.thy ===== *)
theory Secure_Trie
  imports Trie_View "HOL-Library.AList"
begin

text \<open>
  The trie with hashed keys of \<open>src/chain/trie/secure_trie.go\<close>. A key is hashed before it reaches the trie, and
  the preimages of the hashes are collected in a cache that a commit writes to the database under a prefix of
  its own. The cache is an association list; the pointer \<open>secKeyCacheOwner\<close>, which tells a struct from its
  copies, is the flag \<open>owns\<close>. Shown here: the operations are those of a finite map from hashed keys to values,
  and a commit keeps the node database sound and can be reopened.
\<close>

section \<open>Definitions\<close>

definition secureKeyPrefix :: bytes where
  "secureKeyPrefix = [0x73, 0x65, 0x63, 0x75, 0x72, 0x65, 0x2d, 0x6b, 0x65, 0x79, 0x2d]"

record SecureTrie =
  sec_trie :: trie
  secKeyCache :: "(bytes \<times> bytes) list"
  owns :: bool

definition NewSecure :: "hash \<Rightarrow> bool \<Rightarrow> database \<Rightarrow> u16 \<Rightarrow> SecureTrie res" where
  "NewSecure root hasdb db cachelimit =
     (if \<not> hasdb then Inl (Panic ''NewSecure called with nil database'')
      else rbind (New root True db) (\<lambda>trie. Inr \<lparr>sec_trie = SetCacheLimit cachelimit trie, secKeyCache = [], owns = False\<rparr>))"

definition getSecKeyCache :: "SecureTrie \<Rightarrow> SecureTrie" where
  "getSecKeyCache t = (if owns t then t else t\<lparr>secKeyCache := [], owns := True\<rparr>)"

definition secKey :: "bytes \<Rightarrow> bytes" where
  "secKey key = secureKeyPrefix @ key"

definition hashKey :: "(bytes \<Rightarrow> bytes) \<Rightarrow> bytes \<Rightarrow> bytes" where
  "hashKey H key = H key"

definition sec_TryGet :: "(bytes \<Rightarrow> bytes) \<Rightarrow> database \<Rightarrow> bytes \<Rightarrow> (bytes option, SecureTrie) op" where
  "sec_TryGet H db key t = (case TryGet (sec_trie t) db (hashKey H key) of (r, tr) \<Rightarrow> (r, t\<lparr>sec_trie := tr\<rparr>))"

definition sec_Get :: "(bytes \<Rightarrow> bytes) \<Rightarrow> database \<Rightarrow> bytes \<Rightarrow> (bytes option, SecureTrie) op" where
  "sec_Get H db key = scatch (sec_TryGet H db key) (\<lambda>_. sret None) sret"

definition sec_TryUpdate :: "(bytes \<Rightarrow> bytes) \<Rightarrow> database \<Rightarrow> bytes \<Rightarrow> bytes \<Rightarrow> (unit, SecureTrie) op" where
  "sec_TryUpdate H db key value t =
     (let hk = hashKey H key in
      case TryUpdate (sec_trie t) db hk value of
        (Inl e, tr) \<Rightarrow> (Inl e, t\<lparr>sec_trie := tr\<rparr>)
      | (Inr _, tr) \<Rightarrow>
          (let t = getSecKeyCache (t\<lparr>sec_trie := tr\<rparr>)
           in (Inr (), t\<lparr>secKeyCache := AList.update hk key (secKeyCache t)\<rparr>)))"

definition sec_Update :: "(bytes \<Rightarrow> bytes) \<Rightarrow> database \<Rightarrow> bytes \<Rightarrow> bytes \<Rightarrow> (unit, SecureTrie) op" where
  "sec_Update H db key value = signore (sec_TryUpdate H db key value)"

definition sec_TryDelete :: "(bytes \<Rightarrow> bytes) \<Rightarrow> database \<Rightarrow> bytes \<Rightarrow> (unit, SecureTrie) op" where
  "sec_TryDelete H db key t =
     (let hk = hashKey H key; t = getSecKeyCache t; t = t\<lparr>secKeyCache := AList.delete hk (secKeyCache t)\<rparr>
      in case TryDelete (sec_trie t) db hk of (r, tr) \<Rightarrow> (r, t\<lparr>sec_trie := tr\<rparr>))"

definition sec_Delete :: "(bytes \<Rightarrow> bytes) \<Rightarrow> database \<Rightarrow> bytes \<Rightarrow> (unit, SecureTrie) op" where
  "sec_Delete H db key = signore (sec_TryDelete H db key)"

definition sec_GetKey :: "database \<Rightarrow> bytes \<Rightarrow> SecureTrie \<Rightarrow> bytes option \<times> SecureTrie" where
  "sec_GetKey db shaKey t =
     (let t = getSecKeyCache t in
      case map_of (secKeyCache t) shaKey of
        Some key \<Rightarrow> (Some key, t)
      | None \<Rightarrow> (case db_Get (secKey shaKey) db of Inl _ \<Rightarrow> (None, t) | Inr key \<Rightarrow> (Some key, t)))"

definition sec_Hash :: "(bytes \<Rightarrow> bytes) \<Rightarrow> (hash, SecureTrie) op" where
  "sec_Hash H t = (case trie_Hash H (sec_trie t) of (r, tr) \<Rightarrow> (r, t\<lparr>sec_trie := tr\<rparr>))"

definition sec_Copy :: "SecureTrie \<Rightarrow> SecureTrie" where
  "sec_Copy t = t\<lparr>owns := False\<rparr>"

fun put_preimages :: "(bytes \<times> bytes) list \<Rightarrow> database \<Rightarrow> database" where
  "put_preimages [] db = db"
| "put_preimages ((hk, key) # rest) db = put_preimages rest (db_Put (secKey hk) key db)"

definition sec_CommitTo :: "(bytes \<Rightarrow> bytes) \<Rightarrow> (hash, SecureTrie \<times> database) op" where
  "sec_CommitTo H = (\<lambda>(t, db).
     let t = getSecKeyCache t;
         (t, db) = (if length (secKeyCache t) > 0 then (t\<lparr>secKeyCache := []\<rparr>, put_preimages (secKeyCache t) db) else (t, db))
     in case CommitTo H (sec_trie t) db of (r, tr, db) \<Rightarrow> (r, t\<lparr>sec_trie := tr\<rparr>, db))"

definition sec_Commit :: "(bytes \<Rightarrow> bytes) \<Rightarrow> (hash, SecureTrie \<times> database) op" where
  "sec_Commit H = sec_CommitTo H"

section \<open>The map of hashed keys\<close>

text \<open>\<open>U\<close> is the set of byte strings that get hashed; a commit needs the hash function to be injective on it.\<close>

definition cache_ok :: "(bytes \<Rightarrow> bytes) \<Rightarrow> bytes set \<Rightarrow> (bytes \<times> bytes) list \<Rightarrow> bool" where
  "cache_ok H U c \<longleftrightarrow> (\<forall>(hk, key) \<in> set c. hk = H key \<and> key \<in> U)"

definition sec_holds :: "(bytes \<Rightarrow> bytes) \<Rightarrow> bytes set \<Rightarrow> database \<Rightarrow> SecureTrie \<Rightarrow> (bytes \<rightharpoonup> bytes) \<Rightarrow> bool" where
  "sec_holds H U d t f \<longleftrightarrow> t_prefix (sec_trie t) = None \<and> models H d (sec_trie t) f \<and> cache_ok H U (secKeyCache t)"

text \<open>A root that can be opened, and the contents found there.\<close>

definition opens :: "(bytes \<Rightarrow> bytes) \<Rightarrow> database \<Rightarrow> hash \<Rightarrow> (bytes \<rightharpoonup> bytes) \<Rightarrow> bool" where
  "opens H d root f \<longleftrightarrow> (\<exists>tr. New root True d = Inr tr \<and> models H d tr f)"

lemma New_prefix_None: "New root hasdb d = Inr tr \<Longrightarrow> t_prefix tr = None"
  by (auto simp: New_def Let_def rbind_Inr_iff split: if_splits)

lemma hash32_of_models: "models H d tr f \<Longrightarrow> hash32 H"
  by (auto simp: models_def tracks_def)

lemma hash32_of_holds: "sec_holds H U d t f \<Longrightarrow> hash32 H"
  by (auto simp: sec_holds_def intro: hash32_of_models)

lemma set_AList_update: "set (AList.update k v al) \<subseteq> insert (k, v) (set al)"
  by (induction al) auto

lemma cache_ok_update: "cache_ok H U c \<Longrightarrow> key \<in> U \<Longrightarrow> cache_ok H U (AList.update (H key) key c)"
  using set_AList_update [of "H key" key c] by (auto simp: cache_ok_def)

lemma cache_ok_delete: "cache_ok H U c \<Longrightarrow> cache_ok H U (AList.delete k c)"
  by (auto simp: cache_ok_def AList.delete_eq)

lemma cache_ok_Nil [simp]: "cache_ok H U []"
  by (simp add: cache_ok_def)

lemma cache_ok_getSecKeyCache: "cache_ok H U (secKeyCache t) \<Longrightarrow> cache_ok H U (secKeyCache (getSecKeyCache t))"
  by (simp add: getSecKeyCache_def)

lemma sec_trie_getSecKeyCache [simp]: "sec_trie (getSecKeyCache t) = sec_trie t"
  by (simp add: getSecKeyCache_def)

lemma sec_holds_Copy: "sec_holds H U d t f \<Longrightarrow> sec_holds H U d (sec_Copy t) f"
  by (simp add: sec_holds_def sec_Copy_def)

lemma sec_holds_mono: "d \<subseteq>\<^sub>m d' \<Longrightarrow> sec_holds H U d t f \<Longrightarrow> sec_holds H U d' t f"
  by (auto simp: sec_holds_def intro: models_mono)

lemma opens_mono: "d \<subseteq>\<^sub>m d' \<Longrightarrow> opens H d r f \<Longrightarrow> opens H d' r f"
  unfolding opens_def using New_mono models_mono by blast

lemma models_limit [simp]: "models H d (tr\<lparr>t_cachelimit := l\<rparr>) f = models H d tr f"
  by (simp add: models_def tracks_def)

lemma NewSecure_opens:
  assumes "opens H d root f"
  shows "\<exists>t. NewSecure root True d l = Inr t \<and> sec_holds H U d t f"
  using assms New_prefix_None by (fastforce simp: opens_def NewSecure_def sec_holds_def SetCacheLimit_def)

lemma opens_zero: "hash32 H \<Longrightarrow> opens H d zero_hash Map.empty"
  using models_empty [of H d] by (auto simp: opens_def New_def empty_trie_def models_def tracks_def)

lemma sec_TryGet_holds:
  assumes "sec_holds H U d t f"
  shows "\<exists>t'. sec_TryGet H d key t = (Inr (f (H key)), t') \<and> sec_holds H U d t' f"
proof -
  have k: "trie_key (sec_trie t) (H key) = H key" using assms by (simp add: sec_holds_def trie_key_def)
  obtain n where "TryGet (sec_trie t) d (H key) = (Inr (f (H key)), sec_trie t\<lparr>t_root := n\<rparr>)"
    "models H d (sec_trie t\<lparr>t_root := n\<rparr>) f"
    using TryGet_models [of H d "sec_trie t" f "H key"] assms k by (auto simp: sec_holds_def)
  then show ?thesis using assms by (simp add: sec_TryGet_def hashKey_def sec_holds_def)
qed

lemma sec_TryUpdate_holds:
  assumes "sec_holds H U d t f" "key \<in> U" "small_value v" "v \<noteq> []"
  shows "\<exists>t'. sec_TryUpdate H d key v t = (Inr (), t') \<and> sec_holds H U d t' (f(H key \<mapsto> v))"
proof -
  have k: "trie_key (sec_trie t) (H key) = H key" using assms(1) by (simp add: sec_holds_def trie_key_def)
  have "length (H key) = 32" using hash32_of_holds [OF assms(1)] by (rule hash32_length)
  then obtain n where n: "TryUpdate (sec_trie t) d (H key) v = (Inr (), sec_trie t\<lparr>t_root := n\<rparr>)"
    "models H d (sec_trie t\<lparr>t_root := n\<rparr>) (f(H key \<mapsto> v))"
    using TryUpdate_models [of H d "sec_trie t" f "H key" v] assms k by (auto simp: sec_holds_def small_key_def)
  then show ?thesis using assms(1,2)
    by (simp add: sec_TryUpdate_def hashKey_def sec_holds_def Let_def cache_ok_update cache_ok_getSecKeyCache)
qed

lemma sec_TryDelete_holds:
  assumes "sec_holds H U d t f"
  shows "\<exists>t'. sec_TryDelete H d key t = (Inr (), t') \<and> sec_holds H U d t' (f(H key := None))"
proof -
  have k: "trie_key (sec_trie t) (H key) = H key" using assms by (simp add: sec_holds_def trie_key_def)
  obtain n where n: "TryDelete (sec_trie t) d (H key) = (Inr (), sec_trie t\<lparr>t_root := n\<rparr>)"
    "models H d (sec_trie t\<lparr>t_root := n\<rparr>) (f(H key := None))"
    using TryDelete_models [of H d "sec_trie t" f "H key"] assms k by (auto simp: sec_holds_def)
  then show ?thesis using assms
    by (simp add: sec_TryDelete_def hashKey_def sec_holds_def Let_def cache_ok_delete cache_ok_getSecKeyCache)
qed

section \<open>Hashing and commit\<close>

lemma sec_Hash_holds:
  assumes "sec_holds H U d t f"
  shows "\<exists>h t'. sec_Hash H t = (Inr h, t') \<and> sec_holds H U d t' f \<and> length h = 32"
proof -
  have m: "models H d (sec_trie t) f" using assms by (simp add: sec_holds_def)
  obtain h n where "trie_Hash H (sec_trie t) = (Inr h, sec_trie t\<lparr>t_root := n\<rparr>)" "models H d (sec_trie t\<lparr>t_root := n\<rparr>) f"
    using Hash_models_keeps [OF m] by blast
  then show ?thesis using Hash_models [OF m m] assms by (simp add: sec_Hash_def sec_holds_def)
qed

text \<open>The preimages in the database: no key of a node, and determined by their keys.\<close>

definition preimages_ok :: "(bytes \<Rightarrow> bytes) \<Rightarrow> bytes set \<Rightarrow> database \<Rightarrow> bool" where
  "preimages_ok H U d \<longleftrightarrow> (\<forall>hk key. length hk = 32 \<longrightarrow> d (secKey hk) = Some key \<longrightarrow> hk = H key \<and> key \<in> U)"

lemma secKey_inj [simp]: "secKey k = secKey k' \<longleftrightarrow> k = k'"
  by (simp add: secKey_def)

lemma length_secKey: "length (secKey k) = 11 + length k"
  by (simp add: secKey_def secureKeyPrefix_def)

lemma put_preimages:
  assumes "cache_ok H U c" "preimages_ok H U d" "inj_on H U" "hash32 H"
  shows "d \<subseteq>\<^sub>m put_preimages c d \<and> preimages_ok H U (put_preimages c d)
    \<and> (\<forall>x. length x = 32 \<longrightarrow> put_preimages c d x = d x)"
  using assms(1,2)
proof (induction c d rule: put_preimages.induct)
  case (2 hk key rest db)
  have k: "hk = H key" "key \<in> U" using "2.prems"(1) by (simp_all add: cache_ok_def)
  have l: "length (H key) = 32" using assms(4) by (rule hash32_length)
  then have "db \<subseteq>\<^sub>m db_Put (secKey hk) key db"
    using k assms(3) "2.prems"(2) by (auto simp: db_Put_def map_le_def preimages_ok_def inj_on_def)
  moreover have "preimages_ok H U (db_Put (secKey hk) key db)"
    using k l "2.prems"(2) by (auto simp: db_Put_def preimages_ok_def)
  moreover have "db_Put (secKey hk) key db x = db x" if x32: "length x = 32" for x
    using k x32 l by (auto simp: db_Put_def length_secKey)
  moreover have "cache_ok H U rest" using "2.prems"(1) by (simp add: cache_ok_def)
  ultimately show ?case using "2.IH" by (auto intro: map_le_trans)
qed simp

definition sound_state :: "(bytes \<Rightarrow> bytes) \<Rightarrow> bytes set \<Rightarrow> database \<Rightarrow> bool" where
  "sound_state H U d \<longleftrightarrow> sound_db H U d \<and> preimages_ok H U d"

lemma sec_CommitTo_holds:
  assumes "sec_holds H U d t f" "sound_state H U d" "encodings H f \<subseteq> U"
  shows "\<exists>h t' d'. sec_CommitTo H (t, d) = (Inr h, t', d') \<and> d \<subseteq>\<^sub>m d' \<and> sound_state H U d'
    \<and> sec_holds H U d' t' f \<and> opens H d' h f \<and> fst (sec_Hash H t) = Inr h \<and> length h = 32"
proof -
  let ?t = "getSecKeyCache t" let ?d = "if length (secKeyCache ?t) > 0 then put_preimages (secKeyCache ?t) d else d"
  have h32: "hash32 H" using assms(1) by (rule hash32_of_holds)
  have c: "cache_ok H U (secKeyCache ?t)" using assms(1) cache_ok_getSecKeyCache by (simp add: sec_holds_def)
  have d: "d \<subseteq>\<^sub>m ?d" "preimages_ok H U ?d" "\<And>x. length x = 32 \<Longrightarrow> ?d x = d x"
    using put_preimages [OF c _ _ h32, of d] assms(2) by (auto simp: sound_state_def sound_db_def)
  have w: "within H U ?d" using assms(2) d(3) unfolding sound_state_def sound_db_def within_def by metis
  have m: "models H ?d (sec_trie t) f" using assms(1) models_mono [OF d(1)] by (simp add: sec_holds_def)
  obtain h n g d' tr2 where r: "CommitTo H (sec_trie t) ?d = (Inr h, sec_trie t\<lparr>t_root := n, t_cachegen := g\<rparr>, d')"
    "?d \<subseteq>\<^sub>m d'" "within H U d'" "\<forall>x. length x \<noteq> 32 \<longrightarrow> d' x = ?d x" "models H d' (sec_trie t\<lparr>t_root := n, t_cachegen := g\<rparr>) f"
    "fst (trie_Hash H (sec_trie t)) = Inr h" "New h True d' = Inr tr2" "models H d' tr2 f"
    using CommitTo_models [OF m, of U] assms(2,3) w unfolding sound_state_def sound_db_def by blast
  have "preimages_ok H U d'"
    using d(2) r(4) by (auto simp: preimages_ok_def length_secKey)
  moreover have "fst (sec_Hash H t) = Inr h" using r(6) by (cases "trie_Hash H (sec_trie t)") (simp add: sec_Hash_def)
  moreover have "length h = 32" using r(6) sec_Hash_holds [OF assms(1)] calculation(2) by auto
  moreover have "sec_CommitTo H (t, d) = (Inr h, (?t\<lparr>secKeyCache := []\<rparr>)\<lparr>sec_trie := sec_trie t\<lparr>t_root := n, t_cachegen := g\<rparr>\<rparr>, d')"
    using r(1) by (cases "secKeyCache ?t") (simp_all add: sec_CommitTo_def Let_def)
  moreover have "d \<subseteq>\<^sub>m d'" using d(1) r(2) by (rule map_le_trans)
  moreover have "sound_db H U d'" using assms(2) r(3) by (simp add: sound_state_def sound_db_def)
  moreover have "opens H d' h f" using r(7,8) by (auto simp: opens_def)
  ultimately show ?thesis using r(5) assms(1) by (simp add: sound_state_def sec_holds_def)
qed

end
