(* ===== verification/Rlp_Stream.thy ===== *)
theory Rlp_Stream
  imports Rlp
begin

text \<open>
  The stream decoder, \<open>src/chain/rlp/decode.go\<close>. A \<open>stream\<close> reads from a byte slice, keeps the
  announced kind and size of the next value and a stack of the enclosing lists with the number
  of bytes already consumed in each. The decoders that the Go code picks by reflection are
  indexed here by \<open>ty\<close>, the types the chain decodes into: unsigned integers, big integers, byte
  slices and arrays, slices and structs. \<open>val_item\<close> is what the encoder writes for such a value.
  Shown: decoding inverts encoding for every type and every value of it.
\<close>

unbundle bit_operations_syntax

section \<open>The stream\<close>

record stream =
  s_in :: bytes
  s_remaining :: u64
  s_limited :: bool
  s_kind :: "kind option"
  s_size :: u64
  s_byteval :: byte
  s_kinderr :: "rlp_error option"
  s_stack :: "(u64 \<times> u64) list"

type_synonym 'a sm = "('a, stream) op"

definition sfail :: "rlp_error \<Rightarrow> 'a sm" where
  "sfail e s = (Inl (RlpError e), s)"

text \<open>The stack is kept with its top first. The limit of a stream on a byte slice is the length of
  the slice, whether it is given or discovered.\<close>

definition NewStream :: "bytes \<Rightarrow> u64 \<Rightarrow> stream" where
  "NewStream b inputLimit =
     \<lparr>s_in = b, s_remaining = (if inputLimit > 0 then inputLimit else of_nat (length b)),
      s_limited = True, s_kind = None, s_size = 0, s_byteval = 0, s_kinderr = None, s_stack = []\<rparr>"

definition willRead :: "u64 \<Rightarrow> unit sm" where
  "willRead n s =
     (let s = s\<lparr>s_kind := None\<rparr>;
          limit = (\<lambda>s. if s_limited s then
                         (if n > s_remaining s then (Inl (RlpError ErrValueTooLarge), s)
                          else (Inr (), s\<lparr>s_remaining := s_remaining s - n\<rparr>))
                       else (Inr (), s))
      in case s_stack s of
           [] \<Rightarrow> limit s
         | (pos, sz) # rest \<Rightarrow>
             if n > sz - pos then (Inl (RlpError ErrElemTooLarge), s)
             else limit (s\<lparr>s_stack := (pos + n, sz) # rest\<rparr>))"

definition readByte :: "byte sm" where
  "readByte =
     sbind (willRead 1) (\<lambda>_ s.
       case s_in s of
         [] \<Rightarrow> (Inl (RlpError ErrUnexpectedEOF), s)
       | b # bs \<Rightarrow> (Inr b, s\<lparr>s_in := bs\<rparr>))"

definition readFull :: "nat \<Rightarrow> bytes sm" where
  "readFull n =
     sbind (willRead (of_nat n)) (\<lambda>_ s.
       if length (s_in s) < n then (Inl (RlpError ErrUnexpectedEOF), s\<lparr>s_in := []\<rparr>)
       else (Inr (take n (s_in s)), s\<lparr>s_in := drop n (s_in s)\<rparr>))"

definition readUint :: "byte \<Rightarrow> u64 sm" where
  "readUint sz =
     (if sz = 0 then (\<lambda>s. (Inr 0, s\<lparr>s_kind := None\<rparr>))
      else if sz = 1 then sbind readByte (\<lambda>b. sret (ucast b))
      else sbind (readFull (unat sz)) (\<lambda>buf.
             if hd buf = 0 then sfail ErrCanonSize else sret (be_u64 buf)))"

text \<open>\<open>readKind\<close> returns a kind and a size together with the error, and \<open>Kind\<close> keeps all three.\<close>

definition stream_readKind :: "stream \<Rightarrow> (kind \<times> u64 \<times> rlp_error option) \<times> stream" where
  "stream_readKind s =
     (case readByte s of
        (Inl (RlpError e), s') \<Rightarrow>
          ((KByte, 0, Some (if s_stack s' = [] \<and> (e = ErrUnexpectedEOF \<or> e = ErrValueTooLarge)
                            then EOF else e)), s')
      | (Inl _, s') \<Rightarrow> ((KByte, 0, Some ErrUnexpectedEOF), s')
      | (Inr b, s') \<Rightarrow>
          (let s' = s'\<lparr>s_byteval := 0\<rparr>;
               long = (\<lambda>k w. case readUint w s' of
                   (Inl (RlpError e), s'') \<Rightarrow> ((k, 0, Some e), s'')
                 | (Inl _, s'') \<Rightarrow> ((k, 0, Some ErrUnexpectedEOF), s'')
                 | (Inr sz, s'') \<Rightarrow> ((k, sz, if sz < 56 then Some ErrCanonSize else None), s''))
           in if b < 0x80 then ((KByte, 0, None), s'\<lparr>s_byteval := b\<rparr>)
              else if b < 0xB8 then ((KString, ucast (b - 0x80), None), s')
              else if b < 0xC0 then long KString (b - 0xB7)
              else if b < 0xF8 then ((KList, ucast (b - 0xC0), None), s')
              else long KList (b - 0xF7)))"

definition stream_Kind :: "(kind \<times> u64) sm" where
  "stream_Kind s =
     (let cached = (\<lambda>s. case s_kinderr s of
                          Some e \<Rightarrow> (Inl (RlpError e), s)
                        | None \<Rightarrow> (Inr (case s_kind s of Some k \<Rightarrow> k | None \<Rightarrow> KByte, s_size s), s));
          advance = (\<lambda>s.
            let ((k, sz, e), s) = stream_readKind s;
                s = s\<lparr>s_kind := Some k, s_size := sz, s_kinderr := e\<rparr>;
                e' = (case s_stack s of
                        [] \<Rightarrow> if s_limited s \<and> sz > s_remaining s then Some ErrValueTooLarge else None
                      | (pos, lsize) # _ \<Rightarrow> if sz > lsize - pos then Some ErrElemTooLarge else None)
            in cached (if e = None then s\<lparr>s_kinderr := e'\<rparr> else s))
      in if s_kind s \<noteq> None then cached s
         else (let s = s\<lparr>s_kinderr := None\<rparr>
               in case s_stack s of
                    [] \<Rightarrow> advance s
                  | (pos, sz) # _ \<Rightarrow> if pos = sz then (Inl (RlpError EOL), s) else advance s))"

definition rearm :: "'a \<Rightarrow> 'a sm" where
  "rearm x s = (Inr x, s\<lparr>s_kind := None\<rparr>)"

definition stream_Bytes :: "bytes sm" where
  "stream_Bytes =
     sbind stream_Kind (\<lambda>(kind, sz) s.
       case kind of
         KByte \<Rightarrow> rearm [s_byteval s] s
       | KString \<Rightarrow>
           sbind (readFull (unat sz)) (\<lambda>b.
             if sz = 1 \<and> hd b < 128 then sfail ErrCanonSize else sret b) s
       | KList \<Rightarrow> sfail ErrExpectedString s)"

definition stream_Raw :: "bytes sm" where
  "stream_Raw =
     sbind stream_Kind (\<lambda>(kind, sz) s.
       case kind of
         KByte \<Rightarrow> rearm [s_byteval s] s
       | KString \<Rightarrow> sbind (readFull (unat sz)) (\<lambda>b. sret (puthead 0x80 0xB7 sz @ b)) s
       | KList \<Rightarrow> sbind (readFull (unat sz)) (\<lambda>b. sret (puthead 0xC0 0xF7 sz @ b)) s)"

definition stream_uint :: "nat \<Rightarrow> u64 sm" where
  "stream_uint maxbits =
     sbind stream_Kind (\<lambda>(kind, sz) s.
       case kind of
         KByte \<Rightarrow>
           if s_byteval s = 0 then sfail ErrCanonInt s else rearm (ucast (s_byteval s)) s
       | KString \<Rightarrow>
           if sz > of_nat (maxbits div 8) then sfail ErrUintOverflow s
           else (case readUint (ucast sz) s of
                   (Inl e, s') \<Rightarrow>
                     (Inl (if e = RlpError ErrCanonSize then RlpError ErrCanonInt else e), s')
                 | (Inr v, s') \<Rightarrow>
                     if sz > 0 \<and> v < 128 then sfail ErrCanonSize s' else (Inr v, s'))
       | KList \<Rightarrow> sfail ErrExpectedString s)"

definition stream_Bool :: "bool sm" where
  "stream_Bool =
     sbind (stream_uint 8) (\<lambda>num.
       if num = 0 then sret False else if num = 1 then sret True
       else sfail (DecodeError ''invalid boolean value''))"

definition stream_List :: "u64 sm" where
  "stream_List =
     sbind stream_Kind (\<lambda>(kind, sz) s.
       if kind \<noteq> KList then sfail ErrExpectedList s
       else (Inr sz, s\<lparr>s_stack := (0, sz) # s_stack s, s_kind := None, s_size := 0\<rparr>))"

definition stream_ListEnd :: "unit sm" where
  "stream_ListEnd s =
     (case s_stack s of
        [] \<Rightarrow> sfail ErrNotInList s
      | (pos, sz) # rest \<Rightarrow>
          if pos \<noteq> sz then sfail ErrNotAtEOL s
          else (Inr (),
                s\<lparr>s_stack := (case rest of [] \<Rightarrow> [] | (pos', sz') # r \<Rightarrow> (pos' + sz, sz') # r),
                  s_kind := None, s_size := 0\<rparr>))"

section \<open>Decoding into Go values\<close>

datatype ty = TUint nat | TBig | TBytes | TArray nat | TList ty | TStruct "ty list"

datatype val = VUint u64 | VBig nat | VBytes bytes | VList "val list" | VStruct "val list"

fun wrapStreamError :: "err \<Rightarrow> err" where
  "wrapStreamError (RlpError e) = RlpError
     (case e of
        ErrCanonInt \<Rightarrow> DecodeError ''non-canonical integer (leading zero bytes)''
      | ErrCanonSize \<Rightarrow> DecodeError ''non-canonical size information''
      | ErrExpectedList \<Rightarrow> DecodeError ''expected input list''
      | ErrExpectedString \<Rightarrow> DecodeError ''expected input string or byte''
      | ErrUintOverflow \<Rightarrow> DecodeError ''input string too long errUintOverflow''
      | ErrNotAtEOL \<Rightarrow> DecodeError ''input list has too many elements''
      | _ \<Rightarrow> e)"
| "wrapStreamError e = e"

definition wrap :: "'a sm \<Rightarrow> 'a sm" where
  "wrap m s = (case m s of (Inl e, s') \<Rightarrow> (Inl (wrapStreamError e), s') | r \<Rightarrow> r)"

definition decodeUint :: "nat \<Rightarrow> val sm" where
  "decodeUint bits = sbind (wrap (stream_uint bits)) (\<lambda>num. sret (VUint num))"

definition decodeBigInt :: "val sm" where
  "decodeBigInt =
     sbind (wrap stream_Bytes) (\<lambda>b.
       if b \<noteq> [] \<and> hd b = 0 then wrap (sfail ErrCanonInt) else sret (VBig (be_nat b)))"

definition decodeByteSlice :: "val sm" where
  "decodeByteSlice = sbind (wrap stream_Bytes) (\<lambda>b. sret (VBytes b))"

text \<open>\<open>decodeByteArray\<close> ignores the error of \<open>s.Uint\<close> for a single byte.\<close>

definition decodeByteArray :: "nat \<Rightarrow> val sm" where
  "decodeByteArray vlen =
     sbind stream_Kind (\<lambda>(kind, sz) s.
       case kind of
         KByte \<Rightarrow>
           if vlen = 0 then sfail (DecodeError ''input string too long vlen = 0'') s
           else if vlen > 1 then sfail (DecodeError ''input string too short'') s
           else (case stream_uint 64 s of
                   (Inl _, s') \<Rightarrow> (Inr (VBytes [0]), s')
                 | (Inr bv, s') \<Rightarrow> (Inr (VBytes [ucast bv]), s'))
       | KString \<Rightarrow>
           if of_nat vlen < sz then sfail (DecodeError ''input string too long uint64(vlen) < size'') s
           else if of_nat vlen > sz then sfail (DecodeError ''input string too short'') s
           else sbind (readFull vlen) (\<lambda>b.
                  if sz = 1 \<and> hd b < 128 then wrap (sfail ErrCanonSize) else sret (VBytes b)) s
       | KList \<Rightarrow> wrap (sfail ErrExpectedString) s)"

text \<open>One fuel step per element: an element takes at least one byte of the input, so the length of
  the input bounds the number of rounds of \<open>decodeSliceElems\<close>.\<close>

fun decode_ty :: "ty \<Rightarrow> val sm"
  and decodeSliceElems :: "ty \<Rightarrow> nat \<Rightarrow> val list sm"
  and decode_fields :: "ty list \<Rightarrow> val list sm" where
  "decode_ty (TUint n) s = decodeUint n s"
| "decode_ty TBig s = decodeBigInt s"
| "decode_ty TBytes s = decodeByteSlice s"
| "decode_ty (TArray n) s = decodeByteArray n s"
| "decode_ty (TList t) s =
     sbind (wrap stream_List) (\<lambda>sz s.
       if sz = 0 then sbind stream_ListEnd (\<lambda>_. sret (VList [])) s
       else (case decodeSliceElems t (Suc (length (s_in s))) s of
               (Inl e, s') \<Rightarrow> (Inl e, s')
             | (Inr vs, s') \<Rightarrow> sbind stream_ListEnd (\<lambda>_. sret (VList vs)) s')) s"
| "decode_ty (TStruct ts) s =
     sbind (wrap stream_List) (\<lambda>_ s.
       case decode_fields ts s of
         (Inl e, s') \<Rightarrow> (Inl e, s')
       | (Inr vs, s') \<Rightarrow> sbind (wrap stream_ListEnd) (\<lambda>_. sret (VStruct vs)) s') s"
| "decodeSliceElems t 0 s = (Inl OutOfFuel, s)"
| "decodeSliceElems t (Suc fuel) s =
     (case decode_ty t s of
        (Inl e, s') \<Rightarrow> if e = RlpError EOL then (Inr [], s') else (Inl e, s')
      | (Inr v, s') \<Rightarrow>
          (case decodeSliceElems t fuel s' of
             (Inl e, s'') \<Rightarrow> (Inl e, s'')
           | (Inr vs, s'') \<Rightarrow> (Inr (v # vs), s'')))"
| "decode_fields [] s = (Inr [], s)"
| "decode_fields (t # ts) s =
     (case decode_ty t s of
        (Inl e, s') \<Rightarrow>
          (Inl (if e = RlpError EOL then RlpError (DecodeError ''too few elements'') else e), s')
      | (Inr v, s') \<Rightarrow>
          (case decode_fields ts s' of
             (Inl e, s'') \<Rightarrow> (Inl e, s'')
           | (Inr vs, s'') \<Rightarrow> (Inr (v # vs), s'')))"

definition DecodeBytes :: "ty \<Rightarrow> bytes \<Rightarrow> val res" where
  "DecodeBytes t b =
     (case decode_ty t (NewStream b (of_nat (length b))) of
        (Inl e, s) \<Rightarrow> Inl e
      | (Inr v, s) \<Rightarrow> if length (s_in s) > 0 then Inl (RlpError ErrMoreThanOneValue) else Inr v)"

text \<open>What the encoder writes for a value.\<close>

fun val_item :: "val \<Rightarrow> item" where
  "val_item (VUint u) = Str (nat_be (unat u))"
| "val_item (VBig n) = Str (nat_be n)"
| "val_item (VBytes b) = Str b"
| "val_item (VList vs) = Lst (map val_item vs)"
| "val_item (VStruct vs) = Lst (map val_item vs)"

text \<open>The values of a type. The array of one byte that is zero is left out: the decoder does not consume it.\<close>

fun has_ty :: "ty \<Rightarrow> val \<Rightarrow> bool" where
  "has_ty (TUint n) (VUint u) \<longleftrightarrow> n \<in> {8, 16, 32, 64} \<and> unat u < 2 ^ n"
| "has_ty TBig (VBig n) \<longleftrightarrow> True"
| "has_ty TBytes (VBytes b) \<longleftrightarrow> True"
| "has_ty (TArray n) (VBytes b) \<longleftrightarrow> length b = n \<and> (n = 1 \<longrightarrow> b \<noteq> [0])"
| "has_ty (TList t) (VList vs) \<longleftrightarrow> (\<forall>v \<in> set vs. has_ty t v)"
| "has_ty (TStruct ts) (VStruct vs) \<longleftrightarrow> list_all2 has_ty ts vs"
| "has_ty _ _ \<longleftrightarrow> False"

section \<open>Positions in the input\<close>

lemma wrap_Inr [simp]: "m s = (Inr x, s') \<Longrightarrow> wrap m s = (Inr x, s')"
  by (simp add: wrap_def)

definition fits :: "(u64 \<times> u64) list \<Rightarrow> nat \<Rightarrow> bool" where
  "fits stk n \<longleftrightarrow> (case stk of [] \<Rightarrow> True | (p, z) # _ \<Rightarrow> unat p + n \<le> unat z)"

definition adv :: "(u64 \<times> u64) list \<Rightarrow> nat \<Rightarrow> (u64 \<times> u64) list" where
  "adv stk n = (case stk of [] \<Rightarrow> [] | (p, z) # r \<Rightarrow> (p + of_nat n, z) # r)"

text \<open>The stream is about to read \<open>inp\<close>, inside the lists of \<open>stk\<close>.\<close>

definition at :: "stream \<Rightarrow> bytes \<Rightarrow> (u64 \<times> u64) list \<Rightarrow> bool" where
  "at s inp stk \<longleftrightarrow> s_in s = inp \<and> s_stack s = stk \<and> s_limited s
     \<and> s_remaining s = of_nat (length inp) \<and> length inp < 2 ^ 64"

definition fresh :: "stream \<Rightarrow> bytes \<Rightarrow> (u64 \<times> u64) list \<Rightarrow> bool" where
  "fresh s inp stk \<longleftrightarrow> at s inp stk \<and> s_kind s = None"

lemma unat_lt_64: "unat (z::u64) < 2 ^ 64"
  using unsigned_less [of z, where ?'a = nat] by simp

lemma unat_add_of_nat: "unat (p::u64) + n < 2 ^ 64 \<Longrightarrow> unat (p + of_nat n) = unat p + n"
  by (simp add: unat_word_ariths unat_of_nat)

lemma fits_adv: "fits stk (a + b) \<Longrightarrow> fits (adv stk a) b"
  using unat_lt_64 [of "snd (hd stk)"]
  by (auto simp: fits_def adv_def unat_add_of_nat split: list.splits)

lemma fits_le: "fits stk b \<Longrightarrow> a \<le> b \<Longrightarrow> fits stk a"
  by (auto simp: fits_def split: list.splits)

lemma adv_adv: "adv (adv stk a) b = adv stk (a + b)"
  by (auto simp: adv_def split: list.splits)

lemma adv_0 [simp]: "adv stk 0 = stk"
  by (auto simp: adv_def split: list.splits)

lemma word_gt_nat: "unat (z::u64) = m \<Longrightarrow> n < 2 ^ 64 \<Longrightarrow> of_nat n > z \<longleftrightarrow> n > m"
  by (simp add: word_less_nat_alt unat_of_nat)

lemma room:
  assumes "unat (p::u64) + n \<le> unat z"
  shows "\<not> of_nat n > z - p" "n \<noteq> 0 \<Longrightarrow> p \<noteq> z"
proof -
  have "p \<le> z" using assms by (simp add: word_le_nat_alt)
  then have "unat (z - p) = unat z - unat p" by (simp add: unat_sub)
  moreover have "n < 2 ^ 64" using assms unat_lt_64 [of z] by simp
  ultimately show "\<not> of_nat n > z - p" using assms by (simp add: word_less_nat_alt unat_of_nat)
  show "p \<noteq> z" if "n \<noteq> 0" using assms that by auto
qed

lemma willRead_at:
  assumes "at s inp stk" "n \<le> length inp" "fits stk n"
  shows "willRead (of_nat n) s =
    (Inr (), s\<lparr>s_kind := None, s_stack := adv stk n, s_remaining := of_nat (length inp - n)\<rparr>)"
proof -
  have "\<not> of_nat n > (of_nat (length inp) :: u64)"
    using assms(1,2) by (simp add: at_def word_less_nat_alt unat_of_nat)
  moreover have "of_nat (length inp) - of_nat n = (of_nat (length inp - n) :: u64)"
    using assms(2) by simp
  ultimately show ?thesis
    using assms room by (cases stk) (auto simp: willRead_def Let_def at_def fits_def adv_def split: prod.splits)
qed

lemma readByte_at:
  assumes "at s (b # inp) stk" "fits stk 1"
  shows "\<exists>s'. readByte s = (Inr b, s') \<and> fresh s' inp (adv stk 1)"
  using willRead_at [OF assms(1), of 1] assms by (auto simp: readByte_def at_def fresh_def)

lemma readFull_at:
  assumes "at s (bs @ inp) stk" "fits stk (length bs)"
  shows "\<exists>s'. readFull (length bs) s = (Inr bs, s') \<and> fresh s' inp (adv stk (length bs))"
  using willRead_at [OF assms(1), of "length bs"] assms by (auto simp: readFull_def at_def fresh_def)

lemma readUint_putint:
  assumes "at s (putint z @ inp) stk" "fits stk (length (putint z))" "z \<noteq> 0"
  shows "\<exists>s'. readUint (of_nat (length (putint z))) s = (Inr z, s') \<and> fresh s' inp (adv stk (length (putint z)))"
proof -
  note p = putint_props [OF assms(3)]
  have l: "unat (of_nat (length (putint z)) :: byte) = length (putint z)"
    using p(4) by (simp add: unat_of_nat)
  have be: "be_u64 (putint z) = z" using unat_be_u64 p(1,4) by (metis word_unat_eq_iff)
  have nz: "(of_nat (length (putint z)) :: byte) \<noteq> 0" using p(2) l by (metis length_0_conv unat_0)
  show ?thesis
  proof (cases "length (putint z) = 1")
    case True
    then obtain b where b: "putint z = [b]" by (cases "putint z") auto
    then have "ucast b = z" using be by (simp add: be_u64_def)
    then show ?thesis
      using readByte_at [of s b inp stk] assms(1,2) b by (auto simp: readUint_def sret_def)
  next
    case False
    then have "(of_nat (length (putint z)) :: byte) \<noteq> 1" using l by (metis unat_1)
    then show ?thesis
      using nz l be p(3) readFull_at [OF assms(1,2)] by (auto simp: readUint_def sret_def)
  qed
qed

section \<open>Reading a header\<close>

definition tags :: "byte \<Rightarrow> byte \<Rightarrow> kind \<Rightarrow> bool" where
  "tags t1 t2 k \<longleftrightarrow> t1 = 0x80 \<and> t2 = 0xB7 \<and> k = KString \<or> t1 = 0xC0 \<and> t2 = 0xF7 \<and> k = KList"

lemma at_byteval [simp]: "at (s\<lparr>s_byteval := b\<rparr>) inp stk = at s inp stk"
  by (simp add: at_def)

lemma readKind_small_header:
  assumes "tags t1 t2 k" "at s (puthead t1 t2 z @ inp) stk" "fits stk 1" "z < 56"
  shows "\<exists>s'. stream_readKind s = ((k, z, None), s') \<and> fresh s' inp (adv stk 1)"
proof -
  define n where "n = unat z"
  have n: "n < 56" "z = of_nat n" using assms(4) by (simp_all add: n_def word_less_nat_alt)
  let ?b = "t1 + ucast z :: byte"
  have h: "puthead t1 t2 z = [?b]" using assms(4) by (simp add: puthead_def)
  have uz: "(ucast z :: byte) = of_nat n"
    using n(1) by (simp add: word_unat_eq_iff unat_ucast_u64_byte n_def unat_of_nat)
  have ub: "unat ?b = unat t1 + n"
    using assms(1) n(1) unat_small_tag [of "0x80" n] unat_small_tag [of "0xC0" n] unfolding uz by (auto simp: tags_def)
  obtain s' where s': "readByte s = (Inr ?b, s')" "fresh s' inp (adv stk 1)"
    using readByte_at [of s ?b inp stk] assms(2,3) h by auto
  have sub: "ucast (?b - t1) = z" using n ucast_of_nat_u64 [of n] unfolding uz by simp
  show ?thesis
    using assms(1) s' ub n(1) sub
    by (auto simp: stream_readKind_def tags_def Let_def fresh_def word_less_nat_alt)
qed

lemma readKind_large_header:
  assumes "tags t1 t2 k" "at s (puthead t1 t2 z @ inp) stk" "fits stk (1 + length (putint z))" "\<not> z < 56"
  shows "\<exists>s'. stream_readKind s = ((k, z, None), s') \<and> fresh s' inp (adv stk (1 + length (putint z)))"
proof -
  define l where "l = length (putint z)"
  have z: "z \<noteq> 0" using assms(4) by auto
  have l: "0 < l" "l \<le> 8" using putint_props(2,4) [OF z] by (simp_all add: l_def)
  let ?b = "t2 + of_nat l :: byte"
  have h: "puthead t1 t2 z = ?b # putint z" using assms(4) by (simp add: puthead_def l_def Let_def)
  have ub: "unat ?b = unat t2 + l"
    using assms(1) l(2) unat_small_tag [of "0xB7" l] unat_small_tag [of "0xF7" l] by (auto simp: tags_def)
  obtain s1 where s1: "readByte s = (Inr ?b, s1)" "fresh s1 (putint z @ inp) (adv stk 1)"
    using readByte_at [of s ?b "putint z @ inp" stk] assms(2,3) h fits_le [of stk _ 1] by auto
  have "fits (adv stk 1) l" using fits_adv [of stk 1 l] assms(3) by (simp add: l_def)
  then obtain s2 where s2: "readUint (of_nat l) (s1\<lparr>s_byteval := 0\<rparr>) = (Inr z, s2)"
    "fresh s2 inp (adv stk (1 + l))"
    using readUint_putint [of "s1\<lparr>s_byteval := 0\<rparr>" z inp "adv stk 1"] s1(2) z adv_adv [of stk 1 l]
    by (auto simp: fresh_def l_def)
  have "?b - t2 = of_nat l" by simp
  then show ?thesis
    using assms(1,4) s1(1) s2 ub l unfolding l_def [symmetric]
    by (auto simp: stream_readKind_def tags_def Let_def word_less_nat_alt)
qed

lemma readKind_header:
  assumes "tags t1 t2 k" "at s (puthead t1 t2 z @ inp) stk" "fits stk (length (puthead t1 t2 z))"
  shows "\<exists>s'. stream_readKind s = ((k, z, None), s') \<and> fresh s' inp (adv stk (length (puthead t1 t2 z)))"
  using readKind_small_header [OF assms(1,2)] readKind_large_header [OF assms(1,2)] assms(3)
  by (cases "z < 56") (simp_all add: puthead_def Let_def)

text \<open>A stream that has announced a value of \<open>k\<close> and \<open>z\<close>.\<close>

definition announced :: "stream \<Rightarrow> kind \<Rightarrow> u64 \<Rightarrow> bool" where
  "announced s k z \<longleftrightarrow> s_kind s = Some k \<and> s_size s = z \<and> s_kinderr s = None"

lemma Kind_advance:
  assumes "fresh s (h @ p @ inp) stk" "fits stk (length h + length p)" "h \<noteq> []"
    and "\<And>s. at s (h @ p @ inp) stk \<Longrightarrow> s_kind s = None \<Longrightarrow>
      \<exists>s'. stream_readKind s = ((k, of_nat (length p), None), s') \<and> at s' (p @ inp) (adv stk (length h)) \<and> Q s'"
    and Q: "\<And>s k z e. Q s \<Longrightarrow> Q (s\<lparr>s_kind := k, s_size := z, s_kinderr := e\<rparr>)"
  shows "\<exists>s'. stream_Kind s = (Inr (k, of_nat (length p)), s') \<and> at s' (p @ inp) (adv stk (length h))
              \<and> announced s' k (of_nat (length p)) \<and> Q s'"
proof -
  let ?s = "s\<lparr>s_kinderr := None\<rparr>"
  have "at ?s (h @ p @ inp) stk" "s_kind ?s = None" using assms(1) by (simp_all add: fresh_def at_def)
  from assms(4) [OF this] obtain s' where
    s': "stream_readKind ?s = ((k, of_nat (length p), None), s')" "at s' (p @ inp) (adv stk (length h))" "Q s'"
    by blast
  let ?t = "s'\<lparr>s_kind := Some k, s_size := of_nat (length p), s_kinderr := None\<rparr>"
  have small: "length p < 2 ^ 64" using s'(2) by (simp add: at_def)
  have top: "stk = [] \<or> (\<exists>q z r. stk = (q, z) # r \<and> q \<noteq> z \<and> \<not> of_nat (length p) > z - (q + of_nat (length h)))"
  proof (cases stk)
    case (Cons a r)
    obtain q z where a: "a = (q, z)" by (cases a)
    have "unat q + (length h + length p) \<le> unat z" using assms(2) Cons a by (simp add: fits_def)
    moreover have "unat (q + of_nat (length h)) + length p \<le> unat z"
      using fits_adv [OF assms(2)] Cons a by (simp add: fits_def adv_def)
    ultimately show ?thesis using Cons a room assms(3) by (metis add_is_0 length_0_conv)
  qed simp
  have "\<not> of_nat (length p) > (of_nat (length (p @ inp)) :: u64)"
    using s'(2) by (simp add: at_def word_less_nat_alt unat_of_nat del: of_nat_add)
  then have "stream_Kind s = (Inr (k, of_nat (length p)), ?t)"
    using s'(1,2) top assms(1)
    by (auto simp: stream_Kind_def Let_def fresh_def at_def adv_def)
  moreover have "at ?t (p @ inp) (adv stk (length h))" using s'(2) by (simp add: at_def)
  ultimately show ?thesis using Q [OF s'(3)] by (auto simp: announced_def)
qed

lemma Kind_header:
  assumes "tags t1 t2 k" "fresh s (puthead t1 t2 (of_nat (length p)) @ p @ inp) stk"
    "fits stk (length (puthead t1 t2 (of_nat (length p))) + length p)"
  shows "\<exists>s'. stream_Kind s = (Inr (k, of_nat (length p)), s')
    \<and> at s' (p @ inp) (adv stk (length (puthead t1 t2 (of_nat (length p)))))
    \<and> announced s' k (of_nat (length p))"
proof -
  let ?h = "puthead t1 t2 (of_nat (length p))"
  have h: "?h \<noteq> []" by (simp add: puthead_def Let_def)
  have "fits stk (length ?h)" using fits_le [OF assms(3)] by simp
  then have "\<exists>s'. stream_readKind t = ((k, of_nat (length p), None), s') \<and> at s' (p @ inp) (adv stk (length ?h)) \<and> True"
    if "at t (?h @ p @ inp) stk" "s_kind t = None" for t
    using readKind_header [OF assms(1) that(1)] by (auto simp: fresh_def)
  from Kind_advance [OF assms(2,3) h this] show ?thesis by simp
qed

lemma Kind_byte:
  assumes "fresh s (b # inp) stk" "fits stk 1" "b < 0x80"
  shows "\<exists>s'. stream_Kind s = (Inr (KByte, 0), s') \<and> at s' inp (adv stk 1) \<and> announced s' KByte 0
    \<and> s_byteval s' = b"
proof -
  have "\<exists>s'. stream_readKind t = ((KByte, of_nat (length []), None), s') \<and> at s' ([] @ inp) (adv stk (length [b]))
      \<and> s_byteval s' = b" if "at t ([b] @ [] @ inp) stk" for t
    using readByte_at [of t b inp stk] that assms(2,3)
    by (auto simp: stream_readKind_def Let_def fresh_def)
  from Kind_advance [of s "[b]" "[]" inp stk KByte "\<lambda>s. s_byteval s = b", OF _ _ _ this] assms(1,2)
  show ?thesis by simp
qed

section \<open>Reading strings\<close>

lemma ucast_byte_of_nat [simp]: "(ucast (of_nat n :: u64) :: byte) = of_nat n"
  by (simp add: word_unat_eq_iff unat_ucast_u64_byte unat_of_nat mod_mod_cancel)

lemma encodeStringHeader_puthead: "n < 2 ^ 64 \<Longrightarrow> encodeStringHeader n = puthead 0x80 0xB7 (of_nat n)"
  by (simp add: encodeStringHeader_def puthead_def word_less_nat_alt unat_of_nat_u64)

text \<open>A string is announced as a single byte or by its header.\<close>

lemma Kind_encodeString:
  assumes "fresh s (encodeString b @ inp) stk" "fits stk (length (encodeString b))"
  shows "(\<exists>s' x. b = [x] \<and> x < 0x80 \<and> encodeString b = [x] \<and> stream_Kind s = (Inr (KByte, 0), s')
             \<and> at s' inp (adv stk 1) \<and> announced s' KByte 0 \<and> s_byteval s' = x)
       \<or> (\<exists>s' h. encodeString b = h @ b \<and> \<not> (length b = 1 \<and> hd b < 0x80) \<and> length b < 2 ^ 64
             \<and> stream_Kind s = (Inr (KString, of_nat (length b)), s')
             \<and> at s' (b @ inp) (adv stk (length h)) \<and> announced s' KString (of_nat (length b))
             \<and> fits (adv stk (length h)) (length b))"
proof (cases "length b = 1 \<and> b ! 0 \<le> 0x7F")
  case True
  then obtain x where x: "b = [x]" by (cases b) auto
  have lt: "x < 0x80" using True x by (simp add: word_le_nat_alt word_less_nat_alt)
  have e: "encodeString b = [x]" using True x by (simp add: encodeString_def)
  from Kind_byte [of s x inp stk] assms lt e x show ?thesis by auto
next
  case False
  let ?h = "puthead 0x80 0xB7 (of_nat (length b)) :: bytes"
  have n: "\<not> (length b = 1 \<and> hd b < 0x80)"
    using False by (cases b) (auto simp: word_le_nat_alt word_less_nat_alt)
  have lt: "length b < 2 ^ 64"
    using assms(1) False by (auto simp: fresh_def at_def encodeString_def split: if_splits)
  have e: "encodeString b = ?h @ b"
    using False encodeStringHeader_puthead [OF lt] by (auto simp: encodeString_def)
  have "tags 0x80 0xB7 KString" by (simp add: tags_def)
  from Kind_header [OF this, of s b inp stk] assms e
  obtain s' where "stream_Kind s = (Inr (KString, of_nat (length b)), s')"
    "at s' (b @ inp) (adv stk (length ?h))" "announced s' KString (of_nat (length b))" by auto
  moreover have "fits (adv stk (length ?h)) (length b)" using fits_adv assms(2) e by simp
  ultimately show ?thesis using e n lt by blast
qed

lemma Bytes_encodeString:
  assumes "fresh s (encodeString b @ inp) stk" "fits stk (length (encodeString b))"
  shows "\<exists>s'. stream_Bytes s = (Inr b, s') \<and> fresh s' inp (adv stk (length (encodeString b)))"
  using Kind_encodeString [OF assms]
proof (elim disjE exE conjE)
  fix s' x assume "b = [x]" "encodeString b = [x]" "stream_Kind s = (Inr (KByte, 0), s')"
    "at s' inp (adv stk 1)" "s_byteval s' = x"
  then show ?thesis by (auto simp: stream_Bytes_def rearm_def fresh_def at_def)
next
  fix s' h assume *: "encodeString b = h @ b" "\<not> (length b = 1 \<and> hd b < 0x80)" "length b < 2 ^ 64"
    "stream_Kind s = (Inr (KString, of_nat (length b)), s')" "at s' (b @ inp) (adv stk (length h))"
    "fits (adv stk (length h)) (length b)"
  from readFull_at [OF *(5,6)] obtain t where t: "readFull (length b) s' = (Inr b, t)"
    "fresh t inp (adv stk (length (encodeString b)))" using *(1) by (auto simp: adv_adv)
  have "of_nat (length b) = (1::u64) \<longleftrightarrow> length b = 1"
    using *(3) by (metis of_nat_1 unat_of_nat_u64 unat_1)
  then show ?thesis
    using *(2,3,4) t by (auto simp: stream_Bytes_def sret_def unat_of_nat_u64)
qed

lemma uint_writes:
  assumes "fresh s (encodeString (nat_be (unat u)) @ inp) stk" "fits stk (length (encodeString (nat_be (unat u))))"
    and "unat u < 256 ^ (n div 8)" "n div 8 \<le> 8"
  shows "\<exists>s'. stream_uint n s = (Inr u, s') \<and> fresh s' inp (adv stk (length (encodeString (nat_be (unat u)))))"
  using Kind_encodeString [OF assms(1,2)]
proof (elim disjE exE conjE)
  let ?b = "nat_be (unat u)"
  fix s' x assume *: "?b = [x]" "encodeString ?b = [x]" "stream_Kind s = (Inr (KByte, 0), s')"
    "at s' inp (adv stk 1)" "s_byteval s' = x"
  have "x \<noteq> 0" using *(1) hd_nat_be [of "unat u"] by (cases "unat u = 0") auto
  moreover have "ucast x = u"
    using *(1) be_nat_nat_be [of "unat u"] by (simp add: be_nat_def word_unat_eq_iff)
  ultimately show ?thesis using * by (auto simp: stream_uint_def rearm_def fresh_def at_def)
next
  let ?b = "nat_be (unat u)"
  fix s' h assume *: "encodeString ?b = h @ ?b" "\<not> (length ?b = 1 \<and> hd ?b < 0x80)"
    "stream_Kind s = (Inr (KString, of_nat (length ?b)), s')" "at s' (?b @ inp) (adv stk (length h))"
    "fits (adv stk (length h)) (length ?b)"
  have l: "length ?b \<le> n div 8" using length_nat_be_le assms(3) by blast
  then have le: "\<not> of_nat (length ?b) > (of_nat (n div 8) :: u64)"
    using assms(4) by (simp add: word_less_nat_alt unat_of_nat_u64 del: of_nat_div)
  obtain t where t: "readUint (of_nat (length ?b)) s' = (Inr u, t)"
    "fresh t inp (adv stk (length (encodeString ?b)))"
  proof (cases "u = 0")
    case True
    then show ?thesis using that *(1,4) by (auto simp: readUint_def fresh_def at_def)
  next
    case False
    then show ?thesis
      using that readUint_putint [of s' u inp "adv stk (length h)"] putint_nat_be [of u] *(1,4,5) by (auto simp: adv_adv)
  qed
  have "\<not> (of_nat (length ?b) > (0::u64) \<and> u < 128)"
  proof
    assume a: "of_nat (length ?b) > (0::u64) \<and> u < 128"
    then have "u \<noteq> 0" by auto
    have "unat u < 128" using a by (simp add: word_less_nat_alt)
    then have "?b = [of_nat (unat u)]" using nat_be_step [of "unat u"] \<open>u \<noteq> 0\<close> by (simp add: unat_gt_0)
    then show False using *(2) \<open>unat u < 128\<close> by (simp add: word_less_nat_alt unat_of_nat unat_ucast_u64_byte)
  qed
  then show ?thesis using *(3) t le by (auto simp: stream_uint_def)
qed

lemma ByteArray_encodeString:
  assumes "fresh s (encodeString b @ inp) stk" "fits stk (length (encodeString b))" "b \<noteq> [0]"
  shows "\<exists>s'. decodeByteArray (length b) s = (Inr (VBytes b), s') \<and> fresh s' inp (adv stk (length (encodeString b)))"
  using Kind_encodeString [OF assms(1,2)]
proof (elim disjE exE conjE)
  fix s' x assume *: "b = [x]" "encodeString b = [x]" "stream_Kind s = (Inr (KByte, 0), s')"
    "at s' inp (adv stk 1)" "announced s' KByte 0" "s_byteval s' = x"
  have "stream_Kind s' = (Inr (KByte, 0), s')" using *(5) by (simp add: stream_Kind_def announced_def)
  then have "stream_uint 64 s' = (Inr (ucast x), s'\<lparr>s_kind := None\<rparr>)"
    using assms(3) *(1,6) by (simp add: stream_uint_def rearm_def)
  moreover have "ucast (ucast x :: u64) = x" by (rule bit_word_eqI) (auto simp: bit_simps)
  ultimately show ?thesis using * by (auto simp: decodeByteArray_def fresh_def at_def)
next
  fix s' h assume *: "encodeString b = h @ b" "\<not> (length b = 1 \<and> hd b < 0x80)" "length b < 2 ^ 64"
    "stream_Kind s = (Inr (KString, of_nat (length b)), s')" "at s' (b @ inp) (adv stk (length h))"
    "fits (adv stk (length h)) (length b)"
  from readFull_at [OF *(5,6)] obtain t where t: "readFull (length b) s' = (Inr b, t)"
    "fresh t inp (adv stk (length (encodeString b)))" using *(1) by (auto simp: adv_adv)
  have "of_nat (length b) = (1::u64) \<longleftrightarrow> length b = 1"
    using *(3) by (metis of_nat_1 unat_of_nat_u64 unat_1)
  then show ?thesis
    using *(2,4) t by (auto simp: decodeByteArray_def sret_def)
qed

section \<open>Lists and structs\<close>

abbreviation enc :: "val \<Rightarrow> bytes" where
  "enc v \<equiv> encode_item (val_item v)"

abbreviation encs :: "val list \<Rightarrow> bytes" where
  "encs vs \<equiv> concat (map (\<lambda>v. enc v) vs)"

lemma length_enc_pos: "0 < length (encode_item x)"
  by (cases x) (auto simp: encodeString_def encodeStringHeader_def puthead_def Let_def)

lemma length_le_encs: "length vs \<le> length (encs vs)"
proof (induction vs)
  case (Cons v vs)
  then have "length (v # vs) \<le> length (enc v) + length (encs vs)"
    using length_enc_pos [of "val_item v"] by (simp only: list.size)
  then show ?case by simp
qed simp

lemma List_header:
  assumes "fresh s (puthead 0xC0 0xF7 (of_nat (length p)) @ p @ inp) stk"
    and "fits stk (length (puthead 0xC0 0xF7 (of_nat (length p))) + length p)"
  shows "\<exists>s'. stream_List s = (Inr (of_nat (length p)), s')
    \<and> fresh s' (p @ inp) ((0, of_nat (length p)) # adv stk (length (puthead 0xC0 0xF7 (of_nat (length p)))))"
proof -
  have "tags 0xC0 0xF7 KList" by (simp add: tags_def)
  from Kind_header [OF this assms] obtain s' where
    "stream_Kind s = (Inr (KList, of_nat (length p)), s')"
    "at s' (p @ inp) (adv stk (length (puthead 0xC0 0xF7 (of_nat (length p)))))" by blast
  then show ?thesis by (simp add: stream_List_def fresh_def at_def)
qed

lemma ListEnd_at:
  assumes "fresh s inp ((z, z) # stk)"
  shows "\<exists>s'. stream_ListEnd s = (Inr (), s') \<and> fresh s' inp (adv stk (unat z))"
  using assms by (auto simp: stream_ListEnd_def fresh_def at_def adv_def split: list.splits)

lemma decode_at_end:
  assumes "fresh s inp ((z, z) # stk)"
  shows "\<exists>s'. decode_ty t s = (Inl (RlpError EOL), s') \<and> fresh s' inp ((z, z) # stk)"
proof -
  have "stream_Kind s = (Inl (RlpError EOL), s\<lparr>s_kinderr := None\<rparr>)"
    using assms by (simp add: stream_Kind_def fresh_def at_def Let_def)
  then have "decode_ty t s = (Inl (RlpError EOL), s\<lparr>s_kinderr := None\<rparr>)"
    by (cases t) (simp_all add: decodeUint_def stream_uint_def decodeBigInt_def decodeByteSlice_def
        stream_Bytes_def decodeByteArray_def stream_List_def sbind_Inl wrap_def sbind_def)
  then show ?thesis using assms by (auto simp: fresh_def at_def)
qed

text \<open>What decoding an encoded value amounts to, wherever it stands in the input.\<close>

definition decodes :: "ty \<Rightarrow> val \<Rightarrow> bool" where
  "decodes t v \<longleftrightarrow> (\<forall>s inp stk. fresh s (enc v @ inp) stk \<longrightarrow> fits stk (length (enc v)) \<longrightarrow>
     (\<exists>s'. decode_ty t s = (Inr v, s') \<and> fresh s' inp (adv stk (length (enc v)))))"

lemma decodesD:
  "decodes t v \<Longrightarrow> fresh s (enc v @ inp) stk \<Longrightarrow> fits stk (length (enc v)) \<Longrightarrow>
   \<exists>s'. decode_ty t s = (Inr v, s') \<and> fresh s' inp (adv stk (length (enc v)))"
  by (simp add: decodes_def)

lemma next_position:
  assumes "unat p + (a + b) = unat (z::u64)"
  shows "fits ((p, z) # stk) a" "unat (p + of_nat a) + b = unat z"
    "adv ((p, z) # stk) a = (p + of_nat a, z) # stk"
  using assms unat_lt_64 [of z] by (simp_all add: fits_def adv_def unat_add_of_nat)

lemma decodeSliceElems_encs:
  assumes "\<forall>v \<in> set vs. decodes t v" "fresh s (encs vs @ inp) ((p, z) # stk)"
    "unat p + length (encs vs) = unat z" "length vs < fuel"
  shows "\<exists>s'. decodeSliceElems t fuel s = (Inr vs, s') \<and> fresh s' inp ((z, z) # stk)"
  using assms
proof (induction vs arbitrary: s p fuel)
  case Nil
  then obtain f where "fuel = Suc f" by (cases fuel) auto
  moreover have "p = z" using Nil by (simp add: word_unat_eq_iff)
  ultimately show ?case using decode_at_end [of s inp z stk t] Nil by auto
next
  case (Cons v vs)
  then obtain f where f: "fuel = Suc f" "length vs < f" by (cases fuel) auto
  note np = next_position [of p "length (enc v)" "length (encs vs)" z]
  from Cons.prems np decodesD [of t v s "encs vs @ inp" "(p, z) # stk"]
  obtain s' where s': "decode_ty t s = (Inr v, s')"
    "fresh s' (encs vs @ inp) ((p + of_nat (length (enc v)), z) # stk)" by auto
  from Cons.IH [OF _ s'(2) np(2) f(2)] Cons.prems obtain s'' where
    "decodeSliceElems t f s' = (Inr vs, s'')" "fresh s'' inp ((z, z) # stk)" by auto
  then show ?case using s'(1) f(1) by simp
qed

lemma decode_fields_encs:
  assumes "list_all2 decodes ts vs" "fresh s (encs vs @ inp) ((p, z) # stk)"
    "unat p + length (encs vs) = unat z"
  shows "\<exists>s'. decode_fields ts s = (Inr vs, s') \<and> fresh s' inp ((z, z) # stk)"
  using assms
proof (induction ts vs arbitrary: s p rule: list_all2_induct)
  case Nil
  then have "p = z" by (simp add: word_unat_eq_iff)
  with Nil show ?case by simp
next
  case (Cons t ts v vs)
  note np = next_position [of p "length (enc v)" "length (encs vs)" z]
  from Cons.prems Cons.hyps(1) np decodesD [of t v s "encs vs @ inp" "(p, z) # stk"]
  obtain s' where s': "decode_ty t s = (Inr v, s')"
    "fresh s' (encs vs @ inp) ((p + of_nat (length (enc v)), z) # stk)" by auto
  from Cons.IH [OF s'(2) np(2)] Cons.prems obtain s'' where
    "decode_fields ts s' = (Inr vs, s'')" "fresh s'' inp ((z, z) # stk)" by auto
  then show ?case using s'(1) by simp
qed

lemma enc_list: "enc v = puthead 0xC0 0xF7 (of_nat (length (encs vs))) @ encs vs"
  if "v = VList vs \<or> v = VStruct vs"
  using that by (auto simp: comp_def)

lemma enter_list:
  assumes "v = VList vs \<or> v = VStruct vs" "fresh s (enc v @ inp) stk" "fits stk (length (enc v))"
  obtains s' stk' where "stream_List s = (Inr (of_nat (length (encs vs))), s')"
    "fresh s' (encs vs @ inp) ((0, of_nat (length (encs vs))) # stk')"
    "adv stk' (length (encs vs)) = adv stk (length (enc v))" "length (encs vs) < 2 ^ 64"
proof -
  have "length (encs vs) < 2 ^ 64"
    using assms(2) by (simp add: fresh_def at_def enc_list [OF assms(1)] del: encode_item.simps val_item.simps)
  with List_header [of s "encs vs" inp stk] assms(2,3) that show ?thesis
    by (auto simp: enc_list [OF assms(1)] adv_adv simp del: encode_item.simps val_item.simps)
qed

lemma decodes_list:
  assumes "\<forall>v \<in> set vs. decodes t v"
  shows "decodes (TList t) (VList vs)"
  unfolding decodes_def
proof (intro allI impI)
  fix s inp stk
  assume "fresh s (enc (VList vs) @ inp) stk" "fits stk (length (enc (VList vs)))"
  then obtain s' stk' where s': "stream_List s = (Inr (of_nat (length (encs vs))), s')"
    "fresh s' (encs vs @ inp) ((0, of_nat (length (encs vs))) # stk')"
    "adv stk' (length (encs vs)) = adv stk (length (enc (VList vs)))" and lt: "length (encs vs) < 2 ^ 64"
    using enter_list by blast
  let ?z = "of_nat (length (encs vs)) :: u64"
  have z: "unat ?z = length (encs vs)" using lt by (rule unat_of_nat_u64)
  show "\<exists>s'. decode_ty (TList t) s = (Inr (VList vs), s') \<and> fresh s' inp (adv stk (length (enc (VList vs))))"
  proof (cases "vs = []")
    case True
    with s'(2) ListEnd_at [of s' inp 0 stk'] obtain s3 where
      "stream_ListEnd s' = (Inr (), s3)" "fresh s3 inp stk'" by auto
    then show ?thesis using s'(1,3) True by (simp add: sret_def)
  next
    case False
    have "length vs < Suc (length (s_in s'))"
      using s'(2) length_le_encs [of vs] by (simp add: fresh_def at_def)
    from decodeSliceElems_encs [OF assms s'(2) _ this] z obtain s2 where
      s2: "decodeSliceElems t (Suc (length (s_in s'))) s' = (Inr vs, s2)" "fresh s2 inp ((?z, ?z) # stk')"
      by (metis add_0 unat_0)
    from ListEnd_at [OF s2(2)] z s'(3) obtain s3 where
      s3: "stream_ListEnd s2 = (Inr (), s3)" "fresh s3 inp (adv stk (length (enc (VList vs))))" by auto
    have "?z \<noteq> 0" using False z length_le_encs [of vs] by (metis le_zero_eq length_0_conv unat_0)
    then have "decode_ty (TList t) s = (Inr (VList vs), s3)"
      using s'(1) s2(1) s3(1) by (simp add: sret_def del: decodeSliceElems.simps)
    with s3(2) show ?thesis by blast
  qed
qed

lemma decodes_struct:
  assumes "list_all2 decodes ts vs"
  shows "decodes (TStruct ts) (VStruct vs)"
  unfolding decodes_def
proof (intro allI impI)
  fix s inp stk
  assume "fresh s (enc (VStruct vs) @ inp) stk" "fits stk (length (enc (VStruct vs)))"
  then obtain s' stk' where s': "stream_List s = (Inr (of_nat (length (encs vs))), s')"
    "fresh s' (encs vs @ inp) ((0, of_nat (length (encs vs))) # stk')"
    "adv stk' (length (encs vs)) = adv stk (length (enc (VStruct vs)))" and lt: "length (encs vs) < 2 ^ 64"
    using enter_list by blast
  let ?z = "of_nat (length (encs vs)) :: u64"
  have z: "unat ?z = length (encs vs)" using lt by (rule unat_of_nat_u64)
  from decode_fields_encs [OF assms s'(2)] z obtain s2 where
    s2: "decode_fields ts s' = (Inr vs, s2)" "fresh s2 inp ((?z, ?z) # stk')" by auto
  from ListEnd_at [OF s2(2)] z s'(3) obtain s3 where
    s3: "stream_ListEnd s2 = (Inr (), s3)" "fresh s3 inp (adv stk (length (enc (VStruct vs))))" by auto
  have "decode_ty (TStruct ts) s = (Inr (VStruct vs), s3)"
    using s'(1) s2(1) s3(1) by (simp add: sret_def)
  with s3(2) show "\<exists>s'. decode_ty (TStruct ts) s = (Inr (VStruct vs), s')
     \<and> fresh s' inp (adv stk (length (enc (VStruct vs))))" by blast
qed

lemma decodes_string:
  "n \<in> {8, 16, 32, 64} \<and> unat u < 2 ^ n \<Longrightarrow> decodes (TUint n) (VUint u)"
  "decodes TBig (VBig k)"
  "decodes TBytes (VBytes b)"
  "b \<noteq> [0] \<Longrightarrow> decodes (TArray (length b)) (VBytes b)"
proof -
  show "decodes (TUint n) (VUint u)" if a: "n \<in> {8, 16, 32, 64} \<and> unat u < 2 ^ n"
  proof -
    have "unat u < 256 ^ (n div 8)" "n div 8 \<le> 8" using a by auto
    with uint_writes [of _ u _ _ n] show ?thesis by (fastforce simp: decodes_def decodeUint_def sret_def)
  qed
  show "decodes TBig (VBig k)" unfolding decodes_def
  proof (intro allI impI)
    fix s inp stk
    assume "fresh s (enc (VBig k) @ inp) stk" "fits stk (length (enc (VBig k)))"
    with Bytes_encodeString [of s "nat_be k" inp stk] hd_nat_be [of k]
    show "\<exists>s'. decode_ty TBig s = (Inr (VBig k), s') \<and> fresh s' inp (adv stk (length (enc (VBig k))))"
      by (auto simp: decodeBigInt_def sret_def)
  qed
  show "decodes TBytes (VBytes b)"
    using Bytes_encodeString [of _ b] by (fastforce simp: decodes_def decodeByteSlice_def sret_def)
  show "decodes (TArray (length b)) (VBytes b)" if "b \<noteq> [0]"
    using ByteArray_encodeString [of _ b] that by (simp add: decodes_def)
qed

lemma has_ty_decodes: "has_ty t v \<Longrightarrow> decodes t v"
proof (induction t v rule: has_ty.induct)
  case (6 ts vs)
  then have "list_all2 decodes ts vs" by (auto intro: list_all2_mono simp: list_all2_conv_all_nth)
  then show ?case by (rule decodes_struct)
qed (auto intro: decodes_string decodes_list)

lemma DecodeBytes_encoded:
  assumes "has_ty t v" "length (encode_item (val_item v)) < 2 ^ 64"
  shows "DecodeBytes t (EncodeToBytes (val_item v)) = Inr v"
proof -
  let ?e = "enc v"
  have "0 < (of_nat (length ?e) :: u64)"
    using length_enc_pos assms(2) by (simp add: word_less_nat_alt unat_of_nat_u64)
  then have "fresh (NewStream ?e (of_nat (length ?e))) (?e @ []) []"
    using assms(2) by (simp add: NewStream_def fresh_def at_def)
  from decodesD [OF has_ty_decodes [OF assms(1)] this] obtain s' where
    "decode_ty t (NewStream ?e (of_nat (length ?e))) = (Inr v, s')" "s_in s' = []"
    by (auto simp: fits_def fresh_def at_def)
  then show ?thesis using EncodeToBytes_reference(1) [OF assms(2)] by (simp add: DecodeBytes_def)
qed

text \<open>A struct of two one-byte arrays whose first byte is zero does not survive: \<open>decodeByteArray\<close> drops the error of
  \<open>s.Uint\<close> and leaves the zero byte announced, so the second field reads it again.\<close>

lemma decodeByteArray_zero_byte:
  "DecodeBytes (TStruct [TArray 1, TArray 1]) (EncodeToBytes (val_item (VStruct [VBytes [0], VBytes [5]])))
   = Inl (RlpError (DecodeError ''input list has too many elements''))"
  by code_simp



end
