(* ===== verification/State_Db.thy ===== *)
theory State_Db
  imports Secure_Trie Rlp_Stream
begin

text \<open>
  The account state: \<open>src/chain/core/state/state_object.go\<close>, \<open>journal.go\<close>, \<open>statedb.go\<close> and the trie cache of
  \<open>database.go\<close>. A \<open>StateDB\<close> holds the accounts in use as objects on top of the account trie, records every change
  in a journal, and undoes the journal to return to a snapshot. A pointer to a live object is the address it is
  stored under; Go maps are association lists, iterated in the order of the list. The database that is read
  is the argument \<open>d\<close>, and the hash function the argument \<open>H\<close>. An error of an operation is a panic: errors of the
  database are recorded in \<open>dbErr\<close>, as in the source.
\<close>

section \<open>Accounts and objects\<close>

record Account =
  Nonce :: u64
  Balance :: int
  Root :: hash
  CodeHash :: bytes

definition emptyCodeHash :: "(bytes \<Rightarrow> bytes) \<Rightarrow> bytes" where
  "emptyCodeHash H = H []"

text \<open>\<open>Account{}\<close> with the defaults that \<open>newObject\<close> fills in.\<close>

definition zero_Account :: "(bytes \<Rightarrow> bytes) \<Rightarrow> Account" where
  "zero_Account H = \<lparr>Nonce = 0, Balance = 0, Root = zero_hash, CodeHash = emptyCodeHash H\<rparr>"

definition account_ty :: ty where
  "account_ty = TStruct [TUint 64, TBig, TArray 32, TBytes]"

fun val_account :: "val \<Rightarrow> Account res" where
  "val_account (VStruct [VUint n, VBig b, VBytes r, VBytes c]) = Inr \<lparr>Nonce = n, Balance = int b, Root = r, CodeHash = c\<rparr>"
| "val_account _ = Inl (Panic ''reflect: type mismatch'')"

definition encode_account :: "Account \<Rightarrow> bytes res" where
  "encode_account a =
     (if Balance a < 0 then Inl (RlpError ErrNegativeBigInt)
      else Inr (EncodeToBytes (val_item (VStruct
        [VUint (Nonce a), VBig (nat (Balance a)), VBytes (Root a), VBytes (CodeHash a)]))))"

text \<open>The code of an object is a slice that may be nil, the storage caches are maps from keys to values, and
  \<open>onDirty\<close> tells whether the callback is still set.\<close>

record stateObject =
  so_address :: address
  addrHash :: hash
  so_data :: Account
  so_dbErr :: "err option"
  so_trie :: "SecureTrie option"
  so_code :: "bytes option"
  cachedStorage :: "(hash \<times> hash) list"
  dirtyStorage :: "(hash \<times> hash) list"
  dirtyCode :: bool
  suicided :: bool
  touched :: bool
  deleted :: bool
  onDirty :: bool

definition newObject :: "(bytes \<Rightarrow> bytes) \<Rightarrow> address \<Rightarrow> Account \<Rightarrow> bool \<Rightarrow> stateObject" where
  "newObject H addr data callback =
     \<lparr>so_address = addr, addrHash = H addr, so_data = data, so_dbErr = None, so_trie = None, so_code = None,
      cachedStorage = [], dirtyStorage = [], dirtyCode = False, suicided = False, touched = False, deleted = False,
      onDirty = callback\<rparr>"

definition obj_empty :: "(bytes \<Rightarrow> bytes) \<Rightarrow> stateObject \<Rightarrow> bool" where
  "obj_empty H s \<longleftrightarrow> Nonce (so_data s) = 0 \<and> Balance (so_data s) = 0 \<and> CodeHash (so_data s) = emptyCodeHash H"

definition first_error :: "err \<Rightarrow> err option \<Rightarrow> err option" where
  "first_error e old = (case old of None \<Rightarrow> Some e | Some _ \<Rightarrow> old)"

definition obj_setError :: "err \<Rightarrow> stateObject \<Rightarrow> stateObject" where
  "obj_setError e s = s\<lparr>so_dbErr := first_error e (so_dbErr s)\<rparr>"

definition getTrie :: "database \<Rightarrow> (SecureTrie, stateObject) op" where
  "getTrie d c =
     (case so_trie c of
        Some t \<Rightarrow> (Inr t, c)
      | None \<Rightarrow>
          (case NewSecure (Root (so_data c)) True d 0 of
             Inr t \<Rightarrow> (Inr t, c\<lparr>so_trie := Some t\<rparr>)
           | Inl e \<Rightarrow>
               if crash e then (Inl e, c)
               else (case NewSecure zero_hash True d 0 of
                       Inl e \<Rightarrow> (Inl (Panic ''nil pointer dereference''), c)
                     | Inr t \<Rightarrow> (Inr t, obj_setError (TextError ''can't create storage trie'') (c\<lparr>so_trie := Some t\<rparr>)))))"

text \<open>An operation on the storage trie, once it is open; \<open>obj_record\<close> is \<open>setError\<close> around it.\<close>

definition on_storage :: "('a, SecureTrie) op \<Rightarrow> ('a, stateObject) op" where
  "on_storage m c =
     (case so_trie c of
        None \<Rightarrow> (Inl (Panic ''nil pointer dereference''), c)
      | Some t \<Rightarrow> (case m t of (r, t') \<Rightarrow> (r, c\<lparr>so_trie := Some t'\<rparr>)))"

definition obj_record :: "(unit, stateObject) op \<Rightarrow> (unit, stateObject) op" where
  "obj_record m = scatch m (\<lambda>e c. (Inr (), obj_setError e c)) sret"

definition obj_GetState :: "(bytes \<Rightarrow> bytes) \<Rightarrow> database \<Rightarrow> hash \<Rightarrow> (hash, stateObject) op" where
  "obj_GetState H d key self =
     (case map_of (cachedStorage self) key of
        Some value \<Rightarrow> (Inr value, self)
      | None \<Rightarrow>
          sbind (getTrie d) (\<lambda>_.
          scatch (on_storage (sec_TryGet H d key)) (\<lambda>e c. (Inr zero_hash, obj_setError e c)) (\<lambda>enc.
          let cache = (\<lambda>value c. (Inr value, if value \<noteq> zero_hash
                                   then c\<lparr>cachedStorage := AList.update key value (cachedStorage c)\<rparr> else c))
          in case enc of
               None \<Rightarrow> cache zero_hash
             | Some b \<Rightarrow>
                 if b = [] then cache zero_hash
                 else scatch (\<lambda>c. (Split b, c)) (\<lambda>e c. cache (SetBytes zero_hash []) (obj_setError e c))
                        (\<lambda>(_, content, _). cache (SetBytes zero_hash content)))) self)"

fun update_loop :: "(bytes \<Rightarrow> bytes) \<Rightarrow> database \<Rightarrow> (hash \<times> hash) list \<Rightarrow> (unit, stateObject) op" where
  "update_loop H d [] = sret ()"
| "update_loop H d ((key, value) # rest) =
     sbind (\<lambda>c. (Inr (), c\<lparr>dirtyStorage := AList.delete key (dirtyStorage c)\<rparr>)) (\<lambda>_.
     sbind (obj_record (on_storage
              (if value = zero_hash then sec_TryDelete H d key
               else sec_TryUpdate H d key (EncodeToBytes (Str (dropWhile (\<lambda>b. b = 0) value)))))) (\<lambda>_.
     update_loop H d rest))"

definition updateTrie :: "(bytes \<Rightarrow> bytes) \<Rightarrow> database \<Rightarrow> (unit, stateObject) op" where
  "updateTrie H d = sbind (getTrie d) (\<lambda>_ self. update_loop H d (dirtyStorage self) self)"

definition updateRoot :: "(bytes \<Rightarrow> bytes) \<Rightarrow> database \<Rightarrow> (unit, stateObject) op" where
  "updateRoot H d =
     sbind (updateTrie H d) (\<lambda>_. sbind (on_storage (sec_Hash H)) (\<lambda>h self.
       (Inr (), self\<lparr>so_data := (so_data self)\<lparr>Root := h\<rparr>\<rparr>)))"

text \<open>The storage trie is written to \<open>w\<close>, the database or the batch that the commit is given.\<close>

definition CommitTrie :: "(bytes \<Rightarrow> bytes) \<Rightarrow> database \<Rightarrow> (unit, stateObject \<times> database) op" where
  "CommitTrie H d = (\<lambda>(self, w).
     case updateTrie H d self of
       (Inl e, self) \<Rightarrow> (Inl e, self, w)
     | (Inr _, self) \<Rightarrow>
         (case so_dbErr self of
            Some e \<Rightarrow> (Inl e, self, w)
          | None \<Rightarrow>
              (case so_trie self of
                 None \<Rightarrow> (Inl (Panic ''nil pointer dereference''), self, w)
               | Some t \<Rightarrow>
                   (case sec_CommitTo H (t, w) of
                      (Inl e, t, w) \<Rightarrow> (Inl e, self\<lparr>so_trie := Some t\<rparr>, w)
                    | (Inr root, t, w) \<Rightarrow>
                        (Inr (), self\<lparr>so_trie := Some t, so_data := (so_data self)\<lparr>Root := root\<rparr>\<rparr>, w)))))"

definition obj_Code :: "(bytes \<Rightarrow> bytes) \<Rightarrow> database \<Rightarrow> stateObject \<Rightarrow> bytes option \<times> stateObject" where
  "obj_Code H d self =
     (if so_code self \<noteq> None then (so_code self, self)
      else if CodeHash (so_data self) = emptyCodeHash H then (None, self)
      else case db_Get (BytesToHash (CodeHash (so_data self))) d of
             Inl _ \<Rightarrow> (None, (obj_setError (TextError ''can't load code hash'') self)\<lparr>so_code := None\<rparr>)
           | Inr code \<Rightarrow> (Some code, self\<lparr>so_code := Some code\<rparr>))"

definition deepCopy :: "(bytes \<Rightarrow> bytes) \<Rightarrow> stateObject \<Rightarrow> bool \<Rightarrow> stateObject" where
  "deepCopy H self callback =
     (newObject H (so_address self) (so_data self) callback)
       \<lparr>so_trie := map_option sec_Copy (so_trie self), so_code := so_code self, dirtyStorage := dirtyStorage self,
        cachedStorage := dirtyStorage self, suicided := suicided self, dirtyCode := dirtyCode self,
        deleted := deleted self\<rparr>"

section \<open>The state and its journal\<close>

record Log =
  Log_Address :: address
  Topics :: "hash list"
  Log_Data :: bytes
  BlockNumber :: u64
  TxHash :: hash
  TxIndex :: u64
  BlockHash :: hash
  Index :: u64
  Removed :: bool

datatype journalEntry =
    createObjectChange address
  | resetObjectChange stateObject
  | suicideChange address bool int
  | balanceChange address int
  | nonceChange address u64
  | storageChange address hash hash
  | codeChange address "bytes option" bytes
  | refundChange int
  | addLogChange hash
  | addPreimageChange hash
  | touchChange address bool bool

record revision =
  rev_id :: int
  journalIndex :: nat

record StateDB =
  db_trie :: SecureTrie
  stateObjects :: "(address \<times> stateObject) list"
  stateObjectsDirty :: "address list"
  db_dbErr :: "err option"
  refund :: int
  thash :: hash
  bhash :: hash
  txIndex :: int
  logs :: "(hash \<times> Log list) list"
  logSize :: u64
  preimages :: "(hash \<times> bytes) list"
  journal :: "journalEntry list"
  validRevisions :: "revision list"
  nextRevisionId :: int

type_synonym 'a sdb = "('a, StateDB) op"

definition db_setError :: "err \<Rightarrow> StateDB \<Rightarrow> StateDB" where
  "db_setError e s = s\<lparr>db_dbErr := first_error e (db_dbErr s)\<rparr>"

definition sdb_Error :: "StateDB \<Rightarrow> err option" where
  "sdb_Error s = db_dbErr s"

definition clearJournalAndRefund :: "StateDB \<Rightarrow> StateDB" where
  "clearJournalAndRefund s = s\<lparr>journal := [], validRevisions := [], refund := 0\<rparr>"

definition MarkStateObjectDirty :: "address \<Rightarrow> StateDB \<Rightarrow> StateDB" where
  "MarkStateObjectDirty addr s = s\<lparr>stateObjectsDirty := List.insert addr (stateObjectsDirty s)\<rparr>"

definition setStateObject :: "stateObject \<Rightarrow> StateDB \<Rightarrow> StateDB" where
  "setStateObject obj s = s\<lparr>stateObjects := AList.update (so_address obj) obj (stateObjects s)\<rparr>"

definition add_journal :: "journalEntry \<Rightarrow> StateDB \<Rightarrow> StateDB" where
  "add_journal e s = s\<lparr>journal := journal s @ [e]\<rparr>"

text \<open>An operation on the account trie; \<open>db_record\<close> is \<open>setError\<close> around it.\<close>

definition on_trie :: "('a, SecureTrie) op \<Rightarrow> 'a sdb" where
  "on_trie m s = (case m (db_trie s) of (r, t) \<Rightarrow> (r, s\<lparr>db_trie := t\<rparr>))"

definition db_record :: "unit sdb \<Rightarrow> unit sdb" where
  "db_record m = scatch m (\<lambda>e s. (Inr (), db_setError e s)) sret"

definition getStateObject :: "(bytes \<Rightarrow> bytes) \<Rightarrow> database \<Rightarrow> address \<Rightarrow> stateObject option sdb" where
  "getStateObject H d addr s =
     (case map_of (stateObjects s) addr of
        Some obj \<Rightarrow> (Inr (if deleted obj then None else Some obj), s)
      | None \<Rightarrow>
          scatch (on_trie (sec_TryGet H d addr)) (\<lambda>e s. (Inr None, db_setError e s)) (\<lambda>enc.
            case enc of
              None \<Rightarrow> sret None
            | Some b \<Rightarrow>
                if b = [] then sret None
                else scatch (\<lambda>s. (rbind (DecodeBytes account_ty b) val_account, s)) (\<lambda>_. sret None) (\<lambda>data s.
                       let obj = newObject H addr data True in (Inr (Some obj), setStateObject obj s))) s)"

section \<open>Methods of an object\<close>

text \<open>The methods of an object that also change the state it belongs to.\<close>

type_synonym ostate = "stateObject \<times> StateDB"

fun fire_onDirty :: "ostate \<Rightarrow> ostate" where
  "fire_onDirty (c, s) =
     (if onDirty c then (c\<lparr>onDirty := False\<rparr>, MarkStateObjectDirty (so_address c) s) else (c, s))"

fun markSuicided :: "ostate \<Rightarrow> ostate" where
  "markSuicided (c, s) = fire_onDirty (c\<lparr>suicided := True\<rparr>, s)"

fun obj_touch :: "ostate \<Rightarrow> ostate" where
  "obj_touch (c, s) =
     (case fire_onDirty (c, add_journal (touchChange (so_address c) (touched c) (\<not> onDirty c)) s) of
        (c, s) \<Rightarrow> (c\<lparr>touched := True\<rparr>, s))"

fun obj_setBalance :: "int \<Rightarrow> ostate \<Rightarrow> ostate" where
  "obj_setBalance amount (c, s) = fire_onDirty (c\<lparr>so_data := (so_data c)\<lparr>Balance := amount\<rparr>\<rparr>, s)"

fun obj_SetBalance :: "int \<Rightarrow> ostate \<Rightarrow> ostate" where
  "obj_SetBalance amount (c, s) =
     obj_setBalance amount (c, add_journal (balanceChange (so_address c) (Balance (so_data c))) s)"

fun obj_AddBalance :: "(bytes \<Rightarrow> bytes) \<Rightarrow> int \<Rightarrow> ostate \<Rightarrow> ostate" where
  "obj_AddBalance H amount (c, s) =
     (if amount = 0 then (if obj_empty H c then obj_touch (c, s) else (c, s))
      else obj_SetBalance (Balance (so_data c) + amount) (c, s))"

fun obj_SubBalance :: "int \<Rightarrow> ostate \<Rightarrow> ostate" where
  "obj_SubBalance amount (c, s) =
     (if amount = 0 then (c, s) else obj_SetBalance (Balance (so_data c) - amount) (c, s))"

fun obj_setNonce :: "u64 \<Rightarrow> ostate \<Rightarrow> ostate" where
  "obj_setNonce nonce (c, s) = fire_onDirty (c\<lparr>so_data := (so_data c)\<lparr>Nonce := nonce\<rparr>\<rparr>, s)"

fun obj_SetNonce :: "u64 \<Rightarrow> ostate \<Rightarrow> ostate" where
  "obj_SetNonce nonce (c, s) =
     obj_setNonce nonce (c, add_journal (nonceChange (so_address c) (Nonce (so_data c))) s)"

fun obj_setCode :: "hash \<Rightarrow> bytes option \<Rightarrow> ostate \<Rightarrow> ostate" where
  "obj_setCode codeHash code (c, s) =
     fire_onDirty (c\<lparr>so_code := code, so_data := (so_data c)\<lparr>CodeHash := codeHash\<rparr>, dirtyCode := True\<rparr>, s)"

fun obj_SetCode :: "(bytes \<Rightarrow> bytes) \<Rightarrow> database \<Rightarrow> hash \<Rightarrow> bytes option \<Rightarrow> ostate \<Rightarrow> ostate" where
  "obj_SetCode H d codeHash code (c, s) =
     (case obj_Code H d c of
        (prevcode, c) \<Rightarrow>
          obj_setCode codeHash code (c, add_journal (codeChange (so_address c) prevcode (CodeHash (so_data c))) s))"

fun obj_setState :: "hash \<Rightarrow> hash \<Rightarrow> ostate \<Rightarrow> ostate" where
  "obj_setState key value (c, s) =
     fire_onDirty (c\<lparr>cachedStorage := AList.update key value (cachedStorage c),
                     dirtyStorage := AList.update key value (dirtyStorage c)\<rparr>, s)"

fun obj_SetState :: "(bytes \<Rightarrow> bytes) \<Rightarrow> database \<Rightarrow> hash \<Rightarrow> hash \<Rightarrow> (unit, ostate) op" where
  "obj_SetState H d key value (c, s) =
     (case obj_GetState H d key c of
        (Inl e, c) \<Rightarrow> (Inl e, c, s)
      | (Inr prev, c) \<Rightarrow> (Inr (), obj_setState key value (c, add_journal (storageChange (so_address c) key prev) s)))"

section \<open>Creating objects\<close>

definition createObject :: "(bytes \<Rightarrow> bytes) \<Rightarrow> database \<Rightarrow> address \<Rightarrow> (stateObject \<times> stateObject option) sdb" where
  "createObject H d addr =
     sbind (getStateObject H d addr) (\<lambda>prev s.
       let (newobj, s) = obj_setNonce 0 (newObject H addr (zero_Account H) True, s);
           s = add_journal (case prev of None \<Rightarrow> createObjectChange addr | Some p \<Rightarrow> resetObjectChange p) s
       in (Inr (newobj, prev), setStateObject newobj s))"

definition GetOrNewStateObject :: "(bytes \<Rightarrow> bytes) \<Rightarrow> database \<Rightarrow> address \<Rightarrow> stateObject sdb" where
  "GetOrNewStateObject H d addr =
     sbind (getStateObject H d addr) (\<lambda>so.
       case so of
         Some obj \<Rightarrow> if deleted obj then sbind (createObject H d addr) (\<lambda>(n, _). sret n) else sret obj
       | None \<Rightarrow> sbind (createObject H d addr) (\<lambda>(n, _). sret n))"

text \<open>Running a method on an object and storing the object back.\<close>

definition run_obj :: "stateObject \<Rightarrow> ('a, ostate) op \<Rightarrow> 'a sdb" where
  "run_obj obj m s = (case m (obj, s) of (r, obj, s) \<Rightarrow> (r, setStateObject obj s))"

definition pure_obj :: "(ostate \<Rightarrow> ostate) \<Rightarrow> (unit, ostate) op" where
  "pure_obj f x = (Inr (), f x)"

definition on_obj :: "('a, stateObject) op \<Rightarrow> ('a, ostate) op" where
  "on_obj m = (\<lambda>(c, s). case m c of (r, c) \<Rightarrow> (r, c, s))"

definition CreateAccount :: "(bytes \<Rightarrow> bytes) \<Rightarrow> database \<Rightarrow> address \<Rightarrow> unit sdb" where
  "CreateAccount H d addr =
     sbind (createObject H d addr) (\<lambda>(new, prev).
       case prev of None \<Rightarrow> sret () | Some p \<Rightarrow> run_obj new (pure_obj (obj_setBalance (Balance (so_data p)))))"

section \<open>Queries\<close>

definition Exist :: "(bytes \<Rightarrow> bytes) \<Rightarrow> database \<Rightarrow> address \<Rightarrow> bool sdb" where
  "Exist H d addr = sbind (getStateObject H d addr) (\<lambda>so. sret (so \<noteq> None))"

definition sdb_Empty :: "(bytes \<Rightarrow> bytes) \<Rightarrow> database \<Rightarrow> address \<Rightarrow> bool sdb" where
  "sdb_Empty H d addr =
     sbind (getStateObject H d addr) (\<lambda>so. sret (case so of None \<Rightarrow> True | Some c \<Rightarrow> obj_empty H c))"

definition GetBalance :: "(bytes \<Rightarrow> bytes) \<Rightarrow> database \<Rightarrow> address \<Rightarrow> int sdb" where
  "GetBalance H d addr =
     sbind (getStateObject H d addr) (\<lambda>so. sret (case so of None \<Rightarrow> 0 | Some c \<Rightarrow> Balance (so_data c)))"

definition GetNonce :: "(bytes \<Rightarrow> bytes) \<Rightarrow> database \<Rightarrow> address \<Rightarrow> u64 sdb" where
  "GetNonce H d addr =
     sbind (getStateObject H d addr) (\<lambda>so. sret (case so of None \<Rightarrow> 0 | Some c \<Rightarrow> Nonce (so_data c)))"

definition GetCode :: "(bytes \<Rightarrow> bytes) \<Rightarrow> database \<Rightarrow> address \<Rightarrow> bytes option sdb" where
  "GetCode H d addr =
     sbind (getStateObject H d addr) (\<lambda>so.
       case so of
         None \<Rightarrow> sret None
       | Some c \<Rightarrow> run_obj c (on_obj (\<lambda>c. case obj_Code H d c of (code, c) \<Rightarrow> (Inr code, c))))"

text \<open>The cache of code sizes is a third-party LRU cache: \<open>cached\<close> is what it answers.\<close>

definition ContractCodeSize :: "(hash \<Rightarrow> nat option) \<Rightarrow> database \<Rightarrow> hash \<Rightarrow> nat \<times> err option" where
  "ContractCodeSize cached d codeHash =
     (case cached codeHash of
        Some n \<Rightarrow> (n, None)
      | None \<Rightarrow> (case db_Get codeHash d of Inl e \<Rightarrow> (0, Some e) | Inr code \<Rightarrow> (length code, None)))"

definition GetCodeSize :: "(bytes \<Rightarrow> bytes) \<Rightarrow> (hash \<Rightarrow> nat option) \<Rightarrow> database \<Rightarrow> address \<Rightarrow> nat sdb" where
  "GetCodeSize H cached d addr =
     sbind (getStateObject H d addr) (\<lambda>so.
       case so of
         None \<Rightarrow> sret 0
       | Some c \<Rightarrow>
           (case so_code c of
              Some code \<Rightarrow> sret (length code)
            | None \<Rightarrow>
                (case ContractCodeSize cached d (BytesToHash (CodeHash (so_data c))) of
                   (n, None) \<Rightarrow> sret n
                 | (n, Some e) \<Rightarrow> (\<lambda>s. (Inr n, db_setError e s)))))"

definition GetCodeHash :: "(bytes \<Rightarrow> bytes) \<Rightarrow> database \<Rightarrow> address \<Rightarrow> hash sdb" where
  "GetCodeHash H d addr =
     sbind (getStateObject H d addr) (\<lambda>so.
       sret (case so of None \<Rightarrow> zero_hash | Some c \<Rightarrow> BytesToHash (CodeHash (so_data c))))"

definition GetState :: "(bytes \<Rightarrow> bytes) \<Rightarrow> database \<Rightarrow> address \<Rightarrow> hash \<Rightarrow> hash sdb" where
  "GetState H d a b =
     sbind (getStateObject H d a) (\<lambda>so.
       case so of None \<Rightarrow> sret zero_hash | Some c \<Rightarrow> run_obj c (on_obj (obj_GetState H d b)))"

definition HasSuicided :: "(bytes \<Rightarrow> bytes) \<Rightarrow> database \<Rightarrow> address \<Rightarrow> bool sdb" where
  "HasSuicided H d addr =
     sbind (getStateObject H d addr) (\<lambda>so. sret (case so of None \<Rightarrow> False | Some c \<Rightarrow> suicided c))"

definition GetLogs :: "hash \<Rightarrow> StateDB \<Rightarrow> Log list" where
  "GetLogs h s = (case map_of (logs s) h of None \<Rightarrow> [] | Some l \<Rightarrow> l)"

definition GetRefund :: "StateDB \<Rightarrow> int" where
  "GetRefund s = refund s"

section \<open>Setters\<close>

definition AddBalance :: "(bytes \<Rightarrow> bytes) \<Rightarrow> database \<Rightarrow> address \<Rightarrow> int \<Rightarrow> unit sdb" where
  "AddBalance H d addr amount =
     sbind (GetOrNewStateObject H d addr) (\<lambda>obj. run_obj obj (pure_obj (obj_AddBalance H amount)))"

definition SubBalance :: "(bytes \<Rightarrow> bytes) \<Rightarrow> database \<Rightarrow> address \<Rightarrow> int \<Rightarrow> unit sdb" where
  "SubBalance H d addr amount =
     sbind (GetOrNewStateObject H d addr) (\<lambda>obj. run_obj obj (pure_obj (obj_SubBalance amount)))"

definition SetBalance :: "(bytes \<Rightarrow> bytes) \<Rightarrow> database \<Rightarrow> address \<Rightarrow> int \<Rightarrow> unit sdb" where
  "SetBalance H d addr amount =
     sbind (GetOrNewStateObject H d addr) (\<lambda>obj. run_obj obj (pure_obj (obj_SetBalance amount)))"

definition SetNonce :: "(bytes \<Rightarrow> bytes) \<Rightarrow> database \<Rightarrow> address \<Rightarrow> u64 \<Rightarrow> unit sdb" where
  "SetNonce H d addr nonce =
     sbind (GetOrNewStateObject H d addr) (\<lambda>obj. run_obj obj (pure_obj (obj_SetNonce nonce)))"

definition SetCode :: "(bytes \<Rightarrow> bytes) \<Rightarrow> database \<Rightarrow> address \<Rightarrow> bytes option \<Rightarrow> unit sdb" where
  "SetCode H d addr code =
     sbind (GetOrNewStateObject H d addr) (\<lambda>obj.
       run_obj obj (pure_obj (obj_SetCode H d (H (case code of None \<Rightarrow> [] | Some c \<Rightarrow> c)) code)))"

definition SetState :: "(bytes \<Rightarrow> bytes) \<Rightarrow> database \<Rightarrow> address \<Rightarrow> hash \<Rightarrow> hash \<Rightarrow> unit sdb" where
  "SetState H d addr key value =
     sbind (GetOrNewStateObject H d addr) (\<lambda>obj. run_obj obj (obj_SetState H d key value))"

definition Suicide :: "(bytes \<Rightarrow> bytes) \<Rightarrow> database \<Rightarrow> address \<Rightarrow> bool sdb" where
  "Suicide H d addr =
     sbind (getStateObject H d addr) (\<lambda>so.
       case so of
         None \<Rightarrow> sret False
       | Some obj \<Rightarrow>
           sbind (run_obj obj (pure_obj (\<lambda>(c, s).
             case markSuicided (c, add_journal (suicideChange addr (suicided c) (Balance (so_data c))) s) of
               (c, s) \<Rightarrow> (c\<lparr>so_data := (so_data c)\<lparr>Balance := 0\<rparr>\<rparr>, s)))) (\<lambda>_. sret True))"

definition AddLog :: "Log \<Rightarrow> StateDB \<Rightarrow> StateDB" where
  "AddLog log s =
     (let s = add_journal (addLogChange (thash s)) s;
          log = log\<lparr>TxHash := thash s, BlockHash := bhash s, TxIndex := of_int (txIndex s), Index := logSize s\<rparr>
      in s\<lparr>logs := AList.update (thash s) (GetLogs (thash s) s @ [log]) (logs s), logSize := logSize s + 1\<rparr>)"

definition AddPreimage :: "hash \<Rightarrow> bytes \<Rightarrow> StateDB \<Rightarrow> StateDB" where
  "AddPreimage h preimage s =
     (if map_of (preimages s) h \<noteq> None then s
      else (add_journal (addPreimageChange h) s)\<lparr>preimages := AList.update h preimage (preimages s)\<rparr>)"

definition AddRefund :: "int \<Rightarrow> StateDB \<Rightarrow> StateDB" where
  "AddRefund gas s = (add_journal (refundChange (refund s)) s)\<lparr>refund := refund s + gas\<rparr>"

definition sdb_Prepare :: "hash \<Rightarrow> hash \<Rightarrow> int \<Rightarrow> StateDB \<Rightarrow> StateDB" where
  "sdb_Prepare th bh ti s = s\<lparr>thash := th, bhash := bh, txIndex := ti\<rparr>"

section \<open>Snapshots\<close>

text \<open>\<open>sort.Search\<close>: the smallest index with the property, by binary search.\<close>

function search_loop :: "(nat \<Rightarrow> bool) \<Rightarrow> nat \<Rightarrow> nat \<Rightarrow> nat" where
  "search_loop f i j =
     (if i < j then (let h = i + (j - i) div 2 in if \<not> f h then search_loop f (h + 1) j else search_loop f i h) else i)"
  by pat_completeness auto
termination by (relation "measure (\<lambda>(f, i, j). j - i)") (auto simp: Let_def)

declare search_loop.simps [simp del]

definition sort_Search :: "nat \<Rightarrow> (nat \<Rightarrow> bool) \<Rightarrow> nat" where
  "sort_Search n f = search_loop f 0 n"

definition ripemd :: address where
  "ripemd = replicate 19 0 @ [3]"

text \<open>A method called on the object at an address, which panics when there is none.\<close>

definition undo_object :: "(bytes \<Rightarrow> bytes) \<Rightarrow> database \<Rightarrow> address \<Rightarrow> (ostate \<Rightarrow> ostate) \<Rightarrow> unit sdb" where
  "undo_object H d addr f =
     sbind (getStateObject H d addr) (\<lambda>so.
       case so of
         None \<Rightarrow> sthrow (Panic ''nil pointer dereference'')
       | Some obj \<Rightarrow> run_obj obj (pure_obj f))"

fun undo :: "(bytes \<Rightarrow> bytes) \<Rightarrow> database \<Rightarrow> journalEntry \<Rightarrow> unit sdb" where
  "undo H d (createObjectChange account) s =
     (Inr (), s\<lparr>stateObjects := AList.delete account (stateObjects s),
                stateObjectsDirty := removeAll account (stateObjectsDirty s)\<rparr>)"
| "undo H d (resetObjectChange prev) s = (Inr (), setStateObject prev s)"
| "undo H d (suicideChange account prev prevbalance) s =
     sbind (getStateObject H d account) (\<lambda>so.
       case so of
         None \<Rightarrow> sret ()
       | Some obj \<Rightarrow> run_obj obj (pure_obj (\<lambda>(c, s). obj_setBalance prevbalance (c\<lparr>suicided := prev\<rparr>, s)))) s"
| "undo H d (touchChange account prev prevDirty) s =
     (if \<not> prev \<and> account \<noteq> ripemd then
        sbind (undo_object H d account (\<lambda>(c, s). (c\<lparr>touched := prev\<rparr>, s))) (\<lambda>_ s.
          (Inr (), if prevDirty then s else s\<lparr>stateObjectsDirty := removeAll account (stateObjectsDirty s)\<rparr>)) s
      else (Inr (), s))"
| "undo H d (balanceChange account prev) s = undo_object H d account (obj_setBalance prev) s"
| "undo H d (nonceChange account prev) s = undo_object H d account (obj_setNonce prev) s"
| "undo H d (codeChange account prevcode prevhash) s =
     undo_object H d account (obj_setCode (BytesToHash prevhash) prevcode) s"
| "undo H d (storageChange account key prevalue) s = undo_object H d account (obj_setState key prevalue) s"
| "undo H d (refundChange prev) s = (Inr (), s\<lparr>refund := prev\<rparr>)"
| "undo H d (addLogChange txhash) s =
     (let l = GetLogs txhash s in
      if length l = 1 then (Inr (), s\<lparr>logs := AList.delete txhash (logs s), logSize := logSize s - 1\<rparr>)
      else if l = [] then (Inl (Panic ''slice bounds out of range''), s)
      else (Inr (), s\<lparr>logs := AList.update txhash (butlast l) (logs s), logSize := logSize s - 1\<rparr>))"
| "undo H d (addPreimageChange h) s = (Inr (), s\<lparr>preimages := AList.delete h (preimages s)\<rparr>)"

definition sdb_Snapshot :: "StateDB \<Rightarrow> int \<times> StateDB" where
  "sdb_Snapshot s =
     (let id = nextRevisionId s
      in (id, s\<lparr>nextRevisionId := id + 1,
               validRevisions := validRevisions s @ [\<lparr>rev_id = id, journalIndex = length (journal s)\<rparr>]\<rparr>))"

fun undo_all :: "(bytes \<Rightarrow> bytes) \<Rightarrow> database \<Rightarrow> journalEntry list \<Rightarrow> unit sdb" where
  "undo_all H d [] = sret ()"
| "undo_all H d (e # es) = sbind (undo H d e) (\<lambda>_. undo_all H d es)"

definition RevertToSnapshot :: "(bytes \<Rightarrow> bytes) \<Rightarrow> database \<Rightarrow> int \<Rightarrow> unit sdb" where
  "RevertToSnapshot H d revid s =
     (let revs = validRevisions s; idx = sort_Search (length revs) (\<lambda>i. rev_id (revs ! i) \<ge> revid)
      in if idx = length revs \<or> rev_id (revs ! idx) \<noteq> revid then (Inl (Panic ''revision id cannot be reverted''), s)
         else (let snapshot = journalIndex (revs ! idx)
               in if length (journal s) < snapshot then (Inl (Panic ''slice bounds out of range''), s)
                  else sbind (undo_all H d (rev (drop snapshot (journal s)))) (\<lambda>_ s.
                         (Inr (), s\<lparr>journal := take snapshot (journal s), validRevisions := take idx revs\<rparr>)) s))"

section \<open>Writing objects to the tries\<close>

definition updateStateObject :: "(bytes \<Rightarrow> bytes) \<Rightarrow> database \<Rightarrow> stateObject \<Rightarrow> unit sdb" where
  "updateStateObject H d obj =
     (case encode_account (so_data obj) of
        Inl e \<Rightarrow> sthrow (Panic ''can't encode object'')
      | Inr data \<Rightarrow> db_record (on_trie (sec_TryUpdate H d (so_address obj) data)))"

definition deleteStateObject :: "(bytes \<Rightarrow> bytes) \<Rightarrow> database \<Rightarrow> stateObject \<Rightarrow> unit sdb" where
  "deleteStateObject H d obj s =
     db_record (on_trie (sec_TryDelete H d (so_address obj))) (setStateObject (obj\<lparr>deleted := True\<rparr>) s)"

definition finalise_object :: "(bytes \<Rightarrow> bytes) \<Rightarrow> database \<Rightarrow> bool \<Rightarrow> address \<Rightarrow> unit sdb" where
  "finalise_object H d deleteEmptyObjects addr s =
     (case map_of (stateObjects s) addr of
        None \<Rightarrow> (Inl (Panic ''nil pointer dereference''), s)
      | Some obj \<Rightarrow>
          if suicided obj \<or> deleteEmptyObjects \<and> obj_empty H obj then deleteStateObject H d obj s
          else sbind (run_obj obj (on_obj (\<lambda>c. case updateRoot H d c of (r, c) \<Rightarrow> (rbind r (\<lambda>_. Inr c), c)))) (\<lambda>c.
                 updateStateObject H d c) s)"

fun finalise_loop :: "(bytes \<Rightarrow> bytes) \<Rightarrow> database \<Rightarrow> bool \<Rightarrow> address list \<Rightarrow> unit sdb" where
  "finalise_loop H d del [] = sret ()"
| "finalise_loop H d del (addr # rest) = sbind (finalise_object H d del addr) (\<lambda>_. finalise_loop H d del rest)"

definition Finalise :: "(bytes \<Rightarrow> bytes) \<Rightarrow> database \<Rightarrow> bool \<Rightarrow> unit sdb" where
  "Finalise H d deleteEmptyObjects s =
     sbind (finalise_loop H d deleteEmptyObjects (stateObjectsDirty s)) (\<lambda>_ s. (Inr (), clearJournalAndRefund s)) s"

definition IntermediateRoot :: "(bytes \<Rightarrow> bytes) \<Rightarrow> database \<Rightarrow> bool \<Rightarrow> hash sdb" where
  "IntermediateRoot H d deleteEmptyObjects =
     sbind (Finalise H d deleteEmptyObjects) (\<lambda>_. on_trie (sec_Hash H))"

fun delete_suicides :: "address list \<Rightarrow> unit sdb" where
  "delete_suicides [] = sret ()"
| "delete_suicides (addr # rest) =
     sbind (\<lambda>s. case map_of (stateObjects s) addr of
                  None \<Rightarrow> (Inl (Panic ''nil pointer dereference''), s)
                | Some obj \<Rightarrow>
                    (let s = (if suicided obj then setStateObject (obj\<lparr>deleted := True\<rparr>) s else s)
                     in (Inr (), s\<lparr>stateObjectsDirty := removeAll addr (stateObjectsDirty s)\<rparr>))) (\<lambda>_.
     delete_suicides rest)"

definition DeleteSuicides :: "unit sdb" where
  "DeleteSuicides s = (let s = clearJournalAndRefund s in delete_suicides (stateObjectsDirty s) s)"

text \<open>One round of the loop of \<open>CommitTo\<close>. The database \<open>w\<close> is written to.\<close>

definition commit_object :: "(bytes \<Rightarrow> bytes) \<Rightarrow> database \<Rightarrow> bool \<Rightarrow> address \<Rightarrow> (unit, StateDB \<times> database) op" where
  "commit_object H d deleteEmptyObjects addr = (\<lambda>(s, w).
     case map_of (stateObjects s) addr of
       None \<Rightarrow> (Inr (), s, w)
     | Some obj \<Rightarrow>
         (let isDirty = addr \<in> set (stateObjectsDirty s);
              clean = (\<lambda>(r, s, w). (r, (case r of Inl _ \<Rightarrow> s | Inr _ \<Rightarrow>
                         s\<lparr>stateObjectsDirty := removeAll addr (stateObjectsDirty s)\<rparr>), w))
          in if suicided obj \<or> isDirty \<and> deleteEmptyObjects \<and> obj_empty H obj then
               clean (case deleteStateObject H d obj s of (r, s) \<Rightarrow> (r, s, w))
             else if isDirty then
               (let (obj, w) = (case so_code obj of
                       Some code \<Rightarrow> if dirtyCode obj then (obj\<lparr>dirtyCode := False\<rparr>, db_Put (CodeHash (so_data obj)) code w)
                                    else (obj, w)
                     | None \<Rightarrow> (obj, w))
                in case CommitTrie H d (obj, w) of
                     (Inl e, obj, w) \<Rightarrow> (Inl e, setStateObject obj s, w)
                   | (Inr _, obj, w) \<Rightarrow>
                       clean (case updateStateObject H d obj (setStateObject obj s) of (r, s) \<Rightarrow> (r, s, w)))
             else clean (Inr (), s, w)))"

fun commit_loop :: "(bytes \<Rightarrow> bytes) \<Rightarrow> database \<Rightarrow> bool \<Rightarrow> address list \<Rightarrow> (unit, StateDB \<times> database) op" where
  "commit_loop H d del [] = sret ()"
| "commit_loop H d del (addr # rest) = sbind (commit_object H d del addr) (\<lambda>_. commit_loop H d del rest)"

section \<open>The trie cache, new and copied states\<close>

text \<open>\<open>cachingDB\<close> keeps the last committed account tries and hands out copies of them.\<close>

definition maxPastTries :: nat where
  "maxPastTries = 12"

definition MaxTrieCacheGen :: u16 where
  "MaxTrieCacheGen = 120"

definition pushTrie :: "SecureTrie \<Rightarrow> SecureTrie list \<Rightarrow> SecureTrie list" where
  "pushTrie t pastTries = (if length pastTries \<ge> maxPastTries then drop 1 pastTries @ [t] else pastTries @ [t])"

text \<open>\<open>cachedTrie.CommitTo\<close>. The cache keeps the trie as it is when it is committed. (The code keeps the pointer: once the
  state changes its trie, the entry no longer has the root it was committed under and is not found again.)\<close>

definition cached_CommitTo :: "(bytes \<Rightarrow> bytes) \<Rightarrow> (hash, SecureTrie \<times> database \<times> SecureTrie list) op" where
  "cached_CommitTo H = (\<lambda>(t, w, past).
     case sec_CommitTo H (t, w) of
       (Inl e, t, w) \<Rightarrow> (Inl e, t, w, past)
     | (Inr root, t, w) \<Rightarrow> (Inr root, t, w, pushTrie t past))"

definition sdb_CommitTo :: "(bytes \<Rightarrow> bytes) \<Rightarrow> database \<Rightarrow> bool \<Rightarrow> (hash, StateDB \<times> database \<times> SecureTrie list) op" where
  "sdb_CommitTo H d deleteEmptyObjects = (\<lambda>(s, w, past).
     case commit_loop H d deleteEmptyObjects (map fst (stateObjects s)) (s, w) of
       (Inl e, s, w) \<Rightarrow> (Inl e, clearJournalAndRefund s, w, past)
     | (Inr _, s, w) \<Rightarrow>
         (case cached_CommitTo H (db_trie s, w, past) of
            (r, t, w, past) \<Rightarrow> (r, clearJournalAndRefund (s\<lparr>db_trie := t\<rparr>), w, past)))"

text \<open>The search runs from the last trie to the first, and hashing a trie caches its hashes: \<open>ts\<close> is reversed.\<close>

fun find_past :: "(bytes \<Rightarrow> bytes) \<Rightarrow> hash \<Rightarrow> (SecureTrie option, SecureTrie list) op" where
  "find_past H root [] = (Inr None, [])"
| "find_past H root (t # ts) =
     (case sec_Hash H t of
        (Inl e, t) \<Rightarrow> (Inl e, t # ts)
      | (Inr h, t) \<Rightarrow>
          if h = root then (Inr (Some (sec_Copy t)), t # ts)
          else (case find_past H root ts of (r, ts) \<Rightarrow> (r, t # ts)))"

definition OpenTrie :: "(bytes \<Rightarrow> bytes) \<Rightarrow> database \<Rightarrow> hash \<Rightarrow> (SecureTrie, SecureTrie list) op" where
  "OpenTrie H d root pastTries =
     (case find_past H root (rev pastTries) of
        (Inl e, ts) \<Rightarrow> (Inl e, rev ts)
      | (Inr (Some t), ts) \<Rightarrow> (Inr t, rev ts)
      | (Inr None, ts) \<Rightarrow> (NewSecure root True d MaxTrieCacheGen, rev ts))"

definition new_state :: "SecureTrie \<Rightarrow> StateDB" where
  "new_state tr =
     \<lparr>db_trie = tr, stateObjects = [], stateObjectsDirty = [], db_dbErr = None, refund = 0, thash = zero_hash,
      bhash = zero_hash, txIndex = 0, logs = [], logSize = 0, preimages = [], journal = [], validRevisions = [],
      nextRevisionId = 0\<rparr>"

definition state_New :: "(bytes \<Rightarrow> bytes) \<Rightarrow> database \<Rightarrow> hash \<Rightarrow> (StateDB, SecureTrie list) op" where
  "state_New H d root = sbind (OpenTrie H d root) (\<lambda>tr. sret (new_state tr))"

definition Reset :: "(bytes \<Rightarrow> bytes) \<Rightarrow> database \<Rightarrow> hash \<Rightarrow> (unit, StateDB \<times> SecureTrie list) op" where
  "Reset H d root = (\<lambda>(self, past).
     case OpenTrie H d root past of
       (Inl e, past) \<Rightarrow> (Inl e, self, past)
     | (Inr tr, past) \<Rightarrow>
         (Inr (), clearJournalAndRefund (self\<lparr>db_trie := tr, stateObjects := [], stateObjectsDirty := [],
            thash := zero_hash, bhash := zero_hash, txIndex := 0, logs := [], logSize := 0, preimages := []\<rparr>), past))"

fun copy_objects :: "(bytes \<Rightarrow> bytes) \<Rightarrow> StateDB \<Rightarrow> address list \<Rightarrow> (address \<times> stateObject) list res" where
  "copy_objects H self [] = Inr []"
| "copy_objects H self (addr # rest) =
     (case map_of (stateObjects self) addr of
        None \<Rightarrow> Inl (Panic ''nil pointer dereference'')
      | Some obj \<Rightarrow> rbind (copy_objects H self rest) (\<lambda>os. Inr ((addr, deepCopy H obj True) # os)))"

text \<open>The copy of a state has the same account trie, the very object: \<open>on_copy\<close> runs an operation on the copy and
  gives the trie it leaves behind to the original as well.\<close>

definition sdb_Copy :: "(bytes \<Rightarrow> bytes) \<Rightarrow> StateDB \<Rightarrow> StateDB res" where
  "sdb_Copy H self =
     rbind (copy_objects H self (stateObjectsDirty self)) (\<lambda>os.
       Inr ((new_state (db_trie self))\<lparr>stateObjects := os, stateObjectsDirty := stateObjectsDirty self,
              refund := refund self, logs := logs self, logSize := logSize self, preimages := preimages self\<rparr>))"

definition on_copy :: "'a sdb \<Rightarrow> ('a, StateDB \<times> StateDB) op" where
  "on_copy m = (\<lambda>(self, cpy). case m cpy of (r, cpy) \<Rightarrow> (r, self\<lparr>db_trie := db_trie cpy\<rparr>, cpy))"

end
