(* ===== verification/Evm.thy ===== *)
theory Evm
  imports Vm_Words State_Db
begin

text \<open>
  The virtual machine: \<open>core/vm\<close> (instructions, gas, the jump table, contracts and precompiled contracts, the
  interpreter and the calls of \<open>evm.go\<close>), the transfer functions of \<open>core/evm.go\<close>, and the rules of
  \<open>params/config.go\<close> and \<open>params/gas_table.go\<close> that they read.

  Go errors are data here, since calls return them together with output and gas; the left side of a result is a
  panic or exhausted fuel. The top of the stack is the head of a list. \<open>Run\<close> and the calls are mutually recursive in
  the code; they are defined over the function that runs a frame, and \<open>run_loop\<close> ties the knot with fuel. The pool of
  recycled integers, the tracer and the debug mode do not influence results and are left out.
\<close>

section \<open>Chain rules\<close>

record ChainConfig =
  ChainId :: "int option"
  HomesteadBlock :: "int option"
  EIP150Block :: "int option"
  EIP155Block :: "int option"
  EIP158Block :: "int option"
  ByzantiumBlock :: "int option"

definition isForked :: "int option \<Rightarrow> int \<Rightarrow> bool" where
  "isForked s head = (case s of None \<Rightarrow> False | Some b \<Rightarrow> b \<le> head)"

definition IsHomestead :: "ChainConfig \<Rightarrow> int \<Rightarrow> bool" where
  "IsHomestead c num = isForked (HomesteadBlock c) num"

definition IsEIP150 :: "ChainConfig \<Rightarrow> int \<Rightarrow> bool" where
  "IsEIP150 c num = isForked (EIP150Block c) num"

definition IsEIP158 :: "ChainConfig \<Rightarrow> int \<Rightarrow> bool" where
  "IsEIP158 c num = isForked (EIP158Block c) num"

definition IsByzantium :: "ChainConfig \<Rightarrow> int \<Rightarrow> bool" where
  "IsByzantium c num = isForked (ByzantiumBlock c) num"

record GasTable =
  gt_ExtcodeSize :: u64
  gt_ExtcodeCopy :: u64
  gt_Balance :: u64
  gt_SLoad :: u64
  gt_Calls :: u64
  gt_Suicide :: u64
  gt_ExpByte :: u64
  gt_CreateBySuicide :: u64

definition GasTableHomestead :: GasTable where
  "GasTableHomestead = \<lparr>gt_ExtcodeSize = 20, gt_ExtcodeCopy = 20, gt_Balance = 20, gt_SLoad = 50, gt_Calls = 40,
     gt_Suicide = 0, gt_ExpByte = 10, gt_CreateBySuicide = 0\<rparr>"

definition GasTableEIP150 :: GasTable where
  "GasTableEIP150 = \<lparr>gt_ExtcodeSize = 700, gt_ExtcodeCopy = 700, gt_Balance = 400, gt_SLoad = 200, gt_Calls = 700,
     gt_Suicide = 5000, gt_ExpByte = 10, gt_CreateBySuicide = 25000\<rparr>"

definition GasTableEIP158 :: GasTable where
  "GasTableEIP158 = \<lparr>gt_ExtcodeSize = 700, gt_ExtcodeCopy = 700, gt_Balance = 400, gt_SLoad = 200, gt_Calls = 700,
     gt_Suicide = 5000, gt_ExpByte = 50, gt_CreateBySuicide = 25000\<rparr>"

definition gas_table :: "ChainConfig \<Rightarrow> int \<Rightarrow> GasTable" where
  "gas_table c num =
     (if IsEIP158 c num then GasTableEIP158 else if IsEIP150 c num then GasTableEIP150 else GasTableHomestead)"

abbreviation (input) CallStipend :: u64 where "CallStipend \<equiv> 2300"
abbreviation (input) CallValueTransferGas :: u64 where "CallValueTransferGas \<equiv> 9000"
abbreviation (input) CallNewAccountGas :: u64 where "CallNewAccountGas \<equiv> 25000"
abbreviation (input) Sha3Gas :: u64 where "Sha3Gas \<equiv> 30"
abbreviation (input) Sha3WordGas :: u64 where "Sha3WordGas \<equiv> 6"
abbreviation (input) SstoreSetGas :: u64 where "SstoreSetGas \<equiv> 20000"
abbreviation (input) SstoreResetGas :: u64 where "SstoreResetGas \<equiv> 5000"
abbreviation (input) SstoreClearGas :: u64 where "SstoreClearGas \<equiv> 5000"
abbreviation (input) SstoreRefundGas :: u64 where "SstoreRefundGas \<equiv> 15000"
abbreviation (input) JumpdestGas :: u64 where "JumpdestGas \<equiv> 1"
abbreviation (input) CreateDataGas :: u64 where "CreateDataGas \<equiv> 200"
abbreviation (input) CallCreateDepth :: int where "CallCreateDepth \<equiv> 1024"
abbreviation (input) LogGas :: u64 where "LogGas \<equiv> 375"
abbreviation (input) LogTopicGas :: u64 where "LogTopicGas \<equiv> 375"
abbreviation (input) LogDataGas :: u64 where "LogDataGas \<equiv> 8"
abbreviation (input) CopyGas :: u64 where "CopyGas \<equiv> 3"
abbreviation (input) StackLimit :: nat where "StackLimit \<equiv> 1024"
abbreviation (input) CreateGas :: u64 where "CreateGas \<equiv> 32000"
abbreviation (input) SuicideRefundGas :: u64 where "SuicideRefundGas \<equiv> 24000"
abbreviation (input) MemoryGas :: u64 where "MemoryGas \<equiv> 3"
abbreviation (input) QuadCoeffDiv :: u64 where "QuadCoeffDiv \<equiv> 512"
abbreviation (input) MaxCodeSize :: nat where "MaxCodeSize \<equiv> 24576"

section \<open>Opcodes\<close>

text \<open>The opcodes by groups: arithmetic on the stack, values pushed from the environment, and the others.\<close>

datatype arith_op =
    ADD | MUL | SUB | DIV | SDIV | MOD | SMOD | ADDMOD | MULMOD | EXP | SIGNEXTEND
  | LT | GT | SLT | SGT | EQ | ISZERO | AND' | OR' | XOR' | NOT' | BYTE

datatype env_op =
    ADDRESS | ORIGIN | CALLER | CALLVALUE | CALLDATASIZE | CODESIZE | GASPRICE | RETURNDATASIZE
  | COINBASE | TIMESTAMP | NUMBER | DIFFICULTY | GASLIMIT | PC | MSIZE | GAS

datatype OpCode =
    Arith arith_op | Env env_op | STOP | SHA3 | BALANCE | CALLDATALOAD | CALLDATACOPY | CODECOPY
  | EXTCODESIZE | EXTCODECOPY | RETURNDATACOPY | BLOCKHASH | POP | MLOAD | MSTORE | MSTORE8 | SLOAD | SSTORE
  | JUMP | JUMPI | JUMPDEST | PUSH nat | DUP nat | SWAP nat | LOG nat
  | CREATE | CALL | CALLCODE | RETURN | DELEGATECALL | STATICCALL | REVERT | SELFDESTRUCT
  | INVALID nat

definition opcodes :: "(nat \<times> OpCode) list" where
  "opcodes =
     [(0x00, STOP), (0x01, Arith ADD), (0x02, Arith MUL), (0x03, Arith SUB), (0x04, Arith DIV), (0x05, Arith SDIV),
      (0x06, Arith MOD), (0x07, Arith SMOD), (0x08, Arith ADDMOD), (0x09, Arith MULMOD), (0x0A, Arith EXP),
      (0x0B, Arith SIGNEXTEND),
      (0x10, Arith LT), (0x11, Arith GT), (0x12, Arith SLT), (0x13, Arith SGT), (0x14, Arith EQ), (0x15, Arith ISZERO),
      (0x16, Arith AND'), (0x17, Arith OR'), (0x18, Arith XOR'), (0x19, Arith NOT'), (0x1A, Arith BYTE),
      (0x20, SHA3),
      (0x30, Env ADDRESS), (0x31, BALANCE), (0x32, Env ORIGIN), (0x33, Env CALLER), (0x34, Env CALLVALUE),
      (0x35, CALLDATALOAD), (0x36, Env CALLDATASIZE), (0x37, CALLDATACOPY), (0x38, Env CODESIZE), (0x39, CODECOPY),
      (0x3A, Env GASPRICE), (0x3B, EXTCODESIZE), (0x3C, EXTCODECOPY), (0x3D, Env RETURNDATASIZE), (0x3E, RETURNDATACOPY),
      (0x40, BLOCKHASH), (0x41, Env COINBASE), (0x42, Env TIMESTAMP), (0x43, Env NUMBER), (0x44, Env DIFFICULTY),
      (0x45, Env GASLIMIT),
      (0x50, POP), (0x51, MLOAD), (0x52, MSTORE), (0x53, MSTORE8), (0x54, SLOAD), (0x55, SSTORE), (0x56, JUMP),
      (0x57, JUMPI), (0x58, Env PC), (0x59, Env MSIZE), (0x5A, Env GAS), (0x5B, JUMPDEST),
      (0xF0, CREATE), (0xF1, CALL), (0xF2, CALLCODE), (0xF3, RETURN), (0xF4, DELEGATECALL), (0xFA, STATICCALL),
      (0xFD, REVERT), (0xFF, SELFDESTRUCT)]"

definition opcode_of :: "byte \<Rightarrow> OpCode" where
  "opcode_of b =
     (let n = unat b
      in if 0x60 \<le> n \<and> n \<le> 0x7F then PUSH (n - 0x5F)
         else if 0x80 \<le> n \<and> n \<le> 0x8F then DUP (n - 0x7F)
         else if 0x90 \<le> n \<and> n \<le> 0x9F then SWAP (n - 0x8F)
         else if 0xA0 \<le> n \<and> n \<le> 0xA4 then LOG (n - 0xA0)
         else case map_of opcodes n of Some op \<Rightarrow> op | None \<Rightarrow> INVALID n)"

section \<open>The jump table\<close>

text \<open>The columns of the jump table other than the functions: stack items taken and left, and the flags. The sizes of
  memory, the gas and the execution are the functions \<open>memorySize\<close>, \<open>gasCost\<close> and \<open>execute\<close> below.\<close>

record operation =
  pop_items :: nat
  push_items :: nat
  halts :: bool
  jumps :: bool
  writes :: bool
  valid :: bool
  reverts :: bool
  returns :: bool

definition simple_op :: "nat \<Rightarrow> nat \<Rightarrow> operation" where
  "simple_op p q = \<lparr>pop_items = p, push_items = q, halts = False, jumps = False, writes = False, valid = True,
     reverts = False, returns = False\<rparr>"

fun arith_items :: "arith_op \<Rightarrow> nat" where
  "arith_items ADDMOD = 3"
| "arith_items MULMOD = 3"
| "arith_items ISZERO = 1"
| "arith_items NOT' = 1"
| "arith_items _ = 2"

text \<open>The part of the frontier instruction set up to the arithmetic and the environment, and the rest of it.\<close>

fun frontier_data :: "OpCode \<Rightarrow> operation option" where
  "frontier_data STOP = Some ((simple_op 0 0)\<lparr>halts := True\<rparr>)"
| "frontier_data (Arith a) = Some (simple_op (arith_items a) 1)"
| "frontier_data (Env RETURNDATASIZE) = None"
| "frontier_data (Env e) = Some (simple_op 0 1)"
| "frontier_data SHA3 = Some (simple_op 2 1)"
| "frontier_data BALANCE = Some (simple_op 1 1)"
| "frontier_data CALLDATALOAD = Some (simple_op 1 1)"
| "frontier_data CALLDATACOPY = Some (simple_op 3 0)"
| "frontier_data CODECOPY = Some (simple_op 3 0)"
| "frontier_data EXTCODESIZE = Some (simple_op 1 1)"
| "frontier_data EXTCODECOPY = Some (simple_op 4 0)"
| "frontier_data BLOCKHASH = Some (simple_op 1 1)"
| "frontier_data _ = None"

fun frontier_memory :: "OpCode \<Rightarrow> operation option" where
  "frontier_memory POP = Some (simple_op 1 0)"
| "frontier_memory MLOAD = Some (simple_op 1 1)"
| "frontier_memory MSTORE = Some (simple_op 2 0)"
| "frontier_memory MSTORE8 = Some (simple_op 2 0)"
| "frontier_memory SLOAD = Some (simple_op 1 1)"
| "frontier_memory SSTORE = Some ((simple_op 2 0)\<lparr>writes := True\<rparr>)"
| "frontier_memory JUMP = Some ((simple_op 1 0)\<lparr>jumps := True\<rparr>)"
| "frontier_memory JUMPI = Some ((simple_op 2 0)\<lparr>jumps := True\<rparr>)"
| "frontier_memory JUMPDEST = Some (simple_op 0 0)"
| "frontier_memory _ = None"

definition frontier_push :: "OpCode \<Rightarrow> operation option" where
  "frontier_push op = (case op of PUSH n \<Rightarrow> Some (simple_op 0 1) | _ \<Rightarrow> None)"

definition frontier_dup :: "OpCode \<Rightarrow> operation option" where
  "frontier_dup op = (case op of DUP n \<Rightarrow> Some (simple_op n (n + 1)) | _ \<Rightarrow> None)"

definition frontier_swap :: "OpCode \<Rightarrow> operation option" where
  "frontier_swap op = (case op of SWAP n \<Rightarrow> Some (simple_op (n + 1) (n + 1)) | _ \<Rightarrow> None)"

fun frontier_system :: "OpCode \<Rightarrow> operation option" where
  "frontier_system (LOG n) = Some ((simple_op (n + 2) 0)\<lparr>writes := True\<rparr>)"
| "frontier_system CREATE = Some ((simple_op 3 1)\<lparr>writes := True, returns := True\<rparr>)"
| "frontier_system CALL = Some ((simple_op 7 1)\<lparr>returns := True\<rparr>)"
| "frontier_system CALLCODE = Some ((simple_op 7 1)\<lparr>returns := True\<rparr>)"
| "frontier_system RETURN = Some ((simple_op 2 0)\<lparr>halts := True\<rparr>)"
| "frontier_system SELFDESTRUCT = Some ((simple_op 1 0)\<lparr>halts := True, writes := True\<rparr>)"
| "frontier_system _ = None"

definition first_some :: "'a option \<Rightarrow> 'a option \<Rightarrow> 'a option" where
  "first_some x y = (case x of None \<Rightarrow> y | Some z \<Rightarrow> Some z)"

definition frontierInstructionSet :: "OpCode \<Rightarrow> operation option" where
  "frontierInstructionSet op =
     first_some (frontier_data op) (first_some (frontier_memory op) (first_some (frontier_push op)
       (first_some (frontier_dup op) (first_some (frontier_swap op) (frontier_system op)))))"

text \<open>The homestead set of this chain already has the four instructions of the byzantium set. An opcode that is not in
  the table is not valid.\<close>

definition homesteadInstructionSet :: "OpCode \<Rightarrow> operation" where
  "homesteadInstructionSet op =
     (case op of
        DELEGATECALL \<Rightarrow> (simple_op 6 1)\<lparr>returns := True\<rparr>
      | STATICCALL \<Rightarrow> (simple_op 6 1)\<lparr>returns := True\<rparr>
      | Env RETURNDATASIZE \<Rightarrow> simple_op 0 1
      | RETURNDATACOPY \<Rightarrow> simple_op 3 0
      | REVERT \<Rightarrow> (simple_op 2 0)\<lparr>reverts := True, returns := True\<rparr>
      | _ \<Rightarrow> (case frontierInstructionSet op of Some x \<Rightarrow> x | None \<Rightarrow> (simple_op 0 0)\<lparr>valid := False\<rparr>))"

definition stack_require :: "nat \<Rightarrow> int list \<Rightarrow> err option" where
  "stack_require n st = (if length st < n then Some (TextError ''stack underflow'') else None)"

text \<open>\<open>makeStackFunc(pop, push)\<close>.\<close>

definition validateStack :: "operation \<Rightarrow> int list \<Rightarrow> err option" where
  "validateStack x st =
     (case stack_require (pop_items x) st of
        Some e \<Rightarrow> Some e
      | None \<Rightarrow>
          if int (length st) + int (push_items x) - int (pop_items x) > int StackLimit
          then Some (TextError ''stack limit reached'') else None)"

section \<open>Contracts, environment and frames\<close>

record Contract =
  CallerAddress :: address
  self_address :: address
  Code :: bytes
  Contract_CodeHash :: hash
  CodeAddr :: "address option"
  Input :: bytes
  Gas :: u64
  Contract_value :: int
  DelegateCall_flag :: bool

datatype ContractRef = AccountRef address | ContractOf Contract

fun ref_address :: "ContractRef \<Rightarrow> address" where
  "ref_address (AccountRef a) = a"
| "ref_address (ContractOf c) = self_address c"

definition NewContract :: "ContractRef \<Rightarrow> address \<Rightarrow> int \<Rightarrow> u64 \<Rightarrow> Contract" where
  "NewContract caller object v gas =
     \<lparr>CallerAddress = ref_address caller, self_address = object, Code = [], Contract_CodeHash = zero_hash, CodeAddr = None,
      Input = [], Gas = gas, Contract_value = v, DelegateCall_flag = False\<rparr>"

fun AsDelegate :: "ContractRef \<Rightarrow> Contract \<Rightarrow> Contract res" where
  "AsDelegate (ContractOf parent) c =
     Inr (c\<lparr>DelegateCall_flag := True, CallerAddress := CallerAddress parent, Contract_value := Contract_value parent\<rparr>)"
| "AsDelegate (AccountRef a) c = Inl (Panic ''interface conversion'')"

definition GetByte :: "Contract \<Rightarrow> u64 \<Rightarrow> byte" where
  "GetByte c n = (if n < of_nat (length (Code c)) then Code c ! unat n else 0)"

definition GetOp :: "Contract \<Rightarrow> u64 \<Rightarrow> OpCode" where
  "GetOp c n = opcode_of (GetByte c n)"

definition UseGas :: "u64 \<Rightarrow> Contract \<Rightarrow> bool \<times> Contract" where
  "UseGas gas c = (if Gas c < gas then (False, c) else (True, c\<lparr>Gas := Gas c - gas\<rparr>))"

definition SetCallCode :: "address \<Rightarrow> hash \<Rightarrow> bytes \<Rightarrow> Contract \<Rightarrow> Contract" where
  "SetCallCode addr h code c = c\<lparr>Code := code, Contract_CodeHash := h, CodeAddr := Some addr\<rparr>"

record Context =
  Origin :: address
  GasPrice :: int
  Coinbase :: address
  ctx_GasLimit :: int
  ctx_BlockNumber :: int
  ctx_Time :: int
  ctx_Difficulty :: int
  GetHash :: "u64 \<Rightarrow> hash"

record vm_Config =
  NoRecursion :: bool
  DisableGasMetering :: bool
  EnablePreimageRecording :: bool

text \<open>What a run of the machine does not change: the context, the configurations, and the code outside the sources
  (Keccak, the other hashes, key recovery and the cache of code sizes) with the database below the state.\<close>

record environment =
  context_of :: Context
  chain_config :: ChainConfig
  vm_config :: vm_Config
  keccak :: "bytes \<Rightarrow> bytes"
  disk :: database
  code_sizes :: "hash \<Rightarrow> nat option"
  sha256_sum :: "bytes \<Rightarrow> bytes"
  ripemd160_sum :: "bytes \<Rightarrow> bytes"
  recover_pubkey :: "bytes \<Rightarrow> bytes \<Rightarrow> bytes option"

text \<open>What it changes. The analysed jump destinations belong to the outermost contract and are shared by all calls
  below it.\<close>

record EVM =
  evm_state :: StateDB
  depth :: int
  readOnly :: bool
  returnData :: bytes
  jumpdests :: "(hash \<times> bytes) list"
  abort :: bool

record frame =
  fr_pc :: u64
  fr_stack :: "int list"
  fr_mem :: Memory
  fr_contract :: Contract

type_synonym mstate = "frame \<times> EVM"
type_synonym 'a vm = "('a, mstate) op"
type_synonym go_result = "bytes option \<times> err option"

definition on_db :: "'a sdb \<Rightarrow> ('a, EVM) op" where
  "on_db m v = (case m (evm_state v) of (r, s) \<Rightarrow> (r, v\<lparr>evm_state := s\<rparr>))"

definition db_do :: "(StateDB \<Rightarrow> StateDB) \<Rightarrow> (unit, EVM) op" where
  "db_do f v = (Inr (), v\<lparr>evm_state := f (evm_state v)\<rparr>)"

definition in_evm :: "('a, EVM) op \<Rightarrow> 'a vm" where
  "in_evm m = (\<lambda>(fr, v). case m v of (r, v) \<Rightarrow> (r, fr, v))"

definition get_frame :: "frame vm" where
  "get_frame = (\<lambda>(fr, v). (Inr fr, fr, v))"

definition mod_frame :: "(frame \<Rightarrow> frame) \<Rightarrow> unit vm" where
  "mod_frame f = (\<lambda>(fr, v). (Inr (), f fr, v))"

definition in_mem :: "(Memory \<Rightarrow> 'a res) \<Rightarrow> 'a vm" where
  "in_mem m = (\<lambda>(fr, v). (m (fr_mem fr), fr, v))"

definition set_mem :: "(Memory \<Rightarrow> Memory res) \<Rightarrow> unit vm" where
  "set_mem m = (\<lambda>(fr, v). case m (fr_mem fr) of Inl e \<Rightarrow> (Inl e, fr, v) | Inr x \<Rightarrow> (Inr (), fr\<lparr>fr_mem := x\<rparr>, v))"

definition lift_res :: "'a res \<Rightarrow> ('a, 's) op" where
  "lift_res r s = (r, s)"

section \<open>The stack\<close>

definition pop :: "int vm" where
  "pop = (\<lambda>(fr, v). case fr_stack fr of
     [] \<Rightarrow> (Inl (Panic ''index out of range''), fr, v)
   | x # st \<Rightarrow> (Inr x, fr\<lparr>fr_stack := st\<rparr>, v))"

definition push :: "int \<Rightarrow> unit vm" where
  "push x = mod_frame (\<lambda>fr. fr\<lparr>fr_stack := x # fr_stack fr\<rparr>)"

definition Back :: "nat \<Rightarrow> int vm" where
  "Back n = (\<lambda>(fr, v). if n < length (fr_stack fr) then (Inr (fr_stack fr ! n), fr, v)
     else (Inl (Panic ''index out of range''), fr, v))"

definition stack_dup :: "nat \<Rightarrow> unit vm" where
  "stack_dup n = (\<lambda>(fr, v). if 0 < n \<and> n \<le> length (fr_stack fr)
     then (Inr (), fr\<lparr>fr_stack := fr_stack fr ! (n - 1) # fr_stack fr\<rparr>, v)
     else (Inl (Panic ''index out of range''), fr, v))"

definition stack_swap :: "nat \<Rightarrow> unit vm" where
  "stack_swap n = (\<lambda>(fr, v). let st = fr_stack fr in if 0 < n \<and> n \<le> length st
     then (Inr (), fr\<lparr>fr_stack := st[n - 1 := st ! 0, 0 := st ! (n - 1)]\<rparr>, v)
     else (Inl (Panic ''index out of range''), fr, v))"

section \<open>Instructions\<close>

abbreviation ok :: "go_result vm" where
  "ok \<equiv> sret (None, None)"

definition un_op :: "(int \<Rightarrow> int) \<Rightarrow> go_result vm" where
  "un_op f = sbind pop (\<lambda>x. sbind (push (f x)) (\<lambda>_. ok))"

definition bin_op :: "(int \<Rightarrow> int \<Rightarrow> int) \<Rightarrow> go_result vm" where
  "bin_op f = sbind pop (\<lambda>x. sbind pop (\<lambda>y. sbind (push (f x y)) (\<lambda>_. ok)))"

definition tern_op :: "(int \<Rightarrow> int \<Rightarrow> int \<Rightarrow> int) \<Rightarrow> go_result vm" where
  "tern_op f = sbind pop (\<lambda>x. sbind pop (\<lambda>y. sbind pop (\<lambda>z. sbind (push (f x y z)) (\<lambda>_. ok))))"

definition opSdiv :: "int \<Rightarrow> int \<Rightarrow> int" where
  "opSdiv a b =
     (let x = S256 a; y = S256 b
      in if y = 0 then 0 else U256 ((\<bar>x\<bar> div \<bar>y\<bar>) * (if x * y < 0 then -1 else 1)))"

definition opSmod :: "int \<Rightarrow> int \<Rightarrow> int" where
  "opSmod a b =
     (let x = S256 a; y = S256 b
      in if y = 0 then 0 else U256 ((\<bar>x\<bar> mod \<bar>y\<bar>) * (if x < 0 then -1 else 1)))"

definition opSignExtend :: "int \<Rightarrow> int \<Rightarrow> int" where
  "opSignExtend bk num =
     (if bk < 31 then
        (let k = unat (Uint64 bk * 8 + 7); m = 2 ^ k - 1
         in U256 (if bit num k then num OR NOT m else num AND m))
      else num)"

definition bool_int :: "bool \<Rightarrow> int" where
  "bool_int b = (if b then 1 else 0)"

fun op_arith :: "arith_op \<Rightarrow> go_result vm" where
  "op_arith ADD = bin_op (\<lambda>x y. U256 (x + y))"
| "op_arith SUB = bin_op (\<lambda>x y. U256 (x - y))"
| "op_arith MUL = bin_op (\<lambda>x y. U256 (x * y))"
| "op_arith DIV = bin_op (\<lambda>x y. if y \<noteq> 0 then U256 (x div y) else 0)"
| "op_arith SDIV = bin_op opSdiv"
| "op_arith MOD = bin_op (\<lambda>x y. if y = 0 then 0 else U256 (x mod y))"
| "op_arith SMOD = bin_op opSmod"
| "op_arith EXP = bin_op math_Exp"
| "op_arith SIGNEXTEND = bin_op opSignExtend"
| "op_arith NOT' = un_op (\<lambda>x. U256 (NOT x))"
| "op_arith LT = bin_op (\<lambda>x y. bool_int (x < y))"
| "op_arith GT = bin_op (\<lambda>x y. bool_int (x > y))"
| "op_arith SLT = bin_op (\<lambda>x y. bool_int (S256 x < S256 (S256 y)))"
| "op_arith SGT = bin_op (\<lambda>x y. bool_int (S256 x > S256 y))"
| "op_arith EQ = bin_op (\<lambda>x y. bool_int (x = y))"
| "op_arith ISZERO = un_op (\<lambda>x. if x > 0 then 0 else 1)"
| "op_arith AND' = bin_op (\<lambda>x y. x AND y)"
| "op_arith OR' = bin_op (\<lambda>x y. x OR y)"
| "op_arith XOR' = bin_op (\<lambda>x y. x XOR y)"
| "op_arith BYTE = bin_op (\<lambda>th val. if th < 32 then uint (math_Byte val 32 (nat (Int64 th))) else 0)"
| "op_arith ADDMOD = tern_op (\<lambda>x y z. if z > 0 then U256 ((x + y) mod z) else 0)"
| "op_arith MULMOD = tern_op (\<lambda>x y z. if z > 0 then U256 ((x * y) mod z) else 0)"

text \<open>The instructions that push a value of the environment.\<close>

fun env_value :: "environment \<Rightarrow> env_op \<Rightarrow> frame \<Rightarrow> EVM \<Rightarrow> int" where
  "env_value E ADDRESS fr v = big_SetBytes (self_address (fr_contract fr))"
| "env_value E ORIGIN fr v = big_SetBytes (Origin (context_of E))"
| "env_value E CALLER fr v = big_SetBytes (CallerAddress (fr_contract fr))"
| "env_value E CALLVALUE fr v = Contract_value (fr_contract fr)"
| "env_value E CALLDATASIZE fr v = int (length (Input (fr_contract fr)))"
| "env_value E CODESIZE fr v = int (length (Code (fr_contract fr)))"
| "env_value E GASPRICE fr v = GasPrice (context_of E)"
| "env_value E RETURNDATASIZE fr v = int (length (returnData v))"
| "env_value E COINBASE fr v = big_SetBytes (Coinbase (context_of E))"
| "env_value E TIMESTAMP fr v = U256 (ctx_Time (context_of E))"
| "env_value E NUMBER fr v = U256 (ctx_BlockNumber (context_of E))"
| "env_value E DIFFICULTY fr v = U256 (ctx_Difficulty (context_of E))"
| "env_value E GASLIMIT fr v = U256 (ctx_GasLimit (context_of E))"
| "env_value E PC fr v = uint (fr_pc fr)"
| "env_value E MSIZE fr v = int (length (mem_store (fr_mem fr)))"
| "env_value E GAS fr v = uint (Gas (fr_contract fr))"

definition op_env :: "environment \<Rightarrow> env_op \<Rightarrow> go_result vm" where
  "op_env E e = (\<lambda>(fr, v). sbind (push (env_value E e fr v)) (\<lambda>_. ok) (fr, v))"

definition opSha3 :: "environment \<Rightarrow> go_result vm" where
  "opSha3 E =
     sbind pop (\<lambda>offset. sbind pop (\<lambda>sz.
     sbind (in_mem (mem_Get (Int64 offset) (Int64 sz))) (\<lambda>data.
     let h = keccak E (opt_bytes data)
     in sbind (if EnablePreimageRecording (vm_config E)
               then in_evm (db_do (AddPreimage (BytesToHash h) (opt_bytes data))) else sret ()) (\<lambda>_.
        sbind (push (big_SetBytes h)) (\<lambda>_. ok)))))"

definition opBalance :: "environment \<Rightarrow> go_result vm" where
  "opBalance E =
     sbind pop (\<lambda>a. sbind (in_evm (on_db (GetBalance (keccak E) (disk E) (BigToAddress a)))) (\<lambda>b.
     sbind (push b) (\<lambda>_. ok)))"

definition opCallDataLoad :: "go_result vm" where
  "opCallDataLoad =
     sbind get_frame (\<lambda>fr. sbind pop (\<lambda>x.
     sbind (lift_res (getDataBig (Input (fr_contract fr)) x 32)) (\<lambda>b. sbind (push (big_SetBytes b)) (\<lambda>_. ok))))"

text \<open>The three instructions that copy data into memory.\<close>

definition copy_data :: "bytes \<Rightarrow> go_result vm" where
  "copy_data src =
     sbind pop (\<lambda>memOffset. sbind pop (\<lambda>dataOffset. sbind pop (\<lambda>len.
     sbind (lift_res (getDataBig src dataOffset len)) (\<lambda>b.
     sbind (set_mem (mem_Set (Uint64 memOffset) (Uint64 len) b)) (\<lambda>_. ok)))))"

definition opCallDataCopy :: "go_result vm" where
  "opCallDataCopy = sbind get_frame (\<lambda>fr. copy_data (Input (fr_contract fr)))"

definition opCodeCopy :: "go_result vm" where
  "opCodeCopy = sbind get_frame (\<lambda>fr. copy_data (Code (fr_contract fr)))"

definition opExtCodeCopy :: "environment \<Rightarrow> go_result vm" where
  "opExtCodeCopy E =
     sbind pop (\<lambda>a. sbind pop (\<lambda>memOffset. sbind pop (\<lambda>codeOffset. sbind pop (\<lambda>len.
     sbind (in_evm (on_db (GetCode (keccak E) (disk E) (BigToAddress a)))) (\<lambda>code.
     sbind (lift_res (getDataBig (opt_bytes code) codeOffset len)) (\<lambda>b.
     sbind (set_mem (mem_Set (Uint64 memOffset) (Uint64 len) b)) (\<lambda>_. ok)))))))"

definition opReturnDataCopy :: "go_result vm" where
  "opReturnDataCopy =
     sbind pop (\<lambda>memOffset. sbind pop (\<lambda>dataOffset. sbind pop (\<lambda>len. (\<lambda>(fr, v).
     let e = dataOffset + len
     in if BitLen e > 64 \<or> of_nat (length (returnData v)) < Uint64 e
        then (Inr (None, Some (ChainError errReturnDataOutOfBounds)), fr, v)
        else sbind (lift_res (go_slice (returnData v) (uint (Uint64 dataOffset)) (uint (Uint64 e)))) (\<lambda>b.
             sbind (set_mem (mem_Set (Uint64 memOffset) (Uint64 len) b)) (\<lambda>_. ok)) (fr, v)))))"

definition opExtCodeSize :: "environment \<Rightarrow> go_result vm" where
  "opExtCodeSize E =
     sbind pop (\<lambda>a. sbind (in_evm (on_db (GetCodeSize (keccak E) (code_sizes E) (disk E) (BigToAddress a)))) (\<lambda>n.
     sbind (push (int n)) (\<lambda>_. ok)))"

definition opBlockhash :: "environment \<Rightarrow> go_result vm" where
  "opBlockhash E =
     sbind pop (\<lambda>num.
     let n = ctx_BlockNumber (context_of E) - 257
     in sbind (push (if num > n \<and> num < ctx_BlockNumber (context_of E)
                     then big_SetBytes (GetHash (context_of E) (Uint64 num)) else 0)) (\<lambda>_. ok))"

definition opMload :: "go_result vm" where
  "opMload =
     sbind pop (\<lambda>offset. sbind (in_mem (mem_Get (Int64 offset) 32)) (\<lambda>b.
     sbind (push (big_SetBytes (opt_bytes b))) (\<lambda>_. ok)))"

definition opMstore :: "go_result vm" where
  "opMstore =
     sbind pop (\<lambda>mStart. sbind pop (\<lambda>val.
     sbind (set_mem (mem_Set (Uint64 mStart) 32 (PaddedBigBytes val 32))) (\<lambda>_. ok)))"

definition set_byte :: "int \<Rightarrow> byte \<Rightarrow> Memory \<Rightarrow> Memory res" where
  "set_byte i b m =
     (if 0 \<le> i \<and> i < int (length (mem_store m)) then Inr (m\<lparr>mem_store := (mem_store m)[nat i := b]\<rparr>)
      else Inl (Panic ''index out of range''))"

definition opMstore8 :: "go_result vm" where
  "opMstore8 =
     sbind pop (\<lambda>off. sbind pop (\<lambda>val.
     sbind (set_mem (set_byte (Int64 off) (of_int (Int64 val AND 0xFF)))) (\<lambda>_. ok)))"

definition opSload :: "environment \<Rightarrow> go_result vm" where
  "opSload E =
     sbind get_frame (\<lambda>fr. sbind pop (\<lambda>loc.
     sbind (in_evm (on_db (GetState (keccak E) (disk E) (self_address (fr_contract fr)) (BigToHash loc)))) (\<lambda>h.
     sbind (push (big_SetBytes h)) (\<lambda>_. ok))))"

definition opSstore :: "environment \<Rightarrow> go_result vm" where
  "opSstore E =
     sbind get_frame (\<lambda>fr. sbind pop (\<lambda>loc. sbind pop (\<lambda>val.
     sbind (in_evm (on_db (SetState (keccak E) (disk E) (self_address (fr_contract fr)) (BigToHash loc) (BigToHash val)))) (\<lambda>_.
     ok))))"

definition dests :: "(bool, (hash \<times> bytes) list) op \<Rightarrow> (bool, EVM) op" where
  "dests m v = (case m (jumpdests v) of (r, ds) \<Rightarrow> (r, v\<lparr>jumpdests := ds\<rparr>))"

definition jump_to :: "int \<Rightarrow> go_result vm" where
  "jump_to pos =
     sbind get_frame (\<lambda>fr.
     sbind (in_evm (dests (dest_has (Contract_CodeHash (fr_contract fr)) (Code (fr_contract fr)) pos))) (\<lambda>good.
     if \<not> good then sret (None, Some (TextError ''invalid jump destination''))
     else sbind (mod_frame (\<lambda>fr. fr\<lparr>fr_pc := Uint64 pos\<rparr>)) (\<lambda>_. ok)))"

definition opJump :: "go_result vm" where
  "opJump = sbind pop jump_to"

definition opJumpi :: "go_result vm" where
  "opJumpi =
     sbind pop (\<lambda>pos. sbind pop (\<lambda>cond.
     if cond \<noteq> 0 then jump_to pos else sbind (mod_frame (\<lambda>fr. fr\<lparr>fr_pc := fr_pc fr + 1\<rparr>)) (\<lambda>_. ok)))"

definition opReturn :: "go_result vm" where
  "opReturn =
     sbind pop (\<lambda>offset. sbind pop (\<lambda>sz.
     sbind (in_mem (mem_GetPtr (Int64 offset) (Int64 sz))) (\<lambda>b. sret (b, None))))"

definition opRevert :: "go_result vm" where
  "opRevert =
     sbind pop (\<lambda>offset. sbind pop (\<lambda>sz.
     sbind (in_mem (mem_GetPtr (Int64 offset) (Int64 sz))) (\<lambda>b. sret (b, None))))"

definition opSuicide :: "environment \<Rightarrow> go_result vm" where
  "opSuicide E =
     sbind get_frame (\<lambda>fr. let self = self_address (fr_contract fr) in
     sbind (in_evm (on_db (GetBalance (keccak E) (disk E) self))) (\<lambda>balance.
     sbind pop (\<lambda>a.
     sbind (in_evm (on_db (State_Db.AddBalance (keccak E) (disk E) (BigToAddress a) balance))) (\<lambda>_.
     sbind (in_evm (on_db (Suicide (keccak E) (disk E) self))) (\<lambda>_. ok)))))"

fun pop_topics :: "nat \<Rightarrow> hash list vm" where
  "pop_topics 0 = sret []"
| "pop_topics (Suc n) = sbind pop (\<lambda>t. sbind (pop_topics n) (\<lambda>ts. sret (BigToHash t # ts)))"

definition makeLog :: "environment \<Rightarrow> nat \<Rightarrow> go_result vm" where
  "makeLog E n =
     sbind get_frame (\<lambda>fr. sbind pop (\<lambda>mStart. sbind pop (\<lambda>mSize. sbind (pop_topics n) (\<lambda>topics.
     sbind (in_mem (mem_Get (Int64 mStart) (Int64 mSize))) (\<lambda>b.
     sbind (in_evm (db_do (AddLog \<lparr>Log_Address = self_address (fr_contract fr), Topics = topics, Log_Data = opt_bytes b,
       BlockNumber = Uint64 (ctx_BlockNumber (context_of E)), TxHash = zero_hash, TxIndex = 0, BlockHash = zero_hash,
       Index = 0, Removed = False\<rparr>))) (\<lambda>_. ok))))))"

definition makePush :: "nat \<Rightarrow> go_result vm" where
  "makePush n =
     sbind get_frame (\<lambda>fr.
     let code = Code (fr_contract fr); codeLen = int (length code); nxt = uint (fr_pc fr + 1);
         startMin = (if nxt < codeLen then nxt else codeLen);
         endMin = (if startMin + int n < codeLen then startMin + int n else codeLen)
     in sbind (lift_res (go_slice code startMin endMin)) (\<lambda>b.
        sbind (push (big_SetBytes (RightPadBytes b n))) (\<lambda>_.
        sbind (mod_frame (\<lambda>fr. fr\<lparr>fr_pc := fr_pc fr + of_nat n\<rparr>)) (\<lambda>_. ok))))"

definition makeDup :: "nat \<Rightarrow> go_result vm" where
  "makeDup n = sbind (stack_dup n) (\<lambda>_. ok)"

definition makeSwap :: "nat \<Rightarrow> go_result vm" where
  "makeSwap n = sbind (stack_swap (n + 1)) (\<lambda>_. ok)"

section \<open>Memory sizes and gas\<close>

definition mem_range :: "nat \<Rightarrow> nat \<Rightarrow> int vm" where
  "mem_range i j = sbind (Back i) (\<lambda>off. sbind (Back j) (\<lambda>l. sret (calcMemSize off l)))"

definition mem_fixed :: "int \<Rightarrow> int vm" where
  "mem_fixed n = sbind (Back 0) (\<lambda>off. sret (calcMemSize off n))"

definition mem_ranges :: "nat \<Rightarrow> nat \<Rightarrow> nat \<Rightarrow> nat \<Rightarrow> int vm" where
  "mem_ranges i j k l = sbind (mem_range i j) (\<lambda>x. sbind (mem_range k l) (\<lambda>y. sret (BigMax x y)))"

fun memorySize :: "OpCode \<Rightarrow> int vm option" where
  "memorySize SHA3 = Some (mem_range 0 1)"
| "memorySize CALLDATACOPY = Some (mem_range 0 2)"
| "memorySize RETURNDATACOPY = Some (mem_range 0 2)"
| "memorySize CODECOPY = Some (mem_range 0 2)"
| "memorySize EXTCODECOPY = Some (mem_range 1 3)"
| "memorySize MLOAD = Some (mem_fixed 32)"
| "memorySize MSTORE8 = Some (mem_fixed 1)"
| "memorySize MSTORE = Some (mem_fixed 32)"
| "memorySize CREATE = Some (mem_range 1 2)"
| "memorySize CALL = Some (mem_ranges 5 6 3 4)"
| "memorySize CALLCODE = Some (mem_ranges 5 6 3 4)"
| "memorySize DELEGATECALL = Some (mem_ranges 4 5 2 3)"
| "memorySize STATICCALL = Some (mem_ranges 4 5 2 3)"
| "memorySize RETURN = Some (mem_range 0 1)"
| "memorySize REVERT = Some (mem_range 0 1)"
| "memorySize (LOG n) = Some (mem_range 0 1)"
| "memorySize _ = None"

abbreviation errGasUintOverflow :: err where
  "errGasUintOverflow \<equiv> TextError ''gas uint64 overflow''"

definition safe_add :: "u64 \<Rightarrow> u64 \<Rightarrow> (u64, 's) op" where
  "safe_add x y = (case SafeAdd x y of (r, overflow) \<Rightarrow> if overflow then sthrow errGasUintOverflow else sret r)"

definition safe_mul :: "u64 \<Rightarrow> u64 \<Rightarrow> (u64, 's) op" where
  "safe_mul x y = (case SafeMul x y of (r, overflow) \<Rightarrow> if overflow then sthrow errGasUintOverflow else sret r)"

definition safe_u64 :: "int \<Rightarrow> (u64, 's) op" where
  "safe_u64 x = (case bigUint64 x of (r, overflow) \<Rightarrow> if overflow then sthrow errGasUintOverflow else sret r)"

definition memoryGasCost :: "u64 \<Rightarrow> u64 vm" where
  "memoryGasCost newMemSize = (\<lambda>(fr, v).
     if newMemSize = 0 then (Inr 0, fr, v)
     else if newMemSize > 0xffffffffe0 then (Inl errGasUintOverflow, fr, v)
     else
       (let newMemSizeWords = toWordSize newMemSize; newMemSize = newMemSizeWords * 32; mem = fr_mem fr
        in if newMemSize > mem_Len mem then
             (let square = newMemSizeWords * newMemSizeWords; linCoef = newMemSizeWords * MemoryGas;
                  quadCoef = square div QuadCoeffDiv; newTotalFee = linCoef + quadCoef;
                  fee = newTotalFee - lastGasCost mem
              in (Inr fee, fr\<lparr>fr_mem := mem\<lparr>lastGasCost := newTotalFee\<rparr>\<rparr>, v))
           else (Inr 0, fr, v)))"

abbreviation (input) GasQuickStep :: u64 where "GasQuickStep \<equiv> 2"
abbreviation (input) GasFastestStep :: u64 where "GasFastestStep \<equiv> 3"
abbreviation (input) GasFastStep :: u64 where "GasFastStep \<equiv> 5"
abbreviation (input) GasMidStep :: u64 where "GasMidStep \<equiv> 8"
abbreviation (input) GasSlowStep :: u64 where "GasSlowStep \<equiv> 10"
abbreviation (input) GasExtStep :: u64 where "GasExtStep \<equiv> 20"

text \<open>Memory gas plus a fixed amount, and plus an amount per word of the size at a place of the stack.\<close>

definition mem_plus :: "u64 \<Rightarrow> u64 \<Rightarrow> u64 vm" where
  "mem_plus base ms = sbind (memoryGasCost ms) (\<lambda>gas. safe_add gas base)"

definition mem_words :: "u64 \<Rightarrow> nat \<Rightarrow> u64 \<Rightarrow> u64 \<Rightarrow> u64 vm" where
  "mem_words base n wordGas ms =
     sbind (mem_plus base ms) (\<lambda>gas. sbind (Back n) (\<lambda>x. sbind (safe_u64 x) (\<lambda>words.
     sbind (safe_mul (toWordSize words) wordGas) (\<lambda>w. safe_add gas w))))"

definition gasSStore :: "environment \<Rightarrow> u64 vm" where
  "gasSStore E =
     sbind (Back 1) (\<lambda>y. sbind (Back 0) (\<lambda>x. sbind get_frame (\<lambda>fr.
     sbind (in_evm (on_db (GetState (keccak E) (disk E) (self_address (fr_contract fr)) (BigToHash x)))) (\<lambda>val.
     if EmptyHash val \<and> \<not> EmptyHash (BigToHash y) then sret SstoreSetGas
     else if \<not> EmptyHash val \<and> EmptyHash (BigToHash y)
     then sbind (in_evm (db_do (AddRefund (uint SstoreRefundGas)))) (\<lambda>_. sret SstoreClearGas)
     else sret SstoreResetGas))))"

definition makeGasLog :: "nat \<Rightarrow> u64 \<Rightarrow> u64 vm" where
  "makeGasLog n ms =
     sbind (Back 1) (\<lambda>x. sbind (safe_u64 x) (\<lambda>requestedSize.
     sbind (memoryGasCost ms) (\<lambda>gas. sbind (safe_add gas LogGas) (\<lambda>gas.
     sbind (safe_add gas (of_nat n * LogTopicGas)) (\<lambda>gas.
     sbind (safe_mul requestedSize LogDataGas) (\<lambda>g. safe_add gas g))))))"

definition gasExp :: "GasTable \<Rightarrow> u64 vm" where
  "gasExp gt =
     sbind (Back 1) (\<lambda>x. safe_add (of_nat ((BitLen x + 7) div 8) * gt_ExpByte gt) GasSlowStep)"

definition callGas :: "GasTable \<Rightarrow> u64 \<Rightarrow> u64 \<Rightarrow> int \<Rightarrow> u64 res" where
  "callGas gt availableGas base callCost =
     (let availableGas = availableGas - base; gas = availableGas - availableGas div 64
      in if gt_CreateBySuicide gt > 0 \<and> (BitLen callCost > 64 \<or> gas < Uint64 callCost) then Inr gas
         else if BitLen callCost > 64 then Inl errGasUintOverflow
         else Inr (Uint64 callCost))"

text \<open>The gas that goes with a call replaces the requested gas on the stack.\<close>

definition set_top :: "int \<Rightarrow> unit vm" where
  "set_top x = sbind pop (\<lambda>_. push x)"

definition call_gas :: "GasTable \<Rightarrow> u64 \<Rightarrow> u64 vm" where
  "call_gas gt gas =
     sbind get_frame (\<lambda>fr. sbind (Back 0) (\<lambda>x.
     sbind (lift_res (callGas gt (Gas (fr_contract fr)) gas x)) (\<lambda>cg.
     sbind (set_top (uint cg)) (\<lambda>_. safe_add gas cg))))"

definition gasCall :: "environment \<Rightarrow> GasTable \<Rightarrow> u64 \<Rightarrow> u64 vm" where
  "gasCall E gt ms =
     sbind (Back 2) (\<lambda>x. sbind (Back 1) (\<lambda>a.
     let transfersValue = (x \<noteq> 0); addr = BigToAddress a; num = ctx_BlockNumber (context_of E)
     in sbind (if IsEIP158 (chain_config E) num
               then (if transfersValue then in_evm (on_db (sdb_Empty (keccak E) (disk E) addr)) else sret False)
               else sbind (in_evm (on_db (Exist (keccak E) (disk E) addr))) (\<lambda>e. sret (\<not> e))) (\<lambda>newAccount.
        let gas = gt_Calls gt + (if newAccount then CallNewAccountGas else 0)
                    + (if transfersValue then CallValueTransferGas else 0)
        in sbind (memoryGasCost ms) (\<lambda>memoryGas. sbind (safe_add gas memoryGas) (call_gas gt)))))"

definition gasCallCode :: "GasTable \<Rightarrow> u64 \<Rightarrow> u64 vm" where
  "gasCallCode gt ms =
     sbind (Back 2) (\<lambda>x.
     let gas = gt_Calls gt + (if x \<noteq> 0 then CallValueTransferGas else 0)
     in sbind (memoryGasCost ms) (\<lambda>memoryGas. sbind (safe_add gas memoryGas) (call_gas gt)))"

definition gasDelegateCall :: "GasTable \<Rightarrow> u64 \<Rightarrow> u64 vm" where
  "gasDelegateCall gt ms = sbind (mem_plus (gt_Calls gt) ms) (call_gas gt)"

definition gasSuicide :: "environment \<Rightarrow> GasTable \<Rightarrow> u64 vm" where
  "gasSuicide E gt =
     sbind get_frame (\<lambda>fr.
     let H = keccak E; d = disk E; num = ctx_BlockNumber (context_of E); self = self_address (fr_contract fr)
     in sbind (if IsEIP150 (chain_config E) num then
                 sbind (Back 0) (\<lambda>x. let addr = BigToAddress x in
                   if IsEIP158 (chain_config E) num then
                     sbind (in_evm (on_db (sdb_Empty H d addr))) (\<lambda>e.
                       if e then sbind (in_evm (on_db (GetBalance H d self))) (\<lambda>b.
                              sret (gt_Suicide gt + (if b \<noteq> 0 then gt_CreateBySuicide gt else 0)))
                       else sret (gt_Suicide gt))
                   else sbind (in_evm (on_db (Exist H d addr))) (\<lambda>e.
                          sret (gt_Suicide gt + (if \<not> e then gt_CreateBySuicide gt else 0))))
               else sret 0) (\<lambda>gas.
        sbind (in_evm (on_db (HasSuicided H d self))) (\<lambda>gone.
        if \<not> gone then sbind (in_evm (db_do (AddRefund (uint SuicideRefundGas)))) (\<lambda>_. sret gas) else sret gas)))"

fun arith_gas :: "arith_op \<Rightarrow> u64" where
  "arith_gas MUL = GasFastStep"
| "arith_gas DIV = GasFastStep"
| "arith_gas SDIV = GasFastStep"
| "arith_gas MOD = GasFastStep"
| "arith_gas SMOD = GasFastStep"
| "arith_gas ADDMOD = GasMidStep"
| "arith_gas MULMOD = GasMidStep"
| "arith_gas SIGNEXTEND = GasFastStep"
| "arith_gas _ = GasFastestStep"

text \<open>The gas column of the jump table.\<close>

definition gasCost :: "environment \<Rightarrow> OpCode \<Rightarrow> u64 \<Rightarrow> u64 vm" where
  "gasCost E op ms =
     (let gt = gas_table (chain_config E) (ctx_BlockNumber (context_of E))
      in case op of
           STOP \<Rightarrow> sret 0
         | Arith a \<Rightarrow> if a = EXP then gasExp gt else sret (arith_gas a)
         | Env e \<Rightarrow> sret GasQuickStep
         | SHA3 \<Rightarrow> mem_words Sha3Gas 1 Sha3WordGas ms
         | BALANCE \<Rightarrow> sret (gt_Balance gt)
         | CALLDATALOAD \<Rightarrow> sret GasFastestStep
         | CALLDATACOPY \<Rightarrow> mem_words GasFastestStep 2 CopyGas ms
         | CODECOPY \<Rightarrow> mem_words GasFastestStep 2 CopyGas ms
         | EXTCODESIZE \<Rightarrow> sret (gt_ExtcodeSize gt)
         | EXTCODECOPY \<Rightarrow> mem_words (gt_ExtcodeCopy gt) 3 CopyGas ms
         | RETURNDATACOPY \<Rightarrow> mem_words GasFastestStep 2 CopyGas ms
         | BLOCKHASH \<Rightarrow> sret GasExtStep
         | POP \<Rightarrow> sret GasQuickStep
         | MLOAD \<Rightarrow> mem_plus GasFastestStep ms
         | MSTORE \<Rightarrow> mem_plus GasFastestStep ms
         | MSTORE8 \<Rightarrow> mem_plus GasFastestStep ms
         | SLOAD \<Rightarrow> sret (gt_SLoad gt)
         | SSTORE \<Rightarrow> gasSStore E
         | JUMP \<Rightarrow> sret GasMidStep
         | JUMPI \<Rightarrow> sret GasSlowStep
         | JUMPDEST \<Rightarrow> sret JumpdestGas
         | PUSH n \<Rightarrow> sret GasFastestStep
         | DUP n \<Rightarrow> sret GasFastestStep
         | SWAP n \<Rightarrow> sret GasFastestStep
         | LOG n \<Rightarrow> makeGasLog n ms
         | CREATE \<Rightarrow> mem_plus CreateGas ms
         | CALL \<Rightarrow> gasCall E gt ms
         | CALLCODE \<Rightarrow> gasCallCode gt ms
         | RETURN \<Rightarrow> memoryGasCost ms
         | DELEGATECALL \<Rightarrow> gasDelegateCall gt ms
         | STATICCALL \<Rightarrow> gasDelegateCall gt ms
         | REVERT \<Rightarrow> memoryGasCost ms
         | SELFDESTRUCT \<Rightarrow> gasSuicide E gt
         | INVALID n \<Rightarrow> sthrow (Panic ''nil function''))"

section \<open>Precompiled contracts\<close>

definition secp256k1_N :: int where
  "secp256k1_N = 0xfffffffffffffffffffffffffffffffebaaedce6af48a03bbfd25e8cd0364141"

definition ValidateSignatureValues :: "byte \<Rightarrow> int \<Rightarrow> int \<Rightarrow> bool \<Rightarrow> bool" where
  "ValidateSignatureValues v r s homestead \<longleftrightarrow>
     (if r < 1 \<or> s < 1 then False
      else if homestead \<and> s > secp256k1_N div 2 then False
      else r < secp256k1_N \<and> s < secp256k1_N \<and> (v = 0 \<or> v = 1))"

definition ecrecover_run :: "environment \<Rightarrow> bytes \<Rightarrow> go_result" where
  "ecrecover_run E inp =
     (let inp = RightPadBytes inp 128; r = big_SetBytes (take 32 (drop 64 inp)); s = big_SetBytes (take 32 (drop 96 inp));
          v = inp ! 63 - 27
      in if \<not> (\<forall>b \<in> set (take 31 (drop 32 inp)). b = 0) \<or> \<not> ValidateSignatureValues v r s False then (None, None)
         else (case recover_pubkey E (take 32 inp) (take 64 (drop 64 inp) @ [v]) of
                 None \<Rightarrow> (None, None)
               | Some pubKey \<Rightarrow> (Some (LeftPadBytes (drop 12 (keccak E (drop 1 pubKey))) 32), None)))"

definition per_word :: "u64 \<Rightarrow> u64 \<Rightarrow> bytes \<Rightarrow> u64" where
  "per_word wordGas base inp = of_nat (length inp + 31) div 32 * wordGas + base"

text \<open>The gas function and the function of a precompiled contract.\<close>

definition precompiled :: "environment \<Rightarrow> address \<Rightarrow> ((bytes \<Rightarrow> u64) \<times> (bytes \<Rightarrow> go_result)) option" where
  "precompiled E a =
     (if a = BytesToAddress [1] then Some (\<lambda>_. 3000, ecrecover_run E)
      else if a = BytesToAddress [2] then Some (per_word 12 60, \<lambda>inp. (Some (sha256_sum E inp), None))
      else if a = BytesToAddress [3] then Some (per_word 120 600, \<lambda>inp. (Some (LeftPadBytes (ripemd160_sum E inp) 32), None))
      else if a = BytesToAddress [4] then Some (per_word 3 15, \<lambda>inp. (Some inp, None))
      else None)"

definition RunPrecompiledContract :: "(bytes \<Rightarrow> u64) \<times> (bytes \<Rightarrow> go_result) \<Rightarrow> bytes \<Rightarrow> Contract \<Rightarrow> go_result \<times> Contract" where
  "RunPrecompiledContract p inp contract =
     (case UseGas (fst p inp) contract of
        (True, contract) \<Rightarrow> (snd p inp, contract)
      | (False, contract) \<Rightarrow> ((None, Some (ChainError ErrOutOfGas)), contract))"

section \<open>Calls\<close>

text \<open>A runner runs a frame to its end; \<open>Interpreter.Run\<close> sets up the frame of a contract.\<close>

type_synonym runner = "frame \<Rightarrow> EVM \<Rightarrow> (go_result \<times> Contract) res \<times> EVM"

definition new_frame :: "Contract \<Rightarrow> frame" where
  "new_frame c = \<lparr>fr_pc = 0, fr_stack = [], fr_mem = NewMemory, fr_contract = c\<rparr>"

definition Interpreter_Run :: "runner \<Rightarrow> Contract \<Rightarrow> bytes \<Rightarrow> (go_result \<times> Contract, EVM) op" where
  "Interpreter_Run loop contract inp v =
     (let v = v\<lparr>depth := depth v + 1, returnData := []\<rparr>
      in case (if length (Code contract) = 0 then (Inr ((None, None), contract), v)
               else loop (new_frame (contract\<lparr>Input := inp\<rparr>)) v) of
           (r, v) \<Rightarrow> (r, v\<lparr>depth := depth v - 1\<rparr>))"

definition vm_run :: "environment \<Rightarrow> runner \<Rightarrow> Contract \<Rightarrow> bytes \<Rightarrow> (go_result \<times> Contract, EVM) op" where
  "vm_run E loop contract inp =
     (case Option.bind (CodeAddr contract) (precompiled E) of
        Some p \<Rightarrow> sret (RunPrecompiledContract p inp contract)
      | None \<Rightarrow> Interpreter_Run loop contract inp)"

definition CanTransfer :: "environment \<Rightarrow> address \<Rightarrow> int \<Rightarrow> bool sdb" where
  "CanTransfer E addr amount = sbind (GetBalance (keccak E) (disk E) addr) (\<lambda>b. sret (b \<ge> amount))"

definition Transfer :: "environment \<Rightarrow> address \<Rightarrow> address \<Rightarrow> int \<Rightarrow> unit sdb" where
  "Transfer E sender recipient amount =
     sbind (SubBalance (keccak E) (disk E) sender amount) (\<lambda>_. State_Db.AddBalance (keccak E) (disk E) recipient amount)"

type_synonym call_result = "bytes option \<times> u64 \<times> err option"

definition take_snapshot :: "(int, EVM) op" where
  "take_snapshot v = (case sdb_Snapshot (evm_state v) of (i, s) \<Rightarrow> (Inr i, v\<lparr>evm_state := s\<rparr>))"

text \<open>The end of every call: run the contract, and on an error go back to the snapshot.\<close>

definition finish_call :: "environment \<Rightarrow> runner \<Rightarrow> int \<Rightarrow> Contract \<Rightarrow> bytes \<Rightarrow> (call_result, EVM) op" where
  "finish_call E loop snapshot contract inp =
     sbind (vm_run E loop contract inp) (\<lambda>((ret, e), contract).
       case e of
         None \<Rightarrow> sret (ret, Gas contract, None)
       | Some x \<Rightarrow>
           sbind (on_db (RevertToSnapshot (keccak E) (disk E) snapshot)) (\<lambda>_.
             sret (ret, if x \<noteq> ChainError errExecutionReverted then 0 else Gas contract, e)))"

definition init_dests :: "ContractRef \<Rightarrow> (unit, EVM) op" where
  "init_dests caller v = (Inr (), case caller of ContractOf c \<Rightarrow> v | AccountRef a \<Rightarrow> v\<lparr>jumpdests := []\<rparr>)"

definition load_code :: "environment \<Rightarrow> address \<Rightarrow> Contract \<Rightarrow> (Contract, EVM) op" where
  "load_code E addr contract =
     sbind (on_db (GetCode (keccak E) (disk E) addr)) (\<lambda>code.
     sbind (on_db (GetCodeHash (keccak E) (disk E) addr)) (\<lambda>h.
       sret (SetCallCode addr h (opt_bytes code) contract)))"

definition load_code_hash_first :: "environment \<Rightarrow> address \<Rightarrow> Contract \<Rightarrow> (Contract, EVM) op" where
  "load_code_hash_first E addr contract =
     sbind (on_db (GetCodeHash (keccak E) (disk E) addr)) (\<lambda>h.
     sbind (on_db (GetCode (keccak E) (disk E) addr)) (\<lambda>code.
       sret (SetCallCode addr h (opt_bytes code) contract)))"

definition evm_Call :: "environment \<Rightarrow> runner \<Rightarrow> ContractRef \<Rightarrow> address \<Rightarrow> bytes \<Rightarrow> u64 \<Rightarrow> int \<Rightarrow> (call_result, EVM) op" where
  "evm_Call E loop caller addr inp gas amount v =
     (if NoRecursion (vm_config E) \<and> depth v > 0 then (Inr (None, gas, None), v)
      else if depth v > CallCreateDepth then (Inr (None, gas, Some (ChainError ErrDepth)), v)
      else
        sbind (on_db (CanTransfer E (ref_address caller) amount)) (\<lambda>can.
        if \<not> can then sret (None, gas, Some (ChainError ErrInsufficientBalance))
        else
          sbind take_snapshot (\<lambda>snapshot.
          sbind (on_db (Exist (keccak E) (disk E) addr)) (\<lambda>exists.
          if \<not> exists \<and> precompiled E addr = None \<and> amount = 0 then sret (None, gas, None)
          else
            sbind (if \<not> exists then on_db (CreateAccount (keccak E) (disk E) addr) else sret ()) (\<lambda>_.
            sbind (on_db (Transfer E (ref_address caller) addr amount)) (\<lambda>_.
            sbind (init_dests caller) (\<lambda>_.
            sbind (load_code E addr (NewContract caller addr amount gas)) (\<lambda>contract.
            finish_call E loop snapshot contract inp))))))) v)"

definition evm_CallCode :: "environment \<Rightarrow> runner \<Rightarrow> ContractRef \<Rightarrow> address \<Rightarrow> bytes \<Rightarrow> u64 \<Rightarrow> int \<Rightarrow> (call_result, EVM) op" where
  "evm_CallCode E loop caller addr inp gas amount v =
     (if NoRecursion (vm_config E) \<and> depth v > 0 then (Inr (None, gas, None), v)
      else if depth v > CallCreateDepth then (Inr (None, gas, Some (ChainError ErrDepth)), v)
      else
        sbind (on_db (CanTransfer E (ref_address caller) amount)) (\<lambda>can.
        if \<not> can then sret (None, gas, Some (ChainError ErrInsufficientBalance))
        else
          sbind take_snapshot (\<lambda>snapshot.
          sbind (init_dests caller) (\<lambda>_.
          sbind (load_code_hash_first E addr (NewContract caller (ref_address caller) amount gas)) (\<lambda>contract.
          finish_call E loop snapshot contract inp)))) v)"

definition evm_DelegateCall :: "environment \<Rightarrow> runner \<Rightarrow> ContractRef \<Rightarrow> address \<Rightarrow> bytes \<Rightarrow> u64 \<Rightarrow> (call_result, EVM) op" where
  "evm_DelegateCall E loop caller addr inp gas v =
     (if NoRecursion (vm_config E) \<and> depth v > 0 then (Inr (None, gas, None), v)
      else if depth v > CallCreateDepth then (Inr (None, gas, Some (ChainError ErrDepth)), v)
      else
        sbind take_snapshot (\<lambda>snapshot.
        sbind (init_dests caller) (\<lambda>_.
        sbind (lift_res (AsDelegate caller (NewContract caller (ref_address caller) 0 gas))) (\<lambda>contract.
        sbind (load_code_hash_first E addr contract) (\<lambda>contract.
        finish_call E loop snapshot contract inp)))) v)"

definition evm_StaticCall :: "environment \<Rightarrow> runner \<Rightarrow> ContractRef \<Rightarrow> address \<Rightarrow> bytes \<Rightarrow> u64 \<Rightarrow> (call_result, EVM) op" where
  "evm_StaticCall E loop caller addr inp gas v =
     (if NoRecursion (vm_config E) \<and> depth v > 0 then (Inr (None, gas, None), v)
      else if depth v > CallCreateDepth then (Inr (None, gas, Some (ChainError ErrDepth)), v)
      else
        (case sbind take_snapshot (\<lambda>snapshot.
              sbind (init_dests caller) (\<lambda>_.
              sbind (load_code_hash_first E addr (NewContract caller addr 0 gas)) (\<lambda>contract.
              finish_call E loop snapshot contract inp))) (v\<lparr>readOnly := True\<rparr>) of
           (r, v') \<Rightarrow> (r, if readOnly v then v' else v'\<lparr>readOnly := False\<rparr>)))"

definition CreateAddress :: "environment \<Rightarrow> address \<Rightarrow> u64 \<Rightarrow> address" where
  "CreateAddress E b nonce =
     BytesToAddress (drop 12 (keccak E (EncodeToBytes (Lst [Str b, Str (nat_be (unat nonce))]))))"

text \<open>The end of a creation: the code that the contract returned is paid for and stored.\<close>

definition store_code :: "environment \<Rightarrow> address \<Rightarrow> go_result \<Rightarrow> Contract \<Rightarrow> (err option \<times> Contract, EVM) op" where
  "store_code E contractAddr = (\<lambda>(ret, e) contract.
     if e = None \<and> length (opt_bytes ret) \<le> MaxCodeSize then
       (case UseGas (of_nat (length (opt_bytes ret)) * CreateDataGas) contract of
          (True, contract) \<Rightarrow> sbind (on_db (SetCode (keccak E) (disk E) contractAddr ret)) (\<lambda>_. sret (e, contract))
        | (False, contract) \<Rightarrow> sret (Some (ChainError ErrCodeStoreOutOfGas), contract))
     else sret (e, contract))"

definition finish_create :: "environment \<Rightarrow> runner \<Rightarrow> int \<Rightarrow> address \<Rightarrow> Contract
    \<Rightarrow> (bytes option \<times> address \<times> u64 \<times> err option, EVM) op" where
  "finish_create E loop snapshot contractAddr contract =
     sbind (vm_run E loop contract []) (\<lambda>((ret, e), contract).
     let maxCodeSizeExceeded = (length (opt_bytes ret) > MaxCodeSize)
     in sbind (store_code E contractAddr (ret, e) contract) (\<lambda>(e, contract).
        if maxCodeSizeExceeded \<or> e \<noteq> None \<and> e \<noteq> Some (ChainError ErrCodeStoreOutOfGas) then
          sbind (on_db (RevertToSnapshot (keccak E) (disk E) snapshot)) (\<lambda>_.
            sret (ret, contractAddr, if e \<noteq> Some (ChainError errExecutionReverted) then 0 else Gas contract,
                  if maxCodeSizeExceeded \<and> e = None then Some (ChainError errMaxCodeSizeExceeded) else e))
        else sret (ret, contractAddr, Gas contract, e)))"

definition evm_Create :: "environment \<Rightarrow> runner \<Rightarrow> ContractRef \<Rightarrow> bytes \<Rightarrow> u64 \<Rightarrow> int
    \<Rightarrow> (bytes option \<times> address \<times> u64 \<times> err option, EVM) op" where
  "evm_Create E loop caller code gas amount v =
     (let H = keccak E; d = disk E; from = ref_address caller
      in if depth v > CallCreateDepth then (Inr (None, zero_address, gas, Some (ChainError ErrDepth)), v)
         else
           sbind (on_db (CanTransfer E from amount)) (\<lambda>can.
           if \<not> can then sret (None, zero_address, gas, Some (ChainError ErrInsufficientBalance))
           else
             sbind (on_db (GetNonce H d from)) (\<lambda>nonce.
             sbind (on_db (SetNonce H d from (nonce + 1))) (\<lambda>_.
             let contractAddr = CreateAddress E from nonce
             in sbind (on_db (GetCodeHash H d contractAddr)) (\<lambda>contractHash.
                sbind (on_db (GetNonce H d contractAddr)) (\<lambda>n.
                if n \<noteq> 0 \<or> contractHash \<noteq> zero_hash \<and> contractHash \<noteq> emptyCodeHash H
                then sret (None, zero_address, 0, Some (ChainError ErrContractAddressCollision))
                else
                  sbind take_snapshot (\<lambda>snapshot.
                  sbind (on_db (CreateAccount H d contractAddr)) (\<lambda>_.
                  sbind (on_db (Transfer E from contractAddr amount)) (\<lambda>_.
                  sbind (init_dests caller) (\<lambda>_ v.
                  if NoRecursion (vm_config E) \<and> depth v > 0 then (Inr (None, contractAddr, gas, None), v)
                  else finish_create E loop snapshot contractAddr
                         (SetCallCode contractAddr (H code) code (NewContract caller contractAddr amount gas)) v))))))))) v)"

section \<open>Instructions that call\<close>

definition mod_contract :: "(Contract \<Rightarrow> Contract) \<Rightarrow> unit vm" where
  "mod_contract f = mod_frame (\<lambda>fr. fr\<lparr>fr_contract := f (fr_contract fr)\<rparr>)"

definition opCreate :: "environment \<Rightarrow> runner \<Rightarrow> go_result vm" where
  "opCreate E loop =
     sbind pop (\<lambda>amount. sbind pop (\<lambda>offset. sbind pop (\<lambda>sz.
     sbind (in_mem (mem_Get (Int64 offset) (Int64 sz))) (\<lambda>code.
     sbind get_frame (\<lambda>fr.
     let num = ctx_BlockNumber (context_of E); g = Gas (fr_contract fr);
         gas = (if IsEIP150 (chain_config E) num then g - g div 64 else g)
     in sbind (mod_contract (\<lambda>c. snd (UseGas gas c))) (\<lambda>_.
        sbind get_frame (\<lambda>fr.
        sbind (in_evm (evm_Create E loop (ContractOf (fr_contract fr)) (opt_bytes code) gas amount)) (\<lambda>(res, addr, returnGas, suberr).
        sbind (push (if IsHomestead (chain_config E) num \<and> suberr = Some (ChainError ErrCodeStoreOutOfGas) then 0
                     else if suberr \<noteq> None \<and> suberr \<noteq> Some (ChainError ErrCodeStoreOutOfGas) then 0
                     else big_SetBytes addr)) (\<lambda>_.
        sbind (mod_contract (\<lambda>c. c\<lparr>Gas := Gas c + returnGas\<rparr>)) (\<lambda>_.
        if suberr = Some (ChainError errExecutionReverted) then sret (res, None) else ok))))))))))"

text \<open>What the four call instructions do with the result: a flag on the stack, the output in memory, the gas back.\<close>

definition after_call :: "int \<Rightarrow> int \<Rightarrow> call_result \<Rightarrow> go_result vm" where
  "after_call retOffset retSize = (\<lambda>(ret, returnGas, e).
     sbind (push (if e \<noteq> None then 0 else 1)) (\<lambda>_.
     sbind (if e = None \<or> e = Some (ChainError errExecutionReverted)
            then set_mem (mem_Set (Uint64 retOffset) (Uint64 retSize) (opt_bytes ret)) else sret ()) (\<lambda>_.
     sbind (mod_contract (\<lambda>c. c\<lparr>Gas := Gas c + returnGas\<rparr>)) (\<lambda>_. sret (ret, None)))))"

definition opCall :: "environment \<Rightarrow> runner \<Rightarrow> go_result vm" where
  "opCall E loop =
     sbind pop (\<lambda>g. sbind pop (\<lambda>a. sbind pop (\<lambda>x.
     sbind pop (\<lambda>inOffset. sbind pop (\<lambda>inSize. sbind pop (\<lambda>retOffset. sbind pop (\<lambda>retSize.
     sbind (in_mem (mem_Get (Int64 inOffset) (Int64 inSize))) (\<lambda>args.
     let amount = U256 x; gas = Uint64 g + (if amount \<noteq> 0 then CallStipend else 0)
     in sbind get_frame (\<lambda>fr.
        sbind (in_evm (evm_Call E loop (ContractOf (fr_contract fr)) (BigToAddress a) (opt_bytes args) gas amount))
          (after_call retOffset retSize))))))))))"

definition opCallCode :: "environment \<Rightarrow> runner \<Rightarrow> go_result vm" where
  "opCallCode E loop =
     sbind pop (\<lambda>g. sbind pop (\<lambda>a. sbind pop (\<lambda>x.
     sbind pop (\<lambda>inOffset. sbind pop (\<lambda>inSize. sbind pop (\<lambda>retOffset. sbind pop (\<lambda>retSize.
     sbind (in_mem (mem_Get (Int64 inOffset) (Int64 inSize))) (\<lambda>args.
     let amount = U256 x; gas = Uint64 g + (if amount \<noteq> 0 then CallStipend else 0)
     in sbind get_frame (\<lambda>fr.
        sbind (in_evm (evm_CallCode E loop (ContractOf (fr_contract fr)) (BigToAddress a) (opt_bytes args) gas amount))
          (after_call retOffset retSize))))))))))"

definition opDelegateCall :: "environment \<Rightarrow> runner \<Rightarrow> go_result vm" where
  "opDelegateCall E loop =
     sbind pop (\<lambda>g. sbind pop (\<lambda>a.
     sbind pop (\<lambda>inOffset. sbind pop (\<lambda>inSize. sbind pop (\<lambda>outOffset. sbind pop (\<lambda>outSize.
     sbind (in_mem (mem_Get (Int64 inOffset) (Int64 inSize))) (\<lambda>args.
     sbind get_frame (\<lambda>fr.
     sbind (in_evm (evm_DelegateCall E loop (ContractOf (fr_contract fr)) (BigToAddress a) (opt_bytes args) (Uint64 g)))
       (after_call outOffset outSize)))))))))"

definition opStaticCall :: "environment \<Rightarrow> runner \<Rightarrow> go_result vm" where
  "opStaticCall E loop =
     sbind pop (\<lambda>g. sbind pop (\<lambda>a.
     sbind pop (\<lambda>inOffset. sbind pop (\<lambda>inSize. sbind pop (\<lambda>retOffset. sbind pop (\<lambda>retSize.
     sbind (in_mem (mem_Get (Int64 inOffset) (Int64 inSize))) (\<lambda>args.
     sbind get_frame (\<lambda>fr.
     sbind (in_evm (evm_StaticCall E loop (ContractOf (fr_contract fr)) (BigToAddress a) (opt_bytes args) (Uint64 g)))
       (after_call retOffset retSize)))))))))"

section \<open>The interpreter\<close>

text \<open>The execution column of the jump table.\<close>

definition execute :: "environment \<Rightarrow> runner \<Rightarrow> OpCode \<Rightarrow> go_result vm" where
  "execute E loop op =
     (case op of
        STOP \<Rightarrow> ok
      | Arith a \<Rightarrow> op_arith a
      | Env e \<Rightarrow> op_env E e
      | SHA3 \<Rightarrow> opSha3 E
      | BALANCE \<Rightarrow> opBalance E
      | CALLDATALOAD \<Rightarrow> opCallDataLoad
      | CALLDATACOPY \<Rightarrow> opCallDataCopy
      | CODECOPY \<Rightarrow> opCodeCopy
      | EXTCODESIZE \<Rightarrow> opExtCodeSize E
      | EXTCODECOPY \<Rightarrow> opExtCodeCopy E
      | RETURNDATACOPY \<Rightarrow> opReturnDataCopy
      | BLOCKHASH \<Rightarrow> opBlockhash E
      | POP \<Rightarrow> sbind pop (\<lambda>_. ok)
      | MLOAD \<Rightarrow> opMload
      | MSTORE \<Rightarrow> opMstore
      | MSTORE8 \<Rightarrow> opMstore8
      | SLOAD \<Rightarrow> opSload E
      | SSTORE \<Rightarrow> opSstore E
      | JUMP \<Rightarrow> opJump
      | JUMPI \<Rightarrow> opJumpi
      | JUMPDEST \<Rightarrow> ok
      | PUSH n \<Rightarrow> makePush n
      | DUP n \<Rightarrow> makeDup n
      | SWAP n \<Rightarrow> makeSwap n
      | LOG n \<Rightarrow> makeLog E n
      | CREATE \<Rightarrow> opCreate E loop
      | CALL \<Rightarrow> opCall E loop
      | CALLCODE \<Rightarrow> opCallCode E loop
      | RETURN \<Rightarrow> opReturn
      | DELEGATECALL \<Rightarrow> opDelegateCall E loop
      | STATICCALL \<Rightarrow> opStaticCall E loop
      | REVERT \<Rightarrow> opRevert
      | SELFDESTRUCT \<Rightarrow> opSuicide E
      | INVALID n \<Rightarrow> sthrow (Panic ''nil function''))"

definition enforceRestrictions :: "environment \<Rightarrow> OpCode \<Rightarrow> operation \<Rightarrow> int list \<Rightarrow> EVM \<Rightarrow> err option" where
  "enforceRestrictions E op x st v =
     (if IsByzantium (chain_config E) (ctx_BlockNumber (context_of E)) \<and> readOnly v
         \<and> (writes x \<or> op = CALL \<and> BitLen (st ! 2) > 0)
      then Some (ChainError errWriteProtection) else None)"

text \<open>The size of memory an instruction asks for, in bytes, rounded up to words.\<close>

definition needed_memory :: "OpCode \<Rightarrow> u64 vm" where
  "needed_memory op =
     (case memorySize op of
        None \<Rightarrow> sret 0
      | Some f \<Rightarrow> sbind f (\<lambda>x. sbind (safe_u64 x) (\<lambda>memSize. safe_mul (toWordSize memSize) 32)))"

text \<open>Charging for an instruction: any error of the gas function is an out-of-gas error.\<close>

definition charge :: "environment \<Rightarrow> OpCode \<Rightarrow> u64 \<Rightarrow> bool vm" where
  "charge E op ms =
     (if DisableGasMetering (vm_config E) then sret True
      else scatch (gasCost E op ms) (\<lambda>_. sret False) (\<lambda>cost (fr, v).
             case UseGas cost (fr_contract fr) of (good, c) \<Rightarrow> (Inr good, fr\<lparr>fr_contract := c\<rparr>, v)))"

datatype outcome = Halted go_result | Running

definition after_execute :: "operation \<Rightarrow> go_result \<Rightarrow> outcome vm" where
  "after_execute x = (\<lambda>(res, e) (fr, v).
     let v = (if returns x then v\<lparr>returnData := opt_bytes res\<rparr> else v)
     in if e \<noteq> None then (Inr (Halted (None, e)), fr, v)
        else if reverts x then (Inr (Halted (res, Some (ChainError errExecutionReverted))), fr, v)
        else if halts x then (Inr (Halted (res, None)), fr, v)
        else if \<not> jumps x then (Inr Running, fr\<lparr>fr_pc := fr_pc fr + 1\<rparr>, v)
        else (Inr Running, fr, v))"

definition step :: "environment \<Rightarrow> runner \<Rightarrow> outcome vm" where
  "step E loop = (\<lambda>(fr, v).
     if abort v then (Inr (Halted (None, None)), fr, v)
     else
       (let op = GetOp (fr_contract fr) (fr_pc fr); x = homesteadInstructionSet op; fail = (\<lambda>e. sret (Halted (None, Some e)))
        in if \<not> valid x then fail (TextError ''invalid opcode'') (fr, v)
           else case validateStack x (fr_stack fr) of
             Some e \<Rightarrow> fail e (fr, v)
           | None \<Rightarrow>
               (case enforceRestrictions E op x (fr_stack fr) v of
                  Some e \<Rightarrow> fail e (fr, v)
                | None \<Rightarrow>
                    scatch (needed_memory op) fail (\<lambda>ms.
                    sbind (charge E op ms) (\<lambda>paid.
                    if \<not> paid then fail (ChainError ErrOutOfGas)
                    else
                      sbind (mod_frame (\<lambda>fr. if ms > 0 then fr\<lparr>fr_mem := mem_Resize ms (fr_mem fr)\<rparr> else fr)) (\<lambda>_.
                      sbind (execute E loop op) (after_execute x)))) (fr, v))))"

primrec run_loop :: "environment \<Rightarrow> nat \<Rightarrow> runner" where
  "run_loop E 0 = (\<lambda>fr v. (Inl OutOfFuel, v))"
| "run_loop E (Suc n) = (\<lambda>fr v.
     case step E (run_loop E n) (fr, v) of
       (Inl e, fr, v) \<Rightarrow> (Inl e, v)
     | (Inr (Halted r), fr, v) \<Rightarrow> (Inr (r, fr_contract fr), v)
     | (Inr Running, fr, v) \<Rightarrow> run_loop E n fr v)"

end
