(* ===== verification/Evm_Words.thy ===== *)
theory Evm_Words
  imports Evm
begin

text \<open>
  The arithmetic of the virtual machine is arithmetic on 256-bit words, and the code analysis finds exactly the
  instruction boundaries.
\<close>




unbundle bit_operations_syntax

section \<open>Words of 256 bits\<close>

definition in_word :: "int \<Rightarrow> bool" where
  "in_word x \<longleftrightarrow> 0 \<le> x \<and> x < 2 ^ 256"

lemma U256_mod: "U256 x = x mod 2 ^ 256"
  unfolding U256_def mask_eq_exp_minus_1 [symmetric] take_bit_eq_mask [symmetric] take_bit_eq_mod ..

lemma in_word_U256 [simp]: "in_word (U256 x)"
  by (simp add: U256_mod in_word_def)

lemma U256_id: "in_word x \<Longrightarrow> U256 x = x"
  by (simp add: U256_mod in_word_def)

lemma bit_len_le: "bit_len n \<le> k \<longleftrightarrow> n < 2 ^ k"
proof (induction n arbitrary: k rule: bit_len.induct)
  case (1 n)
  show ?case
  proof (cases "n = 0")
    case False
    then have "bit_len n = Suc (bit_len (n div 2))" by (simp add: bit_len.simps [of n])
    then show ?thesis
    proof (cases k)
      case (Suc j)
      have "n div 2 < 2 ^ j \<longleftrightarrow> n < 2 ^ Suc j" by (simp add: div_less_iff_less_mult mult.commute)
      then show ?thesis using 1 False Suc \<open>bit_len n = _\<close> by simp
    qed (use False \<open>bit_len n = _\<close> in simp)
  qed (simp add: bit_len.simps)
qed

lemma BitLen_gt: "0 \<le> x \<Longrightarrow> BitLen x > k \<longleftrightarrow> x \<ge> 2 ^ k"
  using bit_len_le [of "nat x" k] by (simp add: BitLen_def not_le [symmetric] nat_less_iff)

fun words_nat :: "u64 list \<Rightarrow> nat" where
  "words_nat [] = 0"
| "words_nat (w # ws) = unat w + 2 ^ 64 * words_nat ws"

lemma words_nat_nat_words [simp]: "words_nat (nat_words n) = n"
proof (induction n rule: nat_words.induct)
  case (1 n)
  show ?case
  proof (cases "n = 0")
    case False
    have "unat (of_nat (n mod 2 ^ 64) :: u64) = n mod 2 ^ 64" by (simp add: unat_of_nat)
    then show ?thesis using 1 False by (subst nat_words.simps) simp
  qed (simp add: nat_words.simps)
qed

lemma mult_power_mod: "(x * (y mod m) ^ k) mod m = (x * y ^ k) mod (m :: int)"
  by (metis mod_mult_right_eq power_mod)

lemma odd_unat: "odd (unat (w :: u64)) \<longleftrightarrow> odd w"
  unfolding bit_0 [symmetric] by (simp add: bit_unsigned_iff)

lemma exp_bits_correct:
  "fst (exp_bits n w (r, b)) mod 2 ^ 256 = r * b ^ unat (take_bit n w) mod 2 ^ 256
   \<and> snd (exp_bits n w (r, b)) mod 2 ^ 256 = b ^ (2 ^ n) mod 2 ^ 256
   \<and> (in_word r \<longrightarrow> in_word (fst (exp_bits n w (r, b))))"
proof (induction n arbitrary: w r b)
  case (Suc n)
  let ?M = "2 ^ 256 :: int" let ?r = "if w AND 1 = 1 then U256 (r * b) else r" let ?b = "U256 (b * b)"
  let ?k = "unat (take_bit n (drop_bit 1 w))"
  have odd: "w AND 1 = 1 \<longleftrightarrow> odd w" by (simp add: and_one_eq odd_iff_mod_2_eq_one)
  have k: "unat (take_bit (Suc n) w) = of_bool (odd w) + 2 * ?k"
    unfolding unsigned_take_bit_eq unat_drop_bit_eq
    by (simp add: take_bit_Suc [of n "unat w"] drop_bit_Suc mod_2_eq_odd odd_unat)
  have "(?r * ?b ^ ?k) mod ?M = (?r * (b * b) ^ ?k) mod ?M" unfolding U256_mod by (rule mult_power_mod)
  also have "\<dots> = (r * b ^ of_bool (odd w) * (b * b) ^ ?k) mod ?M"
    unfolding odd by (simp add: U256_mod mod_mult_left_eq)
  also have "\<dots> = r * b ^ unat (take_bit (Suc n) w) mod ?M"
    unfolding k by (simp add: power_add power_mult power2_eq_square mult.assoc)
  finally have 1: "(?r * ?b ^ ?k) mod ?M = r * b ^ unat (take_bit (Suc n) w) mod ?M" .
  have 2: "?b ^ (2 ^ n) mod ?M = b ^ (2 ^ Suc n) mod ?M"
    by (simp add: U256_mod power_mod power_mult power2_eq_square)
  have 3: "in_word r \<longrightarrow> in_word ?r" by simp
  from Suc [of "drop_bit 1 w" ?r ?b] show ?case using 1 2 3 by (simp only: exp_bits.simps) metis
qed simp

lemma exp_words_correct:
  "fst (exp_words ws (r, b)) mod 2 ^ 256 = r * b ^ words_nat ws mod 2 ^ 256
   \<and> (in_word r \<longrightarrow> in_word (fst (exp_words ws (r, b))))"
proof (induction ws arbitrary: r b)
  case (Cons w ws)
  let ?M = "2 ^ 256 :: int"
  obtain r' b' where e: "exp_bits 64 w (r, b) = (r', b')" by fastforce
  have t: "take_bit 64 w = w" by (simp add: take_bit_word_eq_self)
  have r: "r' mod ?M = r * b ^ unat w mod ?M" "b' mod ?M = b ^ (2 ^ 64) mod ?M" "in_word r \<longrightarrow> in_word r'"
    using exp_bits_correct [of 64 w r b] e t by simp_all
  have "r' * b' ^ words_nat ws mod ?M = r' * (b ^ (2 ^ 64)) ^ words_nat ws mod ?M" using r(2) mult_power_mod by metis
  also have "\<dots> = (r * b ^ unat w) * (b ^ (2 ^ 64)) ^ words_nat ws mod ?M" using r(1) mod_mult_left_eq by metis
  also have "\<dots> = r * b ^ words_nat (w # ws) mod ?M" by (simp add: power_add power_mult mult.assoc)
  finally show ?case using Cons [of r' b'] r(3) e by auto
qed simp

lemma math_Exp_power:
  assumes "0 \<le> e"
  shows "math_Exp b e = b ^ nat e mod 2 ^ 256"
proof -
  have "in_word 1" by (simp add: in_word_def)
  then have "in_word (math_Exp b e)" "math_Exp b e mod 2 ^ 256 = b ^ nat e mod 2 ^ 256"
    using exp_words_correct [of "big_Bits e" 1 b] assms by (simp_all add: math_Exp_def big_Bits_def)
  then show ?thesis by (simp add: in_word_def)
qed

section \<open>Arithmetic on words\<close>

type_synonym w256 = "256 word"

definition w_bool :: "bool \<Rightarrow> w256" where
  "w_bool b = (if b then 1 else 0)"

text \<open>The reference: each instruction as an operation on machine words, signed where the instruction is.\<close>

fun word_arith :: "arith_op \<Rightarrow> w256 list \<Rightarrow> w256" where
  "word_arith ADD [x, y] = x + y"
| "word_arith SUB [x, y] = x - y"
| "word_arith MUL [x, y] = x * y"
| "word_arith DIV [x, y] = (if y = 0 then 0 else x div y)"
| "word_arith SDIV [x, y] = (if y = 0 then 0 else of_int (sint x sdiv sint y))"
| "word_arith MOD [x, y] = (if y = 0 then 0 else x mod y)"
| "word_arith SMOD [x, y] = (if y = 0 then 0 else of_int (sint x smod sint y))"
| "word_arith EXP [x, y] = x ^ unat y"
| "word_arith SIGNEXTEND [k, x] = (if k < 31 then signed_take_bit (8 * unat k + 7) x else x)"
| "word_arith NOT' [x] = NOT x"
| "word_arith LT [x, y] = w_bool (x < y)"
| "word_arith GT [x, y] = w_bool (x > y)"
| "word_arith SLT [x, y] = w_bool (x <s y)"
| "word_arith SGT [x, y] = w_bool (y <s x)"
| "word_arith EQ [x, y] = w_bool (x = y)"
| "word_arith ISZERO [x] = w_bool (x = 0)"
| "word_arith AND' [x, y] = x AND y"
| "word_arith OR' [x, y] = x OR y"
| "word_arith XOR' [x, y] = x XOR y"
| "word_arith BYTE [i, x] = (if i < 32 then ucast (ucast (drop_bit (8 * (31 - unat i)) x) :: byte) else 0)"
| "word_arith ADDMOD [x, y, z] = (if z = 0 then 0 else of_int ((uint x + uint y) mod uint z))"
| "word_arith MULMOD [x, y, z] = (if z = 0 then 0 else of_int ((uint x * uint y) mod uint z))"
| "word_arith _ _ = 0"

lemma in_word_uint [simp]: "in_word (uint (x :: w256))"
  using uint_lt2p [of x] by (simp add: in_word_def)

lemma uint_of_int_U256: "uint (of_int i :: w256) = U256 i"
  by (simp add: U256_mod uint_word_of_int)

lemma U256_uint [simp]: "U256 (uint (x :: w256)) = uint x"
  by (rule U256_id) simp

lemma U256_take_bit: "U256 x = take_bit 256 x"
  by (simp add: U256_mod take_bit_eq_mod)

lemma uint_eq_U256: "of_int i = (w :: w256) \<Longrightarrow> U256 i = uint w"
  using uint_of_int_U256 [of i] by simp

lemma shift_mod:
  assumes "0 \<le> u" "u < 2 * m"
  shows "(u + m) mod (2 * m) - m = (if u < m then u else u - 2 * (m :: int))"
proof (cases "u < m")
  case False
  have "((u - m) + 2 * m) mod (2 * m) = (u - m) mod (2 * m)" by (rule mod_add_self2)
  then have "(u + m) mod (2 * m) = (u - m) mod (2 * m)" by (simp add: algebra_simps)
  also have "\<dots> = u - m" using False assms by simp
  finally show ?thesis using False by simp
qed (use assms in simp)

lemma S256_sint: "S256 (uint x) = sint (x :: w256)"
proof -
  have "sint x = take_bit 256 (uint x + 2 ^ 255) - 2 ^ 255"
    by (simp add: sint_uint signed_take_bit_eq_take_bit_shift)
  moreover have "2 * 2 ^ 255 = (2 ^ 256 :: int)" by simp
  ultimately show ?thesis
    using shift_mod [of "uint x" "2 ^ 255"] uint_lt2p [of x] unfolding S256_def take_bit_eq_mod by simp
qed

lemma S256_neg: "x < 2 ^ 255 \<Longrightarrow> S256 x = x"
  by (simp add: S256_def)

lemma sint_less: "sint (x :: w256) < 2 ^ 255"
  using sint_lt [of x] by simp

lemma opSdiv_word: "opSdiv (uint x) (uint y) = uint (word_arith SDIV [x, y])"
proof -
  have "\<bar>sint x\<bar> div \<bar>sint y\<bar> * (if sint x * sint y < 0 then - 1 else 1) = sint x sdiv sint y" if "y \<noteq> 0"
    using that by (auto simp: signed_divide_int_def sgn_if mult_less_0_iff zero_less_mult_iff not_less)
  then show ?thesis by (simp add: opSdiv_def S256_sint Let_def uint_of_int_U256 signed_eq_0_iff)
qed

lemma opSmod_word: "opSmod (uint x) (uint y) = uint (word_arith SMOD [x, y])"
proof -
  have "\<bar>sint x\<bar> mod \<bar>sint y\<bar> * (if sint x < 0 then - 1 else 1) = sint x smod sint y" if "y \<noteq> 0"
    using that by (auto simp: signed_modulo_int_def signed_divide_int_def sgn_if minus_div_mult_eq_mod [symmetric])
  then show ?thesis by (simp add: opSmod_def S256_sint Let_def uint_of_int_U256 signed_eq_0_iff)
qed

lemma math_Exp_word: "math_Exp (uint x) (uint y) = uint (word_arith EXP [x, y])"
proof -
  have "math_Exp (uint x) (uint y) = U256 (uint x ^ unat y)"
    unfolding U256_mod unat_eq_nat_uint by (rule math_Exp_power) (rule uint_ge_0)
  also have "\<dots> = uint (of_int (uint x ^ unat y) :: w256)" by (rule uint_of_int_U256 [symmetric])
  also have "(of_int (uint x ^ unat y) :: w256) = x ^ unat y" by (simp only: of_int_power word_of_int_uint)
  finally show ?thesis unfolding word_arith.simps .
qed

lemma less_31: "x < 31 \<longleftrightarrow> unat (x :: w256) < 31" "x < 32 \<longleftrightarrow> unat x < 32"
  by (simp_all add: word_less_nat_alt)

lemma uint_less_31: "uint (x :: w256) < 31 \<longleftrightarrow> unat x < 31" "uint x < 32 \<longleftrightarrow> unat x < 32"
  unfolding uint_nat of_nat_less_numeral_iff by (rule refl)+

lemma Uint64_small: "unat (x :: w256) < 32 \<Longrightarrow> Uint64 (uint x) = of_nat (unat x)"
  unfolding Uint64_def uint_nat by (rule of_int_of_nat_eq)

lemma opSignExtend_word: "opSignExtend (uint k) (uint x) = uint (word_arith SIGNEXTEND [k, x])"
proof (cases "k < 31")
  case True
  then have k: "unat k < 31" by (simp add: less_31)
  let ?n = "8 * unat k + 7"
  have "Uint64 (uint k) * 8 + 7 = of_nat ?n" using Uint64_small [of k] k by simp
  moreover have "unat (of_nat ?n :: u64) = ?n" by (rule unat_of_nat_u64) (use k in simp)
  ultimately have n: "unat (Uint64 (uint k) * 8 + 7) = ?n" by simp
  have l: "?n < 256" using k by simp
  let ?m = "2 ^ ?n - 1 :: int"
  have "U256 (if bit (uint x) ?n then uint x OR NOT ?m else uint x AND ?m) = uint (signed_take_bit ?n x)"
    unfolding U256_take_bit mask_eq_exp_minus_1 [symmetric]
    by (rule bit_eqI) (use l in \<open>auto simp: bit_simps min_def not_less split: if_splits\<close>)
  then show ?thesis unfolding opSignExtend_def Let_def n uint_less_31 word_arith.simps less_31 using k by simp
next
  case False
  then show ?thesis unfolding opSignExtend_def uint_less_31 word_arith.simps less_31 by simp
qed


lemma nat_words_nth:
  "(i < length (nat_words n) \<longrightarrow> nat_words n ! i = of_nat (drop_bit (64 * i) n))
   \<and> (\<not> i < length (nat_words n) \<longrightarrow> drop_bit (64 * i) n = 0)"
proof (induction n arbitrary: i rule: nat_words.induct)
  case (1 n)
  show ?case
  proof (cases "n = 0")
    case False
    have w: "nat_words n = of_nat (n mod 2 ^ 64) # nat_words (n div 2 ^ 64)" using False by (simp add: nat_words.simps [of n])
    show ?thesis
    proof (cases i)
      case 0
      have "(of_nat (n mod 2 ^ 64) :: u64) = of_nat n"
        unfolding take_bit_eq_mod [symmetric] by (rule bit_word_eqI) (simp add: bit_simps)
      then show ?thesis using 0 w by simp
    next
      case (Suc j)
      have "drop_bit (64 * j) (n div 2 ^ 64) = drop_bit (64 * Suc j) n"
        unfolding drop_bit_eq_div [symmetric] by (simp add: algebra_simps)
      then show ?thesis using 1 [OF False, of j] Suc w by simp
    qed
  qed (simp add: nat_words.simps)
qed

lemma byte_of_word: "j < 8 \<Longrightarrow> (ucast (drop_bit (8 * j) (of_nat m :: u64)) :: byte) = of_nat (drop_bit (8 * j) m)"
  by (rule bit_word_eqI) (auto simp: bit_simps)

lemma bigEndianByteAt_nat: "0 \<le> x \<Longrightarrow> bigEndianByteAt x n = of_nat (drop_bit (8 * n) (nat x))"
proof -
  assume "0 \<le> x"
  let ?w = "nat_words (nat x)" let ?i = "n div 8"
  have d: "drop_bit (8 * n) (nat x) = drop_bit (8 * (n mod 8)) (drop_bit (64 * ?i) (nat x))"
  proof -
    have "8 * n = 8 * (n mod 8) + 64 * ?i" using div_mult_mod_eq [of n 8] by linarith
    then show ?thesis by simp
  qed
  show ?thesis
  proof (cases "?i < length ?w")
    case True
    then have "?w ! ?i = of_nat (drop_bit (64 * ?i) (nat x))" using nat_words_nth by blast
    then show ?thesis using True \<open>0 \<le> x\<close> byte_of_word [of "n mod 8" "drop_bit (64 * ?i) (nat x)"] d
      by (simp add: bigEndianByteAt_def big_Bits_def Let_def)
  next
    case False
    then have "drop_bit (64 * ?i) (nat x) = 0" using nat_words_nth by blast
    then show ?thesis using False \<open>0 \<le> x\<close> d by (simp add: bigEndianByteAt_def big_Bits_def Let_def)
  qed
qed

lemma byte_of_w256: "(ucast (drop_bit k (x :: w256)) :: byte) = of_nat (drop_bit k (unat x))"
  by (rule bit_word_eqI) (auto simp: bit_simps bit_unsigned_iff dest: bit_imp_le_length)

lemma Int64_id: "0 \<le> x \<Longrightarrow> x < 2 ^ 63 \<Longrightarrow> Int64 x = x"
  unfolding Int64_def i64_def by (rule signed_take_bit_int_eq_self) simp_all

lemma opByte_word:
  "(if uint i < 32 then uint (math_Byte (uint x) 32 (nat (Int64 (uint i)))) else 0) = uint (word_arith BYTE [i, x])"
proof (cases "unat i < 32")
  case True
  have u: "uint i < 32" by (rule uint_less_31(2) [THEN iffD2, OF True])
  have "uint i < 2 ^ 63" by (rule less_trans [OF u]) simp
  then have "Int64 (uint i) = uint i" by (rule Int64_id [OF uint_ge_0])
  then have n: "nat (Int64 (uint i)) = unat i" by (simp only: unat_eq_nat_uint)
  have "math_Byte (uint x) 32 (unat i) = of_nat (drop_bit (8 * (31 - unat i)) (unat x))"
    using True bigEndianByteAt_nat [of "uint x" "31 - unat i"] by (simp add: math_Byte_def)
  moreover have "uint (ucast (b :: byte) :: w256) = uint b" for b
    unfolding unsigned_ucast_eq by (rule take_bit_int_eq_self [OF uint_ge_0 less_trans [OF uint_lt2p]]) simp
  ultimately show ?thesis unfolding n uint_less_31 word_arith.simps less_31 byte_of_w256 using True by simp
next
  case False
  then show ?thesis unfolding uint_less_31 word_arith.simps less_31 by simp
qed

lemma bool_int_word: "bool_int b = uint (w_bool b)"
  by (simp add: bool_int_def w_bool_def)

lemmas stack_ops = un_op_def bin_op_def tern_op_def pop_def push_def mod_frame_def sbind_def sret_def

lemma length_1: "length ws = Suc 0 \<longleftrightarrow> (\<exists>x. ws = [x])"
  and length_2: "length ws = 2 \<longleftrightarrow> (\<exists>x y. ws = [x, y])"
  and length_3: "length ws = 3 \<longleftrightarrow> (\<exists>x y z. ws = [x, y, z])"
  by (auto simp: length_Suc_conv numeral_eq_Suc)

lemma uint_pos: "0 < uint (z :: w256) \<longleftrightarrow> z \<noteq> 0"
  by (simp add: less_le unsigned_eq_0_iff)

lemma uint_arith_word:
  "U256 (uint x + uint y) = uint (word_arith ADD [x, y])" "U256 (uint x - uint y) = uint (word_arith SUB [x, y])"
  "U256 (uint x * uint y) = uint (word_arith MUL [x, y])" "U256 (NOT (uint x)) = uint (word_arith NOT' [x])"
  "uint x AND uint y = uint (word_arith AND' [x, y])" "uint x OR uint y = uint (word_arith OR' [x, y])"
  "uint x XOR uint y = uint (word_arith XOR' [x, y])"
  "(if uint y \<noteq> 0 then U256 (uint x div uint y) else 0) = uint (word_arith DIV [x, y])"
  "(if uint y = 0 then 0 else U256 (uint x mod uint y)) = uint (word_arith MOD [x, y])"
  "(if uint z > 0 then U256 ((uint x + uint y) mod uint z) else 0) = uint (word_arith ADDMOD [x, y, z])"
  "(if uint z > 0 then U256 ((uint x * uint y) mod uint z) else 0) = uint (word_arith MULMOD [x, y, z])"
  "(if uint x > 0 then 0 else 1) = uint (word_arith ISZERO [x])"
  subgoal by (simp add: uint_word_ariths U256_mod)
  subgoal by (simp add: uint_word_ariths U256_mod)
  subgoal by (simp add: uint_word_ariths U256_mod)
  subgoal by (simp add: U256_take_bit unsigned_not_eq)
  subgoal by (simp add: unsigned_and_eq)
  subgoal by (simp add: unsigned_or_eq)
  subgoal by (simp add: unsigned_xor_eq)
  subgoal by (simp add: uint_div_distrib [symmetric] unsigned_eq_0_iff)
  subgoal by (simp add: uint_mod_distrib [symmetric] unsigned_eq_0_iff)
  subgoal by (simp add: uint_of_int_U256 uint_pos)
  subgoal by (simp add: uint_of_int_U256 uint_pos)
  subgoal by (simp add: w_bool_def uint_pos)
  done


lemma op_arith_word:
  assumes "length ws = arith_items a"
  shows "op_arith a (fr\<lparr>fr_stack := map uint ws @ st\<rparr>, v) = (Inr (None, None), fr\<lparr>fr_stack := uint (word_arith a ws) # st\<rparr>, v)"
proof -
  note [simp del] = word_arith.simps
  have slt: "S256 (sint y) = sint y" for y :: w256 by (rule S256_neg [OF sint_less])
  have eq: "uint x = uint y \<longleftrightarrow> x = y" for x y :: w256 by (metis word_of_int_uint)
  show ?thesis
    using assms
    by (cases a) (auto simp: length_1 length_2 length_3 stack_ops uint_arith_word opSdiv_word opSmod_word math_Exp_word
      opSignExtend_word opByte_word bool_int_word word_arith.simps(11-15) slt eq S256_sint word_sless_alt word_less_def)
qed

text \<open>C33. The arithmetic, comparison and bit instructions compute on 256-bit words. On a stack of words each of the 22
  instructions takes its operands and pushes the result of the word operation of the reference: addition modulo
  \<open>2 ^ 256\<close>, signed division rounding towards zero, exponentiation by squaring over machine words as the power,
  sign extension and byte extraction, with zero for a zero divisor. So every result is again a word.\<close>

theorem arithmetic_on_words:
  assumes "length ws = arith_items a"
  shows "op_arith a (fr\<lparr>fr_stack := map uint ws @ st\<rparr>, v) = (Inr (None, None), fr\<lparr>fr_stack := uint (word_arith a ws) # st\<rparr>, v)"
  using assms by (rule op_arith_word)

theorem arithmetic_on_words_witness:
  "\<forall>fr v. op_arith SDIV (fr\<lparr>fr_stack := [2 ^ 256 - 8, 3]\<rparr>, v) = (Inr (None, None), fr\<lparr>fr_stack := [2 ^ 256 - 2]\<rparr>, v)"
proof -
  have "uint (word_arith SDIV [-8, 3]) = 2 ^ 256 - 2" "uint (-8 :: w256) = 2 ^ 256 - 8" "uint (3 :: w256) = 3" by simp_all
  then show ?thesis using arithmetic_on_words [where ws = "[-8, 3]" and a = SDIV and st = "[]"] by simp
qed


section \<open>Jump destinations\<close>

definition instr_len :: "byte \<Rightarrow> nat" where
  "instr_len op = (if is_push op then 1 + push_size op else 1)"

text \<open>The reference: reading the code instruction by instruction from \<open>pc\<close>, an instruction starts at \<open>pos\<close>.\<close>

function instr_at :: "bytes \<Rightarrow> nat \<Rightarrow> nat \<Rightarrow> bool" where
  "instr_at code pc pos =
     (if pos \<le> pc then pos = pc
      else if pc < length code then instr_at code (pc + instr_len (code ! pc)) pos else False)"
  by pat_completeness auto
termination by (relation "measure (\<lambda>(code, pc, pos). pos - pc)") (auto simp: instr_len_def)

declare instr_at.simps [simp del]

definition marks :: "bytes \<Rightarrow> nat set" where
  "marks bits = {p. p div 8 < length bits \<and> bit (bits ! (p div 8)) (7 - p mod 8)}"

lemma or_byte_marks:
  assumes "i < length bits"
  shows "\<exists>bits'. or_byte i m bits = Inr bits' \<and> length bits' = length bits
    \<and> marks bits' = marks bits \<union> {p. p div 8 = i \<and> bit m (7 - p mod 8)}"
proof -
  have "or_byte i m bits = Inr (bits[i := bits ! i OR m])" using assms by (simp add: or_byte_def at_index_def)
  moreover have "marks (bits[i := bits ! i OR m]) = marks bits \<union> {p. p div 8 = i \<and> bit m (7 - p mod 8)}"
    using assms by (auto simp: marks_def nth_list_update bit_or_iff)
  ultimately show ?thesis by simp
qed

lemma bit_80: "bit (drop_bit k (0x80 :: byte)) n \<longleftrightarrow> k \<le> 7 \<and> n = 7 - k"
proof -
  have e: "(0x80 :: byte) = 2 ^ 7" by simp
  show ?thesis unfolding e bit_drop_bit_eq o_def bit_exp_iff by auto
qed

lemma bit_FF: "bit (drop_bit k (0xFF :: byte)) n \<longleftrightarrow> k + n \<le> 7"
proof -
  have e: "(0xFF :: byte) = mask 8" by (simp add: mask_eq_exp_minus_1)
  show ?thesis unfolding e bit_drop_bit_eq o_def bit_mask_iff by auto
qed

lemma bit_not_FF: "bit (NOT (drop_bit k (0xFF :: byte))) n \<longleftrightarrow> n < 8 \<and> \<not> k + n \<le> 7"
  by (simp add: bit_not_iff bit_FF)

lemma and_80: "k < 8 \<Longrightarrow> b AND drop_bit k 0x80 = 0 \<longleftrightarrow> \<not> bit (b :: byte) (7 - k)"
proof -
  assume "k < 8"
  then have a: "bit (b AND drop_bit k 0x80) n \<longleftrightarrow> bit b n \<and> n = 7 - k" for n by (simp add: bit_and_iff bit_80)
  show ?thesis
  proof
    assume "\<not> bit b (7 - k)"
    then show "b AND drop_bit k 0x80 = 0" using a by (intro bit_word_eqI) (auto simp del: bit_and_iff)
  qed (use a [of "7 - k"] in auto)
qed

lemma div_mod_8: "p div 8 = q div 8 \<Longrightarrow> p mod 8 = q mod 8 \<Longrightarrow> p = (q :: nat)"
  by (metis div_mult_mod_eq)

lemma byte_window:
  assumes "k < 8" "b < (8 :: nat)"
  shows "(a = q \<and> k + (7 - b) \<le> 7 \<or> a = q + 1 \<and> 7 - b < 8 \<and> \<not> k + (7 - b) \<le> 7) \<longleftrightarrow> 8 * q + k \<le> 8 * a + b \<and> 8 * a + b < 8 * q + k + 8"
proof -
  consider "a < q" | "a = q" | "a = q + 1" | "q + 1 < a" by linarith
  then show ?thesis using assms by cases linarith+
qed

lemma bv_set_marks:
  assumes "pos div 8 < length bits"
  shows "\<exists>bits'. bv_set pos bits = Inr bits' \<and> length bits' = length bits \<and> marks bits' = insert pos (marks bits)"
proof -
  have "{p. p div 8 = pos div 8 \<and> bit (drop_bit (pos mod 8) (0x80 :: byte)) (7 - p mod 8)} = {pos}"
    using div_mod_8 [of _ pos] by (auto simp: bit_80 less_Suc_eq_le [symmetric])
  then show ?thesis using or_byte_marks [OF assms, of "drop_bit (pos mod 8) 0x80"] by (simp add: bv_set_def)
qed

lemma bv_set8_marks:
  assumes "pos div 8 + 1 < length bits"
  shows "\<exists>bits'. bv_set8 pos bits = Inr bits' \<and> length bits' = length bits \<and> marks bits' = marks bits \<union> {pos..<pos + 8}"
proof -
  let ?q = "pos div 8" let ?k = "pos mod 8" let ?m = "drop_bit ?k 0xFF :: byte"
  obtain b1 where 1: "or_byte ?q ?m bits = Inr b1" "length b1 = length bits"
    "marks b1 = marks bits \<union> {p. p div 8 = ?q \<and> bit ?m (7 - p mod 8)}" using or_byte_marks [of ?q bits ?m] assms by auto
  obtain b2 where 2: "or_byte (?q + 1) (NOT ?m) b1 = Inr b2" "length b2 = length b1"
    "marks b2 = marks b1 \<union> {p. p div 8 = ?q + 1 \<and> bit (NOT ?m) (7 - p mod 8)}" using or_byte_marks [of "?q + 1" b1 "NOT ?m"] assms 1(2) by auto
  have w: "p div 8 = ?q \<and> bit ?m (7 - p mod 8) \<or> p div 8 = ?q + 1 \<and> bit (NOT ?m) (7 - p mod 8) \<longleftrightarrow> pos \<le> p \<and> p < pos + 8" for p
    unfolding bit_not_FF bit_FF
    using byte_window [of ?k "p mod 8" "p div 8" ?q] by (simp only: mod_less_divisor zero_less_numeral mult_div_mod_eq)
  have "{p. p div 8 = ?q \<and> bit ?m (7 - p mod 8)} \<union> {p. p div 8 = ?q + 1 \<and> bit (NOT ?m) (7 - p mod 8)} = {pos..<pos + 8}"
    unfolding set_eq_iff Un_iff mem_Collect_eq atLeastLessThan_iff using w by blast
  then have "marks b2 = marks bits \<union> {pos..<pos + 8}" unfolding 1(3) 2(3) Un_assoc by (rule arg_cong)
  then show ?thesis using 1 2 by (simp add: bv_set8_def)
qed


lemma mark_data_marks:
  assumes "(pc + n) div 8 < length bits"
  shows "\<exists>bits'. mark_data n pc bits = Inr (pc + n, bits') \<and> length bits' = length bits \<and> marks bits' = marks bits \<union> {pc..<pc + n}"
  using assms
proof (induction n pc bits rule: mark_data.induct)
  case (1 n pc bits)
  consider "8 \<le> n" | "0 < n" "n < 8" | "n = 0" by linarith
  then show ?case
  proof cases
    case 1
    have "(pc + 8 + (n - 8)) div 8 < length bits" "pc div 8 + 1 < length bits" using 1 "1.prems" by auto
    obtain b where b: "bv_set8 pc bits = Inr b" "length b = length bits" "marks b = marks bits \<union> {pc..<pc + 8}"
      using bv_set8_marks [OF \<open>pc div 8 + 1 < length bits\<close>] by blast
    obtain b' where b': "mark_data (n - 8) (pc + 8) b = Inr (pc + 8 + (n - 8), b')" "length b' = length b"
      "marks b' = marks b \<union> {pc + 8..<pc + 8 + (n - 8)}" using "1.IH"(1) [OF 1, of b] b(1,2) \<open>(pc + 8 + (n - 8)) div 8 < length bits\<close> by auto
    have "{pc..<pc + 8} \<union> {pc + 8..<pc + 8 + (n - 8)} = {pc..<pc + n}" using 1 by auto
    then show ?thesis using 1 b b' by (subst mark_data.simps) (simp add: Un_assoc)
  next
    case 2
    have "(pc + 1 + (n - 1)) div 8 < length bits" "pc div 8 < length bits" using 2 "1.prems" by auto
    obtain b where b: "bv_set pc bits = Inr b" "length b = length bits" "marks b = insert pc (marks bits)"
      using bv_set_marks [OF \<open>pc div 8 < length bits\<close>] by blast
    obtain b' where b': "mark_data (n - 1) (pc + 1) b = Inr (pc + 1 + (n - 1), b')" "length b' = length b"
      "marks b' = marks b \<union> {pc + 1..<pc + 1 + (n - 1)}" using "1.IH"(2) [of b] 2 b(1,2) \<open>(pc + 1 + (n - 1)) div 8 < length bits\<close> by auto
    have "insert pc {pc + 1..<pc + 1 + (n - 1)} = {pc..<pc + n}" using 2 by auto
    then show ?thesis using 2 b b' by (subst mark_data.simps) auto
  qed (simp add: mark_data.simps)
qed

lemma push_size_le: "is_push op \<Longrightarrow> push_size op \<le> 32"
proof -
  assume "is_push op"
  then have "96 \<le> unat op" "unat op \<le> 127" "unat (op - 0x60) = unat op - 96"
    by (simp_all add: is_push_def word_le_nat_alt unat_sub)
  then have "unat (op - 0x60) \<le> 31" by linarith
  then show ?thesis unfolding push_size_def unat_word_ariths(1) [of "op - 0x60" 1] by simp
qed

lemma bitmap_loop_marks:
  assumes "length bits = length code div 8 + 5" "marks bits \<subseteq> {..<pc}"
  shows "\<exists>bits'. bitmap_loop code pc bits = Inr bits' \<and> length bits' = length bits
    \<and> (\<forall>p < length code. p \<in> marks bits' \<longleftrightarrow> (if p < pc then p \<in> marks bits else \<not> instr_at code pc p))"
  using assms
proof (induction code pc bits rule: bitmap_loop.induct)
  case (1 code pc bits)
  show ?case
  proof (cases "pc < length code")
    case False
    then have "bitmap_loop code pc bits = Inr bits" using bitmap_loop.simps [of code pc bits] by simp
    then show ?thesis using False by simp
  next
    case True
    let ?op = "code ! pc" let ?n = "instr_len ?op"
    have i: "instr_at code pc p \<longleftrightarrow> (if p < pc + ?n then p = pc else instr_at code (pc + ?n) p)" if "pc \<le> p" for p
    proof (cases "p = pc")
      case False
      then have "instr_at code pc p = instr_at code (pc + ?n) p" using that True instr_at.simps [of code pc p] by simp
      then show ?thesis using False instr_at.simps [of code "pc + ?n" p] by simp
    qed (simp add: instr_at.simps [of code pc pc] instr_len_def)
    obtain b where b: "bitmap_loop code pc bits = bitmap_loop code (pc + ?n) b" "length b = length bits" "marks b = marks bits \<union> {pc + 1..<pc + ?n}"
      "\<exists>b'. bitmap_loop code (pc + ?n) b = Inr b' \<and> length b' = length b
         \<and> (\<forall>p < length code. p \<in> marks b' \<longleftrightarrow> (if p < pc + ?n then p \<in> marks b else \<not> instr_at code (pc + ?n) p))"
    proof (cases "is_push ?op")
      case p: True
      have "(pc + 1 + push_size ?op) div 8 < length bits" using push_size_le [OF p] True "1.prems"(1) by simp
      then obtain b where m: "mark_data (push_size ?op) (pc + 1) bits = Inr (pc + ?n, b)" "length b = length bits"
        "marks b = marks bits \<union> {pc + 1..<pc + ?n}" using mark_data_marks p by (fastforce simp: instr_len_def add.assoc)
      have "bitmap_loop code pc bits = bitmap_loop code (pc + ?n) b" using p True m(1) by (subst bitmap_loop.simps) simp
      moreover have "marks b \<subseteq> {..<pc + ?n}" using m(3) "1.prems"(2) p by (auto simp: instr_len_def)
      ultimately show ?thesis using that [OF _ m(2,3)] "1.IH"(1) [OF True refl p m(1) refl] m(2) "1.prems"(1) by simp
    next
      case p: False
      then have n: "?n = 1" by (simp add: instr_len_def)
      have "bitmap_loop code pc bits = bitmap_loop code (pc + 1) bits" using p True by (subst bitmap_loop.simps) simp
      moreover have "marks bits \<subseteq> {..<pc + 1}" using "1.prems"(2) by auto
      ultimately show ?thesis using that [of bits] "1.IH"(2) [OF True refl p] "1.prems"(1) unfolding n by simp
    qed
    then show ?thesis using i "1.prems"(2) by (auto split: if_splits)
  qed
qed


lemma codeBitmap_correct:
  assumes "pos < length code"
  shows "\<exists>bits. codeBitmap code = Inr bits \<and> codeSegment bits pos = Inr (instr_at code 0 pos)"
proof -
  let ?z = "replicate (length code div 8 + 1 + 4) (0 :: byte)"
  have "marks ?z = {}" by (auto simp: marks_def)
  then obtain bits where b: "codeBitmap code = Inr bits" "length bits = length code div 8 + 5" "pos \<in> marks bits \<longleftrightarrow> \<not> instr_at code 0 pos"
    using bitmap_loop_marks [of ?z code 0] assms by (auto simp: codeBitmap_def)
  have i: "pos div 8 < length bits" using assms b(2) by simp
  have "bits ! (pos div 8) AND drop_bit (pos mod 8) 0x80 = 0 \<longleftrightarrow> \<not> bit (bits ! (pos div 8)) (7 - pos mod 8)"
    by (rule and_80) simp
  then show ?thesis using b(1,3) i by (simp add: codeSegment_def at_index_def marks_def)
qed

text \<open>What the cache of analysed code holds.\<close>

definition dests_ok :: "(bytes \<Rightarrow> bytes) \<Rightarrow> bytes set \<Rightarrow> (hash \<times> bytes) list \<Rightarrow> bool" where
  "dests_ok H U ds \<longleftrightarrow> (\<forall>h m. map_of ds h = Some m \<longrightarrow> (\<exists>code \<in> U. h = H code \<and> codeBitmap code = Inr m))"

lemma Uint64_nat: "0 \<le> x \<Longrightarrow> x < 2 ^ 64 \<Longrightarrow> unat (Uint64 x) = nat x"
  by (simp add: Uint64_def unat_eq_nat_uint uint_word_of_int)

text \<open>C34. A jump is accepted exactly at a jump destination. The analysis, which sets up to eight bits of a bit vector
  at a time and keeps the vectors under the hash of the code, never leaves the vector and answers whether the
  position holds the JUMPDEST opcode and starts an instruction when the code is read from its beginning, so that the
  bytes of a push are never taken for an instruction.\<close>

theorem jump_destination_exact:
  assumes "dests_ok H U ds" and "inj_on H U" and "code \<in> U" and "0 \<le> dest" and "length code < 2 ^ 62"
  shows "\<exists>ds'. dest_has (H code) code dest ds
      = (Inr (dest < int (length code) \<and> code ! nat dest = JUMPDEST_byte \<and> instr_at code 0 (nat dest)), ds') \<and> dests_ok H U ds'"
proof (cases "dest < int (length code)")
  case False
  have "BitLen dest \<ge> 63 \<or> Uint64 dest \<ge> of_nat (length code)"
  proof (cases "dest < 2 ^ 62")
    case True
    then have "unat (Uint64 dest) = nat dest" using Uint64_nat assms(4) by simp
    moreover have "length code \<le> nat dest" using False by linarith
    ultimately show ?thesis using assms(5) by (simp add: word_le_nat_alt unat_of_nat_u64)
  qed (use BitLen_gt [OF assms(4), of 62] in simp)
  then show ?thesis using False assms(1) by (auto simp: dest_has_def)
next
  case True
  then have u: "unat (Uint64 dest) = nat dest" using Uint64_nat assms(4,5) by simp
  have n: "\<not> (BitLen dest \<ge> 63 \<or> Uint64 dest \<ge> of_nat (length code))"
    using True assms(4,5) u BitLen_gt [OF assms(4), of 62] by (simp add: word_le_nat_alt unat_of_nat_u64)
  obtain m where m: "codeBitmap code = Inr m" "codeSegment m (nat dest) = Inr (instr_at code 0 (nat dest))"
    using codeBitmap_correct [of "nat dest" code] True assms(4) by (auto simp: nat_less_iff)
  show ?thesis
  proof (cases "map_of ds (H code)")
    case None
    have "dests_ok H U (AList.update (H code) m ds)" using assms(1,3) m(1) by (auto simp: dests_ok_def update_conv')
    then show ?thesis using n None m True u by (simp add: dest_has_def Let_def)
  next
    case (Some m')
    then obtain code' where "code' \<in> U" "H code = H code'" "codeBitmap code' = Inr m'" using assms(1) by (auto simp: dests_ok_def)
    then have "m' = m" using assms(2,3) m(1) by (metis inj_onD sum.inject(2))
    then show ?thesis using n Some m True u assms(1) by (simp add: dest_has_def Let_def)
  qed
qed

theorem jump_destination_exact_witness:
  "(\<exists>ds. dest_has (pad_hash [0x60, 0x5B, 0x5B]) [0x60, 0x5B, 0x5B] 1 [] = (Inr False, ds))
   \<and> (\<exists>ds. dest_has (pad_hash [0x60, 0x5B, 0x5B]) [0x60, 0x5B, 0x5B] 2 [] = (Inr True, ds))"
proof -
  let ?c = "[0x60, 0x5B, 0x5B] :: bytes"
  have l: "instr_len 0x60 = 2" by (simp add: instr_len_def is_push_def push_size_def)
  then have "instr_at ?c 0 1 = False" "instr_at ?c 0 2 = True"
    using instr_at.simps [of ?c 0 1] instr_at.simps [of ?c 2 1] instr_at.simps [of ?c 0 2] instr_at.simps [of ?c 2 2] by (simp_all add: numeral_2_eq_2)
  moreover have "dests_ok pad_hash {?c} []" by (simp add: dests_ok_def)
  ultimately show ?thesis
    using jump_destination_exact [of pad_hash "{?c}" "[]" ?c 1] jump_destination_exact [of pad_hash "{?c}" "[]" ?c 2]
    by (auto simp: JUMPDEST_byte_def)
qed

end
