(* ===== verification/State_Rel.thy ===== *)
theory State_Rel
  imports State_Db
begin

text \<open>
  What a \<open>StateDB\<close> represents. A \<open>world\<close> is the abstract account state: accounts with nonce, balance, code and
  storage as plain values, and the refund, logs and preimages. \<open>sim\<close> relates a state, whose accounts are spread over
  the trie, the live objects and their caches, to a world and to the list of abstract changes that its journal
  records. Every operation of the state refines an operation on worlds.
\<close>

section \<open>Worlds\<close>

record account =
  ac_nonce :: u64
  ac_balance :: int
  ac_code :: bytes
  ac_codehash :: bytes
  ac_storage :: "hash \<Rightarrow> hash"
  ac_suicided :: bool

record world =
  accts :: "address \<rightharpoonup> account"
  w_refund :: int
  w_logs :: "hash \<Rightarrow> Log list"
  w_logSize :: u64
  w_preimages :: "hash \<rightharpoonup> bytes"

datatype aentry =
    ACreate address
  | AReset address account
  | ASuicide address bool int
  | ABalance address int
  | ANonce address u64
  | AStorage address hash hash
  | ACode address bytes bytes
  | ARefund int
  | ALog hash
  | APreimage hash
  | ATouch address

definition put_acct :: "address \<Rightarrow> account \<Rightarrow> world \<Rightarrow> world" where
  "put_acct addr a A = A\<lparr>accts := (accts A)(addr \<mapsto> a)\<rparr>"

definition upd_acct :: "address \<Rightarrow> (account \<Rightarrow> account) \<Rightarrow> world \<Rightarrow> world option" where
  "upd_acct addr g A = (case accts A addr of None \<Rightarrow> None | Some a \<Rightarrow> Some (put_acct addr (g a) A))"

text \<open>Undoing an abstract change; it is undefined where the code would panic.\<close>

fun aundo :: "aentry \<Rightarrow> world \<Rightarrow> world option" where
  "aundo (ACreate addr) A = Some (A\<lparr>accts := (accts A)(addr := None)\<rparr>)"
| "aundo (AReset addr a) A = Some (put_acct addr a A)"
| "aundo (ASuicide addr b bal) A = upd_acct addr (\<lambda>a. a\<lparr>ac_suicided := b, ac_balance := bal\<rparr>) A"
| "aundo (ABalance addr bal) A = upd_acct addr (\<lambda>a. a\<lparr>ac_balance := bal\<rparr>) A"
| "aundo (ANonce addr n) A = upd_acct addr (\<lambda>a. a\<lparr>ac_nonce := n\<rparr>) A"
| "aundo (AStorage addr k v) A = upd_acct addr (\<lambda>a. a\<lparr>ac_storage := (ac_storage a)(k := v)\<rparr>) A"
| "aundo (ACode addr c h) A = upd_acct addr (\<lambda>a. a\<lparr>ac_code := c, ac_codehash := h\<rparr>) A"
| "aundo (ARefund r) A = Some (A\<lparr>w_refund := r\<rparr>)"
| "aundo (ALog h) A =
     (if w_logs A h = [] then None
      else Some (A\<lparr>w_logs := (w_logs A)(h := butlast (w_logs A h)), w_logSize := w_logSize A - 1\<rparr>))"
| "aundo (APreimage h) A = Some (A\<lparr>w_preimages := (w_preimages A)(h := None)\<rparr>)"
| "aundo (ATouch addr) A = upd_acct addr (\<lambda>a. a) A"

fun aundo_list :: "aentry list \<Rightarrow> world \<Rightarrow> world option" where
  "aundo_list [] A = Some A"
| "aundo_list (e # es) A = (case aundo e A of None \<Rightarrow> None | Some B \<Rightarrow> aundo_list es B)"

lemma aundo_list_append:
  "aundo_list (es @ es') A = (case aundo_list es A of None \<Rightarrow> None | Some B \<Rightarrow> aundo_list es' B)"
  by (induction es arbitrary: A) (auto split: option.splits)

section \<open>Objects and accounts\<close>

text \<open>The value of a storage entry, and the storage tries in which every entry is an RLP value.\<close>

definition sto_val :: "bytes option \<Rightarrow> hash" where
  "sto_val e =
     (case e of
        None \<Rightarrow> zero_hash
      | Some b \<Rightarrow> (case Split b of Inl _ \<Rightarrow> zero_hash | Inr (_, content, _) \<Rightarrow> SetBytes zero_hash content))"

definition wf_storage :: "(bytes \<rightharpoonup> bytes) \<Rightarrow> bool" where
  "wf_storage g \<longleftrightarrow> (\<forall>k b. g k = Some b \<longrightarrow> b \<noteq> [] \<and> (\<exists>r. Split b = Inr r))"

definition obj_disk :: "(bytes \<Rightarrow> bytes) \<Rightarrow> bytes set \<Rightarrow> database \<Rightarrow> stateObject \<Rightarrow> (bytes \<rightharpoonup> bytes) \<Rightarrow> bool" where
  "obj_disk H U d c g \<longleftrightarrow> wf_storage g
     \<and> (case so_trie c of None \<Rightarrow> opens H d (Root (so_data c)) g | Some t \<Rightarrow> sec_holds H U d t g)"

definition obj_storage :: "(bytes \<Rightarrow> bytes) \<Rightarrow> stateObject \<Rightarrow> (bytes \<rightharpoonup> bytes) \<Rightarrow> hash \<Rightarrow> hash" where
  "obj_storage H c g k = (case map_of (cachedStorage c) k of Some v \<Rightarrow> v | None \<Rightarrow> sto_val (g (H k)))"

text \<open>The caches of the storage: what is dirty is cached, and what is cached and not dirty is what the trie holds.\<close>

definition caches_ok :: "(bytes \<Rightarrow> bytes) \<Rightarrow> bytes set \<Rightarrow> stateObject \<Rightarrow> (bytes \<rightharpoonup> bytes) \<Rightarrow> bool" where
  "caches_ok H U c g \<longleftrightarrow> distinct (map fst (dirtyStorage c))
     \<and> (\<forall>k v. map_of (cachedStorage c) k = Some v \<longrightarrow> length v = 32)
     \<and> (\<forall>k v. map_of (dirtyStorage c) k = Some v \<longrightarrow> k \<in> U \<and> map_of (cachedStorage c) k = Some v)
     \<and> (\<forall>k v. map_of (cachedStorage c) k = Some v \<longrightarrow> map_of (dirtyStorage c) k = None \<longrightarrow> v = sto_val (g (H k)))"

text \<open>The code of an object, given the hash and the slice that may not be loaded.\<close>

definition code_is :: "(bytes \<Rightarrow> bytes) \<Rightarrow> database \<Rightarrow> bytes option \<Rightarrow> bytes \<Rightarrow> bytes \<Rightarrow> bool" where
  "code_is H d code h c \<longleftrightarrow> length h = 32 \<and>
     (case code of Some b \<Rightarrow> c = b | None \<Rightarrow> if h = emptyCodeHash H then c = [] else d h = Some c)"

definition obj_rel :: "(bytes \<Rightarrow> bytes) \<Rightarrow> bytes set \<Rightarrow> database \<Rightarrow> stateObject \<Rightarrow> account \<Rightarrow> bool" where
  "obj_rel H U d c a \<longleftrightarrow> \<not> deleted c
     \<and> ac_nonce a = Nonce (so_data c) \<and> ac_balance a = Balance (so_data c) \<and> ac_codehash a = CodeHash (so_data c)
     \<and> ac_suicided a = suicided c \<and> code_is H d (so_code c) (CodeHash (so_data c)) (ac_code a)
     \<and> (\<exists>g. obj_disk H U d c g \<and> caches_ok H U c g \<and> (\<forall>k \<in> U. ac_storage a k = obj_storage H c g k))"

text \<open>The object that \<open>getStateObject\<close> finds at an address, if the account trie holds \<open>f\<close>.\<close>

definition load :: "(bytes \<Rightarrow> bytes) \<Rightarrow> (bytes \<rightharpoonup> bytes) \<Rightarrow> address \<Rightarrow> stateObject option" where
  "load H f addr =
     (case f (H addr) of
        None \<Rightarrow> None
      | Some b \<Rightarrow> (case rbind (DecodeBytes account_ty b) val_account of
                     Inl _ \<Rightarrow> None
                   | Inr data \<Rightarrow> Some (newObject H addr data True)))"

definition peek :: "(bytes \<Rightarrow> bytes) \<Rightarrow> (bytes \<rightharpoonup> bytes) \<Rightarrow> StateDB \<Rightarrow> address \<Rightarrow> stateObject option" where
  "peek H f s addr =
     (case map_of (stateObjects s) addr of
        Some c \<Rightarrow> if deleted c then None else Some c
      | None \<Rightarrow> load H f addr)"

definition wf_disk :: "(bytes \<Rightarrow> bytes) \<Rightarrow> bytes set \<Rightarrow> (bytes \<rightharpoonup> bytes) \<Rightarrow> bool" where
  "wf_disk H U f \<longleftrightarrow> (\<forall>addr \<in> U. \<forall>b. f (H addr) = Some b \<longrightarrow> b \<noteq> [] \<and> (\<exists>data. rbind (DecodeBytes account_ty b) val_account = Inr data))"

definition wf_objects :: "(bytes \<Rightarrow> bytes) \<Rightarrow> (bytes \<rightharpoonup> bytes) \<Rightarrow> StateDB \<Rightarrow> bool" where
  "wf_objects H f s \<longleftrightarrow> (\<forall>addr c. map_of (stateObjects s) addr = Some c \<longrightarrow> so_address c = addr \<and> (deleted c \<longrightarrow> f (H addr) = None))"

definition extras :: "StateDB \<Rightarrow> world \<Rightarrow> bool" where
  "extras s A \<longleftrightarrow> w_refund A = refund s \<and> w_logs A = (\<lambda>h. GetLogs h s) \<and> w_logSize A = logSize s \<and> w_preimages A = map_of (preimages s)"

definition db_rel :: "(bytes \<Rightarrow> bytes) \<Rightarrow> bytes set \<Rightarrow> database \<Rightarrow> (bytes \<rightharpoonup> bytes) \<Rightarrow> StateDB \<Rightarrow> world \<Rightarrow> bool" where
  "db_rel H U d f s A \<longleftrightarrow> sec_holds H U d (db_trie s) f \<and> wf_disk H U f \<and> wf_objects H f s \<and> extras s A
     \<and> (\<forall>addr \<in> U. rel_option (obj_rel H U d) (peek H f s addr) (accts A addr))"

fun jrel :: "(bytes \<Rightarrow> bytes) \<Rightarrow> bytes set \<Rightarrow> database \<Rightarrow> (bytes \<rightharpoonup> bytes) \<Rightarrow> journalEntry \<Rightarrow> aentry \<Rightarrow> bool" where
  "jrel H U d f (createObjectChange addr) e \<longleftrightarrow> e = ACreate addr \<and> f (H addr) = None"
| "jrel H U d f (resetObjectChange c) e \<longleftrightarrow> (\<exists>a. e = AReset (so_address c) a \<and> obj_rel H U d c a)"
| "jrel H U d f (suicideChange addr b bal) e \<longleftrightarrow> e = ASuicide addr b bal \<and> addr \<in> U"
| "jrel H U d f (balanceChange addr bal) e \<longleftrightarrow> e = ABalance addr bal \<and> addr \<in> U"
| "jrel H U d f (nonceChange addr n) e \<longleftrightarrow> e = ANonce addr n \<and> addr \<in> U"
| "jrel H U d f (storageChange addr k v) e \<longleftrightarrow> e = AStorage addr k v \<and> addr \<in> U \<and> k \<in> U \<and> length v = 32"
| "jrel H U d f (codeChange addr code h) e \<longleftrightarrow> (\<exists>c. e = ACode addr c h \<and> code_is H d code h c) \<and> addr \<in> U"
| "jrel H U d f (refundChange r) e \<longleftrightarrow> e = ARefund r"
| "jrel H U d f (addLogChange h) e \<longleftrightarrow> e = ALog h"
| "jrel H U d f (addPreimageChange h) e \<longleftrightarrow> e = APreimage h"
| "jrel H U d f (touchChange addr prev prevDirty) e \<longleftrightarrow> e = ATouch addr \<and> addr \<in> U"

definition sim :: "(bytes \<Rightarrow> bytes) \<Rightarrow> bytes set \<Rightarrow> database \<Rightarrow> (bytes \<rightharpoonup> bytes) \<Rightarrow> StateDB \<Rightarrow> world \<Rightarrow> aentry list \<Rightarrow> bool" where
  "sim H U d f s A J \<longleftrightarrow> db_rel H U d f s A \<and> list_all2 (jrel H U d f) (journal s) J"

section \<open>Reading an object\<close>

lemma getTrie_disk:
  assumes "obj_disk H U d c g"
  shows "\<exists>t. getTrie d c = (Inr t, c\<lparr>so_trie := Some t\<rparr>) \<and> sec_holds H U d t g"
proof (cases "so_trie c")
  case None
  then have "opens H d (Root (so_data c)) g" using assms by (simp add: obj_disk_def)
  from NewSecure_opens [OF this, of 0 U] show ?thesis using None by (auto simp: getTrie_def)
next
  case (Some t)
  then have "c\<lparr>so_trie := Some t\<rparr> = c" by simp
  then show ?thesis using Some assms by (simp add: getTrie_def obj_disk_def)
qed

lemma obj_disk_Some: "obj_disk H U d c g \<Longrightarrow> sec_holds H U d t g \<Longrightarrow> obj_disk H U d (c\<lparr>so_trie := Some t\<rparr>) g"
  by (simp add: obj_disk_def)

lemma obj_storage_trie [simp]: "obj_storage H (c\<lparr>so_trie := t\<rparr>) g = obj_storage H c g"
  by (simp add: obj_storage_def fun_eq_iff)

lemma obj_disk_cong:
  "so_trie c' = so_trie c \<Longrightarrow> Root (so_data c') = Root (so_data c) \<Longrightarrow> obj_disk H U d c' g = obj_disk H U d c g"
  by (simp add: obj_disk_def split: option.split)

lemma obj_storage_cong: "cachedStorage c' = cachedStorage c \<Longrightarrow> obj_storage H c' g = obj_storage H c g"
  by (simp add: obj_storage_def fun_eq_iff)

text \<open>Changing the plain fields of an object changes the account accordingly.\<close>

lemma obj_rel_fields:
  assumes "obj_rel H U d c a" "so_trie c' = so_trie c" "Root (so_data c') = Root (so_data c)" "cachedStorage c' = cachedStorage c"
    "dirtyStorage c' = dirtyStorage c" "\<not> deleted c'" "code_is H d (so_code c') (CodeHash (so_data c')) (ac_code a')" "ac_nonce a' = Nonce (so_data c')"
    "ac_balance a' = Balance (so_data c')" "ac_codehash a' = CodeHash (so_data c')" "ac_storage a' = ac_storage a"
    "ac_suicided a' = suicided c'"
  shows "obj_rel H U d c' a'"
proof -
  obtain g where "obj_disk H U d c g" "caches_ok H U c g" "\<forall>k \<in> U. ac_storage a k = obj_storage H c g k" using assms(1) by (auto simp: obj_rel_def)
  then have "obj_disk H U d c' g" "caches_ok H U c' g" "\<forall>k \<in> U. ac_storage a k = obj_storage H c' g k"
    using obj_disk_cong [OF assms(2,3)] obj_storage_cong [OF assms(4)] assms(4,5) by (simp_all add: caches_ok_def)
  then show ?thesis using assms(6-12) by (auto simp: obj_rel_def)
qed

lemma obj_rel_code: "obj_rel H U d c a \<Longrightarrow> code_is H d (so_code c) (CodeHash (so_data c)) (ac_code a)"
  and obj_rel_data: "obj_rel H U d c a \<Longrightarrow> ac_nonce a = Nonce (so_data c) \<and> ac_balance a = Balance (so_data c)
    \<and> ac_codehash a = CodeHash (so_data c) \<and> ac_suicided a = suicided c \<and> \<not> deleted c"
  by (simp_all add: obj_rel_def)

text \<open>The parts of an object that reading it does not change.\<close>

definition obj_same :: "stateObject \<Rightarrow> stateObject \<Rightarrow> bool" where
  "obj_same c c' \<longleftrightarrow> so_address c' = so_address c \<and> so_data c' = so_data c \<and> dirtyStorage c' = dirtyStorage c
     \<and> dirtyCode c' = dirtyCode c \<and> suicided c' = suicided c \<and> touched c' = touched c \<and> deleted c' = deleted c
     \<and> onDirty c' = onDirty c \<and> so_dbErr c' = so_dbErr c"

lemma obj_same_refl [simp]: "obj_same c c"
  by (simp add: obj_same_def)

lemma length_sto_val [simp]: "length (sto_val e) = 32"
  by (simp add: sto_val_def split: option.split sum.split prod.split)

lemma length_obj_storage: "caches_ok H U c g \<Longrightarrow> length (obj_storage H c g k) = 32"
  by (simp add: caches_ok_def obj_storage_def split: option.split)

lemma obj_GetState_storage:
  assumes "obj_disk H U d c g" "caches_ok H U c g"
  shows "\<exists>c'. obj_GetState H d k c = (Inr (obj_storage H c g k), c') \<and> obj_disk H U d c' g
    \<and> caches_ok H U c' g \<and> obj_storage H c' g = obj_storage H c g \<and> so_code c' = so_code c \<and> obj_same c c'"
proof (cases "map_of (cachedStorage c) k")
  case (Some v)
  then show ?thesis using assms by (auto simp: obj_GetState_def obj_storage_def)
next
  case None
  obtain t where t: "getTrie d c = (Inr t, c\<lparr>so_trie := Some t\<rparr>)" "sec_holds H U d t g" using getTrie_disk [OF assms(1)] by blast
  obtain t' where t': "sec_TryGet H d k t = (Inr (g (H k)), t')" "sec_holds H U d t' g" using sec_TryGet_holds [OF t(2)] by blast
  let ?c = "c\<lparr>so_trie := Some t'\<rparr>" let ?v = "sto_val (g (H k))"
  let ?r = "if ?v \<noteq> zero_hash then ?c\<lparr>cachedStorage := AList.update k ?v (cachedStorage c)\<rparr> else ?c"
  have g: "on_storage (sec_TryGet H d k) (c\<lparr>so_trie := Some t\<rparr>) = (Inr (g (H k)), ?c)" using t'(1) by (simp add: on_storage_def)
  have z: "SetBytes zero_hash [] = zero_hash" by (simp add: SetBytes_def)
  have "obj_GetState H d k c = (Inr ?v, ?r)"
  proof (cases "g (H k)")
    case (Some b)
    then obtain x y z where "b \<noteq> []" "Split b = Inr (x, y, z)" using assms by (fastforce simp: obj_disk_def wf_storage_def)
    then show ?thesis using Some None t(1) g by (simp add: obj_GetState_def sto_val_def Let_def)
  qed (use None t(1) g in \<open>simp add: obj_GetState_def sto_val_def Let_def\<close>)
  moreover have "obj_storage H c g k = ?v" using None by (simp add: obj_storage_def)
  moreover have "obj_storage H ?r g = obj_storage H c g"
    using None by (auto simp: obj_storage_def fun_eq_iff update_conv' split: option.splits)
  moreover have "obj_disk H U d ?r g" using assms(1) t'(2) by (simp add: obj_disk_def)
  moreover have "caches_ok H U ?r g" using assms(2) None by (auto simp: caches_ok_def update_conv')
  moreover have "so_code ?r = so_code c" "obj_same c ?r" by (simp_all add: obj_same_def)
  ultimately show ?thesis by metis
qed

lemma obj_GetState_rel:
  assumes "obj_rel H U d c a" "k \<in> U"
  shows "\<exists>c'. obj_GetState H d k c = (Inr (ac_storage a k), c') \<and> obj_rel H U d c' a \<and> obj_same c c'
    \<and> length (ac_storage a k) = 32"
proof -
  obtain g where g: "obj_disk H U d c g" "\<forall>k \<in> U. ac_storage a k = obj_storage H c g k" "caches_ok H U c g" using assms(1) by (auto simp: obj_rel_def)
  obtain c' where c': "obj_GetState H d k c = (Inr (obj_storage H c g k), c')" "obj_disk H U d c' g" "caches_ok H U c' g"
    "obj_storage H c' g = obj_storage H c g" "so_code c' = so_code c" "obj_same c c'" using obj_GetState_storage [OF g(1,3)] by blast
  then have "obj_rel H U d c' a" using assms(1) g(2) by (auto simp: obj_rel_def obj_same_def)
  then show ?thesis using c' g(2) assms(2) length_obj_storage [OF g(3)] by simp
qed

lemma obj_Code_rel:
  assumes "obj_rel H U d c a"
  shows "\<exists>code c'. obj_Code H d c = (code, c') \<and> code_is H d code (ac_codehash a) (ac_code a)
    \<and> (case code of None \<Rightarrow> [] | Some b \<Rightarrow> b) = ac_code a \<and> obj_rel H U d c' a \<and> obj_same c c'"
proof -
  have i: "code_is H d (so_code c) (CodeHash (so_data c)) (ac_code a)" and h: "ac_codehash a = CodeHash (so_data c)"
    using assms by (simp_all add: obj_rel_def)
  consider (loaded) b where "so_code c = Some b" | (none) "so_code c = None" "CodeHash (so_data c) = emptyCodeHash H"
    | (stored) "so_code c = None" "CodeHash (so_data c) \<noteq> emptyCodeHash H" by (cases "so_code c") auto
  then show ?thesis
  proof cases
    case stored
    let ?c = "c\<lparr>so_code := Some (ac_code a)\<rparr>"
    have l: "length (CodeHash (so_data c)) = 32" "d (CodeHash (so_data c)) = Some (ac_code a)"
      using i stored by (simp_all add: code_is_def)
    have "obj_Code H d c = (Some (ac_code a), ?c)" using stored l by (simp add: obj_Code_def db_Get_def)
    moreover have "obj_rel H U d ?c a" 
      by (rule obj_rel_fields [OF assms]) (use obj_rel_data [OF assms] l in \<open>simp_all add: code_is_def\<close>)
    ultimately show ?thesis using l h by (simp add: code_is_def obj_same_def)
  qed (use assms i h in \<open>auto simp: obj_Code_def code_is_def\<close>)
qed

section \<open>Finding and storing objects\<close>

definition frame :: "StateDB \<Rightarrow> StateDB \<Rightarrow> bool" where
  "frame s s' \<longleftrightarrow> validRevisions s' = validRevisions s \<and> nextRevisionId s' = nextRevisionId s \<and> thash s' = thash s
     \<and> bhash s' = bhash s \<and> txIndex s' = txIndex s"

lemma frame_refl [simp]: "frame s s"
  by (simp add: frame_def)

lemma frame_trans: "frame s s' \<Longrightarrow> frame s' s'' \<Longrightarrow> frame s s''"
  by (simp add: frame_def)

lemma frame_simps [simp]:
  "frame s (s\<lparr>stateObjectsDirty := X\<rparr>)" "frame s (add_journal e s)" "frame s (setStateObject c s)"
  "frame s (s\<lparr>db_trie := t\<rparr>)" "frame s (s\<lparr>stateObjects := l\<rparr>)"
  by (simp_all add: frame_def add_journal_def setStateObject_def)

text \<open>The represented world depends on the trie, the objects and the counters only.\<close>

lemma db_rel_cong:
  assumes "db_trie s' = db_trie s" "stateObjects s' = stateObjects s" "refund s' = refund s" "logs s' = logs s"
    "logSize s' = logSize s" "preimages s' = preimages s"
  shows "db_rel H U d f s' A = db_rel H U d f s A"
  using assms by (simp add: db_rel_def wf_objects_def extras_def peek_def GetLogs_def)

lemma db_rel_simps [simp]:
  "db_rel H U d f (s\<lparr>stateObjectsDirty := X\<rparr>) A = db_rel H U d f s A"
  "db_rel H U d f (add_journal e s) A = db_rel H U d f s A"
  "db_rel H U d f (s\<lparr>journal := j\<rparr>) A = db_rel H U d f s A"
  by (rule db_rel_cong; simp add: add_journal_def)+

lemma map_of_setStateObject [simp]:
  "map_of (stateObjects (setStateObject c s)) = (map_of (stateObjects s))(so_address c \<mapsto> c)"
  by (simp add: setStateObject_def update_conv')

lemma db_rel_setStateObject:
  assumes "db_rel H U d f s A" "obj_rel H U d c a"
  shows "db_rel H U d f (setStateObject c s) (put_acct (so_address c) a A)"
proof -
  have "\<not> deleted c" using assms(2) by (simp add: obj_rel_def)
  then show ?thesis using assms
    by (auto simp: db_rel_def wf_objects_def extras_def peek_def put_acct_def setStateObject_def update_conv' GetLogs_def)
qed

lemma db_rel_peek: "db_rel H U d f s A \<Longrightarrow> addr \<in> U \<Longrightarrow> rel_option (obj_rel H U d) (peek H f s addr) (accts A addr)"
  by (simp add: db_rel_def)

lemma put_acct_same: "accts A addr = Some a \<Longrightarrow> put_acct addr a A = A"
  by (simp add: put_acct_def fun_upd_idem)

lemma db_rel_on_trie:
  assumes "db_rel H U d f s A" "sec_holds H U d t f"
  shows "db_rel H U d f (s\<lparr>db_trie := t\<rparr>) A"
  using assms by (simp add: db_rel_def wf_objects_def extras_def peek_def GetLogs_def)

lemma getStateObject_rel:
  assumes "db_rel H U d f s A" "addr \<in> U"
  shows "\<exists>s'. getStateObject H d addr s = (Inr (peek H f s addr), s') \<and> db_rel H U d f s' A \<and> frame s s' \<and> journal s' = journal s"
proof (cases "map_of (stateObjects s) addr")
  case (Some c)
  then show ?thesis using assms by (auto simp: getStateObject_def peek_def)
next
  case None
  obtain t where t: "sec_TryGet H d addr (db_trie s) = (Inr (f (H addr)), t)" "sec_holds H U d t f"
    using sec_TryGet_holds [of H U d "db_trie s" f addr] assms by (auto simp: db_rel_def)
  let ?s = "s\<lparr>db_trie := t\<rparr>"
  have g: "on_trie (sec_TryGet H d addr) s = (Inr (f (H addr)), ?s)" using t(1) by (simp add: on_trie_def)
  have r: "db_rel H U d f ?s A" using assms(1) t(2) by (rule db_rel_on_trie)
  show ?thesis
  proof (cases "f (H addr)")
    case None
    then show ?thesis using g r \<open>map_of (stateObjects s) addr = None\<close>
      by (simp add: getStateObject_def sret_def peek_def load_def)
  next
    case (Some b)
    then obtain data where b: "b \<noteq> []" "rbind (DecodeBytes account_ty b) val_account = Inr data"
      using assms unfolding db_rel_def wf_disk_def by blast
    let ?c = "newObject H addr data True"
    have p: "peek H f s addr = Some ?c" using None Some b by (simp add: peek_def load_def)
    then obtain a where a: "accts A addr = Some a" "obj_rel H U d ?c a" using db_rel_peek [OF assms] by (auto simp: option_rel_Some1)
    have ad: "so_address ?c = addr" by (simp add: newObject_def)
    have "db_rel H U d f (setStateObject ?c ?s) A"
      using db_rel_setStateObject [OF r a(2)] put_acct_same [OF a(1)] ad by simp
    moreover have "getStateObject H d addr s = (Inr (Some ?c), setStateObject ?c ?s)"
      using None Some g b by (simp add: getStateObject_def Let_def)
    moreover have "frame s (setStateObject ?c ?s)" by (simp add: frame_def setStateObject_def)
    moreover have "journal (setStateObject ?c ?s) = journal s" by (simp add: setStateObject_def)
    ultimately show ?thesis using p by simp
  qed
qed

text \<open>The two outcomes of \<open>getStateObject\<close>.\<close>

lemma getStateObject_cases:
  assumes "sim H U d f s A J" "addr \<in> U"
  obtains (missing) s' where "getStateObject H d addr s = (Inr None, s')" "sim H U d f s' A J" "frame s s'" "accts A addr = None"
    "f (H addr) = None"
  | (found) c a s' where "getStateObject H d addr s = (Inr (Some c), s')" "sim H U d f s' A J" "frame s s'" "accts A addr = Some a"
      "obj_rel H U d c a" "so_address c = addr"
proof -
  have db: "db_rel H U d f s A" using assms by (simp add: sim_def)
  obtain s' where s': "getStateObject H d addr s = (Inr (peek H f s addr), s')" "db_rel H U d f s' A" "frame s s'" "journal s' = journal s"
    using getStateObject_rel [OF db assms(2)] by blast
  have sim: "sim H U d f s' A J" using assms(1) s'(2,4) by (simp add: sim_def)
  show thesis
  proof (cases "peek H f s addr")
    case None
    have "f (H addr) = None"
    proof (rule ccontr)
      assume "f (H addr) \<noteq> None"
      then obtain b where b: "f (H addr) = Some b" by blast
      then obtain data where "rbind (DecodeBytes account_ty b) val_account = Inr data" using db assms(2) unfolding db_rel_def wf_disk_def by blast
      then show False using None b db by (auto simp: peek_def load_def db_rel_def wf_objects_def split: option.splits if_splits)
    qed
    moreover have "accts A addr = None" using db_rel_peek [OF db assms(2)] None by simp
    ultimately show thesis using missing None s' sim by simp
  next
    case (Some c)
    then obtain a where a: "accts A addr = Some a" "obj_rel H U d c a" using db_rel_peek [OF db assms(2)] by (auto simp: option_rel_Some1)
    have "so_address c = addr"
      using Some db by (auto simp: peek_def load_def newObject_def db_rel_def wf_objects_def split: option.splits if_splits sum.splits)
    then show thesis using found Some a s' sim by simp
  qed
qed

section \<open>Operations on worlds\<close>

definition fresh_account :: "(bytes \<Rightarrow> bytes) \<Rightarrow> account" where
  "fresh_account H = \<lparr>ac_nonce = 0, ac_balance = 0, ac_code = [], ac_codehash = emptyCodeHash H, ac_storage = (\<lambda>_. zero_hash),
     ac_suicided = False\<rparr>"

definition w_acct :: "(bytes \<Rightarrow> bytes) \<Rightarrow> address \<Rightarrow> world \<Rightarrow> account" where
  "w_acct H addr A = (case accts A addr of None \<Rightarrow> fresh_account H | Some a \<Rightarrow> a)"

definition w_mod :: "(bytes \<Rightarrow> bytes) \<Rightarrow> address \<Rightarrow> (account \<Rightarrow> account) \<Rightarrow> world \<Rightarrow> world" where
  "w_mod H addr g A = put_acct addr (g (w_acct H addr A)) A"

abbreviation w_AddBalance :: "(bytes \<Rightarrow> bytes) \<Rightarrow> address \<Rightarrow> int \<Rightarrow> world \<Rightarrow> world" where
  "w_AddBalance H addr n \<equiv> w_mod H addr (\<lambda>a. a\<lparr>ac_balance := ac_balance a + n\<rparr>)"

definition w_Create :: "(bytes \<Rightarrow> bytes) \<Rightarrow> address \<Rightarrow> world \<Rightarrow> world" where
  "w_Create H addr A = put_acct addr ((fresh_account H)\<lparr>ac_balance := ac_balance (w_acct H addr A)\<rparr>) A"

section \<open>Evolution\<close>

text \<open>A state that has evolved from another: it represents the new world, and undoing the changes recorded since
  gives back the old world.\<close>

definition evolves :: "(bytes \<Rightarrow> bytes) \<Rightarrow> bytes set \<Rightarrow> database \<Rightarrow> (bytes \<rightharpoonup> bytes) \<Rightarrow> StateDB \<Rightarrow> world \<Rightarrow> aentry list
    \<Rightarrow> StateDB \<Rightarrow> world \<Rightarrow> aentry list \<Rightarrow> bool" where
  "evolves H U d f s A J s' A' K \<longleftrightarrow> sim H U d f s' A' (J @ K) \<and> aundo_list (rev K) A' = Some A \<and> frame s s'"

lemma evolves_trans:
  assumes "evolves H U d f s A J s1 A1 K1" "evolves H U d f s1 A1 (J @ K1) s2 A2 K2"
  shows "evolves H U d f s A J s2 A2 (K1 @ K2)"
  using assms by (auto simp: evolves_def aundo_list_append intro: frame_trans)

lemma evolves_quiet:
  assumes "sim H U d f s' A J" "frame s s'"
  shows "evolves H U d f s A J s' A []"
  using assms by (simp add: evolves_def)

lemma fire_onDirty_eq: "\<exists>X. fire_onDirty (c, s) = (c\<lparr>onDirty := False\<rparr>, s\<lparr>stateObjectsDirty := X\<rparr>)"
proof (cases "onDirty c")
  case True
  then show ?thesis by (auto simp: MarkStateObjectDirty_def)
next
  case False
  then have "c = c\<lparr>onDirty := False\<rparr>" "s = s\<lparr>stateObjectsDirty := stateObjectsDirty s\<rparr>" by simp_all
  then show ?thesis using False by (metis fire_onDirty.simps)
qed

lemma emptyCodeHash_length: "hash32 H \<Longrightarrow> length (emptyCodeHash H) = 32"
  by (simp add: emptyCodeHash_def hash32_length)

lemma sim_hash32: "sim H U d f s A J \<Longrightarrow> hash32 H"
  unfolding sim_def db_rel_def using hash32_of_holds by blast

text \<open>A change to one object that records one entry in the journal, seen as a change of the world.\<close>

lemma change_object:
  assumes "sim H U d f s A J" "obj_rel H U d c a" "so_address c = addr" "jrel H U d f e ae" "aundo ae (put_acct addr a A) = Some A"
  shows "evolves H U d f s A J (setStateObject c (add_journal e s\<lparr>stateObjectsDirty := X\<rparr>)) (put_acct addr a A) [ae]"
proof -
  let ?s = "add_journal e s\<lparr>stateObjectsDirty := X\<rparr>"
  have "db_rel H U d f ?s A" using assms(1) by (simp add: sim_def)
  then have "db_rel H U d f (setStateObject c ?s) (put_acct addr a A)"
    using db_rel_setStateObject [OF _ assms(2)] assms(3) by metis
  moreover have "journal (setStateObject c ?s) = journal s @ [e]" by (simp add: setStateObject_def add_journal_def)
  moreover have "list_all2 (jrel H U d f) (journal s @ [e]) (J @ [ae])" using assms(1,4) by (simp add: sim_def list_all2_appendI)
  moreover have "frame s (setStateObject c ?s)" by (simp add: frame_def setStateObject_def add_journal_def)
  ultimately show ?thesis using assms(5) by (simp add: evolves_def sim_def)
qed

lemma add_journal_dirty: "add_journal e (s\<lparr>stateObjectsDirty := X\<rparr>) = add_journal e s\<lparr>stateObjectsDirty := X\<rparr>"
  by (simp add: add_journal_def)

lemma evolves_after: "frame s s1 \<Longrightarrow> evolves H U d f s1 A J s' A' K \<Longrightarrow> evolves H U d f s A J s' A' K"
  by (auto simp: evolves_def intro: frame_trans)

lemma put_acct_put [simp]: "put_acct addr a (put_acct addr b A) = put_acct addr a A"
  by (simp add: put_acct_def)

lemma accts_put [simp]: "accts (put_acct addr a A) = (accts A)(addr \<mapsto> a)"
  by (simp add: put_acct_def)

lemma upd_acct_back:
  "accts A addr = Some a \<Longrightarrow> g a' = a \<Longrightarrow> upd_acct addr g (put_acct addr a' A) = Some A"
  by (simp add: upd_acct_def put_acct_same)

section \<open>Creating accounts\<close>

lemma newObject_rel:
  assumes "hash32 H"
  shows "obj_rel H U d (newObject H addr (zero_Account H) b) (fresh_account H)"
proof -
  have "wf_storage Map.empty" "opens H d zero_hash Map.empty" using opens_zero [OF assms] by (simp_all add: wf_storage_def)
  moreover have "(\<lambda>_. zero_hash) = obj_storage H (newObject H addr (zero_Account H) b) Map.empty"
    by (simp add: obj_storage_def newObject_def sto_val_def fun_eq_iff)
  ultimately show ?thesis
    using emptyCodeHash_length [OF assms]
    unfolding obj_rel_def obj_disk_def by (intro conjI exI [of _ Map.empty]) (simp_all add: newObject_def zero_Account_def fresh_account_def code_is_def caches_ok_def)
qed

lemma obj_rel_onDirty [simp]: "obj_rel H U d (c\<lparr>onDirty := b\<rparr>) a = obj_rel H U d c a"
  by (simp add: obj_rel_def caches_ok_def obj_disk_def obj_storage_def fun_eq_iff cong: option.case_cong)

lemma createObject_evolves:
  assumes "sim H U d f s A J" "addr \<in> U"
  shows "\<exists>c prev s'. createObject H d addr s = (Inr (c, prev), s')
    \<and> evolves H U d f s A J s' (put_acct addr (fresh_account H) A) [case accts A addr of None \<Rightarrow> ACreate addr | Some a \<Rightarrow> AReset addr a]
    \<and> obj_rel H U d c (fresh_account H) \<and> so_address c = addr \<and> rel_option (obj_rel H U d) prev (accts A addr)"
proof -
  have h: "hash32 H" using assms(1) by (rule sim_hash32)
  let ?n = "newObject H addr (zero_Account H) True"
  have d0: "?n\<lparr>so_data := (so_data ?n)\<lparr>Nonce := 0\<rparr>\<rparr> = ?n" by (simp add: newObject_def zero_Account_def)
  have ad: "so_address ?n = addr" by (simp add: newObject_def)
  have n: "obj_setNonce 0 (?n, s') = (?n\<lparr>onDirty := False\<rparr>, s'\<lparr>stateObjectsDirty := List.insert addr (stateObjectsDirty s')\<rparr>)" for s'
    by (simp add: d0 ad MarkStateObjectDirty_def) (simp add: newObject_def)
  have r: "obj_rel H U d (?n\<lparr>onDirty := False\<rparr>) (fresh_account H)" using newObject_rel [OF h] by simp
  let ?c = "?n\<lparr>onDirty := False\<rparr>" let ?w = "put_acct addr (fresh_account H) A"
  let ?s = "\<lambda>e s1. setStateObject ?c (add_journal e s1\<lparr>stateObjectsDirty := List.insert addr (stateObjectsDirty s1)\<rparr>)"
  from assms show ?thesis
  proof (cases rule: getStateObject_cases)
    case (missing s1)
    have "aundo (ACreate addr) ?w = Some A" using missing(4) by (simp add: put_acct_def fun_upd_idem)
    then have "evolves H U d f s A J (?s (createObjectChange addr) s1) ?w [ACreate addr]"
      using missing(5) ad by (intro evolves_after [OF missing(3)] change_object [OF missing(2) r]) simp_all
    moreover have "createObject H d addr s = (Inr (?c, None), ?s (createObjectChange addr) s1)"
      using missing(1) n by (simp add: createObject_def add_journal_dirty)
    ultimately show ?thesis using r ad missing(4) by fastforce
  next
    case (found c a s1)
    have "aundo (AReset addr a) ?w = Some A" using put_acct_same [OF found(4)] by simp
    then have "evolves H U d f s A J (?s (resetObjectChange c) s1) ?w [AReset addr a]"
      using found(5,6) ad by (intro evolves_after [OF found(3)] change_object [OF found(2) r]) simp_all
    moreover have "createObject H d addr s = (Inr (?c, Some c), ?s (resetObjectChange c) s1)"
      using found(1) n by (simp add: createObject_def add_journal_dirty)
    ultimately show ?thesis using r ad found(4,5) by fastforce
  qed
qed

section \<open>Changing accounts\<close>

lemma GetOrNew_evolves:
  assumes "sim H U d f s A J" "addr \<in> U"
  shows "\<exists>c s' K. GetOrNewStateObject H d addr s = (Inr c, s') \<and> evolves H U d f s A J s' (put_acct addr (w_acct H addr A) A) K
    \<and> obj_rel H U d c (w_acct H addr A) \<and> so_address c = addr"
  using assms
proof (cases rule: getStateObject_cases)
  case (missing s1)
  obtain c prev s' where c: "createObject H d addr s1 = (Inr (c, prev), s')" "evolves H U d f s1 A J s' (put_acct addr (fresh_account H) A) [ACreate addr]"
    "obj_rel H U d c (fresh_account H)" "so_address c = addr" using createObject_evolves [OF missing(2) assms(2)] missing(4) by auto
  then have "GetOrNewStateObject H d addr s = (Inr c, s')" using missing(1) by (simp add: GetOrNewStateObject_def sret_def)
  then show ?thesis using c evolves_after [OF missing(3) c(2)] missing(4) by (auto simp: w_acct_def)
next
  case (found c a s1)
  then have "GetOrNewStateObject H d addr s = (Inr c, s1)" by (simp add: GetOrNewStateObject_def obj_rel_def sret_def)
  then show ?thesis using found evolves_quiet [OF found(2,3)] by (auto simp: w_acct_def put_acct_same)
qed

text \<open>A method that changes the account of its object by \<open>g\<close>.\<close>

definition obj_method :: "(bytes \<Rightarrow> bytes) \<Rightarrow> bytes set \<Rightarrow> database \<Rightarrow> (unit, ostate) op \<Rightarrow> (account \<Rightarrow> account) \<Rightarrow> bool" where
  "obj_method H U d m g \<longleftrightarrow> (\<forall>f s A J c a. sim H U d f s A J \<longrightarrow> obj_rel H U d c a \<longrightarrow> accts A (so_address c) = Some a \<longrightarrow> so_address c \<in> U \<longrightarrow>
     (\<exists>s' K. run_obj c m s = (Inr (), s') \<and> evolves H U d f s A J s' (put_acct (so_address c) (g a) A) K))"

lemma method_on_address:
  assumes "obj_method H U d m g" "sim H U d f s A J" "addr \<in> U"
  shows "\<exists>s' K. sbind (GetOrNewStateObject H d addr) (\<lambda>obj. run_obj obj m) s = (Inr (), s') \<and> evolves H U d f s A J s' (w_mod H addr g A) K"
proof -
  let ?a = "w_acct H addr A"
  obtain c s1 K1 where c: "GetOrNewStateObject H d addr s = (Inr c, s1)" "evolves H U d f s A J s1 (put_acct addr ?a A) K1"
    "obj_rel H U d c ?a" "so_address c = addr" using GetOrNew_evolves [OF assms(2,3)] by blast
  have "sim H U d f s1 (put_acct addr ?a A) (J @ K1)" using c(2) by (simp add: evolves_def)
  then obtain s2 K2 where "run_obj c m s1 = (Inr (), s2)"
    "evolves H U d f s1 (put_acct addr ?a A) (J @ K1) s2 (put_acct addr (g ?a) (put_acct addr ?a A)) K2"
    using assms(1,3) c(3,4) unfolding obj_method_def by (metis accts_put fun_upd_same)
  then show ?thesis using c(1) evolves_trans [OF c(2)] by (auto simp: w_mod_def)
qed

text \<open>A method that records one entry and changes the fields of the object.\<close>

lemma run_change:
  assumes "m (c, s) = (Inr (), c', add_journal e s\<lparr>stateObjectsDirty := X\<rparr>)" "sim H U d f s A J" "obj_rel H U d c' a'"
    "so_address c' = so_address c" "jrel H U d f e ae" "aundo ae (put_acct (so_address c) a' A) = Some A"
  shows "\<exists>s' K. run_obj c m s = (Inr (), s') \<and> evolves H U d f s A J s' (put_acct (so_address c) a' A) K"
  using assms(1) change_object [OF assms(2,3,4,5,6), of X] by (auto simp: run_obj_def)

lemma method_changeI:
  assumes m: "\<And>c s a. obj_rel H U d c a \<Longrightarrow> \<exists>X. m (c, s) = (Inr (), ch c, add_journal (e c) s\<lparr>stateObjectsDirty := X\<rparr>)"
    and ad: "\<And>c a. obj_rel H U d c a \<Longrightarrow> so_address (ch c) = so_address c"
    and r: "\<And>c a. obj_rel H U d c a \<Longrightarrow> obj_rel H U d (ch c) (g a)"
    and j: "\<And>f c a. obj_rel H U d c a \<Longrightarrow> so_address c \<in> U \<Longrightarrow> \<exists>ae. jrel H U d f (e c) ae \<and> (\<exists>bk. (\<forall>A. aundo ae A = upd_acct (so_address c) bk A) \<and> bk (g a) = a)"
  shows "obj_method H U d m g"
  unfolding obj_method_def
proof (intro allI impI)
  fix f s A J c a assume s: "sim H U d f s A J" "obj_rel H U d c a" "accts A (so_address c) = Some a" "so_address c \<in> U"
  obtain X where X: "m (c, s) = (Inr (), ch c, add_journal (e c) s\<lparr>stateObjectsDirty := X\<rparr>)" using m [OF s(2)] by blast
  obtain ae bk where ae: "jrel H U d f (e c) ae" "\<And>A. aundo ae A = upd_acct (so_address c) bk A" "bk (g a) = a" using j [OF s(2,4)] by blast
  have "aundo ae (put_acct (so_address c) (g a) A) = Some A" unfolding ae(2) using s(3) ae(3) by (rule upd_acct_back)
  then show "\<exists>s' K. run_obj c m s = (Inr (), s') \<and> evolves H U d f s A J s' (put_acct (so_address c) (g a) A) K"
    using run_change [of m c s "ch c" X "e c" H U d f A J "g a" ae] X s(1) r [OF s(2)] ad [OF s(2)] ae(1) by blast
qed

lemma method_SetBalance: "obj_method H U d (pure_obj (obj_SetBalance b)) (\<lambda>a. a\<lparr>ac_balance := b\<rparr>)"
proof (rule method_changeI [where ch = "\<lambda>c. c\<lparr>so_data := (so_data c)\<lparr>Balance := b\<rparr>, onDirty := False\<rparr>" and e = "\<lambda>c. balanceChange (so_address c) (Balance (so_data c))"])
  fix c s a
  show "\<exists>X. pure_obj (obj_SetBalance b) (c, s) = (Inr (), c\<lparr>so_data := (so_data c)\<lparr>Balance := b\<rparr>, onDirty := False\<rparr>,
      add_journal (balanceChange (so_address c) (Balance (so_data c))) s\<lparr>stateObjectsDirty := X\<rparr>)"
    using fire_onDirty_eq [of "c\<lparr>so_data := (so_data c)\<lparr>Balance := b\<rparr>\<rparr>"] by (simp add: pure_obj_def)
next
  fix c a assume r: "obj_rel H U d c a"
  show "obj_rel H U d (c\<lparr>so_data := (so_data c)\<lparr>Balance := b\<rparr>, onDirty := False\<rparr>) (a\<lparr>ac_balance := b\<rparr>)"
    by (rule obj_rel_fields [OF r]) (use obj_rel_data [OF r] obj_rel_code [OF r] in simp_all)
qed (force simp: obj_rel_def)+

lemma method_SetNonce: "obj_method H U d (pure_obj (obj_SetNonce b)) (\<lambda>a. a\<lparr>ac_nonce := b\<rparr>)"
proof (rule method_changeI [where ch = "\<lambda>c. c\<lparr>so_data := (so_data c)\<lparr>Nonce := b\<rparr>, onDirty := False\<rparr>" and e = "\<lambda>c. nonceChange (so_address c) (Nonce (so_data c))"])
  fix c s a
  show "\<exists>X. pure_obj (obj_SetNonce b) (c, s) = (Inr (), c\<lparr>so_data := (so_data c)\<lparr>Nonce := b\<rparr>, onDirty := False\<rparr>,
      add_journal (nonceChange (so_address c) (Nonce (so_data c))) s\<lparr>stateObjectsDirty := X\<rparr>)"
    using fire_onDirty_eq [of "c\<lparr>so_data := (so_data c)\<lparr>Nonce := b\<rparr>\<rparr>"] by (simp add: pure_obj_def)
next
  fix c a assume r: "obj_rel H U d c a"
  show "obj_rel H U d (c\<lparr>so_data := (so_data c)\<lparr>Nonce := b\<rparr>, onDirty := False\<rparr>) (a\<lparr>ac_nonce := b\<rparr>)"
    by (rule obj_rel_fields [OF r]) (use obj_rel_data [OF r] obj_rel_code [OF r] in simp_all)
qed (force simp: obj_rel_def)+

text \<open>Touching an object leaves the account as it is.\<close>

lemma method_touch: "obj_method H U d (pure_obj obj_touch) (\<lambda>a. a)"
proof (rule method_changeI [where ch = "\<lambda>c. c\<lparr>touched := True, onDirty := False\<rparr>" and e = "\<lambda>c. touchChange (so_address c) (touched c) (\<not> onDirty c)"])
  fix c s a
  show "\<exists>X. pure_obj obj_touch (c, s) = (Inr (), c\<lparr>touched := True, onDirty := False\<rparr>,
      add_journal (touchChange (so_address c) (touched c) (\<not> onDirty c)) s\<lparr>stateObjectsDirty := X\<rparr>)"
    using fire_onDirty_eq [of c "add_journal (touchChange (so_address c) (touched c) (\<not> onDirty c)) s"] by (auto simp: pure_obj_def)
next
  fix c a assume r: "obj_rel H U d c a"
  show "obj_rel H U d (c\<lparr>touched := True, onDirty := False\<rparr>) a"
    by (rule obj_rel_fields [OF r]) (use obj_rel_data [OF r] obj_rel_code [OF r] in simp_all)
qed force+

text \<open>A method that does nothing, and one that is one of two methods depending on the object.\<close>

lemma method_skip: "obj_method H U d (pure_obj (\<lambda>x. x)) (\<lambda>a. a)"
  unfolding obj_method_def
proof (intro allI impI)
  fix f s A J c a assume s: "sim H U d f s A J" "obj_rel H U d c a" "accts A (so_address c) = Some a" "so_address c \<in> U"
  have "db_rel H U d f (setStateObject c s) A"
    using db_rel_setStateObject [OF _ s(2), of f s A] s(1) put_acct_same [OF s(3)] by (simp add: sim_def)
  moreover have "journal (setStateObject c s) = journal s" by (simp add: setStateObject_def)
  ultimately have "evolves H U d f s A J (setStateObject c s) A []" using s(1) by (intro evolves_quiet) (simp_all add: sim_def)
  then show "\<exists>s' K. run_obj c (pure_obj (\<lambda>x. x)) s = (Inr (), s') \<and> evolves H U d f s A J s' (put_acct (so_address c) a A) K"
    using put_acct_same [OF s(3)] by (auto simp: run_obj_def pure_obj_def)
qed

lemma method_cong:
  assumes "\<And>c. \<exists>m' g'. obj_method H U d m' g' \<and> (\<forall>s. m (c, s) = m' (c, s)) \<and> (\<forall>a. obj_rel H U d c a \<longrightarrow> g' a = g a)"
  shows "obj_method H U d m g"
  unfolding obj_method_def
proof (intro allI impI)
  fix f s A J c a assume s: "sim H U d f s A J" "obj_rel H U d c a" "accts A (so_address c) = Some a" "so_address c \<in> U"
  obtain m' g' where m: "obj_method H U d m' g'" "\<forall>s. m (c, s) = m' (c, s)" "g' a = g a" using assms s(2) by blast
  have "run_obj c m s = run_obj c m' s" using m(2) by (simp add: run_obj_def)
  then show "\<exists>s' K. run_obj c m s = (Inr (), s') \<and> evolves H U d f s A J s' (put_acct (so_address c) (g a) A) K"
    using m(1,3) s unfolding obj_method_def by metis
qed

lemma method_AddBalance: "obj_method H U d (pure_obj (obj_AddBalance H n)) (\<lambda>a. a\<lparr>ac_balance := ac_balance a + n\<rparr>)"
proof (rule method_cong)
  fix c
  show "\<exists>m' g'. obj_method H U d m' g' \<and> (\<forall>s. pure_obj (obj_AddBalance H n) (c, s) = m' (c, s))
    \<and> (\<forall>a. obj_rel H U d c a \<longrightarrow> g' a = a\<lparr>ac_balance := ac_balance a + n\<rparr>)"
  proof (cases "n = 0")
    case True
    then show ?thesis using method_touch [of H U d] method_skip [of H U d]
      by (cases "obj_empty H c") (force simp: pure_obj_def)+
  next
    case False
    then show ?thesis using method_SetBalance [of H U d "Balance (so_data c) + n"]
      by (intro exI conjI) (auto simp: pure_obj_def obj_rel_def)
  qed
qed

lemma method_SubBalance: "obj_method H U d (pure_obj (obj_SubBalance n)) (\<lambda>a. a\<lparr>ac_balance := ac_balance a - n\<rparr>)"
proof (rule method_cong)
  fix c
  show "\<exists>m' g'. obj_method H U d m' g' \<and> (\<forall>s. pure_obj (obj_SubBalance n) (c, s) = m' (c, s))
    \<and> (\<forall>a. obj_rel H U d c a \<longrightarrow> g' a = a\<lparr>ac_balance := ac_balance a - n\<rparr>)"
  proof (cases "n = 0")
    case True
    then show ?thesis using method_skip [of H U d] by (force simp: pure_obj_def)
  next
    case False
    then show ?thesis using method_SetBalance [of H U d "Balance (so_data c) - n"]
      by (intro exI conjI) (auto simp: pure_obj_def obj_rel_def)
  qed
qed

lemma code_is_set: "hash32 H \<Longrightarrow> code_is H d code (H (case code of None \<Rightarrow> [] | Some b \<Rightarrow> b)) (case code of None \<Rightarrow> [] | Some b \<Rightarrow> b)"
  by (auto simp: code_is_def emptyCodeHash_def hash32_length split: option.splits)

lemma method_SetCode:
  assumes "hash32 H" "b = (case code of None \<Rightarrow> [] | Some c \<Rightarrow> c)"
  shows "obj_method H U d (pure_obj (obj_SetCode H d (H b) code)) (\<lambda>a. a\<lparr>ac_code := b, ac_codehash := H b\<rparr>)"
proof (rule method_changeI [where ch = "\<lambda>c. snd (obj_Code H d c)\<lparr>so_code := code,
        so_data := (so_data (snd (obj_Code H d c)))\<lparr>CodeHash := H b\<rparr>, dirtyCode := True, onDirty := False\<rparr>"
      and e = "\<lambda>c. codeChange (so_address c) (fst (obj_Code H d c)) (CodeHash (so_data c))"])
  fix c s a assume r: "obj_rel H U d c a"
  obtain p c1 where c1: "obj_Code H d c = (p, c1)" "obj_rel H U d c1 a" "obj_same c c1" using obj_Code_rel [OF r] by blast
  let ?e = "codeChange (so_address c) p (CodeHash (so_data c))"
  obtain X where X: "fire_onDirty (c1\<lparr>so_code := code, so_data := (so_data c1)\<lparr>CodeHash := H b\<rparr>, dirtyCode := True\<rparr>, add_journal ?e s)
    = (c1\<lparr>so_code := code, so_data := (so_data c1)\<lparr>CodeHash := H b\<rparr>, dirtyCode := True, onDirty := False\<rparr>,
       add_journal ?e s\<lparr>stateObjectsDirty := X\<rparr>)"
    using fire_onDirty_eq [of "c1\<lparr>so_code := code, so_data := (so_data c1)\<lparr>CodeHash := H b\<rparr>, dirtyCode := True\<rparr>"] by blast
  show "\<exists>X. pure_obj (obj_SetCode H d (H b) code) (c, s) = (Inr (), snd (obj_Code H d c)\<lparr>so_code := code,
      so_data := (so_data (snd (obj_Code H d c)))\<lparr>CodeHash := H b\<rparr>, dirtyCode := True, onDirty := False\<rparr>,
      add_journal (codeChange (so_address c) (fst (obj_Code H d c)) (CodeHash (so_data c))) s\<lparr>stateObjectsDirty := X\<rparr>)"
    using X c1 by (intro exI [of _ X]) (simp add: pure_obj_def obj_same_def del: fire_onDirty.simps)
next
  fix c a assume r: "obj_rel H U d c a"
  obtain p c1 where c1: "obj_Code H d c = (p, c1)" "obj_rel H U d c1 a" "obj_same c c1" using obj_Code_rel [OF r] by blast
  show "so_address (snd (obj_Code H d c)\<lparr>so_code := code, so_data := (so_data (snd (obj_Code H d c)))\<lparr>CodeHash := H b\<rparr>,
      dirtyCode := True, onDirty := False\<rparr>) = so_address c" using c1 by (simp add: obj_same_def)
  show "obj_rel H U d (snd (obj_Code H d c)\<lparr>so_code := code, so_data := (so_data (snd (obj_Code H d c)))\<lparr>CodeHash := H b\<rparr>,
      dirtyCode := True, onDirty := False\<rparr>) (a\<lparr>ac_code := b, ac_codehash := H b\<rparr>)"
    unfolding c1(1) snd_conv
    by (rule obj_rel_fields [OF c1(2)]) (use obj_rel_data [OF c1(2)] code_is_set [OF assms(1), of d code] assms(2) in simp_all)
next
  fix f c a assume r: "obj_rel H U d c a" and u: "so_address c \<in> U"
  then show "\<exists>ae. jrel H U d f (codeChange (so_address c) (fst (obj_Code H d c)) (CodeHash (so_data c))) ae
    \<and> (\<exists>bk. (\<forall>A. aundo ae A = upd_acct (so_address c) bk A) \<and> bk (a\<lparr>ac_code := b, ac_codehash := H b\<rparr>) = a)"
    using obj_Code_rel [OF r] obj_rel_data [OF r] u
    by (intro exI [of _ "ACode (so_address c) (ac_code a) (CodeHash (so_data c))"] conjI
        exI [of _ "\<lambda>x. x\<lparr>ac_code := ac_code a, ac_codehash := CodeHash (so_data c)\<rparr>"]) auto
qed

lemma obj_rel_setState:
  assumes "obj_rel H U d c a" "k \<in> U" "length v = 32"
  shows "obj_rel H U d (c\<lparr>cachedStorage := AList.update k v (cachedStorage c), dirtyStorage := AList.update k v (dirtyStorage c), onDirty := False\<rparr>)
    (a\<lparr>ac_storage := (ac_storage a)(k := v)\<rparr>)" (is "obj_rel H U d ?c ?a")
proof -
  obtain g where g: "obj_disk H U d c g" "\<forall>k \<in> U. ac_storage a k = obj_storage H c g k" "caches_ok H U c g" using assms by (auto simp: obj_rel_def)
  have "obj_disk H U d ?c g" using obj_disk_cong [of ?c c] g(1) by simp
  moreover have "\<forall>k \<in> U. ac_storage ?a k = obj_storage H ?c g k" using g(2) by (simp add: obj_storage_def update_conv')
  moreover have "caches_ok H U ?c g" using g(3) assms(2,3) by (auto simp: caches_ok_def update_conv' distinct_update)
  ultimately show ?thesis using assms by (auto simp: obj_rel_def)
qed

lemma method_SetState:
  assumes "k \<in> U" "length v = 32"
  shows "obj_method H U d (obj_SetState H d k v) (\<lambda>a. a\<lparr>ac_storage := (ac_storage a)(k := v)\<rparr>)"
  unfolding obj_method_def
proof (intro allI impI)
  fix f s A J c a assume s: "sim H U d f s A J" "obj_rel H U d c a" "accts A (so_address c) = Some a" "so_address c \<in> U"
  obtain c1 where c1: "obj_GetState H d k c = (Inr (ac_storage a k), c1)" "obj_rel H U d c1 a" "obj_same c c1" "length (ac_storage a k) = 32"
    using obj_GetState_rel [OF s(2) assms(1)] by blast
  let ?e = "storageChange (so_address c) k (ac_storage a k)" let ?a = "a\<lparr>ac_storage := (ac_storage a)(k := v)\<rparr>"
  let ?c = "c1\<lparr>cachedStorage := AList.update k v (cachedStorage c1), dirtyStorage := AList.update k v (dirtyStorage c1), onDirty := False\<rparr>"
  have ad: "so_address c1 = so_address c" using c1(3) by (simp add: obj_same_def)
  obtain X where X: "obj_SetState H d k v (c, s) = (Inr (), ?c, add_journal ?e s\<lparr>stateObjectsDirty := X\<rparr>)"
    using fire_onDirty_eq [of "c1\<lparr>cachedStorage := AList.update k v (cachedStorage c1), dirtyStorage := AList.update k v (dirtyStorage c1)\<rparr>"
        "add_journal ?e s"] c1(1) ad by (auto simp del: fire_onDirty.simps)
  have u: "aundo (AStorage (so_address c) k (ac_storage a k)) (put_acct (so_address c) ?a A) = Some A"
    using s(3) by (simp add: upd_acct_back)
  show "\<exists>s' K. run_obj c (obj_SetState H d k v) s = (Inr (), s') \<and> evolves H U d f s A J s' (put_acct (so_address c) ?a A) K"
    using run_change [of "obj_SetState H d k v" c s, OF X s(1) obj_rel_setState [OF c1(2) assms] _ _ u] ad s(4) assms(1) c1(4) by simp
qed

section \<open>The operations refine operations on worlds\<close>

lemmas setters_evolve =
  method_on_address [OF method_AddBalance, folded AddBalance_def]
  method_on_address [OF method_SubBalance, folded SubBalance_def]
  method_on_address [OF method_SetBalance, folded SetBalance_def]
  method_on_address [OF method_SetNonce, folded SetNonce_def]
  method_on_address [OF method_SetState, folded SetState_def]

lemma SetCode_evolves:
  assumes "sim H U d f s A J" "addr \<in> U" "b = (case code of None \<Rightarrow> [] | Some c \<Rightarrow> c)"
  shows "\<exists>s' K. SetCode H d addr code s = (Inr (), s')
    \<and> evolves H U d f s A J s' (w_mod H addr (\<lambda>a. a\<lparr>ac_code := b, ac_codehash := H b\<rparr>) A) K"
  using method_on_address [OF method_SetCode [OF sim_hash32 [OF assms(1)] assms(3)] assms(1,2)]
  unfolding SetCode_def assms(3) .

lemma CreateAccount_evolves:
  assumes "sim H U d f s A J" "addr \<in> U"
  shows "\<exists>s' K. CreateAccount H d addr s = (Inr (), s') \<and> evolves H U d f s A J s' (w_Create H addr A) K"
proof -
  let ?K = "[case accts A addr of None \<Rightarrow> ACreate addr | Some a \<Rightarrow> AReset addr a]"
  obtain c prev s1 where c: "createObject H d addr s = (Inr (c, prev), s1)" "evolves H U d f s A J s1 (put_acct addr (fresh_account H) A) ?K"
    "obj_rel H U d c (fresh_account H)" "so_address c = addr" "rel_option (obj_rel H U d) prev (accts A addr)"
    using createObject_evolves [OF assms] by blast
  show ?thesis
  proof (cases "accts A addr")
    case None
    then have "(fresh_account H)\<lparr>ac_balance := ac_balance (w_acct H addr A)\<rparr> = fresh_account H" by (simp add: w_acct_def fresh_account_def)
    then show ?thesis using c(1,2,5) None by (auto simp: CreateAccount_def sret_def w_Create_def)
  next
    case (Some a)
    then obtain p where p: "prev = Some p" "obj_rel H U d p a" using c(5) by (auto simp: option_rel_Some2)
    let ?b = "Balance (so_data p)" let ?c = "c\<lparr>so_data := (so_data c)\<lparr>Balance := ?b\<rparr>, onDirty := False\<rparr>"
    let ?a = "(fresh_account H)\<lparr>ac_balance := ?b\<rparr>"
    obtain X where X: "obj_setBalance ?b (c, s1) = (?c, s1\<lparr>stateObjectsDirty := X\<rparr>)"
      using fire_onDirty_eq [of "c\<lparr>so_data := (so_data c)\<lparr>Balance := ?b\<rparr>\<rparr>" s1] by auto
    let ?s = "setStateObject ?c (s1\<lparr>stateObjectsDirty := X\<rparr>)"
    have r: "obj_rel H U d ?c ?a"
      by (rule obj_rel_fields [OF c(3)]) (use obj_rel_data [OF c(3)] obj_rel_code [OF c(3)] in simp_all)
    have sim: "sim H U d f s1 (put_acct addr (fresh_account H) A) (J @ ?K)" and fr: "frame s s1" using c(2) by (simp_all add: evolves_def)
    have "db_rel H U d f ?s (put_acct addr ?a A)"
      using db_rel_setStateObject [OF _ r, of f "s1\<lparr>stateObjectsDirty := X\<rparr>" "put_acct addr (fresh_account H) A"] sim c(4) by (simp add: sim_def)
    moreover have "journal ?s = journal s1" "frame s1 ?s" by (simp_all add: setStateObject_def frame_def)
    ultimately have "evolves H U d f s A J ?s (put_acct addr ?a A) ?K"
      using sim frame_trans [OF fr] Some put_acct_same [OF Some] by (simp add: evolves_def sim_def)
    moreover have "ac_balance a = ?b" using obj_rel_data [OF p(2)] by simp
    ultimately show ?thesis using c(1) p(1) X Some by (auto simp: CreateAccount_def run_obj_def pure_obj_def w_Create_def w_acct_def)
  qed
qed

definition w_Suicide :: "address \<Rightarrow> world \<Rightarrow> world" where
  "w_Suicide addr A = (case accts A addr of None \<Rightarrow> A | Some a \<Rightarrow> put_acct addr (a\<lparr>ac_suicided := True, ac_balance := 0\<rparr>) A)"

lemma Suicide_evolves:
  assumes "sim H U d f s A J" "addr \<in> U"
  shows "\<exists>s' K. Suicide H d addr s = (Inr (accts A addr \<noteq> None), s') \<and> evolves H U d f s A J s' (w_Suicide addr A) K"
  using assms
proof (cases rule: getStateObject_cases)
  case (missing s1)
  then show ?thesis using evolves_quiet [OF missing(2,3)] by (auto simp: Suicide_def sret_def w_Suicide_def)
next
  case (found c a s1)
  let ?m = "pure_obj (\<lambda>(c, s). case markSuicided (c, add_journal (suicideChange addr (suicided c) (Balance (so_data c))) s) of
               (c, s) \<Rightarrow> (c\<lparr>so_data := (so_data c)\<lparr>Balance := 0\<rparr>\<rparr>, s))"
  let ?e = "suicideChange addr (suicided c) (Balance (so_data c))" let ?a = "a\<lparr>ac_suicided := True, ac_balance := 0\<rparr>"
  let ?c = "c\<lparr>suicided := True, onDirty := False, so_data := (so_data c)\<lparr>Balance := 0\<rparr>\<rparr>"
  obtain X where "?m (c, s1) = (Inr (), ?c, add_journal ?e s1\<lparr>stateObjectsDirty := X\<rparr>)"
    using fire_onDirty_eq [of "c\<lparr>suicided := True\<rparr>" "add_journal ?e s1"] by (auto simp: pure_obj_def simp del: fire_onDirty.simps)
  moreover have "obj_rel H U d ?c ?a"
    by (rule obj_rel_fields [OF found(5)]) (use obj_rel_data [OF found(5)] obj_rel_code [OF found(5)] in simp_all)
  moreover have "aundo (ASuicide addr (suicided c) (Balance (so_data c))) (put_acct addr ?a A) = Some A"
    using found(4) obj_rel_data [OF found(5)] by (simp add: upd_acct_back)
  ultimately obtain s' K where r: "run_obj c ?m s1 = (Inr (), s')" "evolves H U d f s1 A J s' (put_acct addr ?a A) K"
    using run_change [of ?m c s1 ?c X ?e H U d f A J ?a "ASuicide addr (suicided c) (Balance (so_data c))"] found(2,6) assms(2) by auto
  have "Suicide H d addr s = (Inr True, s')" using found(1) r(1) by (simp add: Suicide_def sret_def)
  then show ?thesis using found(4) evolves_after [OF found(3) r(2)] by (auto simp: w_Suicide_def)
qed

definition w_AddLog :: "hash \<Rightarrow> Log \<Rightarrow> world \<Rightarrow> world" where
  "w_AddLog h l A = A\<lparr>w_logs := (w_logs A)(h := w_logs A h @ [l]), w_logSize := w_logSize A + 1\<rparr>"

definition w_AddPreimage :: "hash \<Rightarrow> bytes \<Rightarrow> world \<Rightarrow> world" where
  "w_AddPreimage h b A = (if w_preimages A h \<noteq> None then A else A\<lparr>w_preimages := (w_preimages A)(h \<mapsto> b)\<rparr>)"

lemma counters_evolve:
  assumes "sim H U d f s A J" "list_all2 (jrel H U d f) [e] [ae]" "journal s' = journal s @ [e]" "db_trie s' = db_trie s"
    "stateObjects s' = stateObjects s" "frame s s'" "accts A' = accts A" "extras s' A'" "aundo ae A' = Some A"
  shows "evolves H U d f s A J s' A' [ae]"
  using assms by (auto simp: evolves_def sim_def db_rel_def wf_objects_def peek_def list_all2_appendI)

lemma AddLog_evolves:
  assumes "sim H U d f s A J"
  shows "evolves H U d f s A J (AddLog l s)
    (w_AddLog (thash s) (l\<lparr>TxHash := thash s, BlockHash := bhash s, TxIndex := of_int (txIndex s), Index := logSize s\<rparr>) A) [ALog (thash s)]"
proof (rule counters_evolve [OF assms])
  have x: "extras s A" using assms by (simp add: sim_def db_rel_def)
  show "extras (AddLog l s) (w_AddLog (thash s) (l\<lparr>TxHash := thash s, BlockHash := bhash s, TxIndex := of_int (txIndex s), Index := logSize s\<rparr>) A)"
    using x by (auto simp: extras_def AddLog_def w_AddLog_def add_journal_def GetLogs_def update_conv' fun_eq_iff)
qed (simp_all add: AddLog_def add_journal_def w_AddLog_def frame_def Let_def)

lemma AddRefund_evolves:
  assumes "sim H U d f s A J"
  shows "evolves H U d f s A J (AddRefund n s) (A\<lparr>w_refund := w_refund A + n\<rparr>) [ARefund (w_refund A)]"
proof (rule counters_evolve [OF assms])
  have x: "extras s A" using assms by (simp add: sim_def db_rel_def)
  show "extras (AddRefund n s) (A\<lparr>w_refund := w_refund A + n\<rparr>)" using x by (simp add: extras_def AddRefund_def add_journal_def GetLogs_def)
  show "list_all2 (jrel H U d f) [refundChange (refund s)] [ARefund (w_refund A)]" using x by (simp add: extras_def)
qed (simp_all add: AddRefund_def add_journal_def frame_def)

lemma AddPreimage_evolves:
  assumes "sim H U d f s A J"
  shows "\<exists>K. evolves H U d f s A J (AddPreimage h b s) (w_AddPreimage h b A) K"
proof (cases "w_preimages A h")
  case None
  have x: "extras s A" using assms by (simp add: sim_def db_rel_def)
  have n: "map_of (preimages s) h = None" using None x by (simp add: extras_def)
  have "evolves H U d f s A J (AddPreimage h b s) (w_AddPreimage h b A) [APreimage h]"
    by (rule counters_evolve [OF assms, where e = "addPreimageChange h"])
      (use None n x in \<open>simp_all add: AddPreimage_def add_journal_def w_AddPreimage_def frame_def extras_def GetLogs_def update_conv' fun_upd_idem\<close>)
  then show ?thesis by blast
next
  case (Some p)
  have "extras s A" using assms by (simp add: sim_def db_rel_def)
  then have "AddPreimage h b s = s" "w_AddPreimage h b A = A" using Some by (simp_all add: extras_def AddPreimage_def w_AddPreimage_def)
  then show ?thesis using evolves_quiet [OF assms frame_refl] by auto
qed

section \<open>Undoing changes\<close>

text \<open>A change of an object that records nothing.\<close>

definition silent :: "(bytes \<Rightarrow> bytes) \<Rightarrow> bytes set \<Rightarrow> database \<Rightarrow> (ostate \<Rightarrow> ostate) \<Rightarrow> account \<Rightarrow> account \<Rightarrow> bool" where
  "silent H U d g a a' \<longleftrightarrow> (\<forall>c s. obj_rel H U d c a \<longrightarrow>
     (\<exists>X c'. g (c, s) = (c', s\<lparr>stateObjectsDirty := X\<rparr>) \<and> obj_rel H U d c' a' \<and> so_address c' = so_address c))"

lemma silent_run:
  assumes "silent H U d g a a'" "sim H U d f s A J" "obj_rel H U d c a"
  shows "\<exists>s'. run_obj c (pure_obj g) s = (Inr (), s') \<and> sim H U d f s' (put_acct (so_address c) a' A) J \<and> frame s s'"
proof -
  obtain X c' where g: "g (c, s) = (c', s\<lparr>stateObjectsDirty := X\<rparr>)" "obj_rel H U d c' a'" "so_address c' = so_address c"
    using assms(1,3) unfolding silent_def by blast
  let ?s = "setStateObject c' (s\<lparr>stateObjectsDirty := X\<rparr>)"
  have "db_rel H U d f ?s (put_acct (so_address c) a' A)"
    using db_rel_setStateObject [OF _ g(2), of f "s\<lparr>stateObjectsDirty := X\<rparr>" A] assms(2) g(3) by (simp add: sim_def)
  moreover have "journal ?s = journal s" "frame s ?s" by (simp_all add: setStateObject_def frame_def)
  ultimately show ?thesis using assms(2) g(1) by (auto simp: run_obj_def pure_obj_def sim_def)
qed

lemma undo_object_sim:
  assumes "sim H U d f s A J" "accts A addr = Some a" "silent H U d g a a'" "addr \<in> U"
  shows "\<exists>s'. undo_object H d addr g s = (Inr (), s') \<and> sim H U d f s' (put_acct addr a' A) J \<and> frame s s'"
  using assms(1,4)
proof (cases rule: getStateObject_cases)
  case (missing s1)
  then show ?thesis using assms(2) by simp
next
  case (found c b s1)
  have "obj_rel H U d c a" using found(4,5) assms(2) by simp
  then obtain s' where "run_obj c (pure_obj g) s1 = (Inr (), s')" "sim H U d f s' (put_acct addr a' A) J" "frame s1 s'"
    using silent_run [OF assms(3) found(2)] found(6) by blast
  then show ?thesis using found(1) frame_trans [OF found(3)] by (auto simp: undo_object_def)
qed

lemma silent_setBalance: "silent H U d (obj_setBalance b) a (a\<lparr>ac_balance := b\<rparr>)"
  unfolding silent_def
proof (intro allI impI)
  fix c s assume r: "obj_rel H U d c a"
  have "obj_rel H U d (c\<lparr>so_data := (so_data c)\<lparr>Balance := b\<rparr>, onDirty := False\<rparr>) (a\<lparr>ac_balance := b\<rparr>)"
    by (rule obj_rel_fields [OF r]) (use obj_rel_data [OF r] obj_rel_code [OF r] in simp_all)
  then show "\<exists>X c'. obj_setBalance b (c, s) = (c', s\<lparr>stateObjectsDirty := X\<rparr>) \<and> obj_rel H U d c' (a\<lparr>ac_balance := b\<rparr>) \<and> so_address c' = so_address c"
    using fire_onDirty_eq [of "c\<lparr>so_data := (so_data c)\<lparr>Balance := b\<rparr>\<rparr>" s] by (auto simp del: fire_onDirty.simps)
qed

lemma silent_setNonce: "silent H U d (obj_setNonce b) a (a\<lparr>ac_nonce := b\<rparr>)"
  unfolding silent_def
proof (intro allI impI)
  fix c s assume r: "obj_rel H U d c a"
  have "obj_rel H U d (c\<lparr>so_data := (so_data c)\<lparr>Nonce := b\<rparr>, onDirty := False\<rparr>) (a\<lparr>ac_nonce := b\<rparr>)"
    by (rule obj_rel_fields [OF r]) (use obj_rel_data [OF r] obj_rel_code [OF r] in simp_all)
  then show "\<exists>X c'. obj_setNonce b (c, s) = (c', s\<lparr>stateObjectsDirty := X\<rparr>) \<and> obj_rel H U d c' (a\<lparr>ac_nonce := b\<rparr>) \<and> so_address c' = so_address c"
    using fire_onDirty_eq [of "c\<lparr>so_data := (so_data c)\<lparr>Nonce := b\<rparr>\<rparr>" s] by (auto simp del: fire_onDirty.simps)
qed

lemma silent_setCode:
  assumes "code_is H d code h b"
  shows "silent H U d (obj_setCode (BytesToHash h) code) a (a\<lparr>ac_code := b, ac_codehash := h\<rparr>)"
  unfolding silent_def
proof (intro allI impI)
  fix c s assume r: "obj_rel H U d c a"
  have h: "BytesToHash h = h" using assms by (simp add: code_is_def)
  let ?c = "c\<lparr>so_code := code, so_data := (so_data c)\<lparr>CodeHash := h\<rparr>, dirtyCode := True\<rparr>"
  have "obj_rel H U d (?c\<lparr>onDirty := False\<rparr>) (a\<lparr>ac_code := b, ac_codehash := h\<rparr>)"
    by (rule obj_rel_fields [OF r]) (use obj_rel_data [OF r] assms in simp_all)
  then show "\<exists>X c'. obj_setCode (BytesToHash h) code (c, s) = (c', s\<lparr>stateObjectsDirty := X\<rparr>)
      \<and> obj_rel H U d c' (a\<lparr>ac_code := b, ac_codehash := h\<rparr>) \<and> so_address c' = so_address c"
    using fire_onDirty_eq [of ?c s] h by (auto simp del: fire_onDirty.simps)
qed

lemma silent_setState:
  assumes "k \<in> U" "length v = 32"
  shows "silent H U d (obj_setState k v) a (a\<lparr>ac_storage := (ac_storage a)(k := v)\<rparr>)"
  unfolding silent_def
proof (intro allI impI)
  fix c s assume r: "obj_rel H U d c a"
  show "\<exists>X c'. obj_setState k v (c, s) = (c', s\<lparr>stateObjectsDirty := X\<rparr>)
      \<and> obj_rel H U d c' (a\<lparr>ac_storage := (ac_storage a)(k := v)\<rparr>) \<and> so_address c' = so_address c"
    using fire_onDirty_eq [of "c\<lparr>cachedStorage := AList.update k v (cachedStorage c), dirtyStorage := AList.update k v (dirtyStorage c)\<rparr>" s]
      obj_rel_setState [OF r assms] by (auto simp del: fire_onDirty.simps)
qed

lemma silent_suicide:
  "silent H U d (\<lambda>(c, s). obj_setBalance bal (c\<lparr>suicided := b\<rparr>, s)) a (a\<lparr>ac_suicided := b, ac_balance := bal\<rparr>)"
  unfolding silent_def
proof (intro allI impI)
  fix c s assume r: "obj_rel H U d c a"
  let ?c = "c\<lparr>suicided := b, so_data := (so_data c)\<lparr>Balance := bal\<rparr>\<rparr>"
  have "obj_rel H U d (?c\<lparr>onDirty := False\<rparr>) (a\<lparr>ac_suicided := b, ac_balance := bal\<rparr>)"
    by (rule obj_rel_fields [OF r]) (use obj_rel_data [OF r] obj_rel_code [OF r] in simp_all)
  then show "\<exists>X c'. (case (c, s) of (c, s) \<Rightarrow> obj_setBalance bal (c\<lparr>suicided := b\<rparr>, s)) = (c', s\<lparr>stateObjectsDirty := X\<rparr>)
      \<and> obj_rel H U d c' (a\<lparr>ac_suicided := b, ac_balance := bal\<rparr>) \<and> so_address c' = so_address c"
    using fire_onDirty_eq [of ?c s] by (auto simp del: fire_onDirty.simps)
qed

lemma silent_touched: "silent H U d (\<lambda>(c, s). (c\<lparr>touched := b\<rparr>, s)) a a"
  unfolding silent_def
proof (intro allI impI)
  fix c s assume r: "obj_rel H U d c a"
  have "obj_rel H U d (c\<lparr>touched := b\<rparr>) a"
    by (rule obj_rel_fields [OF r]) (use obj_rel_data [OF r] obj_rel_code [OF r] in simp_all)
  then show "\<exists>X c'. (case (c, s) of (c, s) \<Rightarrow> (c\<lparr>touched := b\<rparr>, s)) = (c', s\<lparr>stateObjectsDirty := X\<rparr>) \<and> obj_rel H U d c' a \<and> so_address c' = so_address c"
    by (intro exI [of _ "stateObjectsDirty s"]) simp
qed

lemma undo_sim:
  assumes "sim H U d f s A J" "jrel H U d f e ae" "aundo ae A = Some B"
  shows "\<exists>s'. undo H d e s = (Inr (), s') \<and> sim H U d f s' B J \<and> frame s s'"
proof (cases e)
  case (createObjectChange addr)
  let ?s = "s\<lparr>stateObjects := AList.delete addr (stateObjects s), stateObjectsDirty := removeAll addr (stateObjectsDirty s)\<rparr>"
  have e: "f (H addr) = None" "B = A\<lparr>accts := (accts A)(addr := None)\<rparr>" using assms(2,3) createObjectChange by auto
  have "peek H f ?s = (peek H f s)(addr := None)" using e(1) by (auto simp: peek_def load_def delete_conv')
  moreover have "wf_objects H f ?s" using assms(1) by (auto simp: sim_def db_rel_def wf_objects_def delete_conv' split: if_splits)
  ultimately have "db_rel H U d f ?s B" using assms(1) e(2) by (simp add: sim_def db_rel_def extras_def GetLogs_def)
  then show ?thesis using assms(1) createObjectChange by (simp add: sim_def frame_def)
next
  case (resetObjectChange c)
  then obtain a where a: "B = put_acct (so_address c) a A" "obj_rel H U d c a" using assms(2,3) by auto
  have "db_rel H U d f (setStateObject c s) B" using db_rel_setStateObject [OF _ a(2)] assms(1) a(1) by (simp add: sim_def)
  then show ?thesis using assms(1) resetObjectChange by (simp add: sim_def frame_def setStateObject_def)
next
  case (suicideChange addr b bal)
  let ?g = "\<lambda>(c, s). obj_setBalance bal (c\<lparr>suicided := b\<rparr>, s)"
  obtain a where a: "accts A addr = Some a" "addr \<in> U" "B = put_acct addr (a\<lparr>ac_suicided := b, ac_balance := bal\<rparr>) A"
    using assms(2,3) suicideChange by (auto simp: upd_acct_def split: option.splits)
  obtain s' where s': "undo_object H d addr ?g s = (Inr (), s')" "sim H U d f s' B J" "frame s s'"
    using undo_object_sim [OF assms(1) a(1) silent_suicide a(2)] a(3) by blast
  have "undo H d e s = undo_object H d addr ?g s"
    using s'(1) suicideChange by (auto simp: undo_object_def sbind_def sthrow_def split: prod.splits sum.splits option.splits)
  then show ?thesis using s' by simp
next
  case (codeChange addr code h)
  then obtain b a where a: "code_is H d code h b" "accts A addr = Some a" "addr \<in> U" "B = put_acct addr (a\<lparr>ac_code := b, ac_codehash := h\<rparr>) A"
    using assms(2,3) by (auto simp: upd_acct_def split: option.splits)
  then show ?thesis using undo_object_sim [OF assms(1) a(2) silent_setCode [OF a(1)] a(3)] codeChange a(4) by simp
next
  case (addLogChange h)
  then have l: "GetLogs h s \<noteq> []" "B = A\<lparr>w_logs := (w_logs A)(h := butlast (w_logs A h)), w_logSize := w_logSize A - 1\<rparr>"
    using assms by (auto simp: sim_def db_rel_def extras_def split: if_splits)
  let ?r = "if length (GetLogs h s) = 1 then s\<lparr>logs := AList.delete h (logs s), logSize := logSize s - 1\<rparr>
    else s\<lparr>logs := AList.update h (butlast (GetLogs h s)) (logs s), logSize := logSize s - 1\<rparr>"
  have b: "length (GetLogs h s) = 1 \<Longrightarrow> butlast (GetLogs h s) = []" by (cases "GetLogs h s") auto
  have "extras ?r B" using assms(1) l(2) b
    by (auto simp: sim_def db_rel_def extras_def GetLogs_def update_conv' delete_conv' fun_eq_iff)
  then have "db_rel H U d f ?r B" using assms(1) l(2) by (auto simp: sim_def db_rel_def wf_objects_def peek_def)
  moreover have "undo H d e s = (Inr (), ?r)" using addLogChange l(1) by (simp add: Let_def)
  moreover have "journal ?r = journal s" "frame s ?r" by (simp_all add: frame_def)
  ultimately show ?thesis using assms(1) by (simp add: sim_def)
next
  case (touchChange addr prev prevDirty)
  obtain a where a: "accts A addr = Some a" "B = A" and u: "addr \<in> U"
    using assms(2,3) touchChange by (auto simp: upd_acct_def put_acct_same split: option.splits)
  obtain s' where s': "undo_object H d addr (\<lambda>(c, s). (c\<lparr>touched := prev\<rparr>, s)) s = (Inr (), s')" "sim H U d f s' B J" "frame s s'"
    using undo_object_sim [OF assms(1) a(1) silent_touched u, of prev] a put_acct_same [OF a(1)] by auto
  have "sim H U d f (s'\<lparr>stateObjectsDirty := X\<rparr>) B J" "frame s (s'\<lparr>stateObjectsDirty := X\<rparr>)" for X
    using s'(2,3) by (simp_all add: sim_def frame_def)
  then show ?thesis using s' touchChange assms(1) a(2) by (cases "\<not> prev \<and> addr \<noteq> ripemd"; cases prevDirty) (auto simp del: split_paired_Ex)
next
  case (refundChange r)
  then show ?thesis using assms by (auto simp: sim_def db_rel_def extras_def wf_objects_def peek_def frame_def GetLogs_def)
next
  case (addPreimageChange h)
  then show ?thesis using assms by (auto simp: sim_def db_rel_def extras_def wf_objects_def peek_def frame_def GetLogs_def delete_conv')
qed (use assms undo_object_sim [OF assms(1) _ silent_setBalance] undo_object_sim [OF assms(1) _ silent_setNonce]
      undo_object_sim [OF assms(1) _ silent_setState] in \<open>auto simp: upd_acct_def split: option.splits\<close>)

section \<open>Snapshots\<close>

definition search_ok :: "(nat \<Rightarrow> bool) \<Rightarrow> nat \<Rightarrow> nat \<Rightarrow> bool" where
  "search_ok f n r \<longleftrightarrow> r \<le> n \<and> (\<forall>k < r. \<not> f k) \<and> (r < n \<longrightarrow> f r)"

lemma search_loop_spec:
  assumes "\<And>a b. a \<le> b \<Longrightarrow> b < n \<Longrightarrow> f a \<Longrightarrow> f b" 
  shows "i \<le> j \<Longrightarrow> j \<le> n \<Longrightarrow> \<forall>k < i. \<not> f k \<Longrightarrow> j < n \<longrightarrow> f j \<Longrightarrow> search_ok f n (search_loop f i j)"
proof (induction "j - i" arbitrary: i j rule: less_induct)
  case less
  show ?case
  proof (cases "i < j")
    case True
    define h where "h = i + (j - i) div 2"
    have h: "i \<le> h" "h < j" using True by (auto simp: h_def)
    have e: "search_loop f i j = (if \<not> f h then search_loop f (h + 1) j else search_loop f i h)"
      using True by (subst search_loop.simps) (simp add: h_def Let_def)
    show ?thesis
    proof (cases "f h")
      case True
      have "search_ok f n (search_loop f i h)" by (rule less.hyps) (use less.prems h True in auto)
      then show ?thesis using e True by simp
    next
      case False
      have "\<not> f k" if k: "k < h + 1" for k using assms [of k h] False h less.prems(2) k by auto
      then have "search_ok f n (search_loop f (h + 1) j)" by (intro less.hyps) (use less.prems h in auto)
      then show ?thesis using e False by simp
    qed
  next
    case False
    then have "search_loop f i j = j" using less.prems(1) by (subst search_loop.simps) simp
    then show ?thesis using less.prems False by (auto simp: search_ok_def)
  qed
qed

definition revs_ok :: "revision list \<Rightarrow> int \<Rightarrow> nat \<Rightarrow> bool" where
  "revs_ok revs next len \<longleftrightarrow> sorted_wrt (\<lambda>r r'. rev_id r < rev_id r' \<and> journalIndex r \<le> journalIndex r') revs
     \<and> (\<forall>r \<in> set revs. rev_id r < next \<and> journalIndex r \<le> len)"

lemma revs_ok_less:
  "revs_ok revs next len \<Longrightarrow> a < b \<Longrightarrow> b < length revs \<Longrightarrow> rev_id (revs ! a) < rev_id (revs ! b) \<and> journalIndex (revs ! a) \<le> journalIndex (revs ! b)"
  by (auto simp: revs_ok_def dest: sorted_wrt_nth_less)

lemma search_revision:
  assumes "revs_ok (R1 @ r # R2) next len"
  shows "sort_Search (length (R1 @ r # R2)) (\<lambda>i. rev_id ((R1 @ r # R2) ! i) \<ge> rev_id r) = length R1"
proof -
  let ?revs = "R1 @ r # R2" let ?f = "\<lambda>i. rev_id (?revs ! i) \<ge> rev_id r" let ?n = "length ?revs"
  have s: "rev_id (?revs ! a) < rev_id (?revs ! b)" if ab: "a < b" "b < ?n" for a b
    using revs_ok_less [OF assms ab] by simp
  have m: "?f b" if ab: "a \<le> b" "b < ?n" "?f a" for a b using s [of a b] ab by (cases "a = b") auto
  have "search_ok ?f ?n (sort_Search ?n ?f)" unfolding sort_Search_def by (rule search_loop_spec, erule (2) m) simp_all
  then have ok: "sort_Search ?n ?f \<le> ?n" "\<And>k. k < sort_Search ?n ?f \<Longrightarrow> \<not> ?f k" "sort_Search ?n ?f < ?n \<Longrightarrow> ?f (sort_Search ?n ?f)"
    by (simp_all add: search_ok_def)
  have r: "?f (length R1)" "length R1 < ?n" by simp_all
  have "\<not> ?f k" if k: "k < length R1" for k using s [of k "length R1"] k by simp
  then have "\<not> sort_Search ?n ?f < length R1" using ok(3) r(2) by (meson order.strict_trans)
  moreover have "\<not> length R1 < sort_Search ?n ?f" using ok(2) r(1) by blast
  ultimately show ?thesis by (meson linorder_neqE_nat)
qed

lemma search_found:
  assumes "revs_ok revs next len" "sort_Search (length revs) (\<lambda>i. rev_id (revs ! i) \<ge> revid) = idx"
    "idx \<noteq> length revs" "rev_id (revs ! idx) = revid"
  shows "\<exists>R1 r R2. revs = R1 @ r # R2 \<and> rev_id r = revid"
proof -
  have m: "revid \<le> rev_id (revs ! b)" if ab: "a \<le> b" "b < length revs" "revid \<le> rev_id (revs ! a)" for a b
    using revs_ok_less [OF assms(1), of a b] ab by (cases "a = b") auto
  have "search_ok (\<lambda>i. rev_id (revs ! i) \<ge> revid) (length revs) idx"
    unfolding assms(2) [symmetric] sort_Search_def by (rule search_loop_spec, erule (2) m) simp_all
  then have "idx < length revs" using assms(3) by (simp add: search_ok_def)
  then show ?thesis using assms(4) id_take_nth_drop by blast
qed

lemma undo_all_sim:
  assumes "list_all2 (jrel H U d f) es aes" "sim H U d f s A J" "aundo_list aes A = Some B"
  shows "\<exists>s'. undo_all H d es s = (Inr (), s') \<and> sim H U d f s' B J \<and> frame s s'"
  using assms
proof (induction es aes arbitrary: s A rule: list_all2_induct)
  case Nil
  then show ?case by (simp add: sret_def)
next
  case (Cons e es ae aes)
  obtain C where C: "aundo ae A = Some C" "aundo_list aes C = Some B" using Cons.prems(2) by (auto split: option.splits)
  obtain s1 where s1: "undo H d e s = (Inr (), s1)" "sim H U d f s1 C J" "frame s s1"
    using undo_sim [OF Cons.prems(1) Cons.hyps(1) C(1)] by blast
  obtain s2 where s2: "undo_all H d es s1 = (Inr (), s2)" "sim H U d f s2 B J" "frame s1 s2" using Cons.IH [OF s1(2) C(2)] by blast
  then show ?case using s1(1) frame_trans [OF s1(3)] by auto
qed

lemma RevertToSnapshot_sim:
  assumes "sim H U d f s A (J @ K)" "aundo_list (rev K) A = Some B" "validRevisions s = R1 @ r # R2"
    "revs_ok (validRevisions s) next len" "journalIndex r = length J"
  shows "\<exists>s'. RevertToSnapshot H d (rev_id r) s = (Inr (), s') \<and> sim H U d f s' B J \<and> validRevisions s' = R1
    \<and> nextRevisionId s' = nextRevisionId s \<and> thash s' = thash s"
proof -
  let ?n = "length J"
  have j: "list_all2 (jrel H U d f) (journal s) (J @ K)" using assms(1) by (simp add: sim_def)
  have l: "length (journal s) = ?n + length K" using list_all2_lengthD [OF j] by simp
  have "list_all2 (jrel H U d f) (drop ?n (journal s)) K" using list_all2_dropI [OF j, of ?n] by simp
  then have "list_all2 (jrel H U d f) (rev (drop ?n (journal s))) (rev K)" by (simp add: list_all2_rev)
  then obtain s1 where s1: "undo_all H d (rev (drop ?n (journal s))) s = (Inr (), s1)" "sim H U d f s1 B (J @ K)" "frame s s1"
    using undo_all_sim [OF _ assms(1,2)] by blast
  have i: "sort_Search (length (validRevisions s)) (\<lambda>i. rev_id (validRevisions s ! i) \<ge> rev_id r) = length R1"
    using search_revision [of R1 r R2] assms(3,4) by simp
  let ?s = "s1\<lparr>journal := take ?n (journal s1), validRevisions := R1\<rparr>"
  have "RevertToSnapshot H d (rev_id r) s = (Inr (), ?s)"
    unfolding RevertToSnapshot_def Let_def i using assms(3,5) l s1(1) by simp
  moreover have "list_all2 (jrel H U d f) (take ?n (journal s1)) J" using s1(2) list_all2_takeI [of _ "journal s1" "J @ K" ?n] by (simp add: sim_def)
  moreover have "db_rel H U d f ?s B"
    using s1(2) db_rel_cong [of ?s s1 H U d f B] by (simp add: sim_def)
  ultimately show ?thesis using s1(3) by (simp add: sim_def frame_def)
qed

section \<open>Queries\<close>

lemma getStateObject_query:
  assumes "sim H U d f s A J" "addr \<in> U" "\<And>c a. obj_rel H U d c a \<Longrightarrow> q (Some c) = r (Some a)" "q None = r None"
  shows "\<exists>s'. sbind (getStateObject H d addr) (\<lambda>so. sret (q so)) s = (Inr (r (accts A addr)), s') \<and> sim H U d f s' A J \<and> frame s s'"
  using assms(1,2)
proof (cases rule: getStateObject_cases)
  case (missing s1)
  then show ?thesis using assms(4) by (simp add: sret_def)
next
  case (found c a s1)
  then show ?thesis using assms(3) by (simp add: sret_def)
qed

definition w_balance :: "world \<Rightarrow> address \<Rightarrow> int" where
  "w_balance A addr = (case accts A addr of None \<Rightarrow> 0 | Some a \<Rightarrow> ac_balance a)"

definition w_nonce :: "world \<Rightarrow> address \<Rightarrow> u64" where
  "w_nonce A addr = (case accts A addr of None \<Rightarrow> 0 | Some a \<Rightarrow> ac_nonce a)"

definition w_codehash :: "world \<Rightarrow> address \<Rightarrow> hash" where
  "w_codehash A addr = (case accts A addr of None \<Rightarrow> zero_hash | Some a \<Rightarrow> ac_codehash a)"

definition w_code :: "world \<Rightarrow> address \<Rightarrow> bytes" where
  "w_code A addr = (case accts A addr of None \<Rightarrow> [] | Some a \<Rightarrow> ac_code a)"

definition w_state :: "world \<Rightarrow> address \<Rightarrow> hash \<Rightarrow> hash" where
  "w_state A addr k = (case accts A addr of None \<Rightarrow> zero_hash | Some a \<Rightarrow> ac_storage a k)"

definition w_suicided :: "world \<Rightarrow> address \<Rightarrow> bool" where
  "w_suicided A addr = (case accts A addr of None \<Rightarrow> False | Some a \<Rightarrow> ac_suicided a)"

definition w_empty :: "(bytes \<Rightarrow> bytes) \<Rightarrow> world \<Rightarrow> address \<Rightarrow> bool" where
  "w_empty H A addr = (case accts A addr of None \<Rightarrow> True
     | Some a \<Rightarrow> ac_nonce a = 0 \<and> ac_balance a = 0 \<and> ac_codehash a = emptyCodeHash H)"

lemma queries_sim:
  assumes "sim H U d f s A J" "addr \<in> U"
  shows "\<exists>s'. GetBalance H d addr s = (Inr (w_balance A addr), s') \<and> sim H U d f s' A J \<and> frame s s'"
    and "\<exists>s'. GetNonce H d addr s = (Inr (w_nonce A addr), s') \<and> sim H U d f s' A J \<and> frame s s'"
    and "\<exists>s'. GetCodeHash H d addr s = (Inr (w_codehash A addr), s') \<and> sim H U d f s' A J \<and> frame s s'"
    and "\<exists>s'. Exist H d addr s = (Inr (accts A addr \<noteq> None), s') \<and> sim H U d f s' A J \<and> frame s s'"
    and "\<exists>s'. HasSuicided H d addr s = (Inr (w_suicided A addr), s') \<and> sim H U d f s' A J \<and> frame s s'"
    and "\<exists>s'. sdb_Empty H d addr s = (Inr (w_empty H A addr), s') \<and> sim H U d f s' A J \<and> frame s s'"
  unfolding GetBalance_def w_balance_def GetNonce_def w_nonce_def GetCodeHash_def w_codehash_def Exist_def HasSuicided_def w_suicided_def
    sdb_Empty_def w_empty_def
  by (rule getStateObject_query [OF assms]; auto simp: obj_rel_def code_is_def obj_empty_def)+

lemma run_obj_quiet:
  assumes "sim H U d f s A J" "obj_rel H U d c a" "accts A (so_address c) = Some a" "m c = (Inr x, c')" "obj_rel H U d c' a"
    "so_address c' = so_address c"
  shows "\<exists>s'. run_obj c (on_obj m) s = (Inr x, s') \<and> sim H U d f s' A J \<and> frame s s'"
proof -
  have "db_rel H U d f (setStateObject c' s) A"
    using db_rel_setStateObject [OF _ assms(5), of f s A] assms(1,6) put_acct_same [OF assms(3)] by (simp add: sim_def)
  then show ?thesis using assms(1,4) by (simp add: run_obj_def on_obj_def sim_def setStateObject_def frame_def)
qed

lemma GetState_sim:
  assumes "sim H U d f s A J" "addr \<in> U" "k \<in> U"
  shows "\<exists>s'. GetState H d addr k s = (Inr (w_state A addr k), s') \<and> sim H U d f s' A J \<and> frame s s'"
  using assms(1,2)
proof (cases rule: getStateObject_cases)
  case (missing s1)
  then show ?thesis by (simp add: GetState_def sret_def w_state_def)
next
  case (found c a s1)
  obtain c' where c': "obj_GetState H d k c = (Inr (ac_storage a k), c')" "obj_rel H U d c' a" "obj_same c c'"
    using obj_GetState_rel [OF found(5) assms(3)] by blast
  then obtain s' where "run_obj c (on_obj (obj_GetState H d k)) s1 = (Inr (ac_storage a k), s')" "sim H U d f s' A J" "frame s1 s'"
    using run_obj_quiet [OF found(2,5), of "obj_GetState H d k" "ac_storage a k" c'] found(4,6) by (auto simp: obj_same_def)
  then show ?thesis using found(1,4) frame_trans [OF found(3)] by (auto simp: GetState_def w_state_def)
qed

lemma GetCode_sim:
  assumes "sim H U d f s A J" "addr \<in> U"
  shows "\<exists>code s'. GetCode H d addr s = (Inr code, s') \<and> (case code of None \<Rightarrow> [] | Some b \<Rightarrow> b) = w_code A addr
    \<and> sim H U d f s' A J \<and> frame s s'"
  using assms
proof (cases rule: getStateObject_cases)
  case (missing s1)
  then show ?thesis by (auto simp: GetCode_def sret_def w_code_def)
next
  case (found c a s1)
  let ?m = "\<lambda>c. case obj_Code H d c of (code, c) \<Rightarrow> (Inr code, c)"
  obtain code c' where c': "obj_Code H d c = (code, c')" "(case code of None \<Rightarrow> [] | Some b \<Rightarrow> b) = ac_code a" "obj_rel H U d c' a" "obj_same c c'"
    using obj_Code_rel [OF found(5)] by blast
  then obtain s' where "run_obj c (on_obj ?m) s1 = (Inr code, s')" "sim H U d f s' A J" "frame s1 s'"
    using run_obj_quiet [OF found(2,5), of ?m code c'] found(4,6) by (auto simp: obj_same_def)
  then show ?thesis using found(1,4) c'(2) frame_trans [OF found(3)] by (auto simp: GetCode_def w_code_def)
qed

section \<open>Inside a snapshot\<close>

text \<open>A state reached after a snapshot that has not been given up: undoing what the journal recorded since leads to
  the world of the snapshot.\<close>

definition inside :: "(bytes \<Rightarrow> bytes) \<Rightarrow> bytes set \<Rightarrow> database \<Rightarrow> (bytes \<rightharpoonup> bytes) \<Rightarrow> aentry list \<Rightarrow> revision list \<Rightarrow> world
    \<Rightarrow> StateDB \<Rightarrow> world \<Rightarrow> bool" where
  "inside H U d f J0 R0 A0 s A \<longleftrightarrow> (\<exists>K R. sim H U d f s A (J0 @ K) \<and> aundo_list (rev K) A = Some A0 \<and> validRevisions s = R0 @ R
     \<and> revs_ok (R0 @ R) (nextRevisionId s) (length J0 + length K) \<and> (\<forall>r \<in> set R. length J0 \<le> journalIndex r))"

lemma revs_ok_mono: "revs_ok revs n len \<Longrightarrow> n \<le> n' \<Longrightarrow> len \<le> len' \<Longrightarrow> revs_ok revs n' len'"
  by (force simp: revs_ok_def)

lemma inside_evolves:
  assumes "inside H U d f J0 R0 A0 s A" "\<And>J. sim H U d f s A J \<Longrightarrow> \<exists>K. evolves H U d f s A J s' A' K"
  shows "inside H U d f J0 R0 A0 s' A'"
proof -
  obtain K R where k: "sim H U d f s A (J0 @ K)" "aundo_list (rev K) A = Some A0" "validRevisions s = R0 @ R"
    "revs_ok (R0 @ R) (nextRevisionId s) (length J0 + length K)" "\<forall>r \<in> set R. length J0 \<le> journalIndex r" using assms(1) by (auto simp: inside_def)
  obtain K' where k': "evolves H U d f s A (J0 @ K) s' A' K'" using assms(2) [OF k(1)] by blast
  have "revs_ok (R0 @ R) (nextRevisionId s) (length J0 + length (K @ K'))" using revs_ok_mono [OF k(4)] by simp
  then show ?thesis unfolding inside_def
    using k k' by (intro exI [of _ "K @ K'"] exI [of _ R]) (simp add: evolves_def aundo_list_append frame_def)
qed

lemma revs_ok_snoc: "revs_ok revs n len \<Longrightarrow> revs_ok (revs @ [\<lparr>rev_id = n, journalIndex = len\<rparr>]) (n + 1) len"
  unfolding revs_ok_def sorted_wrt_append by (auto simp: zless_add1_eq)

lemma inside_snapshot:
  assumes "inside H U d f J0 R0 A0 s A" "sdb_Snapshot s = (i, s')"
  shows "inside H U d f J0 R0 A0 s' A"
proof -
  obtain K R where k: "sim H U d f s A (J0 @ K)" "aundo_list (rev K) A = Some A0" "validRevisions s = R0 @ R"
    "revs_ok (R0 @ R) (nextRevisionId s) (length J0 + length K)" "\<forall>r \<in> set R. length J0 \<le> journalIndex r" using assms(1) by (auto simp: inside_def)
  let ?r = "\<lparr>rev_id = nextRevisionId s, journalIndex = length (journal s)\<rparr>"
  have s': "s' = s\<lparr>nextRevisionId := nextRevisionId s + 1, validRevisions := validRevisions s @ [?r]\<rparr>"
    using assms(2) by (auto simp: sdb_Snapshot_def Let_def)
  have l: "length (journal s) = length J0 + length K" using k(1) by (auto simp: sim_def dest: list_all2_lengthD)
  have "revs_ok (R0 @ R @ [?r]) (nextRevisionId s + 1) (length J0 + length K)"
    using revs_ok_snoc [OF k(4)] l by simp
  moreover have "sim H U d f s' A (J0 @ K)" using k(1) db_rel_cong [of s' s H U d f A] by (simp add: s' sim_def)
  ultimately show ?thesis unfolding inside_def
    using k l by (intro exI [of _ K] exI [of _ "R @ [?r]"]) (simp add: s')
qed

lemma inside_revert:
  assumes "inside H U d f J0 R0 A0 s A" "RevertToSnapshot H d revid s = (Inr (), s')" "revid \<notin> rev_id ` set R0"
  shows "\<exists>A'. inside H U d f J0 R0 A0 s' A'"
proof -
  obtain K R where k: "sim H U d f s A (J0 @ K)" "aundo_list (rev K) A = Some A0" "validRevisions s = R0 @ R"
    "revs_ok (R0 @ R) (nextRevisionId s) (length J0 + length K)" "\<forall>r \<in> set R. length J0 \<le> journalIndex r" using assms(1) by (auto simp: inside_def)
  obtain Q1 r Q2 where q: "R0 @ R = Q1 @ r # Q2" "rev_id r = revid"
    using search_found [OF k(4) refl] assms(2) k(3) by (fastforce simp: RevertToSnapshot_def Let_def split: if_splits)
  have "r \<in> set R" using q assms(3) by (metis in_set_conv_decomp UnE image_eqI set_append)
  then obtain R1 R2 where r: "R = R1 @ r # R2" by (meson split_list)
  let ?i = "journalIndex r - length J0"
  have i: "length J0 \<le> journalIndex r" "journalIndex r \<le> length J0 + length K" using k(4,5) r by (simp_all add: revs_ok_def)
  let ?K1 = "take ?i K" let ?K2 = "drop ?i K"
  have "aundo_list (rev ?K2 @ rev ?K1) A = Some A0" using k(2) by (simp add: rev_append [symmetric] del: rev_append)
  then obtain B where b: "aundo_list (rev ?K2) A = Some B" "aundo_list (rev ?K1) B = Some A0"
    by (auto simp: aundo_list_append split: option.splits)
  have "sim H U d f s A ((J0 @ ?K1) @ ?K2)" "validRevisions s = (R0 @ R1) @ r # R2" "revs_ok (validRevisions s) (nextRevisionId s) (length J0 + length K)"
    "journalIndex r = length (J0 @ ?K1)" using k r i by simp_all
  then obtain s1 where s1: "RevertToSnapshot H d (rev_id r) s = (Inr (), s1)" "sim H U d f s1 B (J0 @ ?K1)" "validRevisions s1 = R0 @ R1"
    "nextRevisionId s1 = nextRevisionId s" using RevertToSnapshot_sim [OF _ b(1)] by metis
  have "revs_ok (R0 @ R1) (nextRevisionId s) (length J0 + length ?K1)"
    using k(4) i by (auto simp: revs_ok_def r sorted_wrt_append)
  then have "inside H U d f J0 R0 A0 s1 B" unfolding inside_def
    using s1 b(2) k(5) r by (intro exI [of _ ?K1] exI [of _ R1]) simp
  then show ?thesis using s1(1) assms(2) q(2) by auto
qed

end
