(* ===== verification/State_Correct.thy ===== *)
theory State_Correct
  imports State_Rel
begin

text \<open>
  The properties of the account state: its operations refine operations on worlds, a snapshot can be reverted after
  any sequence of operations, and where the code falls short: a reverted touch loses later changes, and a copied
  state shares its account trie with the original.
\<close>

section \<open>Sequences of operations\<close>

datatype sdb_op =
    CreateAccount_op address
  | AddBalance_op address int
  | SubBalance_op address int
  | SetBalance_op address int
  | SetNonce_op address u64
  | SetCode_op address "bytes option"
  | SetState_op address hash hash
  | Suicide_op address
  | AddLog_op Log
  | AddPreimage_op hash bytes
  | AddRefund_op int
  | Snapshot_op
  | Revert_op int
  | Read_op address hash

text \<open>\<open>Read_op\<close> stands for the queries, which load objects and fill caches.\<close>

fun exec_op :: "(bytes \<Rightarrow> bytes) \<Rightarrow> database \<Rightarrow> sdb_op \<Rightarrow> unit sdb" where
  "exec_op H d (CreateAccount_op a) s = CreateAccount H d a s"
| "exec_op H d (AddBalance_op a n) s = AddBalance H d a n s"
| "exec_op H d (SubBalance_op a n) s = SubBalance H d a n s"
| "exec_op H d (SetBalance_op a n) s = SetBalance H d a n s"
| "exec_op H d (SetNonce_op a n) s = SetNonce H d a n s"
| "exec_op H d (SetCode_op a code) s = SetCode H d a code s"
| "exec_op H d (SetState_op a k v) s = SetState H d a k v s"
| "exec_op H d (Suicide_op a) s = sbind (Suicide H d a) (\<lambda>_. sret ()) s"
| "exec_op H d (AddLog_op l) s = (Inr (), AddLog l s)"
| "exec_op H d (AddPreimage_op h b) s = (Inr (), AddPreimage h b s)"
| "exec_op H d (AddRefund_op n) s = (Inr (), AddRefund n s)"
| "exec_op H d Snapshot_op s = (Inr (), snd (sdb_Snapshot s))"
| "exec_op H d (Revert_op i) s = RevertToSnapshot H d i s"
| "exec_op H d (Read_op a k) s =
     sbind (GetBalance H d a) (\<lambda>_. sbind (GetCode H d a) (\<lambda>_. sbind (GetState H d a k) (\<lambda>_. sret ()))) s"

fun run_ops :: "(bytes \<Rightarrow> bytes) \<Rightarrow> database \<Rightarrow> sdb_op list \<Rightarrow> unit sdb" where
  "run_ops H d [] = sret ()"
| "run_ops H d (x # xs) = sbind (exec_op H d x) (\<lambda>_. run_ops H d xs)"

text \<open>The addresses and storage keys of an operation get hashed, and stored values are of type \<open>common.Hash\<close>.\<close>

fun op_ok :: "bytes set \<Rightarrow> sdb_op \<Rightarrow> bool" where
  "op_ok U (CreateAccount_op a) \<longleftrightarrow> a \<in> U"
| "op_ok U (AddBalance_op a n) \<longleftrightarrow> a \<in> U"
| "op_ok U (SubBalance_op a n) \<longleftrightarrow> a \<in> U"
| "op_ok U (SetBalance_op a n) \<longleftrightarrow> a \<in> U"
| "op_ok U (SetNonce_op a n) \<longleftrightarrow> a \<in> U"
| "op_ok U (SetCode_op a code) \<longleftrightarrow> a \<in> U"
| "op_ok U (SetState_op a k v) \<longleftrightarrow> a \<in> U \<and> k \<in> U \<and> length v = 32"
| "op_ok U (Suicide_op a) \<longleftrightarrow> a \<in> U"
| "op_ok U (Read_op a k) \<longleftrightarrow> a \<in> U \<and> k \<in> U"
| "op_ok U _ \<longleftrightarrow> True"

text \<open>A state represents a world: the relation of \<open>sim\<close>, and the stack of snapshots is in order.\<close>

definition represents :: "(bytes \<Rightarrow> bytes) \<Rightarrow> bytes set \<Rightarrow> database \<Rightarrow> StateDB \<Rightarrow> world \<Rightarrow> bool" where
  "represents H U d s A \<longleftrightarrow> (\<exists>f J. sim H U d f s A J \<and> revs_ok (validRevisions s) (nextRevisionId s) (length J))"

lemma inside_Read:
  assumes "inside H U d f J0 R0 A0 s A" "exec_op H d (Read_op a k) s = (Inr (), s')" "a \<in> U" "k \<in> U"
  shows "inside H U d f J0 R0 A0 s' A"
proof (rule inside_evolves [OF assms(1)])
  fix J assume "sim H U d f s A J"
  then obtain s1 where 1: "GetBalance H d a s = (Inr (w_balance A a), s1)" "sim H U d f s1 A J" "frame s s1" using queries_sim(1) assms(3) by blast
  obtain c s2 where 2: "GetCode H d a s1 = (Inr c, s2)" "sim H U d f s2 A J" "frame s1 s2" using GetCode_sim [OF 1(2) assms(3)] by blast
  obtain s3 where 3: "GetState H d a k s2 = (Inr (w_state A a k), s3)" "sim H U d f s3 A J" "frame s2 s3" using GetState_sim [OF 2(2) assms(3,4)] by blast
  have "s' = s3" using assms(2) 1(1) 2(1) 3(1) by (simp add: sret_def)
  then show "\<exists>K. evolves H U d f s A J s' A K" using evolves_quiet [OF 3(2)] 1(3) 2(3) 3(3) frame_trans by metis
qed

lemma inside_op:
  assumes "inside H U d f J0 R0 A0 s A" "r = (Inr x, s')" "\<And>J. sim H U d f s A J \<Longrightarrow> \<exists>s' K. r = (Inr y, s') \<and> evolves H U d f s A J s' A' K"
  shows "inside H U d f J0 R0 A0 s' A'"
proof (rule inside_evolves [OF assms(1)])
  fix J assume "sim H U d f s A J"
  from assms(3) [OF this] show "\<exists>K. evolves H U d f s A J s' A' K" using assms(2) by auto
qed

lemma inside_exec:
  assumes "inside H U d f J0 R0 A0 s A" "exec_op H d x s = (Inr (), s')" "\<And>j. x = Revert_op j \<Longrightarrow> j \<notin> rev_id ` set R0"
    "op_ok U x"
  shows "\<exists>A'. inside H U d f J0 R0 A0 s' A'"
proof (cases x)
  case (Revert_op j)
  then show ?thesis using inside_revert [OF assms(1)] assms(2,3) by simp
next
  case Snapshot_op
  then show ?thesis using inside_snapshot [OF assms(1), of "fst (sdb_Snapshot s)" s'] assms(2) by auto
next
  case (Read_op a k)
  then show ?thesis using inside_Read [OF assms(1)] assms(2,4) by auto
next
  case (AddLog_op l)
  then have "s' = AddLog l s" using assms(2) by simp
  then show ?thesis using inside_evolves [OF assms(1)] AddLog_evolves by blast
next
  case (AddPreimage_op h b)
  then have "s' = AddPreimage h b s" using assms(2) by simp
  then show ?thesis using inside_evolves [OF assms(1)] AddPreimage_evolves by blast
next
  case (AddRefund_op n)
  then have "s' = AddRefund n s" using assms(2) by simp
  then show ?thesis using inside_evolves [OF assms(1)] AddRefund_evolves by blast
next
  case (Suicide_op a)
  then have u: "a \<in> U" using assms(4) by simp
  obtain b where "Suicide H d a s = (Inr b, s')" using assms(2) Suicide_op by (auto simp: sbind_def sret_def split: prod.splits sum.splits)
  from inside_op [OF assms(1) this Suicide_evolves [OF _ u]] show ?thesis by blast
next
  case (SetCode_op a code)
  then have u: "a \<in> U" using assms(4) by simp
  have "SetCode H d a code s = (Inr (), s')" using assms(2) SetCode_op by simp
  from inside_op [OF assms(1) this SetCode_evolves [OF _ u refl]] show ?thesis by blast
next
  case (CreateAccount_op a)
  then have u: "a \<in> U" using assms(4) by simp
  have "CreateAccount H d a s = (Inr (), s')" using assms(2) CreateAccount_op by simp
  from inside_op [OF assms(1) this CreateAccount_evolves [OF _ u]] show ?thesis by blast
next
  case (AddBalance_op a n)
  then have u: "a \<in> U" using assms(4) by simp
  have "AddBalance H d a n s = (Inr (), s')" using assms(2) AddBalance_op by simp
  from inside_op [OF assms(1) this setters_evolve(1) [OF _ u]] show ?thesis by blast
next
  case (SubBalance_op a n)
  then have u: "a \<in> U" using assms(4) by simp
  have "SubBalance H d a n s = (Inr (), s')" using assms(2) SubBalance_op by simp
  from inside_op [OF assms(1) this setters_evolve(2) [OF _ u]] show ?thesis by blast
next
  case (SetBalance_op a n)
  then have u: "a \<in> U" using assms(4) by simp
  have "SetBalance H d a n s = (Inr (), s')" using assms(2) SetBalance_op by simp
  from inside_op [OF assms(1) this setters_evolve(3) [OF _ u]] show ?thesis by blast
next
  case (SetNonce_op a n)
  then have u: "a \<in> U" using assms(4) by simp
  have "SetNonce H d a n s = (Inr (), s')" using assms(2) SetNonce_op by simp
  from inside_op [OF assms(1) this setters_evolve(4) [OF _ u]] show ?thesis by blast
next
  case (SetState_op a k v)
  then have u: "a \<in> U" and uk: "k \<in> U" "length v = 32" using assms(4) by simp_all
  have "SetState H d a k v s = (Inr (), s')" using assms(2) SetState_op by simp
  from inside_op [OF assms(1) this setters_evolve(5) [OF uk _ u]] show ?thesis by blast
qed

lemma inside_run:
  assumes "inside H U d f J0 R0 A0 s A" "run_ops H d ops s = (Inr (), s')" "\<forall>j. Revert_op j \<in> set ops \<longrightarrow> j \<notin> rev_id ` set R0"
    "\<forall>x \<in> set ops. op_ok U x"
  shows "\<exists>A'. inside H U d f J0 R0 A0 s' A'"
  using assms
proof (induction ops arbitrary: s A)
  case Nil
  then show ?case by (auto simp: sret_def)
next
  case (Cons x xs)
  obtain s1 where s1: "exec_op H d x s = (Inr (), s1)" "run_ops H d xs s1 = (Inr (), s')"
    using Cons.prems(2) by (auto simp: sbind_def split: prod.splits sum.splits)
  obtain A1 where "inside H U d f J0 R0 A0 s1 A1" using inside_exec [OF Cons.prems(1) s1(1)] Cons.prems(3,4) by auto
  then show ?case using Cons.IH [OF _ s1(2)] Cons.prems(3,4) by auto
qed

lemma represents_inside:
  "represents H U d s A \<longleftrightarrow> (\<exists>f J. inside H U d f J (validRevisions s) A s A)" (is "?l \<longleftrightarrow> ?r")
proof
  assume ?l
  then obtain f J where "sim H U d f s A J" "revs_ok (validRevisions s) (nextRevisionId s) (length J)" by (auto simp: represents_def)
  then have "inside H U d f J (validRevisions s) A s A" unfolding inside_def by (intro exI [of _ "[]"]) simp
  then show ?r by blast
next
  assume ?r
  then obtain f J K where "sim H U d f s A (J @ K)" "revs_ok (validRevisions s) (nextRevisionId s) (length (J @ K))"
    by (auto simp: inside_def)
  then show ?l unfolding represents_def by blast
qed

lemma represents_of_inside: "inside H U d f J0 R0 A0 s A \<Longrightarrow> represents H U d s A"
  unfolding inside_def represents_def by (metis length_append)

lemma inside_exit:
  assumes "inside H U d f J (R @ [r]) A s A'" "journalIndex r = length J"
  shows "\<exists>s'. RevertToSnapshot H d (rev_id r) s = (Inr (), s') \<and> represents H U d s' A \<and> validRevisions s' = R"
proof -
  obtain K Q where k: "sim H U d f s A' (J @ K)" "aundo_list (rev K) A' = Some A" "validRevisions s = R @ r # Q"
    "revs_ok (validRevisions s) (nextRevisionId s) (length J + length K)" using assms(1) by (auto simp: inside_def)
  obtain s' where s': "RevertToSnapshot H d (rev_id r) s = (Inr (), s')" "sim H U d f s' A J" "validRevisions s' = R"
    "nextRevisionId s' = nextRevisionId s" using RevertToSnapshot_sim [OF k(1-4) assms(2)] by blast
  have "revs_ok R (nextRevisionId s) (length J)"
    using k(3,4) assms(2) by (auto simp: revs_ok_def sorted_wrt_append)
  then show ?thesis using s' unfolding represents_def by auto
qed

section \<open>Encoded accounts\<close>

definition wf_account :: "Account \<Rightarrow> bool" where
  "wf_account a \<longleftrightarrow> 0 \<le> Balance a \<and> Balance a < 2 ^ 256 \<and> length (Root a) = 32 \<and> length (CodeHash a) = 32"

lemma length_encodeString_35: "length b \<le> 34 \<Longrightarrow> length (encodeString b) \<le> 35"
  by (auto simp: encodeString_def encodeStringHeader_def)

lemma account_roundtrip:
  assumes "wf_account a"
  shows "\<exists>b. encode_account a = Inr b \<and> b \<noteq> [] \<and> small_value b \<and> rbind (DecodeBytes account_ty b) val_account = Inr a"
proof -
  let ?v = "VStruct [VUint (Nonce a), VBig (nat (Balance a)), VBytes (Root a), VBytes (CodeHash a)]"
  let ?p = "concat (map encode_item (map val_item [VUint (Nonce a), VBig (nat (Balance a)), VBytes (Root a), VBytes (CodeHash a)]))"
  have "nat (Balance a) < 256 ^ 32" using assms by (simp add: wf_account_def nat_less_iff)
  then have "length (nat_be (nat (Balance a))) \<le> 32" by (rule length_nat_be_le)
  moreover have "length (nat_be (unat (Nonce a))) \<le> 8" using length_nat_be_le [of "unat (Nonce a)" 8] unat_lt_64 [of "Nonce a"] by simp
  ultimately have "length ?p \<le> 140"
    using assms length_encodeString_35 [of "nat_be (nat (Balance a))"] length_encodeString_35 [of "nat_be (unat (Nonce a))"]
      length_encodeString_35 [of "Root a"] length_encodeString_35 [of "CodeHash a"] by (simp add: wf_account_def)
  moreover have "encode_item (val_item ?v) = puthead 0xC0 0xF7 (of_nat (length ?p)) @ ?p" by simp
  moreover have "length (puthead 0xC0 0xF7 (of_nat (length ?p))) \<le> 9" by (rule length_puthead_le)
  ultimately have l: "length (encode_item (val_item ?v)) \<le> 149" by (simp only: length_append)
  have "has_ty account_ty ?v" using assms unat_lt_64 [of "Nonce a"] by (simp add: account_ty_def wf_account_def)
  then have d: "DecodeBytes account_ty (EncodeToBytes (val_item ?v)) = Inr ?v" by (rule DecodeBytes_encoded) (use l in simp)
  have "EncodeToBytes (val_item ?v) \<noteq> []" "small_value (EncodeToBytes (val_item ?v))"
    using l length_enc_pos [of "val_item ?v"] EncodeToBytes_reference(1) [of "val_item ?v"] by (auto simp: small_value_def)
  moreover have "val_account ?v = Inr a" using assms by (cases a) (simp add: wf_account_def)
  ultimately show ?thesis using d assms by (simp add: encode_account_def wf_account_def)
qed

section \<open>A new state\<close>

definition empty_world :: world where
  "empty_world = \<lparr>accts = Map.empty, w_refund = 0, w_logs = (\<lambda>_. []), w_logSize = 0, w_preimages = Map.empty\<rparr>"

lemma sim_new_state:
  assumes "sec_holds H U d t Map.empty"
  shows "sim H U d Map.empty (new_state t) empty_world []"
  using assms by (simp add: sim_def db_rel_def wf_disk_def wf_objects_def extras_def peek_def load_def new_state_def empty_world_def GetLogs_def fun_eq_iff)

lemma represents_new_state:
  assumes "sec_holds H U d t Map.empty"
  shows "represents H U d (new_state t) empty_world"
proof -
  have "revs_ok (validRevisions (new_state t)) (nextRevisionId (new_state t)) (length ([] :: aentry list))"
    by (simp add: revs_ok_def new_state_def)
  then show ?thesis unfolding represents_def using sim_new_state [OF assms] by blast
qed

lemma state_New_empty:
  assumes "hash32 H"
  shows "\<exists>s. state_New H d zero_hash [] = (Inr s, []) \<and> represents H U d s empty_world \<and> (\<exists>t. s = new_state t \<and> sec_holds H U d t Map.empty)"
proof -
  obtain t where "NewSecure zero_hash True d MaxTrieCacheGen = Inr t" "sec_holds H U d t Map.empty"
    using NewSecure_opens [OF opens_zero [OF assms]] by blast
  then show ?thesis using represents_new_state by (auto simp: state_New_def OpenTrie_def sret_def)
qed

text \<open>An operation that evolves the state leaves it representing the new world.\<close>

lemma represents_evolves:
  assumes "represents H U d s A" "\<And>f J. sim H U d f s A J \<Longrightarrow> \<exists>s' K. r = (x, s') \<and> evolves H U d f s A J s' A' K"
  shows "\<exists>s'. r = (x, s') \<and> represents H U d s' A'"
proof -
  obtain f J where s: "sim H U d f s A J" "revs_ok (validRevisions s) (nextRevisionId s) (length J)" using assms(1) by (auto simp: represents_def)
  obtain s' K where k: "r = (x, s')" "evolves H U d f s A J s' A' K" using assms(2) [OF s(1)] by blast
  have "sim H U d f s' A' (J @ K)" "revs_ok (validRevisions s') (nextRevisionId s') (length (J @ K))"
    using k(2) revs_ok_mono [OF s(2)] by (simp_all add: evolves_def frame_def)
  then show ?thesis using k(1) unfolding represents_def by blast
qed

lemma represents_quiet:
  assumes "represents H U d s A" "\<And>f J. sim H U d f s A J \<Longrightarrow> \<exists>s'. r = (x, s') \<and> sim H U d f s' A J \<and> frame s s'"
  shows "\<exists>s'. r = (x, s') \<and> represents H U d s' A"
proof (rule represents_evolves [OF assms(1)])
  fix f J assume "sim H U d f s A J"
  then obtain s' where "r = (x, s')" "sim H U d f s' A J" "frame s s'" using assms(2) by blast
  then show "\<exists>s' K. r = (x, s') \<and> evolves H U d f s A J s' A K" using evolves_quiet by blast
qed

section \<open>Properties\<close>

text \<open>C30. The account state is a map of accounts. Each query answers from the represented world and each setter changes
  exactly the account it names (creating it first when there is none), whatever is loaded, cached or still
  in the trie; no operation panics.\<close>

theorem state_refines_world:
  assumes "represents H U d s A" and "addr \<in> U" and "k \<in> U" and "length v = 32"
  shows "(\<exists>s'. GetBalance H d addr s = (Inr (w_balance A addr), s') \<and> represents H U d s' A)
    \<and> (\<exists>s'. GetNonce H d addr s = (Inr (w_nonce A addr), s') \<and> represents H U d s' A)
    \<and> (\<exists>s'. GetState H d addr k s = (Inr (w_state A addr k), s') \<and> represents H U d s' A)
    \<and> (\<exists>s'. Exist H d addr s = (Inr (accts A addr \<noteq> None), s') \<and> represents H U d s' A)
    \<and> (\<exists>s'. AddBalance H d addr n s = (Inr (), s') \<and> represents H U d s' (w_mod H addr (\<lambda>a. a\<lparr>ac_balance := ac_balance a + n\<rparr>) A))
    \<and> (\<exists>s'. SubBalance H d addr n s = (Inr (), s') \<and> represents H U d s' (w_mod H addr (\<lambda>a. a\<lparr>ac_balance := ac_balance a - n\<rparr>) A))
    \<and> (\<exists>s'. SetNonce H d addr m s = (Inr (), s') \<and> represents H U d s' (w_mod H addr (\<lambda>a. a\<lparr>ac_nonce := m\<rparr>) A))
    \<and> (\<exists>s'. SetState H d addr k v s = (Inr (), s')
         \<and> represents H U d s' (w_mod H addr (\<lambda>a. a\<lparr>ac_storage := (ac_storage a)(k := v)\<rparr>) A))
    \<and> (\<exists>s'. SetCode H d addr (Some b) s = (Inr (), s')
         \<and> represents H U d s' (w_mod H addr (\<lambda>a. a\<lparr>ac_code := b, ac_codehash := H b\<rparr>) A))
    \<and> (\<exists>s'. CreateAccount H d addr s = (Inr (), s') \<and> represents H U d s' (w_Create H addr A))
    \<and> (\<exists>s'. Suicide H d addr s = (Inr (accts A addr \<noteq> None), s') \<and> represents H U d s' (w_Suicide addr A))"
proof (intro conjI)
  show "\<exists>s'. GetBalance H d addr s = (Inr (w_balance A addr), s') \<and> represents H U d s' A"
    "\<exists>s'. GetNonce H d addr s = (Inr (w_nonce A addr), s') \<and> represents H U d s' A"
    "\<exists>s'. Exist H d addr s = (Inr (accts A addr \<noteq> None), s') \<and> represents H U d s' A"
    "\<exists>s'. GetState H d addr k s = (Inr (w_state A addr k), s') \<and> represents H U d s' A"
    by (rule represents_quiet [OF assms(1)], erule queries_sim(1,2,4) [OF _ assms(2)] GetState_sim [OF _ assms(2,3)])+
  show "\<exists>s'. SetCode H d addr (Some b) s = (Inr (), s')
      \<and> represents H U d s' (w_mod H addr (\<lambda>a. a\<lparr>ac_code := b, ac_codehash := H b\<rparr>) A)"
    by (rule represents_evolves [OF assms(1)], erule SetCode_evolves [OF _ assms(2)], simp)
qed (rule represents_evolves [OF assms(1)], erule setters_evolve(1-4) [OF _ assms(2)] setters_evolve(5) [OF assms(3,4) _ assms(2)]
    CreateAccount_evolves [OF _ assms(2)] Suicide_evolves [OF _ assms(2)])+

theorem state_refines_world_witness:
  "\<exists>s s1 s2. state_New pad_hash Map.empty zero_hash [] = (Inr s, []) \<and> AddBalance pad_hash Map.empty zero_address 7 s = (Inr (), s1)
     \<and> GetBalance pad_hash Map.empty zero_address s1 = (Inr 7, s2)"
proof -
  obtain s where s: "state_New pad_hash Map.empty zero_hash [] = (Inr s, [])" "represents pad_hash UNIV Map.empty s empty_world"
    using state_New_empty [OF hash32_pad] by blast
  obtain s1 where s1: "AddBalance pad_hash Map.empty zero_address 7 s = (Inr (), s1)"
    "represents pad_hash UNIV Map.empty s1 (w_AddBalance pad_hash zero_address 7 empty_world)"
    using state_refines_world [OF s(2), of zero_address zero_hash zero_hash 7] by auto
  have "w_balance (w_AddBalance pad_hash zero_address 7 empty_world) zero_address = 7"
    by (simp add: w_balance_def w_mod_def w_acct_def empty_world_def fresh_account_def)
  moreover have "\<exists>s'. GetBalance pad_hash Map.empty zero_address s1 = (Inr (w_balance (w_AddBalance pad_hash zero_address 7 empty_world) zero_address), s')"
    using state_refines_world [OF s1(2) UNIV_I UNIV_I, of zero_hash, THEN conjunct1] by auto
  ultimately show ?thesis using s(1) s1(1) by simp
qed

text \<open>C31. A snapshot can always be reverted. Whatever operations follow \<open>Snapshot\<close> - creating, changing and destroying
  accounts, logs, refunds, reads, and further snapshots with their own reverts - \<open>RevertToSnapshot\<close> succeeds and the
  state represents the world of the snapshot again.\<close>

theorem snapshot_revert:
  assumes "represents H U d s A" and "sdb_Snapshot s = (i, s1)" and "run_ops H d ops s1 = (Inr (), s2)"
    and "\<forall>x \<in> set ops. op_ok U x" and "\<forall>j. Revert_op j \<in> set ops \<longrightarrow> i < j"
  shows "\<exists>s3. RevertToSnapshot H d i s2 = (Inr (), s3) \<and> represents H U d s3 A"
proof -
  obtain f J where s: "sim H U d f s A J" "revs_ok (validRevisions s) (nextRevisionId s) (length J)" using assms(1) by (auto simp: represents_def)
  let ?r = "\<lparr>rev_id = i, journalIndex = length (journal s)\<rparr>"
  have e: "i = nextRevisionId s" "s1 = s\<lparr>nextRevisionId := i + 1, validRevisions := validRevisions s @ [?r]\<rparr>"
    using assms(2) by (auto simp: sdb_Snapshot_def Let_def)
  have l: "length (journal s) = length J" using s(1) by (auto simp: sim_def dest: list_all2_lengthD)
  have "sim H U d f s1 A J" using s(1) db_rel_cong [of s1 s H U d f A] by (simp add: e(2) sim_def)
  then have "inside H U d f J (validRevisions s @ [?r]) A s1 A"
    unfolding inside_def using revs_ok_snoc [OF s(2)] l by (intro exI [of _ "[]"]) (simp add: e)
  moreover have "\<forall>j. Revert_op j \<in> set ops \<longrightarrow> j \<notin> rev_id ` set (validRevisions s @ [?r])"
    using assms(5) s(2) e(1) by (fastforce simp: revs_ok_def)
  ultimately obtain A' where "inside H U d f J (validRevisions s @ [?r]) A s2 A'" using inside_run [OF _ assms(3) _ assms(4)] by blast
  from inside_exit [OF this] l show ?thesis by auto
qed

theorem snapshot_revert_witness:
  "\<exists>s s1 s2 s3. state_New pad_hash Map.empty zero_hash [] = (Inr s, []) \<and> sdb_Snapshot s = (0, s1)
     \<and> run_ops pad_hash Map.empty [AddBalance_op zero_address 7] s1 = (Inr (), s2)
     \<and> RevertToSnapshot pad_hash Map.empty 0 s2 = (Inr (), s3) \<and> fst (GetBalance pad_hash Map.empty zero_address s3) = Inr 0"
proof -
  obtain s t where s: "state_New pad_hash Map.empty zero_hash [] = (Inr s, [])" "represents pad_hash UNIV Map.empty s empty_world" "s = new_state t"
    "sec_holds pad_hash UNIV Map.empty t Map.empty" using state_New_empty [OF hash32_pad] by blast
  obtain s1 where s1: "sdb_Snapshot s = (0, s1)" by (auto simp: sdb_Snapshot_def Let_def s(3) new_state_def)
  have "sim pad_hash UNIV Map.empty Map.empty s empty_world []" unfolding s(3) by (rule sim_new_state [OF s(4)])
  then have "sim pad_hash UNIV Map.empty Map.empty s1 empty_world []"
    using s1 db_rel_cong [of s1 s pad_hash UNIV Map.empty Map.empty empty_world] by (auto simp: sim_def sdb_Snapshot_def Let_def)
  then obtain s2 where "AddBalance pad_hash Map.empty zero_address 7 s1 = (Inr (), s2)" using setters_evolve(1) by blast
  then have s2: "run_ops pad_hash Map.empty [AddBalance_op zero_address 7] s1 = (Inr (), s2)" by (simp add: sret_def)
  obtain s3 where s3: "RevertToSnapshot pad_hash Map.empty 0 s2 = (Inr (), s3)" "represents pad_hash UNIV Map.empty s3 empty_world"
    using snapshot_revert [OF s(2) s1 s2] by auto
  obtain f J where "sim pad_hash UNIV Map.empty f s3 empty_world J" using s3(2) by (auto simp: represents_def)
  then have "fst (GetBalance pad_hash Map.empty zero_address s3) = Inr 0"
    using queries_sim(1) [of pad_hash UNIV Map.empty f s3 empty_world J zero_address] by (auto simp: w_balance_def empty_world_def)
  then show ?thesis using s(1) s1 s2 s3(1) by blast
qed

text \<open>The object that a reverted touch leaves behind has lost its callback.\<close>

lemma getStateObject_load:
  assumes "map_of (stateObjects s) addr = None" "sec_TryGet H d addr (db_trie s) = (Inr (Some b), t)" "b \<noteq> []"
    "rbind (DecodeBytes account_ty b) val_account = Inr data"
  shows "getStateObject H d addr s = (Inr (Some (newObject H addr data True)), setStateObject (newObject H addr data True) (s\<lparr>db_trie := t\<rparr>))"
  using assms by (simp add: getStateObject_def on_trie_def scatch_def Let_def)

lemma sort_Search_one: "sort_Search (Suc 0) f = (if f 0 then 0 else 1)"
  by (simp add: sort_Search_def search_loop.simps [of f 0 "Suc 0"] search_loop.simps [of f 0 0] search_loop.simps [of f "Suc 0" "Suc 0"])

lemma Finalise_clean:
  assumes "stateObjectsDirty s = []"
  shows "Finalise H d del s = (Inr (), clearJournalAndRefund s)"
  using assms by (simp add: Finalise_def sret_def sbind_def)

lemma IntermediateRoot_clean:
  assumes "stateObjectsDirty s = []"
  shows "fst (IntermediateRoot H d del s) = fst (sec_Hash H (db_trie s))"
  using Finalise_clean [OF assms]
  by (simp add: IntermediateRoot_def sbind_def on_trie_def clearJournalAndRefund_def split: prod.split)

text \<open>C32. A touch that is reverted loses later changes. When an empty account is loaded from the trie, touched by a zero
  transfer inside a snapshot and the snapshot is reverted, the account is taken off the dirty set but its
  \<open>onDirty\<close> callback is not restored. A later credit is visible to queries, yet it never reaches the account trie:
  the intermediate root does not change.\<close>

theorem reverted_touch_loses_updates:
  assumes "sec_TryGet H d addr t = (Inr (Some b), t')" and "b \<noteq> []"
    and "rbind (DecodeBytes account_ty b) val_account = Inr data" and "obj_empty H (newObject H addr data True)"
    and "addr \<noteq> ripemd" and "n \<noteq> 0"
  shows "\<exists>s1 s2 s3 s4. sdb_Snapshot (new_state t) = (0, s1) \<and> AddBalance H d addr 0 s1 = (Inr (), s2)
    \<and> RevertToSnapshot H d 0 s2 = (Inr (), s3) \<and> AddBalance H d addr n s3 = (Inr (), s4)
    \<and> fst (GetBalance H d addr s4) = Inr n \<and> stateObjectsDirty s4 = []
    \<and> fst (IntermediateRoot H d del s4) = fst (sec_Hash H t')"
proof -
  let ?c = "newObject H addr data True" let ?c1 = "?c\<lparr>onDirty := False, touched := True\<rparr>"
  let ?c2 = "?c\<lparr>onDirty := False\<rparr>" let ?c3 = "?c2\<lparr>so_data := data\<lparr>Balance := n\<rparr>\<rparr>"
  let ?r = "\<lparr>rev_id = 0, journalIndex = 0\<rparr>"
  let ?s0 = "new_state t" let ?s1 = "?s0\<lparr>nextRevisionId := 1, validRevisions := [?r]\<rparr>"
  let ?s2 = "?s1\<lparr>db_trie := t', stateObjects := [(addr, ?c1)], stateObjectsDirty := [addr], journal := [touchChange addr False False]\<rparr>"
  let ?s3 = "?s2\<lparr>stateObjects := [(addr, ?c2)], stateObjectsDirty := [], journal := [], validRevisions := []\<rparr>"
  let ?s4 = "?s3\<lparr>stateObjects := [(addr, ?c3)], journal := [balanceChange addr 0]\<rparr>"
  have 1: "sdb_Snapshot ?s0 = (0, ?s1)" by (simp add: sdb_Snapshot_def Let_def new_state_def)
  have "getStateObject H d addr ?s1 = (Inr (Some ?c), setStateObject ?c (?s1\<lparr>db_trie := t'\<rparr>))"
    by (rule getStateObject_load) (use assms in \<open>simp_all add: new_state_def\<close>)
  then have 2: "AddBalance H d addr 0 ?s1 = (Inr (), ?s2)"
    using assms(4) by (simp add: AddBalance_def GetOrNewStateObject_def sbind_def sret_def run_obj_def pure_obj_def
      setStateObject_def MarkStateObjectDirty_def add_journal_def new_state_def newObject_def List.insert_def)
  have "undo H d (touchChange addr False False) ?s2 = (Inr (), ?s2\<lparr>stateObjects := [(addr, ?c2)], stateObjectsDirty := []\<rparr>)"
    using assms(5) by (simp add: undo_object_def getStateObject_def sbind_def sret_def run_obj_def pure_obj_def
      setStateObject_def newObject_def)
  then have 3: "RevertToSnapshot H d 0 ?s2 = (Inr (), ?s3)"
    by (simp add: RevertToSnapshot_def sort_Search_one Let_def sbind_def sret_def new_state_def)
  have b: "Balance data = 0" using assms(4) by (simp add: obj_empty_def newObject_def)
  have 4: "AddBalance H d addr n ?s3 = (Inr (), ?s4)"
    using assms(6) b by (simp add: AddBalance_def GetOrNewStateObject_def getStateObject_def sbind_def sret_def run_obj_def pure_obj_def
      setStateObject_def add_journal_def new_state_def newObject_def)
  have "fst (GetBalance H d addr ?s4) = Inr n"
    by (simp add: GetBalance_def getStateObject_def sbind_def sret_def newObject_def)
  moreover have "fst (IntermediateRoot H d del ?s4) = fst (sec_Hash H t')" using IntermediateRoot_clean [of ?s4 H d del] by simp
  ultimately show ?thesis using 1 2 3 4 by (intro exI [of _ ?s1] exI [of _ ?s2] exI [of _ ?s3] exI [of _ ?s4]) simp
qed

theorem reverted_touch_loses_updates_witness:
  "\<exists>b t s1 s2 s3 s4. encode_account (zero_Account pad_hash) = Inr b
    \<and> fst (sec_TryGet pad_hash Map.empty zero_address t) = Inr (Some b)
    \<and> sdb_Snapshot (new_state t) = (0, s1) \<and> AddBalance pad_hash Map.empty zero_address 0 s1 = (Inr (), s2)
    \<and> RevertToSnapshot pad_hash Map.empty 0 s2 = (Inr (), s3) \<and> AddBalance pad_hash Map.empty zero_address 5 s3 = (Inr (), s4)
    \<and> fst (GetBalance pad_hash Map.empty zero_address s4) = Inr 5 \<and> stateObjectsDirty s4 = []"
proof -
  have "length (pad_hash []) = 32" using hash32_pad by (simp add: hash32_def)
  then have "wf_account (zero_Account pad_hash)" by (simp add: wf_account_def zero_Account_def emptyCodeHash_def)
  then obtain b where b: "encode_account (zero_Account pad_hash) = Inr b" "b \<noteq> []" "small_value b"
    "rbind (DecodeBytes account_ty b) val_account = Inr (zero_Account pad_hash)" using account_roundtrip by blast
  obtain t0 where "sec_holds pad_hash UNIV Map.empty t0 Map.empty" using NewSecure_opens [OF opens_zero [OF hash32_pad]] by blast
  then obtain t where "sec_holds pad_hash UNIV Map.empty t [pad_hash zero_address \<mapsto> b]" using sec_TryUpdate_holds [OF _ UNIV_I b(3,2)] by fastforce
  from sec_TryGet_holds [OF this, of zero_address]
  obtain t' where t: "sec_TryGet pad_hash Map.empty zero_address t = (Inr (Some b), t')" by auto
  have "last zero_address \<noteq> last ripemd" by (simp add: zero_address_def ripemd_def)
  then have "zero_address \<noteq> ripemd" by metis
  moreover have "obj_empty pad_hash (newObject pad_hash zero_address (zero_Account pad_hash) True)"
    by (simp add: obj_empty_def newObject_def zero_Account_def)
  ultimately obtain s1 s2 s3 s4 where "sdb_Snapshot (new_state t) = (0, s1)" "AddBalance pad_hash Map.empty zero_address 0 s1 = (Inr (), s2)"
    "RevertToSnapshot pad_hash Map.empty 0 s2 = (Inr (), s3)" "AddBalance pad_hash Map.empty zero_address 5 s3 = (Inr (), s4)"
    "fst (GetBalance pad_hash Map.empty zero_address s4) = Inr 5" "stateObjectsDirty s4 = []"
    using reverted_touch_loses_updates [OF t b(2,4), where n = 5 and del = False] by auto
  then show ?thesis using t b(1) by (intro exI [of _ b] exI [of _ t] exI [of _ s1] exI [of _ s2] exI [of _ s3] exI [of _ s4]) simp
qed

end
