(* ===== verification/Evm_World.thy ===== *)
theory Evm_World
  imports Evm_Words State_Correct
begin

text \<open>
  Running the virtual machine on the state database. The operations of \<open>core/state\<close> that the machine uses never fail on
  a state that represents a world, and the world changes as the operation says. Total-correctness triples \<open>tri\<close> state
  this for operations on the machine, relative to every snapshot that is still open. The locale \<open>machine\<close> takes a
  relation between the worlds before and after; it is interpreted with the trivial relation for ordinary execution and
  with the equality of all observable accounts for static calls.
\<close>

section \<open>Worlds the machine runs in\<close>

definition small_code :: "bytes \<Rightarrow> bool" where
  "small_code code \<longleftrightarrow> length code < 2 ^ 62"

lemma small_code_Nil [simp]: "small_code []"
  by (simp add: small_code_def)

text \<open>No finite set of accounts owns more than \<open>T\<close>.\<close>

definition supply_le :: "int \<Rightarrow> world \<Rightarrow> bool" where
  "supply_le T A \<longleftrightarrow> (\<forall>X. finite X \<longrightarrow> (\<Sum>a\<in>X. w_balance A a) \<le> T)"

lemma supply_balance: "supply_le T A \<Longrightarrow> w_balance A a \<le> T"
  unfolding supply_le_def by (drule spec [of _ "{a}"]) simp

lemma supply_mono:
  assumes "\<And>a. w_balance A' a \<le> w_balance A a" "supply_le T A"
  shows "supply_le T A'"
proof -
  have "(\<Sum>a\<in>X. w_balance A' a) \<le> (\<Sum>a\<in>X. w_balance A a)" for X by (rule sum_mono) (rule assms(1))
  then show ?thesis using assms(2) unfolding supply_le_def by (meson order_trans)
qed

text \<open>An amount that moves from one account to another: the sums over a set grow only if the set misses the sender.\<close>

lemma supply_move:
  assumes "supply_le T A" "\<And>a. 0 \<le> w_balance A a" "0 \<le> n" "n \<le> w_balance A src"
    "\<And>a. w_balance A' a \<le> w_balance A a + (if a = dst then n else 0) - (if a = src then n else 0)"
  shows "supply_le T A'"
  unfolding supply_le_def
proof (intro allI impI)
  fix X :: "address set" assume X: "finite X"
  let ?f = "\<lambda>a. w_balance A a + (if a = dst then n else 0) - (if a = src then n else 0)"
  let ?Y = "insert src X"
  have Y: "(\<Sum>a\<in>?Y. w_balance A a) \<le> T" using assms(1) X unfolding supply_le_def by simp
  have "(\<Sum>a\<in>X. w_balance A' a) \<le> (\<Sum>a\<in>X. ?f a)" by (rule sum_mono) (rule assms(5))
  also have "\<dots> \<le> (\<Sum>a\<in>?Y. ?f a)" by (rule sum_mono2) (use X assms(2-4) in auto)
  also have "\<dots> = (\<Sum>a\<in>?Y. w_balance A a) + (\<Sum>a\<in>?Y. if a = dst then n else 0) - (\<Sum>a\<in>?Y. if a = src then n else 0)"
    by (simp only: sum_subtractf sum.distrib)
  also have "(\<Sum>a\<in>?Y. if a = src then n else 0) = n" using X by simp
  also have "(\<Sum>a\<in>?Y. if a = dst then n else 0) \<le> n" using X assms(3) by simp
  finally show "(\<Sum>a\<in>X. w_balance A' a) \<le> T" using Y by linarith
qed

definition max_supply :: int where
  "max_supply = 2 ^ 256 - 1"

definition wok :: "(bytes \<Rightarrow> bytes) \<Rightarrow> world \<Rightarrow> bool" where
  "wok H A \<longleftrightarrow> supply_le max_supply A \<and> (\<forall>addr a. accts A addr = Some a \<longrightarrow>
     0 \<le> ac_balance a \<and> ac_codehash a = H (ac_code a) \<and> small_code (ac_code a))"

lemma accts_put_acct: "accts (put_acct addr a A) = (accts A)(addr \<mapsto> a)"
  by (simp add: put_acct_def)

lemma w_balance_put: "w_balance (put_acct addr a A) b = (if b = addr then ac_balance a else w_balance A b)"
  by (simp add: w_balance_def accts_put_acct)

lemma w_balance_AddBalance: "w_balance (w_AddBalance H addr n A) b = w_balance A b + (if b = addr then n else 0)"
  by (simp add: w_mod_def w_balance_put) (simp add: w_balance_def w_acct_def fresh_account_def split: option.splits)

lemma w_balance_Create: "w_balance (w_Create H addr A) b = w_balance A b"
  by (simp add: w_Create_def w_balance_put) (simp add: w_balance_def w_acct_def fresh_account_def split: option.splits)

lemma w_balance_Suicide: "w_balance (w_Suicide addr A) b = (if b = addr then 0 else w_balance A b)"
  by (simp add: w_Suicide_def w_balance_def accts_put_acct split: option.splits)

lemma wok_acct:
  assumes "wok H A"
  shows "ac_codehash (w_acct H addr A) = H (ac_code (w_acct H addr A))" "small_code (ac_code (w_acct H addr A))"
    "ac_balance (w_acct H addr A) = w_balance A addr"
  using assms by (auto simp: wok_def w_acct_def fresh_account_def emptyCodeHash_def w_balance_def split: option.splits)

lemma wok_balance: "wok H A \<Longrightarrow> 0 \<le> w_balance A addr"
  by (auto simp: wok_def w_balance_def split: option.splits)

lemma wok_supply: "wok H A \<Longrightarrow> supply_le max_supply A"
  by (simp add: wok_def)

lemma wok_word:
  assumes "wok H A"
  shows "in_word (w_balance A addr)"
  using wok_balance [OF assms, of addr] supply_balance [OF wok_supply [OF assms], of addr] unfolding in_word_def max_supply_def by linarith

lemma wok_cong: "accts A' = accts A \<Longrightarrow> wok H A \<Longrightarrow> wok H A'"
  by (simp add: wok_def supply_le_def w_balance_def)

lemma wok_put:
  assumes "wok H A" "supply_le max_supply (put_acct addr a A)" "0 \<le> ac_balance a" "ac_codehash a = H (ac_code a)" "small_code (ac_code a)"
  shows "wok H (put_acct addr a A)"
  using assms unfolding wok_def by (simp add: accts_put_acct)

text \<open>Changes of an account that keep its balance keep the supply.\<close>

lemma supply_mod:
  assumes "\<And>a. ac_balance (g a) = ac_balance a"
  shows "supply_le T (w_mod H addr g A) = supply_le T A"
proof -
  have "w_balance (w_mod H addr g A) b = w_balance A b" for b
    by (simp add: w_mod_def w_balance_put assms) (simp add: w_balance_def w_acct_def fresh_account_def split: option.splits)
  then show ?thesis by (simp add: supply_le_def)
qed

lemma wok_mod:
  assumes "wok H A" "\<And>a. ac_balance (g a) = ac_balance a" "ac_codehash (g (w_acct H addr A)) = H (ac_code (g (w_acct H addr A)))"
    "small_code (ac_code (g (w_acct H addr A)))"
  shows "wok H (w_mod H addr g A)"
proof -
  have "supply_le max_supply (w_mod H addr g A)" using assms(1,2) by (simp add: supply_mod wok_def)
  then show ?thesis using wok_put [OF assms(1), of addr "g (w_acct H addr A)"] assms wok_balance [OF assms(1)]
    unfolding w_mod_def by (simp add: wok_acct [OF assms(1)])
qed

lemma supply_Create: "supply_le T (w_Create H addr A) = supply_le T A"
  by (simp add: supply_le_def w_balance_Create)

lemma wok_Create:
  assumes "wok H A"
  shows "wok H (w_Create H addr A)"
proof -
  have "supply_le max_supply (w_Create H addr A)" using wok_supply [OF assms] by (simp add: supply_Create)
  then show ?thesis unfolding w_Create_def
    by (rule wok_put [OF assms]) (simp_all add: wok_acct [OF assms] wok_balance [OF assms] fresh_account_def emptyCodeHash_def)
qed

definition w_Transfer :: "(bytes \<Rightarrow> bytes) \<Rightarrow> address \<Rightarrow> address \<Rightarrow> int \<Rightarrow> world \<Rightarrow> world" where
  "w_Transfer H src dst n A = w_AddBalance H dst n (w_AddBalance H src (- n) A)"

lemma w_balance_Transfer: "w_balance (w_Transfer H src dst n A) a = w_balance A a + (if a = dst then n else 0) - (if a = src then n else 0)"
  by (simp only: w_Transfer_def w_balance_AddBalance) simp

lemma supply_Transfer:
  assumes "wok H A" "supply_le T A" "0 \<le> n" "n \<le> w_balance A src"
  shows "supply_le T (w_Transfer H src dst n A)"
  by (rule supply_move [OF assms(2) wok_balance [OF assms(1)] assms(3,4), where dst = dst]) (simp add: w_balance_Transfer)

definition w_Destroy :: "(bytes \<Rightarrow> bytes) \<Rightarrow> address \<Rightarrow> address \<Rightarrow> world \<Rightarrow> world" where
  "w_Destroy H self dst A = w_Suicide self (w_AddBalance H dst (w_balance A self) A)"

lemma w_balance_Destroy: "w_balance (w_Destroy H self dst A) a = (if a = self then 0 else w_balance A a + (if a = dst then w_balance A self else 0))"
  by (simp only: w_Destroy_def w_balance_AddBalance w_balance_Suicide)

lemma supply_Destroy:
  assumes "wok H A" "supply_le T A"
  shows "supply_le T (w_Destroy H self dst A)"
  by (rule supply_move [OF assms(2) wok_balance [OF assms(1)], where n = "w_balance A self" and src = self and dst = dst])
    (use wok_balance [OF assms(1)] in \<open>auto simp: w_balance_Destroy\<close>)

definition codes_ok :: "(bytes \<Rightarrow> bytes) \<Rightarrow> world \<Rightarrow> bool" where
  "codes_ok H A \<longleftrightarrow> (\<forall>b a. accts A b = Some a \<longrightarrow> ac_codehash a = H (ac_code a) \<and> small_code (ac_code a))"

lemma wok_codes: "wok H A \<Longrightarrow> codes_ok H A"
  by (simp add: wok_def codes_ok_def)

lemma wok_balances:
  assumes "supply_le max_supply A" "\<And>a. 0 \<le> w_balance A a" "codes_ok H A"
  shows "wok H A"
proof -
  have "0 \<le> ac_balance a" if "accts A b = Some a" for a b using assms(2) [of b] that by (simp add: w_balance_def)
  then show ?thesis using assms(1,3) unfolding wok_def codes_ok_def by blast
qed

lemma codes_AddBalance: "codes_ok H A \<Longrightarrow> codes_ok H (w_AddBalance H addr n A)"
  by (auto simp: codes_ok_def w_mod_def accts_put_acct w_acct_def fresh_account_def emptyCodeHash_def split: if_splits option.splits)

lemma codes_Suicide: "codes_ok H A \<Longrightarrow> codes_ok H (w_Suicide addr A)"
  by (auto simp: codes_ok_def w_Suicide_def accts_put_acct split: if_splits option.splits)

lemma wok_Transfer:
  assumes "wok H A" "0 \<le> n" "n \<le> w_balance A src"
  shows "wok H (w_Transfer H src dst n A)"
proof (rule wok_balances)
  show "supply_le max_supply (w_Transfer H src dst n A)" using supply_Transfer [OF assms(1) _ assms(2,3)] assms(1) by (simp add: wok_def)
  show "0 \<le> w_balance (w_Transfer H src dst n A) a" for a using wok_balance [OF assms(1), of a] assms(2,3) by (auto simp: w_balance_Transfer)
  show "codes_ok H (w_Transfer H src dst n A)" unfolding w_Transfer_def by (intro codes_AddBalance wok_codes assms(1))
qed

lemma wok_Destroy:
  assumes "wok H A"
  shows "wok H (w_Destroy H self dst A)"
proof (rule wok_balances)
  show "supply_le max_supply (w_Destroy H self dst A)" using supply_Destroy [OF assms] assms by (simp add: wok_def)
  show "0 \<le> w_balance (w_Destroy H self dst A) a" for a using wok_balance [OF assms] by (simp add: w_balance_Destroy)
  show "codes_ok H (w_Destroy H self dst A)" unfolding w_Destroy_def by (intro codes_Suicide codes_AddBalance wok_codes assms)
qed

lemma inside_call:
  assumes "inside H U d f J0 R0 A0 s A" "sdb_Snapshot s = (i, s1)"
  shows "\<exists>J1 R1. inside H U d f J1 R1 A s1 A
    \<and> (\<forall>s2 A2. inside H U d f J1 R1 A s2 A2 \<longrightarrow> (\<exists>s3. RevertToSnapshot H d i s2 = (Inr (), s3) \<and> inside H U d f J0 R0 A0 s3 A))"
proof -
  obtain K R where k: "sim H U d f s A (J0 @ K)" "aundo_list (rev K) A = Some A0" "validRevisions s = R0 @ R"
    "revs_ok (R0 @ R) (nextRevisionId s) (length J0 + length K)" "\<forall>r \<in> set R. length J0 \<le> journalIndex r" using assms(1) by (auto simp: inside_def)
  let ?r = "\<lparr>rev_id = nextRevisionId s, journalIndex = length (journal s)\<rparr>"
  have s1: "s1 = s\<lparr>nextRevisionId := nextRevisionId s + 1, validRevisions := validRevisions s @ [?r]\<rparr>" and i: "i = rev_id ?r"
    using assms(2) by (auto simp: sdb_Snapshot_def Let_def)
  have l: "length (journal s) = length (J0 @ K)" using k(1) by (auto simp: sim_def dest: list_all2_lengthD)
  have "sim H U d f s1 A (J0 @ K)" using k(1) db_rel_cong [of s1 s H U d f A] by (simp add: s1 sim_def)
  moreover have "revs_ok (R0 @ R @ [?r]) (nextRevisionId s + 1) (length J0 + length K)" using revs_ok_snoc [OF k(4)] l by simp
  ultimately have 1: "inside H U d f (J0 @ K) (R0 @ R @ [?r]) A s1 A"
    unfolding inside_def using k(3) by (intro exI [of _ "[]"]) (simp add: s1)
  have 2: "\<exists>s3. RevertToSnapshot H d i s2 = (Inr (), s3) \<and> inside H U d f J0 R0 A0 s3 A"
    if s2: "inside H U d f (J0 @ K) (R0 @ R @ [?r]) A s2 A2" for s2 A2
  proof -
    obtain L Q where q: "sim H U d f s2 A2 ((J0 @ K) @ L)" "aundo_list (rev L) A2 = Some A" "validRevisions s2 = (R0 @ R) @ ?r # Q"
      "revs_ok (validRevisions s2) (nextRevisionId s2) (length (J0 @ K) + length L)" using s2 by (auto simp: inside_def)
    obtain s3 where s3: "RevertToSnapshot H d i s2 = (Inr (), s3)" "sim H U d f s3 A (J0 @ K)" "validRevisions s3 = R0 @ R"
      "nextRevisionId s3 = nextRevisionId s2" unfolding i using RevertToSnapshot_sim [OF q(1-4)] l by auto
    have "revs_ok (R0 @ R) (nextRevisionId s2) (length J0 + length K)"
      using q(3,4) l by (auto simp: revs_ok_def sorted_wrt_append)
    then have "inside H U d f J0 R0 A0 s3 A" unfolding inside_def using s3 k(2,5) by (intro exI [of _ K] exI [of _ R]) simp
    then show ?thesis using s3(1) by blast
  qed
  show ?thesis using 1 2 by blast
qed

lemma GetCodeSize_sim:
  assumes "sim H U d f s A J" "addr \<in> U" "\<And>h n. cached h = Some n \<Longrightarrow> n < k" "\<And>h c. d h = Some c \<Longrightarrow> length c < k"
    "\<And>a. accts A addr = Some a \<Longrightarrow> length (ac_code a) < k" "0 < k"
  shows "\<exists>n s'. GetCodeSize H cached d addr s = (Inr n, s') \<and> sim H U d f s' A J \<and> frame s s' \<and> n < k"
  using assms(1,2)
proof (cases rule: getStateObject_cases)
  case (missing s1)
  then show ?thesis using assms(6) by (simp add: GetCodeSize_def sret_def)
next
  case (found c a s1)
  have e: "sim H U d f (db_setError e s1) A J" "frame s (db_setError e s1)" for e
    using found(2,3) db_rel_cong [of "db_setError e s1" s1 H U d f A] by (simp_all add: sim_def db_setError_def frame_def)
  have n: "n < k" if "ContractCodeSize cached d h = (n, r)" for h n r
    using that assms(3,4,6) by (auto simp: ContractCodeSize_def db_Get_def split: option.splits sum.splits)
  have "so_code c = Some b \<Longrightarrow> length b < k" for b using found(5) assms(5) [OF found(4)] by (simp add: obj_rel_def code_is_def)
  then show ?thesis using found(1-3) e n
    by (auto simp: GetCodeSize_def sret_def split: option.splits prod.splits)
qed

lemma length_w_state:
  assumes "sim H UNIV d f s A J"
  shows "length (w_state A addr k) = 32"
  using assms UNIV_I [of addr]
proof (cases rule: getStateObject_cases)
  case (found c a s1)
  then show ?thesis using obj_GetState_rel [OF found(5) UNIV_I] by (auto simp: w_state_def)
qed (simp add: w_state_def zero_hash_def)

section \<open>Triples\<close>

text \<open>The states the machine runs in. The state database stands inside a snapshot, the world it represents is in order,
  and every cached analysis of a code has the length that belongs to the code.\<close>

type_synonym base = "(bytes \<rightharpoonup> bytes) \<times> aentry list \<times> revision list \<times> world"

definition dests_fit :: "(bytes \<Rightarrow> bytes) \<Rightarrow> (hash \<times> bytes) list \<Rightarrow> bool" where
  "dests_fit H ds \<longleftrightarrow> (\<forall>h m. map_of ds h = Some m \<longrightarrow> (\<exists>code. H code = h \<and> small_code code \<and> length m = length code div 8 + 5))"

text \<open>No two codes of different length have the same hash.\<close>

definition hash_lengths :: "(bytes \<Rightarrow> bytes) \<Rightarrow> bool" where
  "hash_lengths H \<longleftrightarrow> (\<forall>x y. small_code x \<longrightarrow> small_code y \<longrightarrow> H x = H y \<longrightarrow> length x = length y)"

text \<open>The environments considered: gas is metered, the values of the context and of the code outside the model have
  their documented sizes, and static calls are made under the rules that protect them.\<close>

definition env_ok :: "environment \<Rightarrow> bool \<Rightarrow> bool" where
  "env_ok E stat \<longleftrightarrow> hash_lengths (keccak E) \<and> \<not> DisableGasMetering (vm_config E) \<and> in_word (GasPrice (context_of E))
     \<and> length (Origin (context_of E)) = 20 \<and> length (Coinbase (context_of E)) = 20 \<and> (\<forall>n. length (GetHash (context_of E) n) = 32)
     \<and> (\<forall>b. length (keccak E b) = 32 \<and> length (sha256_sum E b) = 32 \<and> length (ripemd160_sum E b) = 20)
     \<and> (\<forall>h n. code_sizes E h = Some n \<longrightarrow> n < 2 ^ 62) \<and> (\<forall>h c. disk E h = Some c \<longrightarrow> small_code c)
     \<and> (stat \<longrightarrow> IsByzantium (chain_config E) (ctx_BlockNumber (context_of E)))"

definition ins :: "environment \<Rightarrow> bool \<Rightarrow> base \<Rightarrow> EVM \<Rightarrow> world \<Rightarrow> bool" where
  "ins E stat = (\<lambda>(f, J, R, A0) v A. inside (keccak E) UNIV (disk E) f J R A0 (evm_state v) A \<and> wok (keccak E) A
     \<and> dests_fit (keccak E) (jumpdests v) \<and> (stat \<longrightarrow> readOnly v) \<and> small_code (returnData v) \<and> env_ok E stat)"

lemma ins_wok: "ins E stat b v A \<Longrightarrow> wok (keccak E) A"
  by (cases b) (simp add: ins_def)

lemma ins_env: "ins E stat b v A \<Longrightarrow> env_ok E stat"
  by (cases b) (simp add: ins_def)

definition rest :: "EVM \<Rightarrow> int \<times> bool \<times> bool" where
  "rest v = (depth v, readOnly v, abort v)"

text \<open>An operation on the machine state ends without a panic. The world it leads to is in relation \<open>R\<close> to the world it
  started in, for every snapshot the state stands inside of.\<close>

definition tri :: "environment \<Rightarrow> bool \<Rightarrow> (world \<Rightarrow> world \<Rightarrow> bool) \<Rightarrow> (world \<Rightarrow> bool) \<Rightarrow> ('a, EVM) op \<Rightarrow> ('a \<Rightarrow> world \<Rightarrow> bool) \<Rightarrow> bool" where
  "tri E stat R P m Q \<longleftrightarrow> (\<forall>b v A. ins E stat b v A \<longrightarrow> P A \<longrightarrow>
     (\<exists>x v' A'. m v = (Inr x, v') \<and> rest v' = rest v \<and> ins E stat b v' A' \<and> R A A' \<and> Q x A'))"

locale machine =
  fixes E :: environment and stat :: bool and R :: "world \<Rightarrow> world \<Rightarrow> bool"
  assumes R_refl: "R A A"
    and R_trans: "R A B \<Longrightarrow> R B C \<Longrightarrow> R A C"
    and R_preimage: "R A (w_AddPreimage h b A)"
    and R_create: "(stat \<Longrightarrow> accts A addr = None) \<Longrightarrow> R A (w_Create (keccak E) addr A)"
    and R_transfer: "wok (keccak E) A \<Longrightarrow> 0 \<le> n \<Longrightarrow> n \<le> w_balance A src \<Longrightarrow> (stat \<Longrightarrow> n = 0) \<Longrightarrow> R A (w_Transfer (keccak E) src dst n A)"
    and R_destroy: "\<not> stat \<Longrightarrow> wok (keccak E) A \<Longrightarrow> R A (w_Destroy (keccak E) self dst A)"
    and R_mod: "\<not> stat \<Longrightarrow> (\<And>a. ac_balance (g a) = ac_balance a) \<Longrightarrow> R A (w_mod (keccak E) addr g A)"
    and R_log: "\<not> stat \<Longrightarrow> R A (w_AddLog h l A)"
    and R_refund: "\<not> stat \<Longrightarrow> w_refund A \<le> n \<Longrightarrow> R A (A\<lparr>w_refund := n\<rparr>)"
begin

lemma triI:
  assumes "\<And>b v A. ins E stat b v A \<Longrightarrow> P A \<Longrightarrow> \<exists>x v' A'. m v = (Inr x, v') \<and> rest v' = rest v \<and> ins E stat b v' A' \<and> R A A' \<and> Q x A'"
  shows "tri E stat R P m Q"
  using assms unfolding tri_def by blast

lemma triE:
  assumes "tri E stat R P m Q" "ins E stat b v A" "P A"
  obtains x v' A' where "m v = (Inr x, v')" "rest v' = rest v" "ins E stat b v' A'" "R A A'" "Q x A'"
  using assms unfolding tri_def by blast

lemma tri_ret: "(\<And>A. P A \<Longrightarrow> Q x A) \<Longrightarrow> tri E stat R P (sret x) Q"
  by (rule triI) (auto simp: sret_def R_refl)

lemma tri_bind:
  assumes "tri E stat R P m Q'" "\<And>x. tri E stat R (Q' x) (f x) Q"
  shows "tri E stat R P (sbind m f) Q"
proof (rule triI)
  fix b v A assume *: "ins E stat b v A" "P A"
  obtain x v1 A1 where 1: "m v = (Inr x, v1)" "rest v1 = rest v" "ins E stat b v1 A1" "R A A1" "Q' x A1" by (rule triE [OF assms(1) *])
  obtain y v2 A2 where "f x v1 = (Inr y, v2)" "rest v2 = rest v1" "ins E stat b v2 A2" "R A1 A2" "Q y A2"
    by (rule triE [OF assms(2) 1(3,5)])
  then show "\<exists>x v' A'. sbind m f v = (Inr x, v') \<and> rest v' = rest v \<and> ins E stat b v' A' \<and> R A A' \<and> Q x A'"
    using 1 R_trans by (auto simp del: ex_simps)
qed

lemma tri_conseq:
  assumes "tri E stat R P' m Q'" "\<And>A. wok (keccak E) A \<Longrightarrow> P A \<Longrightarrow> P' A" "\<And>x A. wok (keccak E) A \<Longrightarrow> Q' x A \<Longrightarrow> Q x A"
  shows "tri E stat R P m Q"
proof (rule triI)
  fix b v A assume *: "ins E stat b v A" "P A"
  then have "P' A" using assms(2) ins_wok by blast
  from triE [OF assms(1) *(1) this] obtain x v' A' where "m v = (Inr x, v')" "rest v' = rest v" "ins E stat b v' A'" "R A A'" "Q' x A'" .
  moreover from this(3) have "wok (keccak E) A'" by (rule ins_wok)
  ultimately show "\<exists>x v' A'. m v = (Inr x, v') \<and> rest v' = rest v \<and> ins E stat b v' A' \<and> R A A' \<and> Q x A'" using assms(3) by blast
qed

lemma tri_evolve:
  assumes "\<And>s f A J. sim (keccak E) UNIV (disk E) f s A J \<Longrightarrow> wok (keccak E) A \<Longrightarrow> P A \<Longrightarrow>
    \<exists>x s' A'. m s = (Inr x, s') \<and> (\<exists>K. evolves (keccak E) UNIV (disk E) f s A J s' A' K) \<and> wok (keccak E) A' \<and> R A A' \<and> Q x A'"
  shows "tri E stat R P (on_db m) Q"
proof (rule triI)
  fix b v A assume *: "ins E stat b v A" "P A"
  obtain f J0 R0 A0 where b: "b = (f, J0, R0, A0)" by (cases b) auto
  have i: "inside (keccak E) UNIV (disk E) f J0 R0 A0 (evm_state v) A" and w: "wok (keccak E) A" using *(1) by (auto simp: ins_def b)
  obtain K Rv where k: "sim (keccak E) UNIV (disk E) f (evm_state v) A (J0 @ K)" "aundo_list (rev K) A = Some A0"
    "validRevisions (evm_state v) = R0 @ Rv" "revs_ok (R0 @ Rv) (nextRevisionId (evm_state v)) (length J0 + length K)"
    "\<forall>r \<in> set Rv. length J0 \<le> journalIndex r" using i by (auto simp: inside_def)
  obtain x s' A' K' where e: "m (evm_state v) = (Inr x, s')" "evolves (keccak E) UNIV (disk E) f (evm_state v) A (J0 @ K) s' A' K'"
    "wok (keccak E) A'" "R A A'" "Q x A'" using assms [OF k(1) w *(2)] by blast
  have "revs_ok (R0 @ Rv) (nextRevisionId (evm_state v)) (length J0 + length (K @ K'))" using revs_ok_mono [OF k(4)] by simp
  then have "inside (keccak E) UNIV (disk E) f J0 R0 A0 s' A'" unfolding inside_def
    using k e(2) by (intro exI [of _ "K @ K'"] exI [of _ Rv]) (simp add: evolves_def aundo_list_append frame_def)
  then show "\<exists>x v' A'. on_db m v = (Inr x, v') \<and> rest v' = rest v \<and> ins E stat b v' A' \<and> R A A' \<and> Q x A'"
    using e *(1) by (intro exI [of _ x] exI [of _ "v\<lparr>evm_state := s'\<rparr>"] exI [of _ A']) (simp add: on_db_def rest_def ins_def b)
qed

lemma tri_do:
  assumes "\<And>s f A J. sim (keccak E) UNIV (disk E) f s A J \<Longrightarrow> wok (keccak E) A \<Longrightarrow> P A \<Longrightarrow>
    \<exists>A'. (\<exists>K. evolves (keccak E) UNIV (disk E) f s A J (g s) A' K) \<and> wok (keccak E) A' \<and> R A A' \<and> Q () A'"
  shows "tri E stat R P (db_do g) Q"
proof -
  have "db_do g = on_db (\<lambda>s. (Inr (), g s))" by (simp add: db_do_def on_db_def fun_eq_iff)
  moreover have "tri E stat R P (on_db (\<lambda>s. (Inr (), g s))) Q" by (rule tri_evolve) (use assms in auto)
  ultimately show ?thesis by simp
qed

lemma tri_query:
  assumes "\<And>s f A J. sim (keccak E) UNIV (disk E) f s A J \<Longrightarrow> wok (keccak E) A \<Longrightarrow> P A \<Longrightarrow>
    \<exists>x s'. m s = (Inr x, s') \<and> sim (keccak E) UNIV (disk E) f s' A J \<and> frame s s' \<and> Q x A"
  shows "tri E stat R P (on_db m) Q"
proof (rule tri_evolve)
  fix s f A J assume *: "sim (keccak E) UNIV (disk E) f s A J" "wok (keccak E) A" "P A"
  obtain x s' where "m s = (Inr x, s')" "sim (keccak E) UNIV (disk E) f s' A J" "frame s s'" "Q x A" using assms [OF *] by blast
  then show "\<exists>x s' A'. m s = (Inr x, s') \<and> (\<exists>K. evolves (keccak E) UNIV (disk E) f s A J s' A' K) \<and> wok (keccak E) A' \<and> R A A' \<and> Q x A'"
    using evolves_quiet R_refl *(2) by blast
qed

lemma tri_GetBalance: "tri E stat R P (on_db (GetBalance (keccak E) (disk E) addr)) (\<lambda>x A. P A \<and> x = w_balance A addr \<and> in_word x)"
  by (rule tri_query) (use queries_sim(1) wok_word in fastforce)

lemma tri_GetNonce: "tri E stat R P (on_db (GetNonce (keccak E) (disk E) addr)) (\<lambda>x A. P A \<and> x = w_nonce A addr)"
  by (rule tri_query) (use queries_sim(2) in fastforce)

lemma tri_GetCodeHash: "tri E stat R P (on_db (GetCodeHash (keccak E) (disk E) addr)) (\<lambda>x A. P A \<and> x = w_codehash A addr)"
  by (rule tri_query) (use queries_sim(3) in fastforce)

lemma tri_Exist: "tri E stat R P (on_db (Exist (keccak E) (disk E) addr)) (\<lambda>x A. P A \<and> (x \<longleftrightarrow> accts A addr \<noteq> None))"
  by (rule tri_query) (use queries_sim(4) in fastforce)

lemma tri_HasSuicided: "tri E stat R P (on_db (HasSuicided (keccak E) (disk E) addr)) (\<lambda>x A. P A)"
  by (rule tri_query) (use queries_sim(5) in fastforce)

lemma tri_Empty: "tri E stat R P (on_db (sdb_Empty (keccak E) (disk E) addr)) (\<lambda>x A. P A)"
  by (rule tri_query) (use queries_sim(6) in fastforce)

lemma tri_GetState: "tri E stat R P (on_db (GetState (keccak E) (disk E) addr k)) (\<lambda>x A. P A \<and> x = w_state A addr k \<and> length x = 32)"
  by (rule tri_query) (use GetState_sim length_w_state in fastforce)

lemma tri_GetCode: "tri E stat R P (on_db (GetCode (keccak E) (disk E) addr)) (\<lambda>x A. P A \<and> opt_bytes x = w_code A addr)"
  by (rule tri_query) (use GetCode_sim in \<open>fastforce simp: opt_bytes_def\<close>)

lemma tri_GetCodeSize: "tri E stat R P (on_db (GetCodeSize (keccak E) (code_sizes E) (disk E) addr)) (\<lambda>x A. P A \<and> x < 2 ^ 62)"
proof (rule triI)
  fix b v A assume *: "ins E stat b v A" "P A"
  have small: "\<And>h n. code_sizes E h = Some n \<Longrightarrow> n < 2 ^ 62" "\<And>h c. disk E h = Some c \<Longrightarrow> length c < 2 ^ 62"
    using ins_env [OF *(1)] unfolding env_ok_def small_code_def by blast+
  have "tri E stat R P (on_db (GetCodeSize (keccak E) (code_sizes E) (disk E) addr)) (\<lambda>x A. P A \<and> x < 2 ^ 62)"
  proof (rule tri_query)
    fix s f A J assume q: "sim (keccak E) UNIV (disk E) f s A J" "wok (keccak E) A" "P A"
    have "length (ac_code a) < 2 ^ 62" if "accts A addr = Some a" for a using q(2) that unfolding wok_def small_code_def by blast
    from GetCodeSize_sim [OF q(1) UNIV_I small this] q(3)
    show "\<exists>x s'. GetCodeSize (keccak E) (code_sizes E) (disk E) addr s = (Inr x, s') \<and> sim (keccak E) UNIV (disk E) f s' A J
      \<and> frame s s' \<and> P A \<and> x < 2 ^ 62" by auto
  qed
  from triE [OF this *] show "\<exists>x v' A'. on_db (GetCodeSize (keccak E) (code_sizes E) (disk E) addr) v = (Inr x, v') \<and> rest v' = rest v
      \<and> ins E stat b v' A' \<and> R A A' \<and> P A' \<and> x < 2 ^ 62" by blast
qed

end

section \<open>Writing operations\<close>

lemma on_db_bind: "on_db (sbind m f) = sbind (on_db m) (\<lambda>x. on_db (f x))"
  by (auto simp: on_db_def sbind_def fun_eq_iff split: prod.splits sum.splits)

lemma on_db_ret: "on_db (sret x) = sret x"
  by (simp add: on_db_def sret_def fun_eq_iff)

context machine
begin

lemma tri_Transfer:
  "tri E stat R (\<lambda>A. 0 \<le> n \<and> n \<le> w_balance A src \<and> (stat \<longrightarrow> n = 0)) (on_db (Transfer E src dst n)) (\<lambda>_ _. True)"
proof (rule tri_evolve)
  fix s f A J assume s: "sim (keccak E) UNIV (disk E) f s A J" and w: "wok (keccak E) A"
    and p: "0 \<le> n \<and> n \<le> w_balance A src \<and> (stat \<longrightarrow> n = 0)"
  let ?A = "w_AddBalance (keccak E) src (- n) A"
  obtain s1 K1 where s1: "SubBalance (keccak E) (disk E) src n s = (Inr (), s1)" "evolves (keccak E) UNIV (disk E) f s A J s1 ?A K1"
    using setters_evolve(2) [OF s, of src n] by auto
  then have "sim (keccak E) UNIV (disk E) f s1 ?A (J @ K1)" by (simp add: evolves_def)
  from setters_evolve(1) [OF this, of dst n] obtain s2 K2 where s2: "AddBalance (keccak E) (disk E) dst n s1 = (Inr (), s2)"
    "evolves (keccak E) UNIV (disk E) f s1 ?A (J @ K1) s2 (w_Transfer (keccak E) src dst n A) K2" unfolding w_Transfer_def by blast
  have "Transfer E src dst n s = (Inr (), s2)" using s1(1) s2(1) by (simp add: Transfer_def)
  moreover have "R A (w_Transfer (keccak E) src dst n A)" "wok (keccak E) (w_Transfer (keccak E) src dst n A)"
    using R_transfer [OF w] wok_Transfer [OF w] p by auto
  ultimately show "\<exists>x s' A'. Transfer E src dst n s = (Inr x, s') \<and> (\<exists>K. evolves (keccak E) UNIV (disk E) f s A J s' A' K)
      \<and> wok (keccak E) A' \<and> R A A' \<and> True" using evolves_trans [OF s1(2) s2(2)] by blast
qed

lemma tri_Destroy:
  assumes "\<not> stat"
  shows "tri E stat R (\<lambda>A. n = w_balance A self)
    (sbind (on_db (AddBalance (keccak E) (disk E) dst n)) (\<lambda>_. on_db (Suicide (keccak E) (disk E) self))) (\<lambda>_ _. True)"
  unfolding on_db_bind [symmetric]
proof (rule tri_evolve)
  fix s f A J assume s: "sim (keccak E) UNIV (disk E) f s A J" and w: "wok (keccak E) A" and p: "n = w_balance A self"
  let ?A = "w_AddBalance (keccak E) dst n A"
  obtain s1 K1 where s1: "AddBalance (keccak E) (disk E) dst n s = (Inr (), s1)" "evolves (keccak E) UNIV (disk E) f s A J s1 ?A K1"
    using setters_evolve(1) [OF s, of dst n] by auto
  then have "sim (keccak E) UNIV (disk E) f s1 ?A (J @ K1)" by (simp add: evolves_def)
  from Suicide_evolves [OF this, of self] obtain x s2 K2 where s2: "Suicide (keccak E) (disk E) self s1 = (Inr x, s2)"
    "evolves (keccak E) UNIV (disk E) f s1 ?A (J @ K1) s2 (w_Destroy (keccak E) self dst A) K2" unfolding w_Destroy_def p by blast
  have "sbind (AddBalance (keccak E) (disk E) dst n) (\<lambda>_. Suicide (keccak E) (disk E) self) s = (Inr x, s2)" using s1(1) s2(1) by simp
  then show "\<exists>x s' A'. sbind (AddBalance (keccak E) (disk E) dst n) (\<lambda>_. Suicide (keccak E) (disk E) self) s = (Inr x, s')
      \<and> (\<exists>K. evolves (keccak E) UNIV (disk E) f s A J s' A' K) \<and> wok (keccak E) A' \<and> R A A' \<and> True"
    using evolves_trans [OF s1(2) s2(2)] R_destroy [OF assms w] wok_Destroy [OF w] by blast
qed

lemma tri_CanTransfer:
  "tri E stat R P (on_db (CanTransfer E addr n)) (\<lambda>b A. P A \<and> (b \<longleftrightarrow> n \<le> w_balance A addr))"
  unfolding CanTransfer_def on_db_bind on_db_ret
  by (rule tri_bind [OF tri_GetBalance tri_ret]) auto

lemma tri_CreateAccount:
  "tri E stat R (\<lambda>A. Q (w_Create (keccak E) addr A) \<and> (stat \<longrightarrow> accts A addr = None)) (on_db (CreateAccount (keccak E) (disk E) addr)) (\<lambda>_. Q)"
proof (rule tri_evolve)
  fix s f A J assume s: "sim (keccak E) UNIV (disk E) f s A J" and w: "wok (keccak E) A"
    and p: "Q (w_Create (keccak E) addr A) \<and> (stat \<longrightarrow> accts A addr = None)"
  have "R A (w_Create (keccak E) addr A)" using p R_create by blast
  then show "\<exists>x s' A'. CreateAccount (keccak E) (disk E) addr s = (Inr x, s') \<and> (\<exists>K. evolves (keccak E) UNIV (disk E) f s A J s' A' K)
      \<and> wok (keccak E) A' \<and> R A A' \<and> Q A'"
    using CreateAccount_evolves [OF s, of addr] wok_Create [OF w] p by blast
qed

lemma tri_mod:
  assumes "\<not> stat" "\<And>s f A J. sim (keccak E) UNIV (disk E) f s A J \<Longrightarrow>
      \<exists>s' x K. m s = (Inr x, s') \<and> evolves (keccak E) UNIV (disk E) f s A J s' (w_mod (keccak E) addr g A) K"
    "\<And>a. ac_balance (g a) = ac_balance a"
    "\<And>a. ac_codehash a = keccak E (ac_code a) \<Longrightarrow> small_code (ac_code a) \<Longrightarrow> ac_codehash (g a) = keccak E (ac_code (g a)) \<and> small_code (ac_code (g a))"
  shows "tri E stat R P (on_db m) (\<lambda>_ A. \<exists>B. P B \<and> wok (keccak E) B \<and> A = w_mod (keccak E) addr g B)"
proof (rule tri_evolve)
  fix s f A J assume s: "sim (keccak E) UNIV (disk E) f s A J" and w: "wok (keccak E) A" and p: "P A"
  have "wok (keccak E) (w_mod (keccak E) addr g A)" by (rule wok_mod [OF w assms(3)]) (use assms(4) wok_acct [OF w] in blast)+
  then show "\<exists>x s' A'. m s = (Inr x, s') \<and> (\<exists>K. evolves (keccak E) UNIV (disk E) f s A J s' A' K) \<and> wok (keccak E) A' \<and> R A A'
      \<and> (\<exists>B. P B \<and> wok (keccak E) B \<and> A' = w_mod (keccak E) addr g B)" using assms(2) [OF s] R_mod [OF assms(1,3)] w p by blast
qed

lemma tri_SetNonce:
  "\<not> stat \<Longrightarrow> tri E stat R P (on_db (SetNonce (keccak E) (disk E) addr n)) (\<lambda>_ A. \<exists>B. P B \<and> wok (keccak E) B \<and> A = w_mod (keccak E) addr (\<lambda>a. a\<lparr>ac_nonce := n\<rparr>) B)"
  by (rule tri_mod) (use setters_evolve(4) in \<open>fastforce+\<close>)

lemma tri_SetState:
  assumes "\<not> stat" "length v = 32"
  shows "tri E stat R (\<lambda>_. True) (on_db (SetState (keccak E) (disk E) addr k v)) (\<lambda>_ _. True)"
  by (rule tri_conseq [OF tri_mod [OF assms(1), where P = "\<lambda>_. True"]]) (use setters_evolve(5) [of k UNIV v] assms(2) in \<open>fastforce+\<close>)

lemma tri_SetCode:
  assumes "\<not> stat" "small_code (opt_bytes code)"
  shows "tri E stat R (\<lambda>_. True) (on_db (SetCode (keccak E) (disk E) addr code)) (\<lambda>_ _. True)"
proof -
  have "\<exists>s' x K. SetCode (keccak E) (disk E) addr code s = (Inr x, s') \<and> evolves (keccak E) UNIV (disk E) f s A J s'
      (w_mod (keccak E) addr (\<lambda>a. a\<lparr>ac_code := opt_bytes code, ac_codehash := keccak E (opt_bytes code)\<rparr>) A) K"
    if "sim (keccak E) UNIV (disk E) f s A J" for s f A J
    using SetCode_evolves [OF that, of addr "opt_bytes code" code] by (auto simp: opt_bytes_def split: option.splits)
  from tri_mod [OF assms(1) this, where P = "\<lambda>_. True"] show ?thesis by (rule tri_conseq) (use assms(2) in auto)
qed

lemma tri_AddLog: "\<not> stat \<Longrightarrow> tri E stat R (\<lambda>_. True) (db_do (AddLog l)) (\<lambda>_ _. True)"
proof (rule tri_do)
  fix s f A J assume s: "sim (keccak E) UNIV (disk E) f s A J" and w: "wok (keccak E) A" and "\<not> stat"
  have "wok (keccak E) (w_AddLog h x A)" for h x by (rule wok_cong [OF _ w]) (simp add: w_AddLog_def)
  then show "\<exists>A'. (\<exists>K. evolves (keccak E) UNIV (disk E) f s A J (AddLog l s) A' K) \<and> wok (keccak E) A' \<and> R A A' \<and> True"
    using AddLog_evolves [OF s] R_log [OF \<open>\<not> stat\<close>] by blast
qed

lemma tri_AddRefund: "\<not> stat \<Longrightarrow> tri E stat R (\<lambda>_. True) (db_do (AddRefund (uint (n :: u64)))) (\<lambda>_ _. True)"
proof (rule tri_do)
  fix s f A J assume s: "sim (keccak E) UNIV (disk E) f s A J" and w: "wok (keccak E) A" and "\<not> stat"
  have "wok (keccak E) (A\<lparr>w_refund := k\<rparr>)" for k by (rule wok_cong [OF _ w]) simp
  then show "\<exists>A'. (\<exists>K. evolves (keccak E) UNIV (disk E) f s A J (AddRefund (uint n) s) A' K) \<and> wok (keccak E) A' \<and> R A A' \<and> True"
    using AddRefund_evolves [OF s, of "uint n"] R_refund [OF \<open>\<not> stat\<close>, of A "w_refund A + uint n"] by (auto simp del: ex_simps)
qed

lemma tri_AddPreimage: "tri E stat R (\<lambda>_. True) (db_do (AddPreimage h p)) (\<lambda>_ _. True)"
proof (rule tri_do)
  fix s f A J assume s: "sim (keccak E) UNIV (disk E) f s A J" and w: "wok (keccak E) A"
  have "wok (keccak E) (w_AddPreimage h p A)" by (rule wok_cong [OF _ w]) (simp add: w_AddPreimage_def)
  then show "\<exists>A'. (\<exists>K. evolves (keccak E) UNIV (disk E) f s A J (AddPreimage h p s) A' K) \<and> wok (keccak E) A' \<and> R A A' \<and> True"
    using AddPreimage_evolves [OF s] R_preimage by blast
qed

end

end
