(* ===== verification/Evm_Calls.thy ===== *)
theory Evm_Calls
  imports Evm_World
begin

text \<open>
  The calls of \<open>core/vm/evm.go\<close> over a runner of frames: they do not panic, they hand back no more gas than they were
  given, and a call that ends with an error goes back to its snapshot, so that the world is the one before the call.
\<close>

section \<open>Calls\<close>

definition contract_ok :: "(bytes \<Rightarrow> bytes) \<Rightarrow> Contract \<Rightarrow> bool" where
  "contract_ok H c \<longleftrightarrow> in_word (Contract_value c) \<and> length (CallerAddress c) = 20 \<and> length (self_address c) = 20 \<and> small_code (Input c)
     \<and> (Code c = [] \<or> small_code (Code c) \<and> Contract_CodeHash c = H (Code c))"

definition good_frame :: "(bytes \<Rightarrow> bytes) \<Rightarrow> frame \<Rightarrow> bool" where
  "good_frame H fr \<longleftrightarrow> list_all in_word (fr_stack fr) \<and> length (mem_store (fr_mem fr)) \<le> 0xffffffffe0 \<and> contract_ok H (fr_contract fr)"

text \<open>What a run returns, in bytes.\<close>

definition small_result :: "bytes option \<Rightarrow> bool" where
  "small_result r \<longleftrightarrow> small_code (opt_bytes r)"

lemma small_result_None: "small_result None"
  by (simp add: small_result_def opt_bytes_def small_code_def)

text \<open>A runner that does its work within \<open>n\<close> units of gas.\<close>

definition runner_ok :: "environment \<Rightarrow> bool \<Rightarrow> (world \<Rightarrow> world \<Rightarrow> bool) \<Rightarrow> nat \<Rightarrow> runner \<Rightarrow> bool" where
  "runner_ok E stat R n loop \<longleftrightarrow> (\<forall>fr. good_frame (keccak E) fr \<longrightarrow> unat (Gas (fr_contract fr)) < n \<longrightarrow>
     tri E stat R (\<lambda>_. True) (loop fr) (\<lambda>x _. Gas (snd x) \<le> Gas (fr_contract fr) \<and> small_result (fst (fst x))))"

text \<open>What a call returns: no more gas than it was given, and on an error the world is as before.\<close>

definition call_post :: "u64 \<Rightarrow> (world \<Rightarrow> bool) \<Rightarrow> call_result \<Rightarrow> world \<Rightarrow> bool" where
  "call_post gas W x A \<longleftrightarrow> fst (snd x) \<le> gas \<and> small_result (fst x) \<and> (snd (snd x) \<noteq> None \<longrightarrow> W A)"

definition create_post :: "u64 \<Rightarrow> bytes option \<times> address \<times> u64 \<times> err option \<Rightarrow> bool" where
  "create_post gas x \<longleftrightarrow> fst (snd (snd x)) \<le> gas \<and> small_result (fst x) \<and> length (fst (snd x)) = 20"

text \<open>Reverting to snapshot \<open>i\<close> leads from inside \<open>b1\<close> back to the world \<open>A0\<close> inside \<open>b\<close>.\<close>

definition goes_back :: "environment \<Rightarrow> bool \<Rightarrow> base \<Rightarrow> base \<Rightarrow> int \<Rightarrow> world \<Rightarrow> bool" where
  "goes_back E stat b b1 i A0 \<longleftrightarrow> (\<forall>v A. ins E stat b1 v A \<longrightarrow>
     (\<exists>s. RevertToSnapshot (keccak E) (disk E) i (evm_state v) = (Inr (), s) \<and> ins E stat b (v\<lparr>evm_state := s\<rparr>) A0))"

definition trs :: "environment \<Rightarrow> bool \<Rightarrow> (world \<Rightarrow> world \<Rightarrow> bool) \<Rightarrow> (world \<Rightarrow> bool) \<Rightarrow> int \<Rightarrow> (world \<Rightarrow> bool) \<Rightarrow> ('a, EVM) op \<Rightarrow> ('a \<Rightarrow> world \<Rightarrow> bool) \<Rightarrow> bool" where
  "trs E stat R S i P m Q \<longleftrightarrow> (\<forall>b b1 A0 v A A1. goes_back E stat b b1 i A0 \<longrightarrow> S A0 \<longrightarrow> ins E stat b v A \<longrightarrow> ins E stat b1 v A1 \<longrightarrow>
     R A0 A \<longrightarrow> P A \<longrightarrow> P A1 \<longrightarrow>
     (\<exists>x v' A'. m v = (Inr x, v') \<and> rest v' = rest v \<and> ins E stat b v' A' \<and> R A0 A' \<and> Q x A'))"

context machine
begin

lemma trsI:
  assumes "\<And>b b1 A0 v A A1. goes_back E stat b b1 i A0 \<Longrightarrow> S A0 \<Longrightarrow> ins E stat b v A \<Longrightarrow> ins E stat b1 v A1 \<Longrightarrow> R A0 A \<Longrightarrow> P A \<Longrightarrow> P A1
    \<Longrightarrow> \<exists>x v' A'. m v = (Inr x, v') \<and> rest v' = rest v \<and> ins E stat b v' A' \<and> R A0 A' \<and> Q x A'"
  shows "trs E stat R S i P m Q"
  using assms unfolding trs_def by blast

lemma trs_bind:
  assumes "tri E stat R P m Q'" "\<And>x. trs E stat R S i (Q' x) (f x) Q"
  shows "trs E stat R S i P (sbind m f) Q"
proof (rule trsI)
  fix b b1 A0 v A A1
  assume *: "goes_back E stat b b1 i A0" "S A0" "ins E stat b v A" "ins E stat b1 v A1" "R A0 A" "P A" "P A1"
  obtain x v1 B where 1: "m v = (Inr x, v1)" "rest v1 = rest v" "ins E stat b v1 B" "R A B" "Q' x B" by (rule triE [OF assms(1) *(3,6)])
  obtain y v2 B1 where 2: "m v = (Inr y, v2)" "ins E stat b1 v2 B1" "Q' y B1" by (rule triE [OF assms(1) *(4,7)])
  have yx: "y = x" "v2 = v1" using 1(1) 2(1) by simp_all
  have "R A0 B" using R_trans *(5) 1(4) .
  then obtain z v3 B3 where "f x v1 = (Inr z, v3)" "rest v3 = rest v1" "ins E stat b v3 B3" "R A0 B3" "Q z B3"
    using assms(2) [of x] *(1,2) 1(3,5) 2(2,3) unfolding trs_def yx by blast
  then show "\<exists>x v' A'. sbind m f v = (Inr x, v') \<and> rest v' = rest v \<and> ins E stat b v' A' \<and> R A0 A' \<and> Q x A'"
    using 1(1,2) by (auto simp del: ex_simps)
qed

lemma trs_tri: 
  assumes "tri E stat R P m Q"
  shows "trs E stat R S i P m Q"
proof (rule trsI)
  fix b b1 A0 v A A1 assume *: "ins E stat b v A" "R A0 A" "P A"
  obtain x v1 B where "m v = (Inr x, v1)" "rest v1 = rest v" "ins E stat b v1 B" "R A B" "Q x B" by (rule triE [OF assms *(1,3)])
  then show "\<exists>x v' A'. m v = (Inr x, v') \<and> rest v' = rest v \<and> ins E stat b v' A' \<and> R A0 A' \<and> Q x A'" using R_trans *(2) by blast
qed

lemma trs_revert:
  assumes "\<And>A. S A \<Longrightarrow> Q y A"
  shows "trs E stat R S i P (sbind (on_db (RevertToSnapshot (keccak E) (disk E) i)) (\<lambda>_. sret y)) Q"
proof (rule trsI)
  fix b b1 A0 v A A1
  assume *: "goes_back E stat b b1 i A0" "S A0" "ins E stat b1 v A1"
  then obtain s where "RevertToSnapshot (keccak E) (disk E) i (evm_state v) = (Inr (), s)" "ins E stat b (v\<lparr>evm_state := s\<rparr>) A0"
    by (auto simp: goes_back_def)
  then have "sbind (on_db (RevertToSnapshot (keccak E) (disk E) i)) (\<lambda>_. sret y) v = (Inr y, v\<lparr>evm_state := s\<rparr>)"
    "ins E stat b (v\<lparr>evm_state := s\<rparr>) A0" by (simp_all add: sbind_def on_db_def sret_def)
  then show "\<exists>x v' A'. sbind (on_db (RevertToSnapshot (keccak E) (disk E) i)) (\<lambda>_. sret y) v = (Inr x, v')
      \<and> rest v' = rest v \<and> ins E stat b v' A' \<and> R A0 A' \<and> Q x A'" using assms [OF *(2)] R_refl by (fastforce simp: rest_def)
qed

lemma tri_snapshot:
  assumes "\<And>i. trs E stat R P i P (K i) Q"
  shows "tri E stat R P (sbind take_snapshot K) Q"
proof (rule triI)
  fix b v A assume *: "ins E stat b v A" "P A"
  obtain f J0 R0 A0 where b: "b = (f, J0, R0, A0)" by (cases b) auto
  obtain i s1 where s1: "sdb_Snapshot (evm_state v) = (i, s1)" by fastforce
  have i: "inside (keccak E) UNIV (disk E) f J0 R0 A0 (evm_state v) A" using * by (simp add: ins_def b)
  obtain J1 R1 where j: "inside (keccak E) UNIV (disk E) f J1 R1 A s1 A" and bk: "\<And>s2 A2. inside (keccak E) UNIV (disk E) f J1 R1 A s2 A2 \<Longrightarrow>
      \<exists>s3. RevertToSnapshot (keccak E) (disk E) i s2 = (Inr (), s3) \<and> inside (keccak E) UNIV (disk E) f J0 R0 A0 s3 A"
    using inside_call [OF i s1] by blast
  let ?v = "v\<lparr>evm_state := s1\<rparr>" let ?b = "(f, J1, R1, A)"
  have "goes_back E stat b ?b i A" unfolding goes_back_def
  proof (intro allI impI)
    fix v' A' assume v': "ins E stat ?b v' A'"
    then obtain s3 where "RevertToSnapshot (keccak E) (disk E) i (evm_state v') = (Inr (), s3)" "inside (keccak E) UNIV (disk E) f J0 R0 A0 s3 A"
      using bk by (auto simp: ins_def)
    then show "\<exists>s. RevertToSnapshot (keccak E) (disk E) i (evm_state v') = (Inr (), s) \<and> ins E stat b (v'\<lparr>evm_state := s\<rparr>) A"
      using v' ins_wok [OF *(1)] by (auto simp: ins_def b)
  qed
  moreover have "ins E stat ?b ?v A" "ins E stat b ?v A" using * j inside_snapshot [OF i s1] by (simp_all add: ins_def b)
  ultimately obtain x v' A' where "K i ?v = (Inr x, v')" "rest v' = rest ?v" "ins E stat b v' A'" "R A A'" "Q x A'"
    using assms [of i] *(2) R_refl unfolding trs_def by blast
  then show "\<exists>x v' A'. sbind take_snapshot K v = (Inr x, v') \<and> rest v' = rest v \<and> ins E stat b v' A' \<and> R A A' \<and> Q x A'"
    by (auto simp: sbind_def take_snapshot_def s1 rest_def simp del: ex_simps)
qed

lemma tri_choice:
  assumes "\<And>v. m v = (if c v then m1 v else m2 v)" "tri E stat R P m1 Q" "tri E stat R P m2 Q"
  shows "tri E stat R P m Q"
  using assms(2,3) unfolding tri_def assms(1) by (metis (full_types))

lemma tri_init_dests: "tri E stat R P (init_dests caller) (\<lambda>_. P)"
  by (rule triI) (auto simp: init_dests_def ins_def rest_def dests_fit_def R_refl split: ContractRef.splits)

lemma code_contract:
  assumes "wok (keccak E) A" "contract_ok (keccak E) c"
  shows "contract_ok (keccak E) (SetCallCode addr (w_codehash A addr) (w_code A addr) c)"
  using assms by (auto simp: contract_ok_def SetCallCode_def w_codehash_def w_code_def wok_def split: option.splits)

lemma tri_load:
  assumes "contract_ok (keccak E) c"
  shows "tri E stat R P (load_code E addr c) (\<lambda>c' A. P A \<and> contract_ok (keccak E) c' \<and> Gas c' = Gas c)"
    and "tri E stat R P (load_code_hash_first E addr c) (\<lambda>c' A. P A \<and> contract_ok (keccak E) c' \<and> Gas c' = Gas c)"
proof -
  have c: "tri E stat R (\<lambda>A. P A \<and> h = w_codehash A addr \<and> k = w_code A addr) (sret (SetCallCode addr h k c))
      (\<lambda>c' A. P A \<and> contract_ok (keccak E) c' \<and> Gas c' = Gas c)" for h k
    by (rule tri_conseq [OF tri_ret [of "\<lambda>A. wok (keccak E) A \<and> P A \<and> h = w_codehash A addr \<and> k = w_code A addr"]])
      (auto simp: code_contract [OF _ assms, unfolded SetCallCode_def] SetCallCode_def)
  show "tri E stat R P (load_code E addr c) (\<lambda>c' A. P A \<and> contract_ok (keccak E) c' \<and> Gas c' = Gas c)"
    unfolding load_code_def
    by (rule tri_bind [OF tri_GetCode tri_bind [OF tri_GetCodeHash]], rule tri_conseq [OF c]) auto
  show "tri E stat R P (load_code_hash_first E addr c) (\<lambda>c' A. P A \<and> contract_ok (keccak E) c' \<and> Gas c' = Gas c)"
    unfolding load_code_hash_first_def
    by (rule tri_bind [OF tri_GetCodeHash tri_bind [OF tri_GetCode]], rule tri_conseq [OF c]) auto
qed

end

lemma small_nil: "small_code []"
  by (simp add: small_code_def)

lemma length_CreateAddress: "length (CreateAddress E a n) = 20"
  by (simp add: CreateAddress_def BytesToAddress_def)

lemma w_balance_nonce: "w_balance (w_mod H addr (\<lambda>a. a\<lparr>ac_nonce := n\<rparr>) A) b = w_balance A b"
  by (simp add: w_mod_def w_balance_put) (simp add: w_balance_def w_acct_def fresh_account_def split: option.splits)

lemma UseGas_le: "UseGas g c = (b, c') \<Longrightarrow> Gas c' \<le> Gas c"
  by (auto simp: UseGas_def word_sub_le not_less split: if_splits)

context machine
begin

lemma tri_assume:
  assumes "\<And>A. wok (keccak E) A \<Longrightarrow> P A \<Longrightarrow> tri E stat R P m Q"
  shows "tri E stat R P m Q"
proof (rule triI)
  fix b v A assume *: "ins E stat b v A" "P A"
  from assms [OF ins_wok [OF *(1)] *(2)] * show "\<exists>x v' A'. m v = (Inr x, v') \<and> rest v' = rest v \<and> ins E stat b v' A' \<and> R A A' \<and> Q x A'"
    unfolding tri_def by blast
qed

lemma trs_assume:
  assumes "\<And>A. wok (keccak E) A \<Longrightarrow> P A \<Longrightarrow> trs E stat R S i P m Q"
  shows "trs E stat R S i P m Q"
proof (rule trsI)
  fix b b1 A0 v A A1
  assume *: "goes_back E stat b b1 i A0" "S A0" "ins E stat b v A" "ins E stat b1 v A1" "R A0 A" "P A" "P A1"
  from assms [OF ins_wok [OF *(3)] *(6)] * show "\<exists>x v' A'. m v = (Inr x, v') \<and> rest v' = rest v \<and> ins E stat b v' A' \<and> R A0 A' \<and> Q x A'"
    unfolding trs_def by blast
qed

lemma tri_env:
  assumes "env_ok E stat \<Longrightarrow> tri E stat R P m Q"
  shows "tri E stat R P m Q"
proof (rule triI)
  fix b v A assume *: "ins E stat b v A" "P A"
  from assms [OF ins_env [OF *(1)]] * show "\<exists>x v' A'. m v = (Inr x, v') \<and> rest v' = rest v \<and> ins E stat b v' A' \<and> R A A' \<and> Q x A'"
    unfolding tri_def by blast
qed

lemma tri_Interpreter_Run:
  assumes "runner_ok E stat R n loop" "contract_ok (keccak E) c" "unat (Gas c) < n" "small_code inp"
  shows "tri E stat R P (Interpreter_Run loop c inp) (\<lambda>x _. Gas (snd x) \<le> Gas c \<and> small_result (fst (fst x)))"
proof (rule triI)
  fix b v A assume *: "ins E stat b v A"
  let ?v = "v\<lparr>depth := depth v + 1, returnData := []\<rparr>"
  have i: "ins E stat b ?v A" using * by (cases b) (simp add: ins_def small_code_def)
  show "\<exists>x v' A'. Interpreter_Run loop c inp v = (Inr x, v') \<and> rest v' = rest v \<and> ins E stat b v' A' \<and> R A A'
      \<and> Gas (snd x) \<le> Gas c \<and> small_result (fst (fst x))"
  proof (cases "Code c = []")
    case True
    then show ?thesis using i R_refl by (cases b) (fastforce simp: Interpreter_Run_def ins_def rest_def small_result_None)
  next
    case False
    let ?fr = "new_frame (c\<lparr>Input := inp\<rparr>)"
    have "good_frame (keccak E) ?fr" "unat (Gas (fr_contract ?fr)) < n" using assms(2-4) by (simp_all add: good_frame_def new_frame_def NewMemory_def contract_ok_def)
    then have "tri E stat R (\<lambda>_. True) (loop ?fr) (\<lambda>x _. Gas (snd x) \<le> Gas (fr_contract ?fr) \<and> small_result (fst (fst x)))" using assms(1) by (auto simp: runner_ok_def)
    then obtain x v' A' where x: "loop ?fr ?v = (Inr x, v')" "rest v' = rest ?v" "ins E stat b v' A'" "R A A'"
      "Gas (snd x) \<le> Gas (fr_contract ?fr) \<and> small_result (fst (fst x))"
      by (rule triE [OF _ i TrueI])
    have "Interpreter_Run loop c inp v = (Inr x, v'\<lparr>depth := depth v' - 1\<rparr>)" using False x(1) by (simp add: Interpreter_Run_def)
    moreover have "rest (v'\<lparr>depth := depth v' - 1\<rparr>) = rest v" using x(2) by (simp add: rest_def)
    moreover have "ins E stat b (v'\<lparr>depth := depth v' - 1\<rparr>) A'" using x(3) by (cases b) (simp add: ins_def)
    ultimately show ?thesis using x(4,5) by (fastforce simp: new_frame_def)
  qed
qed

lemma precompiled_small:
  assumes "env_ok E stat" "precompiled E a = Some p" "small_code inp"
  shows "small_result (fst (snd p inp))"
  using assms by (auto simp: precompiled_def env_ok_def small_result_def opt_bytes_def small_code_def ecrecover_run_def LeftPadBytes_def Let_def
    split: if_splits option.splits)

lemma tri_vm_run:
  assumes "runner_ok E stat R n loop" "contract_ok (keccak E) c" "unat (Gas c) < n" "small_code inp"
  shows "tri E stat R P (vm_run E loop c inp) (\<lambda>x _. Gas (snd x) \<le> Gas c \<and> small_result (fst (fst x)))"
proof (cases "Option.bind (CodeAddr c) (precompiled E)")
  case None
  then show ?thesis using tri_Interpreter_Run [OF assms] by (simp add: vm_run_def)
next
  case (Some p)
  show ?thesis
  proof (rule tri_env)
    assume e: "env_ok E stat"
    obtain a where "precompiled E a = Some p" using Some by (auto simp: bind_eq_Some_conv)
    from precompiled_small [OF e this assms(4)]
    have "Gas (snd (RunPrecompiledContract p inp c)) \<le> Gas c \<and> small_result (fst (fst (RunPrecompiledContract p inp c)))"
      using UseGas_le [of "fst p inp" c] by (auto simp: RunPrecompiledContract_def small_result_None split: prod.splits bool.splits)
    then show ?thesis unfolding vm_run_def Some option.case by (intro tri_ret)
  qed
qed

lemma trs_finish_call:
  assumes "runner_ok E stat R n loop" "contract_ok (keccak E) c" "unat (Gas c) < n" "small_code inp"
  shows "trs E stat R W i P (finish_call E loop i c inp) (call_post (Gas c) W)"
  unfolding finish_call_def
proof (rule trs_bind [OF tri_vm_run [OF assms]], clarify)
  fix ret e c'
  show "trs E stat R W i (\<lambda>A. Gas (snd ((ret, e), c')) \<le> Gas c \<and> small_result (fst (fst ((ret, e), c'))))
      (case e of None \<Rightarrow> sret (ret, Gas c', None)
       | Some x \<Rightarrow> sbind (on_db (RevertToSnapshot (keccak E) (disk E) i)) (\<lambda>_. sret (ret, if x \<noteq> ChainError errExecutionReverted then 0 else Gas c', e)))
      (call_post (Gas c) W)"
  proof (cases e)
    case None
    then show ?thesis by (auto intro!: trs_tri tri_ret simp: call_post_def)
  next
    case (Some x)
    show ?thesis unfolding Some option.case by (rule trs_assume, rule trs_revert) (auto simp: call_post_def)
  qed
qed

lemma trs_post: "trs E stat R S i P m Q' \<Longrightarrow> (\<And>x A. Q' x A \<Longrightarrow> Q x A) \<Longrightarrow> trs E stat R S i P m Q"
  unfolding trs_def by meson

lemma trs_load_finish:
  assumes "runner_ok E stat R n loop" "contract_ok (keccak E) c" "unat (Gas c) < n" "small_code inp"
  shows "trs E stat R W i P (sbind (load_code E addr c) (\<lambda>contract. finish_call E loop i contract inp)) (call_post (Gas c) W)"
    and "trs E stat R W i P (sbind (load_code_hash_first E addr c) (\<lambda>contract. finish_call E loop i contract inp)) (call_post (Gas c) W)"
proof -
  have f: "trs E stat R W i (\<lambda>A. P A \<and> contract_ok (keccak E) c' \<and> Gas c' = Gas c) (finish_call E loop i c' inp) (call_post (Gas c) W)" for c'
  proof (rule trs_assume)
    fix A assume "P A \<and> contract_ok (keccak E) c' \<and> Gas c' = Gas c"
    then show "trs E stat R W i (\<lambda>A. P A \<and> contract_ok (keccak E) c' \<and> Gas c' = Gas c) (finish_call E loop i c' inp) (call_post (Gas c) W)"
      using trs_finish_call [OF assms(1), of c'] assms(3,4) by simp
  qed
  show "trs E stat R W i P (sbind (load_code E addr c) (\<lambda>contract. finish_call E loop i contract inp)) (call_post (Gas c) W)"
    by (rule trs_bind [OF tri_load(1) [OF assms(2)] f])
  show "trs E stat R W i P (sbind (load_code_hash_first E addr c) (\<lambda>contract. finish_call E loop i contract inp)) (call_post (Gas c) W)"
    by (rule trs_bind [OF tri_load(2) [OF assms(2)] f])
qed

lemma trs_if: "(c \<Longrightarrow> trs E stat R S i P m1 Q) \<Longrightarrow> (\<not> c \<Longrightarrow> trs E stat R S i P m2 Q) \<Longrightarrow> trs E stat R S i P (if c then m1 else m2) Q"
  by simp

lemma tri_if: "(c \<Longrightarrow> tri E stat R P m1 Q) \<Longrightarrow> (\<not> c \<Longrightarrow> tri E stat R P m2 Q) \<Longrightarrow> tri E stat R P (if c then m1 else m2) Q"
  by simp

lemma tri_pre: "tri E stat R P' m Q \<Longrightarrow> (\<And>A. P A \<Longrightarrow> P' A) \<Longrightarrow> tri E stat R P m Q"
  unfolding tri_def by meson

lemma tri_guards:
  assumes "tri E stat R W m (call_post gas W)"
  shows "tri E stat R W (\<lambda>v. if NoRecursion (vm_config E) \<and> depth v > 0 then (Inr (None, gas, None), v)
      else if depth v > CallCreateDepth then (Inr (None, gas, Some (ChainError ErrDepth)), v) else m v) (call_post gas W)"
proof (rule tri_choice [OF refl])
  show "tri E stat R W (\<lambda>v. (Inr (None, gas, None), v)) (call_post gas W)"
    unfolding sret_def [symmetric, abs_def] by (rule tri_ret) (simp add: call_post_def small_result_None)
  show "tri E stat R W (\<lambda>v. if depth v > CallCreateDepth then (Inr (None, gas, Some (ChainError ErrDepth)), v) else m v) (call_post gas W)"
  proof (rule tri_choice [OF refl _ assms])
    show "tri E stat R W (\<lambda>v. (Inr (None, gas, Some (ChainError ErrDepth)), v)) (call_post gas W)"
      unfolding sret_def [symmetric, abs_def] by (rule tri_ret) (simp add: call_post_def small_result_None)
  qed
qed

lemma new_contract_ok:
  "in_word amount \<Longrightarrow> length (ref_address caller) = 20 \<Longrightarrow> length addr = 20 \<Longrightarrow> contract_ok H (NewContract caller addr amount gas)"
  by (simp add: NewContract_def contract_ok_def small_code_def)

lemma tri_evm_Call:
  assumes "runner_ok E stat R n loop" "unat gas < n" "in_word amount" "stat \<Longrightarrow> amount = 0"
    "length (ref_address caller) = 20" "length addr = 20" "small_code inp"
  shows "tri E stat R W (evm_Call E loop caller addr inp gas amount) (call_post gas W)" (is "tri _ _ _ _ _ ?Q")
proof -
  let ?c = "NewContract caller addr amount gas"
  let ?can = "\<lambda>A. W A \<and> amount \<le> w_balance A (ref_address caller)"
  have load: "trs E stat R ?can i (\<lambda>_. True) (sbind (load_code E addr ?c) (\<lambda>contract. finish_call E loop i contract inp)) ?Q" for i
    by (rule trs_post [OF trs_load_finish(1) [OF assms(1) new_contract_ok [OF assms(3,5,6)] _ assms(7)]])
      (use assms in \<open>auto simp: NewContract_def call_post_def\<close>)
  have t: "tri E stat R (\<lambda>A. amount \<le> w_balance A (ref_address caller)) (on_db (Transfer E (ref_address caller) addr amount)) (\<lambda>_ _. True)"
    by (rule tri_conseq [OF tri_Transfer]) (use assms(3,4) in \<open>auto simp: in_word_def\<close>)
  have transfer: "trs E stat R ?can i (\<lambda>A. amount \<le> w_balance A (ref_address caller)) (sbind (on_db (Transfer E (ref_address caller) addr amount)) (\<lambda>_.
       sbind (init_dests caller) (\<lambda>_. sbind (load_code E addr ?c) (\<lambda>contract. finish_call E loop i contract inp)))) ?Q" for i
    by (rule trs_bind [OF t trs_bind [OF tri_init_dests load]])
  have create: "tri E stat R (\<lambda>A. ?can A \<and> (x \<longleftrightarrow> accts A addr \<noteq> None)) (if \<not> x then on_db (CreateAccount (keccak E) (disk E) addr) else sret ())
      (\<lambda>_ A. amount \<le> w_balance A (ref_address caller))" for x
  proof (cases x)
    case False
    show ?thesis unfolding if_P [OF False]
      by (rule tri_conseq [OF tri_CreateAccount [of "\<lambda>A. amount \<le> w_balance A (ref_address caller)"]]) (use False in \<open>auto simp: w_balance_Create\<close>)
  qed (simp, rule tri_ret, simp)
  have ret: "tri E stat R P (sret (None, gas, None)) ?Q" for P by (rule tri_ret) (simp add: call_post_def small_result_None)
  show ?thesis unfolding evm_Call_def [abs_def]
  proof (rule tri_guards, rule tri_bind [OF tri_CanTransfer], rule tri_if, goal_cases)
    case (1 x)
    show ?case by (rule tri_ret) (simp add: call_post_def small_result_None)
  next
    case (2 x)
    show ?case
      by (rule tri_pre [of ?can], rule tri_snapshot, rule trs_bind [OF tri_Exist], rule trs_if, rule trs_tri [OF ret],
        rule trs_bind [OF create transfer]) (use 2 in simp)
  qed
qed

lemma tri_evm_CallCode:
  assumes "runner_ok E stat R n loop" "unat gas < n" "in_word amount" "length (ref_address caller) = 20" "small_code inp"
  shows "tri E stat R W (evm_CallCode E loop caller addr inp gas amount) (call_post gas W)"
proof -
  let ?c = "NewContract caller (ref_address caller) amount gas"
  have c: "contract_ok (keccak E) ?c" "unat (Gas ?c) < n" "Gas ?c = gas" using assms new_contract_ok by (simp_all add: NewContract_def)
  show ?thesis unfolding evm_CallCode_def [abs_def]
  proof (rule tri_guards, rule tri_bind [OF tri_CanTransfer], rule tri_if, goal_cases)
    case (1 x)
    show ?case by (rule tri_ret) (simp add: call_post_def small_result_None)
  next
    case (2 x)
    show ?case
      by (rule tri_pre [of W], rule tri_snapshot, rule trs_bind [OF tri_init_dests],
        rule trs_load_finish(2) [OF assms(1) c(1,2) assms(5), unfolded c(3)]) simp
  qed
qed

lemma tri_evm_DelegateCall:
  assumes "runner_ok E stat R n loop" "unat gas < n" "contract_ok (keccak E) p" "small_code inp"
  shows "tri E stat R W (evm_DelegateCall E loop (ContractOf p) addr inp gas) (call_post gas W)"
proof -
  let ?c = "(NewContract (ContractOf p) (self_address p) 0 gas)\<lparr>DelegateCall_flag := True, CallerAddress := CallerAddress p, Contract_value := Contract_value p\<rparr>"
  have c: "contract_ok (keccak E) ?c" "unat (Gas ?c) < n" "Gas ?c = gas" using assms by (simp_all add: NewContract_def contract_ok_def small_code_def)
  have d: "sbind (lift_res (AsDelegate (ContractOf p) (NewContract (ContractOf p) (ref_address (ContractOf p)) 0 gas))) k = k ?c" for k :: "Contract \<Rightarrow> (call_result, EVM) op"
    by (simp add: fun_eq_iff sbind_def lift_res_def)
  show ?thesis unfolding evm_DelegateCall_def [abs_def] d
    by (rule tri_guards, rule tri_snapshot, rule trs_bind [OF tri_init_dests], rule trs_load_finish(2) [OF assms(1) c(1,2) assms(4), unfolded c(3)])
qed

lemma tri_evm_StaticCall:
  assumes "runner_ok E stat R n loop" "unat gas < n" "length (ref_address caller) = 20" "length addr = 20" "small_code inp"
  shows "tri E stat R W (evm_StaticCall E loop caller addr inp gas) (call_post gas W)"
proof -
  let ?c = "NewContract caller addr 0 gas"
  have c: "contract_ok (keccak E) ?c" "unat (Gas ?c) < n" "Gas ?c = gas" using assms new_contract_ok [of 0] by (simp_all add: NewContract_def in_word_def)
  let ?m = "sbind take_snapshot (\<lambda>snapshot. sbind (init_dests caller) (\<lambda>_. sbind (load_code_hash_first E addr ?c) (\<lambda>contract. finish_call E loop snapshot contract inp)))"
  have m: "tri E stat R W ?m (call_post gas W)"
    by (rule tri_snapshot, rule trs_bind [OF tri_init_dests], rule trs_load_finish(2) [OF assms(1) c(1,2) assms(5), unfolded c(3)])
  have "tri E stat R W (\<lambda>v. case ?m (v\<lparr>readOnly := True\<rparr>) of (r, v') \<Rightarrow> (r, if readOnly v then v' else v'\<lparr>readOnly := False\<rparr>)) (call_post gas W)"
  proof (rule triI)
    fix b v A assume *: "ins E stat b v A" "W A"
    have "ins E stat b (v\<lparr>readOnly := True\<rparr>) A" using *(1) by (cases b) (simp add: ins_def)
    then obtain x v' A' where x: "?m (v\<lparr>readOnly := True\<rparr>) = (Inr x, v')" "rest v' = rest (v\<lparr>readOnly := True\<rparr>)" "ins E stat b v' A'" "R A A'" "call_post gas W x A'"
      by (rule triE [OF m _ *(2)])
    let ?v = "if readOnly v then v' else v'\<lparr>readOnly := False\<rparr>"
    have "rest ?v = rest v" using x(2) by (simp add: rest_def)
    moreover have "ins E stat b ?v A'" using x(3) *(1) by (cases b) (auto simp: ins_def)
    ultimately show "\<exists>x v' A'. (case ?m (v\<lparr>readOnly := True\<rparr>) of (r, v') \<Rightarrow> (r, if readOnly v then v' else v'\<lparr>readOnly := False\<rparr>)) = (Inr x, v')
        \<and> rest v' = rest v \<and> ins E stat b v' A' \<and> R A A' \<and> call_post gas W x A'" using x by auto
  qed
  then show ?thesis unfolding evm_StaticCall_def [abs_def] by (rule tri_guards)
qed

end

context machine
begin

lemma tri_store_code:
  assumes "\<not> stat"
  shows "tri E stat R P (store_code E addr (ret, e) c) (\<lambda>x _. Gas (snd x) \<le> Gas c)"
proof (cases "e = None \<and> length (opt_bytes ret) \<le> MaxCodeSize \<and> fst (UseGas (of_nat (length (opt_bytes ret)) * CreateDataGas) c)")
  case True
  obtain c' where c': "UseGas (of_nat (length (opt_bytes ret)) * CreateDataGas) c = (True, c')" using True by (metis (full_types) prod.collapse)
  have "small_code (opt_bytes ret)" using True by (simp add: small_code_def)
  from tri_SetCode [OF assms this]
  have "tri E stat R P (sbind (on_db (SetCode (keccak E) (disk E) addr ret)) (\<lambda>_. sret (e, c'))) (\<lambda>x _. Gas (snd x) \<le> Gas c)"
    by (rule tri_bind [OF tri_pre tri_ret]) (simp_all add: UseGas_le [OF c'])
  then show ?thesis using True c' by (simp add: store_code_def)
next
  case False
  then show ?thesis using UseGas_le [of "of_nat (length (opt_bytes ret)) * CreateDataGas" c]
    by (auto simp: store_code_def split: prod.splits bool.splits intro!: tri_ret)
qed

lemma trs_finish_create:
  assumes "runner_ok E stat R n loop" "contract_ok (keccak E) c" "unat (Gas c) < n" "\<not> stat" "length addr = 20"
  shows "trs E stat R W i P (finish_create E loop i addr c) (\<lambda>x _. create_post (Gas c) x)"
  unfolding finish_create_def
proof (rule trs_bind [OF tri_vm_run [OF assms(1-3) small_nil]], clarify, rule trs_assume, unfold Let_def,
    rule trs_bind [OF tri_store_code [OF assms(4)]], clarify, rule trs_assume, rule trs_if, goal_cases)
  case (1 ret e c' A e2 c2 B)
  then show ?case using assms(5) by (intro trs_revert) (auto simp: create_post_def)
next
  case (2 ret e c' A e2 c2 B)
  then show ?case using assms(5) by (intro trs_tri tri_ret) (auto simp: create_post_def)
qed

lemma tri_choice2: "tri E stat R P m1 Q \<Longrightarrow> tri E stat R P m2 Q \<Longrightarrow> tri E stat R P (\<lambda>v. if c v then m1 v else m2 v) Q"
  by (rule tri_choice [OF refl])

lemma trs_choice:
  assumes "trs E stat R S i P m1 Q" "trs E stat R S i P m2 Q"
  shows "trs E stat R S i P (\<lambda>v. if c v then m1 v else m2 v) Q"
  using assms unfolding trs_def by (metis (full_types))

lemma tri_evm_Create:
  assumes "runner_ok E stat R n loop" "unat gas < n" "in_word amount" "\<not> stat" "small_code code" "length (ref_address caller) = 20"
  shows "tri E stat R (\<lambda>_. True) (evm_Create E loop caller code gas amount) (\<lambda>x _. create_post gas x)" (is "tri _ _ _ _ _ ?Q")
proof -
  let ?can = "\<lambda>A. amount \<le> w_balance A (ref_address caller)"
  let ?a = "\<lambda>nonce. CreateAddress E (ref_address caller) nonce"
  let ?c = "\<lambda>nonce. SetCallCode (?a nonce) (keccak E code) code (NewContract caller (?a nonce) amount gas)"
  have c: "contract_ok (keccak E) (?c nonce)" "unat (Gas (?c nonce)) < n" "Gas (?c nonce) = gas" for nonce
    using assms by (simp_all add: NewContract_def SetCallCode_def contract_ok_def small_nil length_CreateAddress)
  have finish: "trs E stat R ?can i (\<lambda>_. True) (finish_create E loop i (?a nonce) (?c nonce)) ?Q" for i nonce
    using trs_finish_create [OF assms(1) c(1,2) assms(4) length_CreateAddress] c(3) by simp
  have sret: "tri E stat R P (sret (None, y, g, e)) ?Q" if "length y = 20" "g \<le> gas" for P y e g
    by (rule tri_ret) (simp add: create_post_def small_result_None that)
  have ret: "tri E stat R P (\<lambda>v. (Inr (None, y, gas, e), v)) ?Q" if "length y = 20" for P y e
    using sret [OF that order_refl] by (simp add: sret_def [abs_def])
  have create: "tri E stat R ?can (on_db (CreateAccount (keccak E) (disk E) a)) (\<lambda>_. ?can)" for a
    by (rule tri_conseq [OF tri_CreateAccount [of ?can]]) (use assms(4) in \<open>auto simp: w_balance_Create\<close>)
  have transfer: "tri E stat R ?can (on_db (Transfer E (ref_address caller) a amount)) (\<lambda>_ _. True)" for a
    by (rule tri_conseq [OF tri_Transfer]) (use assms(3,4) in \<open>auto simp: in_word_def\<close>)
  have nonce: "tri E stat R ?can (on_db (SetNonce (keccak E) (disk E) (ref_address caller) k)) (\<lambda>_. ?can)" for k
    by (rule tri_conseq [OF tri_SetNonce [OF assms(4), of ?can]]) (auto simp: w_balance_nonce)
  show ?thesis unfolding evm_Create_def [abs_def] Let_def
    apply (rule tri_choice2)
    apply (rule ret, simp add: zero_address_def)
    apply (rule tri_bind [OF tri_CanTransfer])
    apply (rule tri_if)
    apply (rule sret, simp add: zero_address_def, simp)
    apply (rule tri_bind [OF tri_GetNonce])
    apply (rule tri_bind [OF tri_pre [OF nonce]], simp)
    apply (rule tri_bind [OF tri_GetCodeHash], rule tri_bind [OF tri_GetNonce], rule tri_if, rule sret, simp add: zero_address_def, simp)
    apply (rule tri_pre [of ?can], rule tri_snapshot, rule trs_bind [OF create], rule trs_bind [OF transfer], rule trs_bind [OF tri_init_dests])
    apply (rule trs_choice [OF trs_tri [OF ret [OF length_CreateAddress]] finish])
    apply simp
    done
qed

end

end
