(* ===== verification/Evm_Instructions.thy ===== *)
theory Evm_Instructions
  imports Evm_Calls
begin

text \<open>
  The instructions of \<open>core/vm/instructions.go\<close> on good frames. Given enough items on the stack and memory that covers the
  ranges it uses, an instruction does not panic, keeps the frame good (items of 256 bits, small memory, a contract
  whose code belongs to its hash) and leaves no more gas than it had, apart from the gas that comes with a call.
\<close>

section \<open>Triples over frames\<close>

text \<open>The stack, the size of memory and the gas of a good frame.\<close>

definition at_stack :: "(bytes \<Rightarrow> bytes) \<Rightarrow> u64 \<Rightarrow> nat \<Rightarrow> int list \<Rightarrow> frame \<Rightarrow> bool" where
  "at_stack H g L st fr \<longleftrightarrow> good_frame H fr \<and> Gas (fr_contract fr) = g \<and> length (mem_store (fr_mem fr)) = L \<and> fr_stack fr = st"

text \<open>The end of an instruction: a good frame with at most \<open>G\<close> units of gas.\<close>

definition leaves :: "(bytes \<Rightarrow> bytes) \<Rightarrow> nat \<Rightarrow> frame \<Rightarrow> bool" where
  "leaves H G fr \<longleftrightarrow> good_frame H fr \<and> unat (Gas (fr_contract fr)) \<le> G"

definition gives :: "(bytes \<Rightarrow> bytes) \<Rightarrow> nat \<Rightarrow> go_result \<Rightarrow> frame \<Rightarrow> bool" where
  "gives H G x fr \<longleftrightarrow> small_result (fst x) \<and> leaves H G fr"

definition vt :: "environment \<Rightarrow> bool \<Rightarrow> (world \<Rightarrow> world \<Rightarrow> bool) \<Rightarrow> (frame \<Rightarrow> bool) \<Rightarrow> 'a vm \<Rightarrow> ('a \<Rightarrow> frame \<Rightarrow> bool) \<Rightarrow> bool" where
  "vt E stat R P m Q \<longleftrightarrow> (\<forall>b fr v A. ins E stat b v A \<longrightarrow> P fr \<longrightarrow>
     (\<exists>x fr' v' A'. m (fr, v) = (Inr x, fr', v') \<and> rest v' = rest v \<and> ins E stat b v' A' \<and> R A A' \<and> Q x fr'))"

lemma at_stack_words: "at_stack H g L st fr \<Longrightarrow> list_all in_word st"
  by (auto simp: at_stack_def good_frame_def)

lemma at_stack_nonneg: "at_stack H g L st fr \<Longrightarrow> x \<in> set st \<Longrightarrow> 0 \<le> x"
  using at_stack_words [of H g L st fr] by (auto simp: list_all_iff in_word_def)

lemma at_stack_mem: "at_stack H g L st fr \<Longrightarrow> L \<le> 0xffffffffe0"
  by (auto simp: at_stack_def good_frame_def)

context machine
begin

abbreviation "S \<equiv> at_stack (keccak E)"

lemma vtI:
  assumes "\<And>b fr v A. ins E stat b v A \<Longrightarrow> P fr \<Longrightarrow> \<exists>x fr' v' A'. m (fr, v) = (Inr x, fr', v') \<and> rest v' = rest v \<and> ins E stat b v' A' \<and> R A A' \<and> Q x fr'"
  shows "vt E stat R P m Q"
  using assms unfolding vt_def by blast

lemma vtE:
  assumes "vt E stat R P m Q" "ins E stat b v A" "P fr"
  obtains x fr' v' A' where "m (fr, v) = (Inr x, fr', v')" "rest v' = rest v" "ins E stat b v' A'" "R A A'" "Q x fr'"
  using assms unfolding vt_def by blast

lemma vt_assume:
  assumes "\<And>fr. P fr \<Longrightarrow> vt E stat R P m Q"
  shows "vt E stat R P m Q"
  using assms unfolding vt_def by blast

lemma vt_bind:
  assumes "vt E stat R P m Q'" "\<And>x. vt E stat R (Q' x) (f x) Q"
  shows "vt E stat R P (sbind m f) Q"
proof (rule vtI)
  fix b fr v A assume *: "ins E stat b v A" "P fr"
  obtain x fr1 v1 A1 where 1: "m (fr, v) = (Inr x, fr1, v1)" "rest v1 = rest v" "ins E stat b v1 A1" "R A A1" "Q' x fr1" by (rule vtE [OF assms(1) *])
  obtain y fr2 v2 A2 where "f x (fr1, v1) = (Inr y, fr2, v2)" "rest v2 = rest v1" "ins E stat b v2 A2" "R A1 A2" "Q y fr2"
    by (rule vtE [OF assms(2) 1(3,5)])
  then show "\<exists>x fr' v' A'. sbind m f (fr, v) = (Inr x, fr', v') \<and> rest v' = rest v \<and> ins E stat b v' A' \<and> R A A' \<and> Q x fr'"
    using 1 R_trans by (auto simp del: ex_simps)
qed

lemma vt_step:
  assumes "\<And>fr v. P fr \<Longrightarrow> \<exists>x fr'. m (fr, v) = (Inr x, fr', v) \<and> Q x fr'"
  shows "vt E stat R P m Q"
proof (rule vtI)
  fix b fr v A assume *: "ins E stat b v A" "P fr"
  from assms [OF *(2), of v] * show "\<exists>x fr' v' A'. m (fr, v) = (Inr x, fr', v') \<and> rest v' = rest v \<and> ins E stat b v' A' \<and> R A A' \<and> Q x fr'"
    using R_refl by blast
qed

lemma vt_if: "(c \<Longrightarrow> vt E stat R P m1 Q) \<Longrightarrow> (\<not> c \<Longrightarrow> vt E stat R P m2 Q) \<Longrightarrow> vt E stat R P (if c then m1 else m2) Q"
  by simp

lemma vt_seq:
  assumes "\<And>fr v. P fr \<Longrightarrow> \<exists>fr'. m (fr, v) = (Inr x, fr', v) \<and> P' fr'" "vt E stat R P' (f x) Q"
  shows "vt E stat R P (sbind m f) Q"
proof (rule vt_bind [where Q' = "\<lambda>y fr. y = x \<and> P' fr"])
  show "vt E stat R P m (\<lambda>y fr. y = x \<and> P' fr)" by (rule vt_step) (use assms(1) in blast)
  show "vt E stat R (\<lambda>fr. y = x \<and> P' fr) (f y) Q" for y using assms(2) unfolding vt_def by blast
qed

lemma vt_pop: "vt E stat R (S g L st) (f x) Q \<Longrightarrow> vt E stat R (S g L (x # st)) (sbind pop f) Q"
  by (erule vt_seq [rotated]) (auto simp: pop_def at_stack_def good_frame_def)

lemma vt_push: "in_word x \<Longrightarrow> vt E stat R (S g L (x # st)) (f ()) Q \<Longrightarrow> vt E stat R (S g L st) (sbind (push x) f) Q"
  by (erule vt_seq [rotated]) (auto simp: push_def mod_frame_def at_stack_def good_frame_def)

lemma vt_get_frame:
  "(\<And>fr. S g L st fr \<Longrightarrow> vt E stat R (S g L st) (f fr) Q) \<Longrightarrow> vt E stat R (S g L st) (sbind get_frame f) Q"
  unfolding vt_def by (simp add: sbind_def get_frame_def)

lemma vt_in_evm:
  assumes "tri E stat R (\<lambda>_. True) m (\<lambda>x _. q x)" "\<And>x. q x \<Longrightarrow> vt E stat R P (f x) Q"
  shows "vt E stat R P (sbind (in_evm m) f) Q"
proof (rule vt_bind [where Q' = "\<lambda>x fr. q x \<and> P fr"])
  show "vt E stat R P (in_evm m) (\<lambda>x fr. q x \<and> P fr)"
  proof (rule vtI)
    fix b fr v A assume *: "ins E stat b v A" "P fr"
    obtain x v' A' where "m v = (Inr x, v')" "rest v' = rest v" "ins E stat b v' A'" "R A A'" "q x" by (rule triE [OF assms(1) *(1) TrueI])
    then show "\<exists>x fr' v' A'. in_evm m (fr, v) = (Inr x, fr', v') \<and> rest v' = rest v \<and> ins E stat b v' A' \<and> R A A' \<and> q x \<and> P fr'"
      using *(2) by (auto simp: in_evm_def)
  qed
  show "vt E stat R (\<lambda>fr. q x \<and> P fr) (f x) Q" for x using assms(2) [of x] unfolding vt_def by blast
qed

lemma vt_in_mem:
  assumes "\<And>fr. S g L st fr \<Longrightarrow> \<exists>x. m (fr_mem fr) = Inr x \<and> q x" "\<And>x. q x \<Longrightarrow> vt E stat R (S g L st) (f x) Q"
  shows "vt E stat R (S g L st) (sbind (in_mem m) f) Q"
proof (rule vt_bind [where Q' = "\<lambda>x fr. q x \<and> S g L st fr"])
  show "vt E stat R (S g L st) (in_mem m) (\<lambda>x fr. q x \<and> S g L st fr)" by (rule vt_step) (use assms(1) in \<open>fastforce simp: in_mem_def\<close>)
  show "vt E stat R (\<lambda>fr. q x \<and> S g L st fr) (f x) Q" for x using assms(2) [of x] unfolding vt_def by blast
qed

lemma vt_set_mem:
  assumes "\<And>fr. S g L st fr \<Longrightarrow> \<exists>x. m (fr_mem fr) = Inr x \<and> length (mem_store x) = L" "vt E stat R (S g L st) (f ()) Q"
  shows "vt E stat R (S g L st) (sbind (set_mem m) f) Q"
proof (rule vt_bind [where Q' = "\<lambda>_. S g L st"])
  show "vt E stat R (S g L st) (set_mem m) (\<lambda>_. S g L st)"
  proof (rule vt_step)
    fix fr v assume *: "S g L st fr"
    from assms(1) [OF this] obtain x where "m (fr_mem fr) = Inr x" "length (mem_store x) = L" by blast
    then show "\<exists>x fr'. set_mem m (fr, v) = (Inr x, fr', v) \<and> S g L st fr'" using * by (auto simp: set_mem_def at_stack_def good_frame_def)
  qed
qed (use assms(2) in simp)

lemma vt_lift: "r = Inr x \<Longrightarrow> vt E stat R P (f x) Q \<Longrightarrow> vt E stat R P (sbind (lift_res r) f) Q"
  by (simp add: vt_def sbind_def lift_res_def)

lemma vt_pc: "vt E stat R (S g L st) (f ()) Q \<Longrightarrow> vt E stat R (S g L st) (sbind (mod_frame (\<lambda>fr. fr\<lparr>fr_pc := h fr\<rparr>)) f) Q"
  by (erule vt_seq [rotated]) (auto simp: mod_frame_def at_stack_def good_frame_def)

lemma vt_result: "small_result (fst x) \<Longrightarrow> unat g \<le> G \<Longrightarrow> vt E stat R (S g L st) (sret x) (gives (keccak E) G)"
  by (rule vt_step) (auto simp: sret_def gives_def leaves_def at_stack_def)

lemma vt_done: "unat g \<le> G \<Longrightarrow> vt E stat R (S g L st) (sret (None, e)) (gives (keccak E) G)"
  by (rule vt_result) (simp add: small_result_None)

lemma vt_env:
  assumes "env_ok E stat \<Longrightarrow> vt E stat R P m Q"
  shows "vt E stat R P m Q"
  using assms ins_env unfolding vt_def by blast

lemmas vt_rules = vt_pop vt_push vt_get_frame vt_pc vt_done

end

section \<open>Memory\<close>

definition covered :: "nat \<Rightarrow> int \<times> int \<Rightarrow> bool" where
  "covered L p \<longleftrightarrow> 0 \<le> fst p \<and> 0 \<le> snd p \<and> (snd p = 0 \<or> fst p + snd p \<le> int L)"

lemma uint_Uint64: "0 \<le> x \<Longrightarrow> x < 2 ^ 64 \<Longrightarrow> uint (Uint64 x) = x"
  by (simp add: Uint64_def uint_word_of_int)

lemma covered_Int64:
  assumes "covered L (off, len)" "L \<le> 0xffffffffe0" "len \<noteq> 0"
  shows "Int64 off = off" "Int64 len = len" "i64 (off + len) = off + len" "0 \<le> off" "0 < len" "off + len \<le> int L"
    "uint (Uint64 off) = off" "uint (Uint64 len) = len" "uint (Uint64 off + Uint64 len) = off + len"
proof -
  have b: "0 \<le> off" "0 < len" "off + len \<le> int L" using assms by (auto simp: covered_def)
  have l: "int L \<le> 0xffffffffe0" using assms(2) by linarith
  then have "off < 2 ^ 63" "len < 2 ^ 63" "off + len < 2 ^ 63" "- (2 ^ 63) \<le> off" "- (2 ^ 63) \<le> len" "- (2 ^ 63) \<le> off + len" using b by auto
  then show "Int64 off = off" "Int64 len = len" "i64 (off + len) = off + len" using Int64_id b by (auto simp: Int64_def)
  show "0 \<le> off" "0 < len" "off + len \<le> int L" by fact+
  have s: "off < 2 ^ 64" "len < 2 ^ 64" "off + len < 2 ^ 64" using b l by auto
  show "uint (Uint64 off) = off" "uint (Uint64 len) = len" using uint_Uint64 b s by auto
  have "Uint64 off + Uint64 len = Uint64 (off + len)" by (simp add: Uint64_def)
  then show "uint (Uint64 off + Uint64 len) = off + len" using uint_Uint64 b s by simp
qed

lemma go_slice_ok: "0 \<le> lo \<Longrightarrow> lo \<le> hi \<Longrightarrow> hi \<le> int (length b) \<Longrightarrow> \<exists>x. go_slice b lo hi = Inr x \<and> length x = nat (hi - lo)"
  by (auto simp: go_slice_def)

lemma mem_Get_covered:
  assumes "covered (length (mem_store m)) (off, len)" "length (mem_store m) \<le> 0xffffffffe0"
  shows "\<exists>x. mem_Get (Int64 off) (Int64 len) m = Inr x \<and> length (opt_bytes x) \<le> length (mem_store m)"
    and "\<exists>x. mem_GetPtr (Int64 off) (Int64 len) m = Inr x \<and> length (opt_bytes x) \<le> length (mem_store m)"
proof -
  consider "len = 0" | "len \<noteq> 0" by blast
  then have "(\<exists>x. mem_Get (Int64 off) (Int64 len) m = Inr x \<and> length (opt_bytes x) \<le> length (mem_store m))
      \<and> (\<exists>x. mem_GetPtr (Int64 off) (Int64 len) m = Inr x \<and> length (opt_bytes x) \<le> length (mem_store m))"
  proof cases
    case 1
    have "Int64 0 = 0" by (rule Int64_id) simp_all
    then show ?thesis using 1 by (simp add: mem_Get_def mem_GetPtr_def opt_bytes_def)
  next
    case 2
    note c = covered_Int64 [OF assms 2]
    obtain x where "go_slice (mem_store m) off (off + len) = Inr x" "length x = nat len" using go_slice_ok [of off "off + len" "mem_store m"] c(4-6) by auto
    then show ?thesis unfolding mem_Get_def mem_GetPtr_def c(1-3) using c(4-6) by (simp add: opt_bytes_def)
  qed
  then show "\<exists>x. mem_Get (Int64 off) (Int64 len) m = Inr x \<and> length (opt_bytes x) \<le> length (mem_store m)"
    and "\<exists>x. mem_GetPtr (Int64 off) (Int64 len) m = Inr x \<and> length (opt_bytes x) \<le> length (mem_store m)" by blast+
qed

lemma mem_Set_covered:
  assumes "covered (length (mem_store m)) (off, len)" "length (mem_store m) \<le> 0xffffffffe0"
  shows "\<exists>x. mem_Set (Uint64 off) (Uint64 len) val m = Inr x \<and> length (mem_store x) = length (mem_store m)"
proof (cases "len = 0")
  case True
  then show ?thesis by (simp add: mem_Set_def Uint64_def)
next
  case False
  note c = covered_Int64 [OF assms False]
  obtain x where x: "go_slice (mem_store m) off (off + len) = Inr x" "length x = nat len" using go_slice_ok [of off "off + len" "mem_store m"] c(4-6) by auto
  have "unat (of_nat (length (mem_store m)) :: u64) = length (mem_store m)" by (rule unat_of_nat_u64) (use assms(2) in simp)
  then have "uint (of_nat (length (mem_store m)) :: u64) = int (length (mem_store m))" unfolding uint_nat by (rule arg_cong)
  then have "\<not> Uint64 len > of_nat (length (mem_store m))" unfolding word_less_def c(8) using c(4-6) by linarith
  moreover have "0 < Uint64 len" using c(5,8) by (simp add: word_less_def)
  ultimately show ?thesis using x c(4-6) by (simp add: mem_Set_def go_copy_def c(7,9) Let_def)
qed

lemma mem_Set_32:
  assumes "covered (length (mem_store m)) (off, 32)" "length (mem_store m) \<le> 0xffffffffe0"
  shows "\<exists>x. mem_Set (Uint64 off) 32 val m = Inr x \<and> length (mem_store x) = length (mem_store m)"
  using mem_Set_covered [OF assms, of val] by (simp add: Uint64_def)

lemma mem_Get_32:
  assumes "covered (length (mem_store m)) (off, 32)" "length (mem_store m) \<le> 0xffffffffe0"
  shows "\<exists>x. mem_Get (Int64 off) 32 m = Inr x \<and> length (opt_bytes x) = 32"
proof -
  note c = covered_Int64 [OF assms, simplified]
  obtain x where "go_slice (mem_store m) off (off + 32) = Inr x" "length x = 32" using go_slice_ok [of off "off + 32" "mem_store m"] c(4-6) by auto
  then show ?thesis unfolding mem_Get_def c(1-3) using c(4-6) by (simp add: opt_bytes_def)
qed

lemma set_byte_covered:
  assumes "covered (length (mem_store m)) (off, 1)" "length (mem_store m) \<le> 0xffffffffe0"
  shows "\<exists>x. set_byte (Int64 off) b m = Inr x \<and> length (mem_store x) = length (mem_store m)"
  using covered_Int64(1,4,6) [OF assms] by (simp add: set_byte_def)

lemma getDataBig_ok: "0 \<le> start \<Longrightarrow> 0 \<le> len \<Longrightarrow> \<exists>b. getDataBig src start len = Inr b"
  by (simp add: getDataBig_def go_slice_def Let_def BigMin_def)

lemma getDataBig_32:
  assumes "0 \<le> start"
  shows "\<exists>b. getDataBig src start 32 = Inr b \<and> length b = 32"
proof -
  have "nat (i64 (uint (Uint64 32))) = 32" by (simp add: Uint64_def i64_def)
  then show ?thesis using assms by (auto simp: getDataBig_def go_slice_def Let_def BigMin_def RightPadBytes_def)
qed

section \<open>Words\<close>

lemma bytes_word: "length b \<le> 32 \<Longrightarrow> in_word (big_SetBytes b)"
proof -
  assume l: "length b \<le> 32"
  have "be_nat b < 256 ^ length b" by (rule be_nat_less)
  also have "\<dots> \<le> 256 ^ 32" by (rule power_increasing [OF l]) simp
  also have "\<dots> = 2 ^ 256" by simp
  finally have "int (be_nat b) < int (2 ^ 256)" by (rule of_nat_less_iff [THEN iffD2])
  then show ?thesis by (simp add: in_word_def big_SetBytes_def)
qed

lemma size_word: "n < 2 ^ 62 \<Longrightarrow> in_word (int n)"
proof -
  assume "n < 2 ^ 62"
  also have "(2 :: nat) ^ 62 \<le> 2 ^ 256" by (rule power_increasing) simp_all
  finally have "int n < int (2 ^ 256)" by (rule of_nat_less_iff [THEN iffD2])
  then show ?thesis by (simp add: in_word_def)
qed

lemma u64_word: "in_word (uint (x :: u64))"
proof -
  have "uint x < 2 ^ 64" using uint_lt2p [of x] by simp
  also have "(2 :: int) ^ 64 \<le> 2 ^ 256" by (rule power_increasing) simp_all
  finally show ?thesis by (simp add: in_word_def)
qed

lemma flag_word: "in_word 0" "in_word 1"
  by (simp_all add: in_word_def)

text \<open>An arithmetic instruction replaces its arguments by a word.\<close>

lemma op_arith_stack:
  assumes "list_all in_word (fr_stack fr)" "arith_items a \<le> length (fr_stack fr)"
  shows "\<exists>x. op_arith a (fr, v) = (Inr (None, None), fr\<lparr>fr_stack := x # drop (arith_items a) (fr_stack fr)\<rparr>, v) \<and> in_word x"
proof -
  let ?k = "arith_items a" let ?ws = "map word_of_int (take ?k (fr_stack fr)) :: w256 list"
  have "uint (word_of_int x :: w256) = x" if "x \<in> set (take ?k (fr_stack fr))" for x
    using assms(1) in_set_takeD [OF that] by (simp add: list_all_iff in_word_def uint_word_of_int)
  then have "map uint ?ws = take ?k (fr_stack fr)" by (simp add: map_idI)
  then have "fr = fr\<lparr>fr_stack := map uint ?ws @ drop ?k (fr_stack fr)\<rparr>" by simp
  then have "op_arith a (fr, v) = (Inr (None, None), fr\<lparr>fr_stack := uint (word_arith a ?ws) # drop ?k (fr_stack fr)\<rparr>, v)"
    using op_arith_word [where ws = ?ws and a = a and fr = fr and st = "drop ?k (fr_stack fr)" and v = v] assms(2) by simp
  then show ?thesis using in_word_uint by blast
qed

section \<open>Instructions\<close>

lemma length_ge:
  "1 \<le> length st \<Longrightarrow> \<exists>x st'. st = x # st'"
  "2 \<le> length st \<Longrightarrow> \<exists>x y st'. st = x # y # st'"
  "3 \<le> length st \<Longrightarrow> \<exists>x y z st'. st = x # y # z # st'"
  "4 \<le> length st \<Longrightarrow> \<exists>x y z u st'. st = x # y # z # u # st'"
  by (auto simp: numeral_eq_Suc Suc_le_length_iff)

context machine
begin

lemma vt_evm:
  assumes "tri E stat R (\<lambda>_. True) m Q1" "\<And>x A. Q1 x A \<Longrightarrow> vt E stat R P (f x) Q"
  shows "vt E stat R P (sbind (in_evm m) f) Q"
proof (rule vt_in_evm [where q = "\<lambda>x. \<exists>A. Q1 x A"])
  show "tri E stat R (\<lambda>_. True) m (\<lambda>x _. \<exists>A. Q1 x A)" by (rule tri_conseq [OF assms(1)]) auto
qed (use assms(2) in blast)

lemma vt_words:
  assumes "list_all in_word st \<Longrightarrow> L \<le> 0xffffffffe0 \<Longrightarrow> vt E stat R (S g L st) m Q"
  shows "vt E stat R (S g L st) m Q"
  by (rule vt_assume) (use assms at_stack_words at_stack_mem in blast)

lemma vt_op_arith:
  assumes "arith_items a \<le> length st" "unat g \<le> G"
  shows "vt E stat R (S g L st) (op_arith a) (gives (keccak E) G)"
proof (rule vt_step)
  fix fr v assume fr: "S g L st fr"
  then have w: "list_all in_word (fr_stack fr)" "arith_items a \<le> length (fr_stack fr)" using assms(1) by (auto simp: at_stack_def good_frame_def)
  have "list_all in_word (drop (arith_items a) (fr_stack fr))" using w(1) by (auto simp: list_all_iff dest: in_set_dropD)
  then show "\<exists>x fr'. op_arith a (fr, v) = (Inr x, fr', v) \<and> gives (keccak E) G x fr'"
    using op_arith_stack [OF w, of v] fr assms(2) by (auto simp: at_stack_def good_frame_def gives_def leaves_def small_result_None)
qed

lemma env_value_word:
  assumes "S g L st fr" "ins E stat b v A"
  shows "in_word (env_value E e fr v)"
proof -
  have c: "contract_ok (keccak E) (fr_contract fr)" "length (mem_store (fr_mem fr)) \<le> 0xffffffffe0" using assms(1) by (auto simp: at_stack_def good_frame_def)
  have r: "length (returnData v) < 2 ^ 62" using assms(2) by (cases b) (simp add: ins_def small_code_def)
  have "length (mem_store (fr_mem fr)) < 2 ^ 62" "length (Code (fr_contract fr)) < 2 ^ 62" "length (Input (fr_contract fr)) < 2 ^ 62"
    using c by (auto simp: contract_ok_def small_code_def)
  then show ?thesis using c(1) r ins_env [OF assms(2)]
    by (cases e) (auto simp: contract_ok_def env_ok_def intro: bytes_word size_word u64_word)
qed

lemma vt_op_env:
  assumes "unat g \<le> G"
  shows "vt E stat R (S g L st) (op_env E e) (gives (keccak E) G)"
proof (rule vtI)
  fix b fr v A assume *: "ins E stat b v A" "S g L st fr"
  have "\<exists>x fr'. op_env E e (fr, v) = (Inr x, fr', v) \<and> gives (keccak E) G x fr'" using assms *(2) env_value_word [OF *(2,1), of e]
    by (auto simp: op_env_def sbind_def push_def mod_frame_def sret_def gives_def leaves_def at_stack_def good_frame_def small_result_None)
  then show "\<exists>x fr' v' A'. op_env E e (fr, v) = (Inr x, fr', v') \<and> rest v' = rest v \<and> ins E stat b v' A' \<and> R A A' \<and> gives (keccak E) G x fr'"
    using * R_refl by blast
qed

lemma vt_opSha3:
  assumes "covered L (x, y)" "unat g \<le> G"
  shows "vt E stat R (S g L (x # y # st)) (opSha3 E) (gives (keccak E) G)"
proof -
  have rec: "tri E stat R (\<lambda>_. True) (db_do (AddPreimage h b)) (\<lambda>x _. True)" for h b by (rule tri_AddPreimage)
  show ?thesis unfolding opSha3_def Let_def
  proof (rule vt_env, intro vt_rules vt_in_mem [where q = "\<lambda>_. True"], goal_cases)
    case (1 fr)
    then show ?case using mem_Get_covered(1) assms(1) at_stack_mem [OF 1(2)] by (fastforce simp: at_stack_def)
  next
    case (2 data)
    then have w: "in_word (big_SetBytes (keccak E (opt_bytes data)))" by (intro bytes_word) (simp add: env_ok_def)
    let ?rest = "\<lambda>_. sbind (push (big_SetBytes (keccak E (opt_bytes data)))) (\<lambda>_. sret (None, None))"
    have k: "vt E stat R (S g L st) (?rest ()) (gives (keccak E) G)" by (intro vt_rules w assms)
    show ?case
    proof (cases "EnablePreimageRecording (vm_config E)")
      case True
      then show ?thesis using vt_in_evm [OF rec k] by simp
    qed (use k in simp)
  qed
qed

lemma vt_opBalance: "unat g \<le> G \<Longrightarrow> vt E stat R (S g L (x # st)) (opBalance E) (gives (keccak E) G)"
  unfolding opBalance_def by (intro vt_rules vt_evm [OF tri_GetBalance]) auto

lemma vt_opCallDataLoad:
  assumes "0 \<le> x" "unat g \<le> G"
  shows "vt E stat R (S g L (x # st)) opCallDataLoad (gives (keccak E) G)"
  unfolding opCallDataLoad_def
proof (intro vt_get_frame vt_pop)
  fix fr :: frame
  obtain b where "getDataBig (Input (fr_contract fr)) x 32 = Inr b" "length b \<le> 32" using getDataBig_32 [OF assms(1)] by fastforce
  then show "vt E stat R (S g L st) (sbind (lift_res (getDataBig (Input (fr_contract fr)) x 32)) (\<lambda>b. sbind (push (big_SetBytes b)) (\<lambda>_. sret (None, None)))) (gives (keccak E) G)"
    by (intro vt_lift vt_rules bytes_word assms(2))
qed

lemma vt_mem_Set:
  assumes "covered L (off, len)" "vt E stat R (S g L st) (f ()) Q"
  shows "vt E stat R (S g L st) (sbind (set_mem (mem_Set (Uint64 off) (Uint64 len) b)) f) Q"
proof (rule vt_set_mem)
  fix fr assume "S g L st fr"
  then show "\<exists>x. mem_Set (Uint64 off) (Uint64 len) b (fr_mem fr) = Inr x \<and> length (mem_store x) = L"
    using mem_Set_covered [of "fr_mem fr" off len b] assms(1) by (auto simp: at_stack_def good_frame_def)
qed (rule assms(2))

lemma vt_copy_data:
  assumes "covered L (x, z)" "0 \<le> y" "unat g \<le> G"
  shows "vt E stat R (S g L (x # y # z # st)) (copy_data src) (gives (keccak E) G)"
proof -
  obtain b where "getDataBig src y z = Inr b" using getDataBig_ok assms(1,2) by (fastforce simp: covered_def)
  then show ?thesis unfolding copy_data_def by (intro vt_rules vt_lift vt_mem_Set assms)
qed

lemma vt_opExtCodeCopy:
  assumes "covered L (y, u)" "0 \<le> z" "unat g \<le> G"
  shows "vt E stat R (S g L (x # y # z # u # st)) (opExtCodeCopy E) (gives (keccak E) G)"
  unfolding opExtCodeCopy_def
proof (intro vt_pop vt_evm [OF tri_GetCode])
  fix code :: "bytes option"
  obtain b where "getDataBig (opt_bytes code) z u = Inr b" using getDataBig_ok assms(1,2) by (fastforce simp: covered_def)
  then show "vt E stat R (S g L st) (sbind (lift_res (getDataBig (opt_bytes code) z u)) (\<lambda>b. sbind (set_mem (mem_Set (Uint64 y) (Uint64 u) b)) (\<lambda>_. sret (None, None)))) (gives (keccak E) G)"
    by (intro vt_lift vt_mem_Set vt_rules assms)
qed

lemma vt_opExtCodeSize: "unat g \<le> G \<Longrightarrow> vt E stat R (S g L (x # st)) (opExtCodeSize E) (gives (keccak E) G)"
  unfolding opExtCodeSize_def by (intro vt_rules vt_evm [OF tri_GetCodeSize] size_word) auto

lemma vt_opBlockhash: "unat g \<le> G \<Longrightarrow> vt E stat R (S g L (x # st)) (opBlockhash E) (gives (keccak E) G)"
  unfolding opBlockhash_def Let_def by (rule vt_env, intro vt_rules) (auto simp: env_ok_def flag_word intro: bytes_word)

lemma vt_opMload:
  assumes "covered L (x, 32)" "unat g \<le> G"
  shows "vt E stat R (S g L (x # st)) opMload (gives (keccak E) G)"
  unfolding opMload_def
proof (intro vt_pop vt_in_mem [where q = "\<lambda>b. length (opt_bytes b) = 32"] vt_push vt_done bytes_word assms(2))
  show "\<exists>y. mem_Get (Int64 x) 32 (fr_mem fr) = Inr y \<and> length (opt_bytes y) = 32" if "S g L st fr" for fr
    using that mem_Get_32 [of "fr_mem fr" x] assms(1) by (auto simp: at_stack_def good_frame_def)
qed simp

lemma vt_opMstore:
  assumes "covered L (x, 32)" "unat g \<le> G"
  shows "vt E stat R (S g L (x # y # st)) opMstore (gives (keccak E) G)"
  unfolding opMstore_def
proof (intro vt_pop vt_set_mem vt_done assms(2))
  show "\<exists>m. mem_Set (Uint64 x) 32 (PaddedBigBytes y 32) (fr_mem fr) = Inr m \<and> length (mem_store m) = L" if "S g L st fr" for fr
    using that mem_Set_32 [of "fr_mem fr" x] assms(1) by (auto simp: at_stack_def good_frame_def)
qed

lemma vt_opMstore8:
  assumes "covered L (x, 1)" "unat g \<le> G"
  shows "vt E stat R (S g L (x # y # st)) opMstore8 (gives (keccak E) G)"
  unfolding opMstore8_def
proof (intro vt_pop vt_set_mem vt_done assms(2))
  show "\<exists>m. set_byte (Int64 x) (of_int (Int64 y AND 0xFF)) (fr_mem fr) = Inr m \<and> length (mem_store m) = L" if "S g L st fr" for fr
    using that set_byte_covered [of "fr_mem fr" x] assms(1) by (auto simp: at_stack_def good_frame_def)
qed

lemma vt_opSload: "unat g \<le> G \<Longrightarrow> vt E stat R (S g L (x # st)) (opSload E) (gives (keccak E) G)"
  unfolding opSload_def by (intro vt_rules vt_evm [OF tri_GetState] bytes_word) auto

lemma length_BigToHash: "length (BigToHash x) = 32"
  by (simp add: BigToHash_def)

lemma vt_opSstore: "\<not> stat \<Longrightarrow> unat g \<le> G \<Longrightarrow> vt E stat R (S g L (x # y # st)) (opSstore E) (gives (keccak E) G)"
  unfolding opSstore_def by (intro vt_rules vt_evm [OF tri_SetState] length_BigToHash)

lemma vt_opSuicide:
  assumes "\<not> stat" "unat g \<le> G"
  shows "vt E stat R (S g L (x # st)) (opSuicide E) (gives (keccak E) G)"
proof (rule vtI)
  fix b fr v A assume *: "ins E stat b v A" "S g L (x # st) fr"
  let ?self = "self_address (fr_contract fr)" let ?fr = "fr\<lparr>fr_stack := st\<rparr>"
  let ?m = "sbind (on_db (GetBalance (keccak E) (disk E) ?self)) (\<lambda>n. sbind (on_db (AddBalance (keccak E) (disk E) (BigToAddress x) n))
    (\<lambda>_. on_db (Suicide (keccak E) (disk E) ?self)))"
  have "tri E stat R (\<lambda>_. True) ?m (\<lambda>_ _. True)"
    by (rule tri_bind [OF tri_GetBalance], rule tri_pre [OF tri_Destroy [OF assms(1)]]) simp
  then obtain y v' A' where 1: "?m v = (Inr y, v')" "rest v' = rest v" "ins E stat b v' A'" "R A A'" by (rule triE [OF _ *(1) TrueI])
  have "opSuicide E (fr, v) = (Inr (None, None), ?fr, v')" using 1(1) *(2)
    by (auto simp: opSuicide_def at_stack_def sbind_def in_evm_def pop_def get_frame_def sret_def Let_def split: prod.splits sum.splits)
  moreover have "gives (keccak E) G (None, None) ?fr" using *(2) assms(2)
    by (auto simp: gives_def leaves_def at_stack_def good_frame_def small_result_None)
  ultimately show "\<exists>x fr' v' A'. opSuicide E (fr, v) = (Inr x, fr', v') \<and> rest v' = rest v \<and> ins E stat b v' A' \<and> R A A' \<and> gives (keccak E) G x fr'"
    using 1 by blast
qed

lemma vt_pop_topics: "n \<le> length st \<Longrightarrow> (\<And>ts. vt E stat R (S g L (drop n st)) (f ts) Q) \<Longrightarrow> vt E stat R (S g L st) (sbind (pop_topics n) f) Q"
proof (induction n arbitrary: st f)
  case (Suc n)
  obtain x st' where st: "st = x # st'" using Suc.prems(1) by (cases st) auto
  have "sbind (pop_topics (Suc n)) f = sbind pop (\<lambda>t. sbind (pop_topics n) (\<lambda>ts. f (BigToHash t # ts)))"
    by (auto simp: sbind_def sret_def fun_eq_iff split: sum.splits prod.splits)
  then show ?case using Suc.IH [of st' "\<lambda>ts. f (BigToHash x # ts)"] Suc.prems unfolding st by (auto intro!: vt_pop)
qed simp

lemma vt_mem_Get:
  assumes "covered L (x, y)" "\<And>b. length (opt_bytes b) \<le> L \<Longrightarrow> vt E stat R (S g L st) (f b) Q"
  shows "vt E stat R (S g L st) (sbind (in_mem (mem_Get (Int64 x) (Int64 y))) f) Q"
proof (rule vt_in_mem [where q = "\<lambda>b. length (opt_bytes b) \<le> L"])
  show "\<exists>b. mem_Get (Int64 x) (Int64 y) (fr_mem fr) = Inr b \<and> length (opt_bytes b) \<le> L" if "S g L st fr" for fr
    using that mem_Get_covered(1) [of "fr_mem fr" x y] assms(1) by (auto simp: at_stack_def good_frame_def)
qed (use assms(2) in blast)

lemma vt_makeLog:
  assumes "\<not> stat" "covered L (x, y)" "n \<le> length st" "unat g \<le> G"
  shows "vt E stat R (S g L (x # y # st)) (makeLog E n) (gives (keccak E) G)"
  unfolding makeLog_def by (intro vt_rules vt_pop_topics vt_mem_Get vt_evm [OF tri_AddLog] assms)

lemma mem_small: "length b \<le> L \<Longrightarrow> L \<le> 0xffffffffe0 \<Longrightarrow> small_code b"
  by (simp add: small_code_def)

lemma vt_opReturn:
  assumes "covered L (x, y)" "unat g \<le> G"
  shows "vt E stat R (S g L (x # y # st)) opReturn (gives (keccak E) G)" "vt E stat R (S g L (x # y # st)) opRevert (gives (keccak E) G)"
proof -
  have p: "\<exists>b. mem_GetPtr (Int64 x) (Int64 y) (fr_mem fr) = Inr b \<and> small_result b" if "S g L st fr" for fr
    using that mem_Get_covered(2) [of "fr_mem fr" x y] assms(1) mem_small by (fastforce simp: at_stack_def good_frame_def small_result_def)
  show "vt E stat R (S g L (x # y # st)) opReturn (gives (keccak E) G)" "vt E stat R (S g L (x # y # st)) opRevert (gives (keccak E) G)"
    unfolding opReturn_def opRevert_def by (intro vt_pop vt_in_mem [where q = small_result] vt_result; simp add: assms(2) p)+
qed

end

lemma vt_state:
  assumes "\<And>v. vt E stat R P (f v) Q"
  shows "vt E stat R P (\<lambda>(fr, v). f v (fr, v)) Q"
  using assms unfolding vt_def by simp

lemma codeBitmap_total: "\<exists>bits. codeBitmap code = Inr bits \<and> length bits = length code div 8 + 5"
proof -
  let ?z = "replicate (length code div 8 + 1 + 4) (0 :: byte)"
  have "marks ?z = {}" by (auto simp: marks_def)
  then show ?thesis using bitmap_loop_marks [of ?z code 0] by (auto simp: codeBitmap_def)
qed

lemma returned_slice:
  assumes "0 \<le> y" "0 \<le> z" "\<not> BitLen (y + z) > 64" "\<not> of_nat (length b) < Uint64 (y + z)"
  shows "\<exists>x. go_slice b (uint (Uint64 y)) (uint (Uint64 (y + z))) = Inr x"
proof -
  have e: "y + z < 2 ^ 64" using BitLen_gt [of "y + z" 64] assms(1-3) by simp
  have u: "uint (Uint64 y) = y" "uint (Uint64 (y + z)) = y + z" by (rule uint_Uint64; use e assms(1,2) in linarith)+
  have "unat (of_nat (length b) :: u64) \<le> length b" unfolding unat_of_nat by (rule mod_less_eq_dividend)
  then have "uint (of_nat (length b) :: u64) \<le> int (length b)" unfolding uint_nat by (rule zle_int [THEN iffD2])
  then have "y + z \<le> int (length b)" using assms(4) unfolding word_less_def u by linarith
  then show ?thesis unfolding u using go_slice_ok [of y "y + z" b] assms(1,2) by auto
qed

context machine
begin

lemma vt_opReturnDataCopy:
  assumes "covered L (x, z)" "0 \<le> y" "unat g \<le> G"
  shows "vt E stat R (S g L (x # y # z # st)) opReturnDataCopy (gives (keccak E) G)"
proof -
  let ?f = "\<lambda>v. if BitLen (y + z) > 64 \<or> of_nat (length (returnData v)) < Uint64 (y + z)
        then sret (None, Some (ChainError errReturnDataOutOfBounds))
        else sbind (lift_res (go_slice (returnData v) (uint (Uint64 y)) (uint (Uint64 (y + z))))) (\<lambda>b.
             sbind (set_mem (mem_Set (Uint64 x) (Uint64 z) b)) (\<lambda>_. sret (None, None)))"
  have "vt E stat R (S g L st) (?f v) (gives (keccak E) G)" for v
  proof (rule vt_if)
    assume c: "\<not> (BitLen (y + z) > 64 \<or> of_nat (length (returnData v)) < Uint64 (y + z))"
    then obtain b where "go_slice (returnData v) (uint (Uint64 y)) (uint (Uint64 (y + z))) = Inr b"
      using returned_slice [of y z "returnData v"] assms(1,2) by (auto simp: covered_def)
    then show "vt E stat R (S g L st) (sbind (lift_res (go_slice (returnData v) (uint (Uint64 y)) (uint (Uint64 (y + z))))) (\<lambda>b.
             sbind (set_mem (mem_Set (Uint64 x) (Uint64 z) b)) (\<lambda>_. sret (None, None)))) (gives (keccak E) G)"
      by (intro vt_lift vt_mem_Set vt_rules assms)
  qed (intro vt_rules assms)
  then have v: "vt E stat R (S g L st) (\<lambda>(fr, v). ?f v (fr, v)) (gives (keccak E) G)" by (rule vt_state)
  have eq: "(\<lambda>(fr, v). let e = y + z in if BitLen e > 64 \<or> of_nat (length (returnData v)) < Uint64 e
        then (Inr (None, Some (ChainError errReturnDataOutOfBounds)), fr, v)
        else sbind (lift_res (go_slice (returnData v) (uint (Uint64 y)) (uint (Uint64 e)))) (\<lambda>b.
             sbind (set_mem (mem_Set (Uint64 x) (Uint64 z) b)) (\<lambda>_. sret (None, None))) (fr, v)) = (\<lambda>(fr, v). ?f v (fr, v))"
    by (auto simp: Let_def sret_def fun_eq_iff)
  show ?thesis unfolding opReturnDataCopy_def by (intro vt_pop) (use v in \<open>simp only: eq\<close>)
qed

lemma tri_dest_has:
  assumes "contract_ok (keccak E) c" "0 \<le> pos"
  shows "tri E stat R (\<lambda>_. True) (dests (dest_has (Contract_CodeHash c) (Code c) pos)) (\<lambda>_ _. True)"
proof (rule triI)
  fix b v A assume *: "ins E stat b v A"
  have lengths: "hash_lengths (keccak E)" using ins_env [OF *] by (simp add: env_ok_def)
  have fit: "dests_fit (keccak E) (jumpdests v)" using * by (cases b) (simp add: ins_def)
  have "\<exists>x ds. dest_has (Contract_CodeHash c) (Code c) pos (jumpdests v) = (Inr x, ds) \<and> dests_fit (keccak E) ds"
  proof (cases "BitLen pos \<ge> 63 \<or> Uint64 pos \<ge> of_nat (length (Code c))")
    case True
    then show ?thesis using fit by (auto simp: dest_has_def Let_def)
  next
    case False
    then have ne: "Code c \<noteq> []" by auto
    have ok: "small_code (Code c)" "Contract_CodeHash c = keccak E (Code c)" using assms(1) ne by (auto simp: contract_ok_def)
    have "unat (of_nat (length (Code c)) :: u64) = length (Code c)" by (rule unat_of_nat_u64) (use ok(1) in \<open>simp add: small_code_def\<close>)
    then have i: "unat (Uint64 pos) < length (Code c)" using False by (simp add: word_le_nat_alt)
    have seg: "\<exists>x. codeSegment m (unat (Uint64 pos)) = Inr x" if "length m = length (Code c) div 8 + 5" for m
    proof -
      have "unat (Uint64 pos) div 8 \<le> length (Code c) div 8" using i by (intro div_le_mono) simp
      then show ?thesis using that by (simp add: codeSegment_def at_index_def)
    qed
    show ?thesis
    proof (cases "map_of (jumpdests v) (Contract_CodeHash c)")
      case None
      obtain m where m: "codeBitmap (Code c) = Inr m" "length m = length (Code c) div 8 + 5" using codeBitmap_total by blast
      have "dests_fit (keccak E) (AList.update (Contract_CodeHash c) m (jumpdests v))"
        using fit m(2) ok unfolding dests_fit_def by (auto simp: update_conv)
      then show ?thesis using False None m seg [OF m(2)] by (auto simp: dest_has_def Let_def)
    next
      case (Some m)
      then obtain code where c: "keccak E code = Contract_CodeHash c" "small_code code" "length m = length code div 8 + 5"
        using fit unfolding dests_fit_def by blast
      have "length code = length (Code c)"
        using lengths [unfolded hash_lengths_def, rule_format, OF c(2) ok(1)] c(1) ok(2) by simp
      then obtain x where "codeSegment m (unat (Uint64 pos)) = Inr x" using seg [of m] c(3) by auto
      then show ?thesis using False Some fit by (auto simp: dest_has_def Let_def)
    qed
  qed
  then obtain x ds where "dest_has (Contract_CodeHash c) (Code c) pos (jumpdests v) = (Inr x, ds)" "dests_fit (keccak E) ds" by blast
  then have "dests (dest_has (Contract_CodeHash c) (Code c) pos) v = (Inr x, v\<lparr>jumpdests := ds\<rparr>)" "rest (v\<lparr>jumpdests := ds\<rparr>) = rest v"
    "ins E stat b (v\<lparr>jumpdests := ds\<rparr>) A" using * by (cases b; simp add: dests_def rest_def ins_def)+
  then show "\<exists>x v' A'. dests (dest_has (Contract_CodeHash c) (Code c) pos) v = (Inr x, v') \<and> rest v' = rest v \<and> ins E stat b v' A' \<and> R A A' \<and> True"
    using R_refl by blast
qed

lemma vt_jump_to:
  assumes "0 \<le> pos" "unat g \<le> G"
  shows "vt E stat R (S g L st) (jump_to pos) (gives (keccak E) G)"
  unfolding jump_to_def
proof (rule vt_get_frame, rule vt_evm, rule tri_dest_has [OF _ assms(1)])
  fix fr assume "S g L st fr"
  then show "contract_ok (keccak E) (fr_contract fr)" by (simp add: at_stack_def good_frame_def)
qed (intro vt_if vt_rules assms(2))

lemma vt_opJump: "0 \<le> x \<Longrightarrow> unat g \<le> G \<Longrightarrow> vt E stat R (S g L (x # st)) opJump (gives (keccak E) G)"
  unfolding opJump_def by (intro vt_pop vt_jump_to)

lemma vt_opJumpi: "0 \<le> x \<Longrightarrow> unat g \<le> G \<Longrightarrow> vt E stat R (S g L (x # y # st)) opJumpi (gives (keccak E) G)"
  unfolding opJumpi_def by (intro vt_pop vt_if vt_jump_to vt_rules)

lemma vt_makePush:
  assumes "n \<le> 32" "unat g \<le> G"
  shows "vt E stat R (S g L st) (makePush n) (gives (keccak E) G)"
  unfolding makePush_def Let_def
proof (rule vt_get_frame)
  fix fr
  let ?c = "Code (fr_contract fr)" let ?l = "int (length ?c)" let ?n = "uint (fr_pc fr + 1)"
  let ?s = "if ?n < ?l then ?n else ?l" let ?e = "if ?s + int n < ?l then ?s + int n else ?l"
  have r: "0 \<le> ?s" "?s \<le> ?e" "?e \<le> ?l" "nat (?e - ?s) \<le> n" by auto
  obtain b where b: "go_slice ?c ?s ?e = Inr b" "length b = nat (?e - ?s)" using go_slice_ok [OF r(1-3)] by blast
  then have "length b \<le> n" using r(4) by simp
  then have "length (RightPadBytes b n) \<le> 32" using assms(1) by (simp add: RightPadBytes_def)
  with b(1) show "vt E stat R (S g L st) (sbind (lift_res (go_slice ?c ?s ?e)) (\<lambda>b. sbind (push (big_SetBytes (RightPadBytes b n))) (\<lambda>_.
        sbind (mod_frame (\<lambda>fr. fr\<lparr>fr_pc := fr_pc fr + of_nat n\<rparr>)) (\<lambda>_. sret (None, None))))) (gives (keccak E) G)"
    by (intro vt_lift vt_rules bytes_word assms)
qed

lemma vt_makeDup:
  assumes "0 < n" "n \<le> length st" "unat g \<le> G"
  shows "vt E stat R (S g L st) (makeDup n) (gives (keccak E) G)"
proof (rule vt_words)
  assume p: "list_all in_word st"
  have "in_word (st ! (n - 1))" using assms p by (simp add: list_all_length)
  then show ?thesis unfolding makeDup_def
    by (intro vt_seq [where P' = "S g L (st ! (n - 1) # st)"] vt_done [OF assms(3)])
      (use assms in \<open>auto simp: stack_dup_def at_stack_def good_frame_def\<close>)
qed

lemma vt_makeSwap:
  assumes "n < length st" "unat g \<le> G"
  shows "vt E stat R (S g L st) (makeSwap n) (gives (keccak E) G)"
proof (rule vt_words)
  assume p: "list_all in_word st"
  let ?st = "st[n := st ! 0, 0 := st ! n]"
  have m: "st ! 0 \<in> set st" "st ! n \<in> set st" using assms(1) by (auto intro: nth_mem)
  have "set ?st \<subseteq> set st" using m set_update_subset_insert [of "st[n := st ! 0]" 0 "st ! n"] set_update_subset_insert [of st n "st ! 0"] by auto
  then have "list_all in_word ?st" using p by (auto simp: list_all_iff)
  then show ?thesis unfolding makeSwap_def
    by (intro vt_seq [where P' = "S g L ?st"] vt_done [OF assms(2)]) (use assms in \<open>auto simp: stack_swap_def at_stack_def good_frame_def Let_def\<close>)
qed

end

lemma unat_plus_le: "unat (a + b :: u64) \<le> unat a + unat b"
  unfolding unat_word_ariths by (rule mod_less_eq_dividend)

context machine
begin

lemma vt_gas_back:
  "vt E stat R (S (g + r) L st) (f ()) Q \<Longrightarrow> vt E stat R (S g L st) (sbind (mod_contract (\<lambda>c. c\<lparr>Gas := Gas c + r\<rparr>)) f) Q"
  by (erule vt_seq [rotated]) (auto simp: mod_contract_def mod_frame_def at_stack_def good_frame_def contract_ok_def)

lemma vt_gas_use:
  "r \<le> g \<Longrightarrow> vt E stat R (S (g - r) L st) (f ()) Q \<Longrightarrow> vt E stat R (S g L st) (sbind (mod_contract (\<lambda>c. snd (UseGas r c))) f) Q"
  by (erule vt_seq [rotated]) (auto simp: mod_contract_def mod_frame_def at_stack_def good_frame_def contract_ok_def UseGas_def)

lemma vt_after_call:
  assumes "covered L (ro, rs)" "fst (snd x) \<le> sub \<and> small_result (fst x)" "unat g + unat sub \<le> G"
  shows "vt E stat R (S g L st) (after_call ro rs x) (gives (keccak E) G)"
proof -
  obtain ret r e where x: "x = (ret, r, e)" by (cases x) auto
  have "unat (g + r) \<le> unat g + unat r" by (rule unat_plus_le)
  then have g: "unat (g + r) \<le> G" using assms(2,3) by (simp add: x word_le_nat_alt)
  let ?k = "sbind (mod_contract (\<lambda>c. c\<lparr>Gas := Gas c + r\<rparr>)) (\<lambda>_. sret (ret, None))"
  have k: "vt E stat R (S g L st') ?k (gives (keccak E) G)" for st' by (intro vt_gas_back vt_result g) (use assms(2) x in simp)
  have "vt E stat R (S g L st') (sbind (if c then set_mem (mem_Set (Uint64 ro) (Uint64 rs) (opt_bytes ret)) else sret ()) (\<lambda>_. ?k)) (gives (keccak E) G)" for st' c
    using vt_mem_Set [OF assms(1), of g st' "\<lambda>_. ?k"] k by (cases c) auto
  then show ?thesis unfolding after_call_def x prod.case by (rule vt_push [rotated]) (simp add: flag_word)
qed

lemma call_tri: "tri E stat R (\<lambda>_. True) m (call_post gas (\<lambda>_. True)) \<Longrightarrow> tri E stat R (\<lambda>_. True) m (\<lambda>x _. fst (snd x) \<le> gas \<and> small_result (fst x))"
  by (erule tri_conseq) (auto simp: call_post_def)

lemma vt_frame_contract: "S g L st fr \<Longrightarrow> contract_ok (keccak E) (fr_contract fr)"
  by (simp add: at_stack_def good_frame_def)

lemma vt_args:
  assumes "covered L (x, y)" "\<And>b. small_code (opt_bytes b) \<Longrightarrow> vt E stat R (S g L st) (f b) Q"
  shows "vt E stat R (S g L st) (sbind (in_mem (mem_Get (Int64 x) (Int64 y))) f) Q"
  by (rule vt_words, rule vt_mem_Get [OF assms(1)]) (use assms(2) mem_small in blast)

lemma frame_address: "S g L st fr \<Longrightarrow> length (ref_address (ContractOf (fr_contract fr))) = 20"
  using vt_frame_contract by (simp add: contract_ok_def)

lemma length_BigToAddress: "length (BigToAddress a) = 20"
  by (simp add: BigToAddress_def)

lemma vt_opCall:
  assumes "runner_ok E stat R n loop" "covered L (io, is)" "covered L (ro, rs)" "stat \<Longrightarrow> U256 x = 0"
    "sub = Uint64 cg + (if U256 x \<noteq> 0 then CallStipend else 0)" "unat sub < n" "unat g + unat sub \<le> G"
  shows "vt E stat R (S g L (cg # a # x # io # is # ro # rs # st)) (opCall E loop) (gives (keccak E) G)"
  unfolding opCall_def Let_def
  by (intro vt_pop vt_args vt_get_frame, rule assms(2), rule vt_in_evm [OF call_tri [OF tri_evm_Call [OF assms(1) assms(6) [unfolded assms(5)]
      in_word_U256 assms(4) frame_address length_BigToAddress]]], assumption+, rule vt_after_call [OF assms(3) _ assms(7) [unfolded assms(5)]])

lemma vt_opCallCode:
  assumes "runner_ok E stat R n loop" "covered L (io, is)" "covered L (ro, rs)"
    "sub = Uint64 cg + (if U256 x \<noteq> 0 then CallStipend else 0)" "unat sub < n" "unat g + unat sub \<le> G"
  shows "vt E stat R (S g L (cg # a # x # io # is # ro # rs # st)) (opCallCode E loop) (gives (keccak E) G)"
  unfolding opCallCode_def Let_def
  by (intro vt_pop vt_args vt_get_frame, rule assms(2), rule vt_in_evm [OF call_tri [OF tri_evm_CallCode [OF assms(1) assms(5) [unfolded assms(4)]
      in_word_U256 frame_address]]], assumption+, rule vt_after_call [OF assms(3) _ assms(6) [unfolded assms(4)]])

lemma vt_opDelegateCall:
  assumes "runner_ok E stat R n loop" "covered L (io, is)" "covered L (ro, rs)" "unat (Uint64 cg) < n" "unat g + unat (Uint64 cg) \<le> G"
  shows "vt E stat R (S g L (cg # a # io # is # ro # rs # st)) (opDelegateCall E loop) (gives (keccak E) G)"
  unfolding opDelegateCall_def
  by (intro vt_pop vt_args vt_get_frame, rule assms(2), rule vt_in_evm [OF call_tri [OF tri_evm_DelegateCall [OF assms(1,4)
      vt_frame_contract]]], assumption+, rule vt_after_call [OF assms(3) _ assms(5)])

lemma vt_opStaticCall:
  assumes "runner_ok E stat R n loop" "covered L (io, is)" "covered L (ro, rs)" "unat (Uint64 cg) < n" "unat g + unat (Uint64 cg) \<le> G"
  shows "vt E stat R (S g L (cg # a # io # is # ro # rs # st)) (opStaticCall E loop) (gives (keccak E) G)"
  unfolding opStaticCall_def
  by (intro vt_pop vt_args vt_get_frame, rule assms(2), rule vt_in_evm [OF call_tri [OF tri_evm_StaticCall [OF assms(1,4)
      frame_address length_BigToAddress]]], assumption+, rule vt_after_call [OF assms(3) _ assms(5)])

lemma vt_opCreate:
  assumes "runner_ok E stat R n loop" "covered L (off, sz)" "in_word amount" "\<not> stat" "unat g < n" "unat g \<le> G"
  shows "vt E stat R (S g L (amount # off # sz # st)) (opCreate E loop) (gives (keccak E) G)"
  unfolding opCreate_def Let_def
proof (intro vt_pop vt_mem_Get vt_get_frame, rule assms(2), goal_cases)
  case (1 code fr)
  let ?g = "if IsEIP150 (chain_config E) (ctx_BlockNumber (context_of E)) then g - g div 64 else g"
  have fr: "Gas (fr_contract fr) = g" "L \<le> 0xffffffffe0" using 1(2) by (auto simp: at_stack_def good_frame_def)
  have div: "g div 64 \<le> g" by (simp add: word_le_nat_alt unat_div)
  have le: "?g \<le> g" using word_sub_le [OF div] by auto
  have small: "small_code (opt_bytes code)" using 1(1) fr(2) by (simp add: small_code_def)
  have n: "unat ?g < n" using le assms(5) by (meson le_less_trans word_le_nat_alt)
  show ?case unfolding fr(1)
  proof (rule vt_gas_use [OF le], rule vt_get_frame, rule vt_in_evm [OF tri_evm_Create [OF assms(1) n assms(3,4) small frame_address]], assumption, clarify)
    fix fr' res addr r e assume "create_post ?g (res, addr, r, e)"
    then have r: "unat r \<le> unat ?g" "small_result res" "length addr \<le> 32" by (simp_all add: word_le_nat_alt create_post_def)
    have "unat (g - ?g) = unat g - unat ?g" by (rule unat_sub [OF le])
    then have G: "unat (g - ?g + r) \<le> G" using unat_plus_le [of "g - ?g" r] r(1) le assms(6) unfolding word_le_nat_alt by linarith
    have k: "vt E stat R (S (g - ?g) L st') (sbind (mod_contract (\<lambda>c. c\<lparr>Gas := Gas c + r\<rparr>)) (\<lambda>_. if c then sret (res, None) else sret (None, None))) (gives (keccak E) G)" for st' c
      by (intro vt_gas_back vt_if vt_result G) (simp_all add: r(2) small_result_None)
    show "vt E stat R (S (g - ?g) L st)
       (sbind (push (if IsHomestead (chain_config E) (ctx_BlockNumber (context_of E)) \<and> e = Some (ChainError ErrCodeStoreOutOfGas) then 0
                     else if e \<noteq> None \<and> e \<noteq> Some (ChainError ErrCodeStoreOutOfGas) then 0
                     else big_SetBytes addr)) (\<lambda>_.
        sbind (mod_contract (\<lambda>c. c\<lparr>Gas := Gas c + r\<rparr>)) (\<lambda>_.
        if e = Some (ChainError errExecutionReverted) then sret (res, None) else sret (None, None)))) (gives (keccak E) G)"
      by (rule vt_push [OF _ k]) (auto simp: flag_word intro: bytes_word r(3))
  qed
qed

end

section \<open>The execution column\<close>

text \<open>The ranges of memory an instruction uses, as pairs of offset and size.\<close>

fun memory_args :: "OpCode \<Rightarrow> int list \<Rightarrow> (int \<times> int) list" where
  "memory_args SHA3 st = [(st ! 0, st ! 1)]"
| "memory_args CALLDATACOPY st = [(st ! 0, st ! 2)]"
| "memory_args RETURNDATACOPY st = [(st ! 0, st ! 2)]"
| "memory_args CODECOPY st = [(st ! 0, st ! 2)]"
| "memory_args EXTCODECOPY st = [(st ! 1, st ! 3)]"
| "memory_args MLOAD st = [(st ! 0, 32)]"
| "memory_args MSTORE8 st = [(st ! 0, 1)]"
| "memory_args MSTORE st = [(st ! 0, 32)]"
| "memory_args CREATE st = [(st ! 1, st ! 2)]"
| "memory_args CALL st = [(st ! 5, st ! 6), (st ! 3, st ! 4)]"
| "memory_args CALLCODE st = [(st ! 5, st ! 6), (st ! 3, st ! 4)]"
| "memory_args DELEGATECALL st = [(st ! 4, st ! 5), (st ! 2, st ! 3)]"
| "memory_args STATICCALL st = [(st ! 4, st ! 5), (st ! 2, st ! 3)]"
| "memory_args RETURN st = [(st ! 0, st ! 1)]"
| "memory_args REVERT st = [(st ! 0, st ! 1)]"
| "memory_args (LOG n) st = [(st ! 0, st ! 1)]"
| "memory_args _ st = []"

definition is_call :: "OpCode \<Rightarrow> bool" where
  "is_call op \<longleftrightarrow> op \<in> {CALL, CALLCODE, DELEGATECALL, STATICCALL}"

definition sends :: "OpCode \<Rightarrow> int list \<Rightarrow> bool" where
  "sends op st \<longleftrightarrow> op \<in> {CALL, CALLCODE} \<and> U256 (st ! 2) \<noteq> 0"

definition sub_gas :: "OpCode \<Rightarrow> int list \<Rightarrow> u64" where
  "sub_gas op st = Uint64 (st ! 0) + (if sends op st then CallStipend else 0)"

text \<open>How much gas an instruction can leave, given the gas left after it was paid for.\<close>

definition budget :: "OpCode \<Rightarrow> int list \<Rightarrow> u64 \<Rightarrow> nat" where
  "budget op st g = unat g + (if is_call op then unat (sub_gas op st) else 0)"

lemmas instruction_defs = homesteadInstructionSet_def frontierInstructionSet_def first_some_def frontier_push_def frontier_dup_def
  frontier_swap_def simple_op_def

lemma length_ge_calls:
  "6 \<le> length st \<Longrightarrow> \<exists>a b c d e f st'. st = a # b # c # d # e # f # st'"
  "7 \<le> length st \<Longrightarrow> \<exists>a b c d e f g st'. st = a # b # c # d # e # f # g # st'"
  by (auto simp: numeral_eq_Suc Suc_le_length_iff)

context machine
begin

lemma vt_execute_call:
  assumes "runner_ok E stat R n loop" "valid (homesteadInstructionSet op)" "pop_items (homesteadInstructionSet op) \<le> length st"
    "\<forall>p \<in> set (memory_args op st). covered L p" "stat \<Longrightarrow> op = CALL \<Longrightarrow> U256 (st ! 2) = 0"
    "unat (sub_gas op st) < n" "is_call op"
  shows "vt E stat R (S g L st) (execute E loop op) (gives (keccak E) (budget op st g))"
proof -
  consider "op = CALL" | "op = CALLCODE" | "op = DELEGATECALL" | "op = STATICCALL" using assms(7) by (auto simp: is_call_def)
  then show ?thesis
  proof cases
    case 1
    then obtain cg a x io il ro rs st' where st: "st = cg # a # x # io # il # ro # rs # st'" using length_ge_calls(2) assms(3) by (fastforce simp: instruction_defs)
    show ?thesis unfolding st execute_def 1 OpCode.case
      by (rule vt_opCall [OF assms(1), where sub = "sub_gas op st"]) (use assms 1 st in \<open>auto simp: sub_gas_def sends_def budget_def is_call_def\<close>)
  next
    case 2
    then obtain cg a x io il ro rs st' where st: "st = cg # a # x # io # il # ro # rs # st'" using length_ge_calls(2) assms(3) by (fastforce simp: instruction_defs)
    show ?thesis unfolding st execute_def 2 OpCode.case
      by (rule vt_opCallCode [OF assms(1), where sub = "sub_gas op st"]) (use assms 2 st in \<open>auto simp: sub_gas_def sends_def budget_def is_call_def\<close>)
  next
    case 3
    then obtain cg a io il ro rs st' where st: "st = cg # a # io # il # ro # rs # st'" using length_ge_calls(1) assms(3) by (fastforce simp: instruction_defs)
    show ?thesis unfolding st execute_def 3 OpCode.case
      by (rule vt_opDelegateCall [OF assms(1)]) (use assms 3 st in \<open>auto simp: sub_gas_def sends_def budget_def is_call_def\<close>)
  next
    case 4
    then obtain cg a io il ro rs st' where st: "st = cg # a # io # il # ro # rs # st'" using length_ge_calls(1) assms(3) by (fastforce simp: instruction_defs)
    show ?thesis unfolding st execute_def 4 OpCode.case
      by (rule vt_opStaticCall [OF assms(1)]) (use assms 4 st in \<open>auto simp: sub_gas_def sends_def budget_def is_call_def\<close>)
  qed
qed

lemma vt_execute:
  assumes "runner_ok E stat R n loop" "valid (homesteadInstructionSet op)" "pop_items (homesteadInstructionSet op) \<le> length st"
    "\<forall>p \<in> set (memory_args op st). covered L p" "stat \<Longrightarrow> \<not> writes (homesteadInstructionSet op)"
    "op = CREATE \<Longrightarrow> unat g < n" "\<not> is_call op" "op \<noteq> DUP 0" "\<And>k. op = PUSH k \<Longrightarrow> k \<le> 32"
  shows "vt E stat R (S g L st) (execute E loop op) (gives (keccak E) (budget op st g))"
proof -
  have G: "budget op st g = unat g" using assms(7) by (simp add: budget_def)
  show ?thesis unfolding G
  proof (rule vt_words)
    assume w: "list_all in_word st"
    then have p: "\<forall>x \<in> set st. 0 \<le> x" by (simp add: list_all_iff in_word_def)
    note d = execute_def instruction_defs
    show "vt E stat R (S g L st) (execute E loop op) (gives (keccak E) (unat g))"
    proof (cases op)
      case (Arith a)
      then show ?thesis using vt_op_arith assms(3) by (simp add: d)
    next
      case (Env e)
      then show ?thesis using vt_op_env by (simp add: d)
    next
      case (DUP k)
      then show ?thesis using vt_makeDup [of k st g "unat g" L] assms(3,8) by (simp add: d)
    next
      case (SWAP k)
      then show ?thesis using vt_makeSwap [of k st g "unat g" L] assms(3) by (simp add: d)
    next
      case (LOG k)
      then obtain x y st' where st: "st = x # y # st'" "k \<le> length st'" using assms(3) by (auto simp: d Suc_le_length_iff)
      have "\<not> stat" using assms(5) LOG by (auto simp: d)
      from vt_makeLog [OF this _ st(2) order_refl, of L x y g] show ?thesis using assms(4) LOG by (simp add: execute_def st(1))
    next
      case CALLDATACOPY
      then obtain x y z st' where "st = x # y # z # st'" using assms(3) length_ge(3) [of st] by (auto simp: d)
      then show ?thesis using vt_copy_data [of L x z y g "unat g" st'] assms(4) p CALLDATACOPY
        unfolding execute_def OpCode.case opCallDataCopy_def by (auto intro!: vt_get_frame)
    next
      case CODECOPY
      then obtain x y z st' where "st = x # y # z # st'" using assms(3) length_ge(3) [of st] by (auto simp: d)
      then show ?thesis using vt_copy_data [of L x z y g "unat g" st'] assms(4) p CODECOPY
        unfolding execute_def OpCode.case opCodeCopy_def by (auto intro!: vt_get_frame)
    qed (use assms p w in \<open>auto simp: d is_call_def Suc_le_length_iff numeral_eq_Suc
        intro!: vt_rules vt_opSha3 vt_opBalance vt_opCallDataLoad vt_opExtCodeSize vt_opExtCodeCopy vt_opReturnDataCopy vt_opBlockhash
          vt_opMload vt_opMstore vt_opMstore8 vt_opSload vt_opSstore vt_opJump vt_opJumpi vt_makePush vt_opReturn vt_opSuicide
          vt_opCreate\<close>)
  qed
qed

end

end
