(* ===== verification/Evm_Run.thy ===== *)
theory Evm_Run
  imports Evm_Instructions
begin

text \<open>
  The interpreter loop of \<open>core/vm/interpreter.go\<close>. The gas functions charge at least one unit for every instruction that
  does not end the frame, and more for a call than the gas that goes with it; so every run ends, and the fuel of the
  model suffices when it exceeds the gas. The theorems are about ordinary execution and about static calls.
\<close>

section \<open>Gas\<close>

text \<open>Triples for operations that may end with an ordinary error: they leave the contract as it was.\<close>

definition ve :: "environment \<Rightarrow> bool \<Rightarrow> (world \<Rightarrow> world \<Rightarrow> bool) \<Rightarrow> (frame \<Rightarrow> bool) \<Rightarrow> 'a vm \<Rightarrow> ('a \<Rightarrow> frame \<Rightarrow> bool) \<Rightarrow> bool" where
  "ve E stat R P m Q \<longleftrightarrow> (\<forall>b fr v A. ins E stat b v A \<longrightarrow> P fr \<longrightarrow>
     (\<exists>r fr' v' A'. m (fr, v) = (r, fr', v') \<and> rest v' = rest v \<and> ins E stat b v' A' \<and> R A A' \<and> fr_contract fr' = fr_contract fr
        \<and> (case r of Inl e \<Rightarrow> \<not> crash e | Inr x \<Rightarrow> Q x fr')))"

lemma unat_u64: "unat (x :: u64) < 2 ^ 64"
  using unsigned_less [of x] by simp

lemma unat_MaxUint64: "unat MaxUint64 = 2 ^ 64 - 1"
proof -
  have m: "MaxUint64 = - 1" by (simp add: MaxUint64_def)
  show ?thesis unfolding m by (simp add: unsigned_minus_1_eq_mask mask_eq_exp_minus_1)
qed

lemma SafeAdd_ok: "SafeAdd x y = (z, False) \<Longrightarrow> unat z = unat x + unat y"
proof -
  assume "SafeAdd x y = (z, False)"
  then have z: "z = x + y" and le: "y \<le> MaxUint64 - x" by (auto simp: SafeAdd_def)
  have "unat x \<le> unat MaxUint64" using unat_u64 [of x] unfolding unat_MaxUint64 by simp
  then have "unat (MaxUint64 - x) = unat MaxUint64 - unat x" by (intro unat_sub) (simp add: word_le_nat_alt)
  then have "unat x + unat y < 2 ^ 64" using le unat_u64 [of x] unfolding word_le_nat_alt unat_MaxUint64 by simp
  then show ?thesis unfolding z by (simp add: unat_word_ariths)
qed

lemma SafeMul_ok: "SafeMul x y = (z, False) \<Longrightarrow> unat z = unat x * unat y"
proof -
  assume a: "SafeMul x y = (z, False)"
  show ?thesis
  proof (cases "x = 0 \<or> y = 0")
    case True
    then show ?thesis using a by (auto simp: SafeMul_def)
  next
    case False
    then have z: "z = x * y" and le: "y \<le> MaxUint64 div x" using a by (auto simp: SafeMul_def)
    have "unat y \<le> (2 ^ 64 - 1) div unat x" using le unfolding word_le_nat_alt unat_div unat_MaxUint64 .
    then have "unat x * unat y \<le> unat x * ((2 ^ 64 - 1) div unat x)" by (rule mult_le_mono2)
    also have "\<dots> \<le> 2 ^ 64 - 1" by (rule times_div_less_eq_dividend)
    finally have "unat x * unat y < 2 ^ 64" by simp
    then show ?thesis unfolding z by (simp add: unat_word_ariths)
  qed
qed

context machine
begin

lemma veI:
  assumes "\<And>b fr v A. ins E stat b v A \<Longrightarrow> P fr \<Longrightarrow> \<exists>r fr' v' A'. m (fr, v) = (r, fr', v') \<and> rest v' = rest v \<and> ins E stat b v' A' \<and> R A A'
    \<and> fr_contract fr' = fr_contract fr \<and> (case r of Inl e \<Rightarrow> \<not> crash e | Inr x \<Rightarrow> Q x fr')"
  shows "ve E stat R P m Q"
  using assms unfolding ve_def by blast

lemma veE:
  assumes "ve E stat R P m Q" "ins E stat b v A" "P fr"
  obtains (error) e fr' v' A' where "m (fr, v) = (Inl e, fr', v')" "rest v' = rest v" "ins E stat b v' A'" "R A A'" "fr_contract fr' = fr_contract fr" "\<not> crash e"
  | (normal) x fr' v' A' where "m (fr, v) = (Inr x, fr', v')" "rest v' = rest v" "ins E stat b v' A'" "R A A'" "fr_contract fr' = fr_contract fr" "Q x fr'"
proof -
  obtain r fr' v' A' where *: "m (fr, v) = (r, fr', v')" "rest v' = rest v" "ins E stat b v' A'" "R A A'" "fr_contract fr' = fr_contract fr"
    "case r of Inl e \<Rightarrow> \<not> crash e | Inr x \<Rightarrow> Q x fr'" using assms unfolding ve_def by blast
  show thesis using * error normal by (cases r) auto
qed

lemma ve_bind:
  assumes "ve E stat R P m Q'" "\<And>x. ve E stat R (Q' x) (f x) Q"
  shows "ve E stat R P (sbind m f) Q"
proof (rule veI)
  fix b fr v A assume *: "ins E stat b v A" "P fr"
  from assms(1) * show "\<exists>r fr' v' A'. sbind m f (fr, v) = (r, fr', v') \<and> rest v' = rest v \<and> ins E stat b v' A' \<and> R A A'
    \<and> fr_contract fr' = fr_contract fr \<and> (case r of Inl e \<Rightarrow> \<not> crash e | Inr x \<Rightarrow> Q x fr')"
  proof (cases rule: veE)
    case (error e fr' v' A')
    then show ?thesis by (intro exI [of _ "Inl e"] exI [of _ fr'] exI [of _ v'] exI [of _ A']) (simp add: sbind_Inl)
  next
    case (normal x fr1 v1 A1)
    have s: "sbind m f (fr, v) = f x (fr1, v1)" using normal(1) by (simp add: sbind_def)
    from assms(2) [of x, unfolded ve_def, rule_format, OF normal(3,6)]
    obtain r fr' v' A' where "f x (fr1, v1) = (r, fr', v')" "rest v' = rest v1" "ins E stat b v' A'" "R A1 A'" "fr_contract fr' = fr_contract fr1"
      "case r of Inl e \<Rightarrow> \<not> crash e | Inr x \<Rightarrow> Q x fr'" by blast
    then show ?thesis unfolding s using normal(2,5) R_trans [OF normal(4)]
      by (intro exI [of _ r] exI [of _ fr'] exI [of _ v'] exI [of _ A']) simp
  qed
qed

lemma ve_bindI:
  assumes "ve E stat R P m (\<lambda>x fr. P fr \<and> q x)" "\<And>x. q x \<Longrightarrow> ve E stat R P (f x) Q"
  shows "ve E stat R P (sbind m f) Q"
proof (rule ve_bind [OF assms(1)])
  show "ve E stat R (\<lambda>fr. P fr \<and> q x) (f x) Q" for x using assms(2) [of x] unfolding ve_def by blast
qed

lemma ve_conseq:
  assumes "ve E stat R P m Q'" "\<And>x fr. Q' x fr \<Longrightarrow> Q x fr"
  shows "ve E stat R P m Q"
proof (rule veI)
  fix b fr v A assume *: "ins E stat b v A" "P fr"
  from assms(1) [unfolded ve_def, rule_format, OF *] obtain r fr' v' A' where
    "m (fr, v) = (r, fr', v')" "rest v' = rest v" "ins E stat b v' A'" "R A A'" "fr_contract fr' = fr_contract fr"
    "case r of Inl e \<Rightarrow> \<not> crash e | Inr x \<Rightarrow> Q' x fr'" by blast
  then show "\<exists>r fr' v' A'. m (fr, v) = (r, fr', v') \<and> rest v' = rest v \<and> ins E stat b v' A' \<and> R A A'
    \<and> fr_contract fr' = fr_contract fr \<and> (case r of Inl e \<Rightarrow> \<not> crash e | Inr x \<Rightarrow> Q x fr')"
    using assms(2) by (intro exI [of _ r] exI [of _ fr'] exI [of _ v'] exI [of _ A']) (simp split: sum.splits)
qed

lemma ve_step:
  assumes "\<And>fr v. P fr \<Longrightarrow> \<exists>r fr'. m (fr, v) = (r, fr', v) \<and> fr_contract fr' = fr_contract fr \<and> (case r of Inl e \<Rightarrow> \<not> crash e | Inr x \<Rightarrow> Q x fr')"
  shows "ve E stat R P m Q"
proof (rule veI)
  fix b fr v A assume *: "ins E stat b v A" "P fr"
  from assms [OF *(2), of v] show "\<exists>r fr' v' A'. m (fr, v) = (r, fr', v') \<and> rest v' = rest v \<and> ins E stat b v' A' \<and> R A A'
    \<and> fr_contract fr' = fr_contract fr \<and> (case r of Inl e \<Rightarrow> \<not> crash e | Inr x \<Rightarrow> Q x fr')" using *(1) R_refl by blast
qed

lemma ve_ret: "(\<And>fr. P fr \<Longrightarrow> Q x fr) \<Longrightarrow> ve E stat R P (sret x) Q"
  by (rule ve_step) (auto simp: sret_def)

lemma ve_if: "(c \<Longrightarrow> ve E stat R P m1 Q) \<Longrightarrow> (\<not> c \<Longrightarrow> ve E stat R P m2 Q) \<Longrightarrow> ve E stat R P (if c then m1 else m2) Q"
  by simp

lemma ve_Back: "i < length st \<Longrightarrow> ve E stat R (S g L st) (Back i) (\<lambda>x fr. S g L st fr \<and> x = st ! i)"
  by (rule ve_step) (auto simp: Back_def at_stack_def)

lemma ve_add: "ve E stat R P (safe_add x y) (\<lambda>z fr. P fr \<and> unat z = unat x + unat y)"
  by (rule ve_step) (auto simp: safe_add_def sthrow_def sret_def split: prod.splits dest: SafeAdd_ok)

lemma ve_mul: "ve E stat R P (safe_mul x y) (\<lambda>z fr. P fr \<and> unat z = unat x * unat y)"
  by (rule ve_step) (auto simp: safe_mul_def sthrow_def sret_def split: prod.splits dest: SafeMul_ok)

lemma ve_u64: "0 \<le> x \<Longrightarrow> ve E stat R P (safe_u64 x) (\<lambda>z fr. P fr \<and> uint z = x)"
  by (rule ve_step) (auto simp: safe_u64_def bigUint64_def sthrow_def sret_def uint_Uint64 BitLen_gt not_less)

lemma ve_get_frame: "ve E stat R P get_frame (\<lambda>x fr. P fr \<and> P x)"
  by (rule ve_step) (auto simp: get_frame_def)

lemma ve_in_evm:
  assumes "tri E stat R (\<lambda>_. True) m Q1"
  shows "ve E stat R P (in_evm m) (\<lambda>x fr. P fr \<and> (\<exists>A. Q1 x A))"
proof (rule veI)
  fix b fr v A assume *: "ins E stat b v A" "P fr"
  obtain x v' A' where "m v = (Inr x, v')" "rest v' = rest v" "ins E stat b v' A'" "R A A'" "Q1 x A'" by (rule triE [OF assms *(1) TrueI])
  then show "\<exists>r fr' v' A'. in_evm m (fr, v) = (r, fr', v') \<and> rest v' = rest v \<and> ins E stat b v' A' \<and> R A A'
    \<and> fr_contract fr' = fr_contract fr \<and> (case r of Inl e \<Rightarrow> \<not> crash e | Inr x \<Rightarrow> P fr' \<and> (\<exists>A. Q1 x A))"
    using *(2) by (intro exI [of _ "Inr x"]) (auto simp: in_evm_def)
qed

lemma ve_memory: "ve E stat R (S g L st) (memoryGasCost ms) (\<lambda>x fr. S g L st fr \<and> ms \<le> 0xffffffffe0)"
  by (rule ve_step) (auto simp: memoryGasCost_def Let_def at_stack_def good_frame_def not_less)

lemma ve_mem_plus: "ve E stat R (S g L st) (mem_plus base ms) (\<lambda>c fr. S g L st fr \<and> unat base \<le> unat c \<and> ms \<le> 0xffffffffe0)"
  unfolding mem_plus_def by (rule ve_bindI [OF ve_memory], rule ve_conseq [OF ve_add]) auto

lemma ve_mem_words:
  assumes "i < length st" "\<forall>x \<in> set st. 0 \<le> x"
  shows "ve E stat R (S g L st) (mem_words base i w ms) (\<lambda>c fr. S g L st fr \<and> unat base \<le> unat c \<and> ms \<le> 0xffffffffe0)"
  unfolding mem_words_def
proof (rule ve_bindI [OF ve_mem_plus], rule ve_bindI [OF ve_Back [OF assms(1)]], rule ve_bindI [OF ve_u64], goal_cases)
  case (1 c x)
  then show ?case using assms by auto
next
  case (2 c x z)
  then show ?case by (intro ve_bindI [OF ve_mul] ve_conseq [OF ve_add]) auto
qed

end

text \<open>What the gas function of an instruction promises: the memory is small, an instruction that does not end the frame
  costs something, and a call costs more than the gas that goes with it.\<close>

definition gas_post :: "OpCode \<Rightarrow> u64 \<Rightarrow> int list \<Rightarrow> u64 \<Rightarrow> int list \<Rightarrow> bool" where
  "gas_post op ms st cost st' \<longleftrightarrow> (memory_args op st \<noteq> [] \<longrightarrow> ms \<le> 0xffffffffe0)
     \<and> (op \<notin> {STOP, RETURN, REVERT, SELFDESTRUCT} \<longrightarrow> 1 \<le> unat cost)
     \<and> (if is_call op then (\<exists>cg :: u64. st' = uint cg # tl st \<and> unat cg + 40 + (if sends op st then 9000 else 0) \<le> unat cost) else st' = st)"

lemma calls_cases:
  "gt_Calls (gas_table c num) = 40 \<or> gt_Calls (gas_table c num) = 700"
  by (simp add: gas_table_def GasTableHomestead_def GasTableEIP150_def GasTableEIP158_def)

lemma table_pos:
  "1 \<le> unat (gt_Balance (gas_table c num))" "1 \<le> unat (gt_ExtcodeSize (gas_table c num))" "1 \<le> unat (gt_ExtcodeCopy (gas_table c num))"
  "1 \<le> unat (gt_SLoad (gas_table c num))"
  by (simp_all add: gas_table_def GasTableHomestead_def GasTableEIP150_def GasTableEIP158_def)

lemma call_base:
  assumes "b = gt_Calls (gas_table c num) + (if p then CallNewAccountGas else 0) + (if q then CallValueTransferGas else 0)"
  shows "40 + (if q then 9000 else 0) \<le> unat b"
  using calls_cases [of c num] unfolding assms by (elim disjE; cases p; cases q; simp)

context machine
begin

lemma ve_call_gas:
  "ve E stat R (S g L (x # st)) (call_gas gt gas) (\<lambda>c fr. \<exists>cg :: u64. S g L (uint cg # st) fr \<and> unat c = unat gas + unat cg)"
proof -
  have lift: "ve E stat R (S g L (x # st)) (lift_res (callGas gt a gas y)) (\<lambda>_. S g L (x # st))" for a y
    by (rule ve_step) (auto simp: lift_res_def callGas_def Let_def)
  have top: "ve E stat R (S g L (x # st)) (set_top (uint cg)) (\<lambda>_. S g L (uint cg # st))" for cg :: u64
    by (rule ve_step) (auto simp: set_top_def sbind_def pop_def push_def mod_frame_def at_stack_def good_frame_def u64_word)
  show ?thesis unfolding call_gas_def
    by (rule ve_bindI [OF ve_get_frame], rule ve_bindI [OF ve_Back], simp, rule ve_bind [OF lift], rule ve_bind [OF top], rule ve_conseq [OF ve_add]) auto
qed

lemma ve_gasCall:
  "ve E stat R (S g L (x # a # y # st)) (gasCall E (gas_table (chain_config E) num) ms)
     (\<lambda>c fr. \<exists>cg :: u64. S g L (uint cg # a # y # st) fr \<and> unat cg + 40 + (if y \<noteq> 0 then 9000 else 0) \<le> unat c \<and> ms \<le> 0xffffffffe0)"
proof -
  let ?P = "S g L (x # a # y # st)"
  have new: "ve E stat R ?P (if e then (if t then in_evm (on_db (sdb_Empty (keccak E) (disk E) addr)) else sret False)
               else sbind (in_evm (on_db (Exist (keccak E) (disk E) addr))) (\<lambda>e. sret (\<not> e))) (\<lambda>_. ?P)" for e t addr
    by (intro ve_if ve_ret ve_conseq [OF ve_in_evm [OF tri_Empty]] ve_bind [OF ve_in_evm [OF tri_Exist]]) auto
  show ?thesis unfolding gasCall_def Let_def
  proof (rule ve_bindI [OF ve_Back], simp, rule ve_bindI [OF ve_Back], simp, rule ve_bind [OF new], rule ve_bindI [OF ve_memory], rule ve_bindI [OF ve_add],
      rule ve_conseq [OF ve_call_gas], goal_cases)
    case (1 v b new m z c fr)
    then show ?case using call_base [where c = "chain_config E" and num = num and p = new and q = "v \<noteq> 0", OF refl] by fastforce
  qed
qed

lemma ve_gasCallCode:
  "ve E stat R (S g L (x # a # y # st)) (gasCallCode (gas_table (chain_config E) num) ms)
     (\<lambda>c fr. \<exists>cg :: u64. S g L (uint cg # a # y # st) fr \<and> unat cg + 40 + (if y \<noteq> 0 then 9000 else 0) \<le> unat c \<and> ms \<le> 0xffffffffe0)"
  unfolding gasCallCode_def Let_def
proof (rule ve_bindI [OF ve_Back], simp, rule ve_bindI [OF ve_memory], rule ve_bindI [OF ve_add], rule ve_conseq [OF ve_call_gas], goal_cases)
  case (1 v m z c fr)
  then show ?case using call_base [where c = "chain_config E" and num = num and p = False and q = "v \<noteq> 0", OF refl] by fastforce
qed

lemma ve_gasDelegateCall:
  "ve E stat R (S g L (x # st)) (gasDelegateCall (gas_table (chain_config E) num) ms)
     (\<lambda>c fr. \<exists>cg :: u64. S g L (uint cg # st) fr \<and> unat cg + 40 \<le> unat c \<and> ms \<le> 0xffffffffe0)"
  unfolding gasDelegateCall_def
proof (rule ve_bindI [OF ve_mem_plus], rule ve_conseq [OF ve_call_gas], goal_cases)
  case (1 z c fr)
  then show ?case using call_base [where c = "chain_config E" and num = num and p = False and q = False, OF refl] by fastforce
qed

lemma ve_makeGasLog:
  assumes "1 < length st" "\<forall>x \<in> set st. 0 \<le> x"
  shows "ve E stat R (S g L st) (makeGasLog k ms) (\<lambda>c fr. S g L st fr \<and> 375 \<le> unat c \<and> ms \<le> 0xffffffffe0)"
  unfolding makeGasLog_def
proof (rule ve_bindI [OF ve_Back [OF assms(1)]], rule ve_bindI [OF ve_u64], goal_cases)
  case (1 x)
  then show ?case using assms by auto
next
  case (2 x z)
  show ?case by (rule ve_bindI [OF ve_memory], rule ve_bindI [OF ve_add], rule ve_bindI [OF ve_add], rule ve_bindI [OF ve_mul], rule ve_conseq [OF ve_add]) auto
qed

lemma ve_gasExp:
  "1 < length st \<Longrightarrow> ve E stat R (S g L st) (gasExp gt) (\<lambda>c fr. S g L st fr \<and> 1 \<le> unat c)"
  unfolding gasExp_def by (rule ve_bindI [OF ve_Back], assumption, rule ve_conseq [OF ve_add]) auto

lemma ve_gasSStore:
  assumes "\<not> stat" "1 < length st"
  shows "ve E stat R (S g L st) (gasSStore E) (\<lambda>c fr. S g L st fr \<and> 1 \<le> unat c)"
proof -
  have "0 < length st" using assms(2) by linarith
  then show ?thesis unfolding gasSStore_def
    by (intro ve_bindI [OF ve_Back [OF assms(2)]] ve_bindI [OF ve_Back] ve_bindI [OF ve_get_frame] ve_bindI [OF ve_in_evm [OF tri_GetState]]
      ve_if ve_ret ve_bindI [OF ve_in_evm [OF tri_AddRefund [OF assms(1)]]]) auto
qed

lemma ve_gasSuicide:
  assumes "\<not> stat"
  shows "ve E stat R (S g L (x # st)) (gasSuicide E gt) (\<lambda>c fr. S g L (x # st) fr)"
proof -
  have price: "ve E stat R (S g L (x # st)) (if e1 then
                 sbind (Back 0) (\<lambda>x. let addr = BigToAddress x in
                   if e2 then
                     sbind (in_evm (on_db (sdb_Empty (keccak E) (disk E) addr))) (\<lambda>e.
                       if e then sbind (in_evm (on_db (GetBalance (keccak E) (disk E) self))) (\<lambda>b.
                              sret (gt_Suicide gt + (if b \<noteq> 0 then gt_CreateBySuicide gt else 0)))
                       else sret (gt_Suicide gt))
                   else sbind (in_evm (on_db (Exist (keccak E) (disk E) addr))) (\<lambda>e.
                          sret (gt_Suicide gt + (if \<not> e then gt_CreateBySuicide gt else 0))))
               else sret 0) (\<lambda>_. S g L (x # st))" for e1 e2 self
    unfolding Let_def
    by (intro ve_if ve_ret ve_bindI [OF ve_Back] ve_bindI [OF ve_in_evm [OF tri_Empty]] ve_bindI [OF ve_in_evm [OF tri_GetBalance]] ve_bindI [OF ve_in_evm [OF tri_Exist]]) auto
  show ?thesis unfolding gasSuicide_def Let_def
    by (rule ve_bindI [OF ve_get_frame], rule ve_bind [OF price [unfolded Let_def]], rule ve_bindI [OF ve_in_evm [OF tri_HasSuicided]],
      intro ve_if ve_ret ve_bindI [OF ve_in_evm [OF tri_AddRefund [OF assms]]]) auto
qed

end

lemma gas_post_plain:
  assumes "\<not> is_call op" "1 \<le> unat c" "memory_args op st \<noteq> [] \<longrightarrow> ms \<le> 0xffffffffe0"
  shows "gas_post op ms st c st"
  using assms by (simp add: gas_post_def)

lemma gas_post_halting:
  assumes "op \<in> {STOP, RETURN, REVERT, SELFDESTRUCT}" "memory_args op st \<noteq> [] \<longrightarrow> ms \<le> 0xffffffffe0"
  shows "gas_post op ms st c st"
  using assms by (auto simp: gas_post_def is_call_def)

lemma gas_post_call:
  fixes cg :: u64
  assumes "is_call op" "unat cg + 40 + (if sends op st then 9000 else 0) \<le> unat c" "ms \<le> 0xffffffffe0"
  shows "gas_post op ms st c (uint cg # tl st)"
  using assms by (auto simp: gas_post_def)

context machine
begin

lemma ve_price:
  assumes "ve E stat R (S g L st) m (\<lambda>c fr. S g L st fr \<and> 1 \<le> unat c \<and> ms \<le> 0xffffffffe0)" "\<not> is_call op"
  shows "ve E stat R (S g L st) m (\<lambda>c fr. \<exists>st'. S g L st' fr \<and> gas_post op ms st c st')"
  by (rule ve_conseq [OF assms(1)]) (use assms(2) gas_post_plain in blast)

lemma ve_const:
  assumes "1 \<le> unat c" "\<not> is_call op" "memory_args op st = []"
  shows "ve E stat R (S g L st) (sret c) (\<lambda>c fr. \<exists>st'. S g L st' fr \<and> gas_post op ms st c st')"
  by (rule ve_ret) (use assms gas_post_plain in blast)

lemma ve_words_price:
  assumes "i < length st" "\<forall>x \<in> set st. 0 \<le> x" "1 \<le> unat base" "\<not> is_call op"
  shows "ve E stat R (S g L st) (mem_words base i w ms) (\<lambda>c fr. \<exists>st'. S g L st' fr \<and> gas_post op ms st c st')"
  by (rule ve_price [OF ve_conseq [OF ve_mem_words [OF assms(1,2)]] assms(4)]) (use assms(3) in auto)

lemma ve_plus_price:
  assumes "1 \<le> unat base" "\<not> is_call op"
  shows "ve E stat R (S g L st) (mem_plus base ms) (\<lambda>c fr. \<exists>st'. S g L st' fr \<and> gas_post op ms st c st')"
  by (rule ve_price [OF ve_conseq [OF ve_mem_plus] assms(2)]) (use assms(1) in auto)

lemma ve_memory_price:
  assumes "op = RETURN \<or> op = REVERT"
  shows "ve E stat R (S g L st) (memoryGasCost ms) (\<lambda>c fr. \<exists>st'. S g L st' fr \<and> gas_post op ms st c st')"
  by (rule ve_conseq [OF ve_memory]) (use gas_post_halting assms in blast)

lemma ve_gasCost_call:
  assumes "pop_items (homesteadInstructionSet op) \<le> length st" "is_call op"
  shows "ve E stat R (S g L st) (gasCost E op ms) (\<lambda>c fr. \<exists>st'. S g L st' fr \<and> gas_post op ms st c st')"
proof -
  let ?gt = "gas_table (chain_config E) (ctx_BlockNumber (context_of E))"
  have 2: "7 \<le> length st" if "op = CALL \<or> op = CALLCODE" using assms that by (auto simp: instruction_defs)
  have z: "U256 0 = 0" by (simp add: U256_mod)
  have 1: "6 \<le> length st" using assms by (auto simp: instruction_defs is_call_def)
  then obtain x a y st' where st: "st = x # a # y # st'" using length_ge_calls(1) by blast
  consider "op = CALL" | "op = CALLCODE" | "op = DELEGATECALL \<or> op = STATICCALL" using assms(2) by (auto simp: is_call_def)
  then show ?thesis
  proof cases
    case 1
    have s: "sends op st \<Longrightarrow> y \<noteq> 0" by (auto simp: sends_def st z)
    show ?thesis unfolding gasCost_def Let_def 1 OpCode.case st
    proof (rule ve_conseq [OF ve_gasCall], clarify)
      fix c cg :: u64 and fr assume h: "S g L (uint cg # a # y # st') fr" "unat cg + 40 + (if y \<noteq> 0 then 9000 else 0) \<le> unat c" "ms \<le> 0xffffffffe0"
      have "unat cg + 40 + (if sends op st then 9000 else 0) \<le> unat c" using h(2) s by (cases "sends op st") auto
      from gas_post_call [OF assms(2) this h(3)] show "\<exists>st''. S g L st'' fr \<and> gas_post CALL ms (x # a # y # st') c st''"
        using h(1) by (intro exI [of _ "uint cg # a # y # st'"]) (simp add: st 1)
    qed
  next
    case 2
    have s: "sends op st \<Longrightarrow> y \<noteq> 0" by (auto simp: sends_def st z)
    show ?thesis unfolding gasCost_def Let_def 2 OpCode.case st
    proof (rule ve_conseq [OF ve_gasCallCode], clarify)
      fix c cg :: u64 and fr assume h: "S g L (uint cg # a # y # st') fr" "unat cg + 40 + (if y \<noteq> 0 then 9000 else 0) \<le> unat c" "ms \<le> 0xffffffffe0"
      have "unat cg + 40 + (if sends op st then 9000 else 0) \<le> unat c" using h(2) s by (cases "sends op st") auto
      from gas_post_call [OF assms(2) this h(3)] show "\<exists>st''. S g L st'' fr \<and> gas_post CALLCODE ms (x # a # y # st') c st''"
        using h(1) by (intro exI [of _ "uint cg # a # y # st'"]) (simp add: st 2)
    qed
  next
    case 3
    have s: "\<not> sends op st" using 3 by (auto simp: sends_def)
    have "ve E stat R (S g L (x # a # y # st')) (gasDelegateCall ?gt ms) (\<lambda>c fr. \<exists>st'. S g L st' fr \<and> gas_post op ms st c st')"
    proof (rule ve_conseq [OF ve_gasDelegateCall], clarify)
      fix c cg :: u64 and fr assume "S g L (uint cg # a # y # st') fr" "unat cg + 40 \<le> unat c" "ms \<le> 0xffffffffe0"
      then show "\<exists>st''. S g L st'' fr \<and> gas_post op ms st c st''"
        using gas_post_call [of op cg st c ms] s assms(2) by (intro exI [of _ "uint cg # a # y # st'"]) (simp add: st)
    qed
    then show ?thesis using 3 by (auto simp: gasCost_def st)
  qed
qed

lemma ve_gasCost:
  assumes "valid (homesteadInstructionSet op)" "pop_items (homesteadInstructionSet op) \<le> length st" "\<forall>x \<in> set st. 0 \<le> x"
    "stat \<Longrightarrow> \<not> writes (homesteadInstructionSet op)" "\<not> is_call op"
  shows "ve E stat R (S g L st) (gasCost E op ms) (\<lambda>c fr. \<exists>st'. S g L st' fr \<and> gas_post op ms st c st')"
proof (cases op)
  case (Arith a)
  then show ?thesis
  proof (cases "a = EXP")
    case True
    have "1 < length st" using assms(2) Arith True by (simp add: instruction_defs)
    note exp = ve_gasExp [OF this]
    have g: "gasCost E op ms = gasExp (gas_table (chain_config E) (ctx_BlockNumber (context_of E)))" by (simp add: gasCost_def Arith True)
    have "gas_post op ms st c st" if "1 \<le> unat c" for c by (rule gas_post_plain [OF assms(5) that]) (simp add: Arith)
    then show ?thesis unfolding g by (intro ve_conseq [OF exp]) blast
  next
    case False
    have "1 \<le> unat (arith_gas a)" by (cases a) simp_all
    then show ?thesis using Arith False ve_const assms(5) by (simp add: gasCost_def)
  qed
next
  case SSTORE
  have "\<not> stat" "1 < length st" using assms(2,4) SSTORE by (auto simp: instruction_defs)
  note sstore = ve_gasSStore [OF this]
  have g: "gasCost E op ms = gasSStore E" by (simp add: gasCost_def SSTORE)
  have "gas_post op ms st c st" if "1 \<le> unat c" for c by (rule gas_post_plain [OF assms(5) that]) (simp add: SSTORE)
  then show ?thesis unfolding g by (intro ve_conseq [OF sstore]) blast
next
  case SELFDESTRUCT
  have s: "\<not> stat" "1 \<le> length st" using assms(2,4) SELFDESTRUCT by (auto simp: instruction_defs)
  obtain x st' where "st = x # st'" using length_ge(1) [OF s(2)] by blast
  note suicide = ve_gasSuicide [OF s(1), of g L x st', folded this]
  have g: "gasCost E op ms = gasSuicide E (gas_table (chain_config E) (ctx_BlockNumber (context_of E)))" by (simp add: gasCost_def SELFDESTRUCT)
  have "gas_post op ms st c st" for c by (rule gas_post_halting) (simp_all add: SELFDESTRUCT)
  then show ?thesis unfolding g by (intro ve_conseq [OF suicide]) blast
next
  case (LOG k)
  have "1 < length st" using assms(2) LOG by (simp add: instruction_defs)
  note log = ve_makeGasLog [OF this assms(3)]
  have g: "gasCost E op ms = makeGasLog k ms" by (simp add: gasCost_def LOG)
  show ?thesis unfolding g by (rule ve_price [OF ve_conseq [OF log] assms(5)]) auto
next
  case STOP
  then have g: "gasCost E op ms = sret 0" by (simp add: gasCost_def)
  have "gas_post op ms st 0 st" by (rule gas_post_halting) (simp_all add: STOP)
  then show ?thesis unfolding g by (intro ve_ret) blast
qed (use assms table_pos in \<open>simp_all add: gasCost_def instruction_defs is_call_def ve_const ve_words_price ve_plus_price ve_memory_price del: One_nat_def\<close>)

end

section \<open>One step\<close>

lemma word_size_covers:
  assumes "SafeMul (toWordSize m) 32 = (z, False)"
  shows "unat m \<le> unat z"
proof (cases "m > MaxUint64 - 31")
  case True
  then have "toWordSize m = MaxUint64 div 32 + 1" by (simp add: toWordSize_def)
  then have "SafeMul (toWordSize m) 32 = (0, True)" by (simp add: SafeMul_def MaxUint64_def)
  then show ?thesis using assms by simp
next
  case False
  have m: "unat (MaxUint64 - 31) = 2 ^ 64 - 32" by (simp add: MaxUint64_def)
  have "unat m \<le> 2 ^ 64 - 32" using False unfolding not_less word_le_nat_alt m .
  then have "unat (m + 31) = unat m + 31" unfolding unat_word_ariths by simp
  then have "unat (toWordSize m) = (unat m + 31) div 32" using False by (simp add: toWordSize_def unat_div)
  then show ?thesis using SafeMul_ok [OF assms] by simp
qed

lemma push_dup_range: "GetOp c pc \<noteq> DUP 0" "GetOp c pc = PUSH k \<Longrightarrow> k \<le> 32"
proof -
  have "\<forall>p \<in> set opcodes. case snd p of DUP n \<Rightarrow> n \<noteq> 0 | PUSH n \<Rightarrow> n \<le> 32 | _ \<Rightarrow> True" by (simp add: opcodes_def)
  then have "\<And>n. map_of opcodes n \<noteq> Some (DUP 0)" "\<And>n. map_of opcodes n = Some (PUSH k) \<Longrightarrow> k \<le> 32"
    using map_of_SomeD by fastforce+
  then show "GetOp c pc \<noteq> DUP 0" "GetOp c pc = PUSH k \<Longrightarrow> k \<le> 32" by (auto simp: GetOp_def opcode_of_def Let_def split: option.splits if_splits)
qed

context machine
begin

lemma ve_mem_range:
  assumes "i < length st" "j < length st" "\<forall>x \<in> set st. 0 \<le> x"
  shows "ve E stat R (S g L st) (mem_range i j) (\<lambda>x fr. S g L st fr \<and> 0 \<le> x \<and> (st ! j = 0 \<or> st ! i + st ! j \<le> x))"
  unfolding mem_range_def
  by (rule ve_bindI [OF ve_Back [OF assms(1)]], rule ve_bindI [OF ve_Back [OF assms(2)]], rule ve_ret) (use assms in \<open>auto simp: calcMemSize_def\<close>)

lemma ve_mem_fixed:
  assumes "0 < length st" "\<forall>x \<in> set st. 0 \<le> x" "0 \<le> k"
  shows "ve E stat R (S g L st) (mem_fixed k) (\<lambda>x fr. S g L st fr \<and> 0 \<le> x \<and> (k = 0 \<or> st ! 0 + k \<le> x))"
  unfolding mem_fixed_def
  by (rule ve_bindI [OF ve_Back [OF assms(1)]], rule ve_ret) (use assms in \<open>auto simp: calcMemSize_def\<close>)

lemma ve_mem_ranges:
  assumes "i < length st" "j < length st" "k < length st" "l < length st" "\<forall>x \<in> set st. 0 \<le> x"
  shows "ve E stat R (S g L st) (mem_ranges i j k l) (\<lambda>x fr. S g L st fr \<and> 0 \<le> x
    \<and> (st ! j = 0 \<or> st ! i + st ! j \<le> x) \<and> (st ! l = 0 \<or> st ! k + st ! l \<le> x))"
  unfolding mem_ranges_def
  by (rule ve_bindI [OF ve_mem_range [OF assms(1,2,5)]], rule ve_bindI [OF ve_mem_range [OF assms(3-5)]], rule ve_ret) (auto simp: BigMax_def)

lemma ve_memorySize:
  assumes "memorySize op = Some f" "pop_items (homesteadInstructionSet op) \<le> length st" "\<forall>x \<in> set st. 0 \<le> x"
  shows "ve E stat R (S g L st) f (\<lambda>x fr. S g L st fr \<and> 0 \<le> x \<and> (\<forall>p \<in> set (memory_args op st). snd p = 0 \<or> fst p + snd p \<le> x))"
  using assms(1,2)
  by (cases op) (auto simp: instruction_defs intro!: ve_conseq [OF ve_mem_range [OF _ _ assms(3)]] ve_conseq [OF ve_mem_fixed [OF _ assms(3)]]
    ve_conseq [OF ve_mem_ranges [OF _ _ _ _ assms(3)]])

lemma ve_needed_memory:
  assumes "pop_items (homesteadInstructionSet op) \<le> length st" "\<forall>x \<in> set st. 0 \<le> x"
  shows "ve E stat R (S g L st) (needed_memory op) (\<lambda>ms fr. S g L st fr \<and> (memory_args op st = [] \<longrightarrow> ms = 0)
    \<and> (\<forall>p \<in> set (memory_args op st). snd p = 0 \<or> fst p + snd p \<le> uint ms))"
proof (cases "memorySize op")
  case None
  then have "memory_args op st = []" by (cases op) auto
  then show ?thesis unfolding needed_memory_def None option.case by (intro ve_ret) simp
next
  case (Some f)
  have ne: "memory_args op st \<noteq> []" using Some by (cases op) auto
  have mul: "ve E stat R P (safe_mul (toWordSize m) 32) (\<lambda>z fr. P fr \<and> uint m \<le> uint z)" for P m
  proof (rule ve_step)
    fix fr v assume "P fr"
    obtain z over where z: "SafeMul (toWordSize m) 32 = (z, over)" by fastforce
    have "uint m \<le> uint z" if "\<not> over" using word_size_covers [of m z] z that by (simp add: word_le_nat_alt flip: word_le_def)
    then show "\<exists>r fr'. safe_mul (toWordSize m) 32 (fr, v) = (r, fr', v) \<and> fr_contract fr' = fr_contract fr
        \<and> (case r of Inl e \<Rightarrow> \<not> crash e | Inr x \<Rightarrow> P fr' \<and> uint m \<le> uint x)"
      using \<open>P fr\<close> z by (cases over) (simp_all add: safe_mul_def sthrow_def sret_def)
  qed
  show ?thesis unfolding needed_memory_def Some option.case
  proof (rule ve_bindI [OF ve_memorySize [OF Some assms]], rule ve_bindI [OF ve_u64], simp, rule ve_conseq [OF mul], goal_cases)
    case (1 x m z fr)
    then show ?case using ne by fastforce
  qed
qed

lemma charge_ok:
  assumes "ins E stat b v A" "S g L st fr" "valid (homesteadInstructionSet op)" "pop_items (homesteadInstructionSet op) \<le> length st"
    "stat \<Longrightarrow> \<not> writes (homesteadInstructionSet op)"
  shows "\<exists>paid fr' v' A'. charge E op ms (fr, v) = (Inr paid, fr', v') \<and> rest v' = rest v \<and> ins E stat b v' A' \<and> R A A' \<and> Gas (fr_contract fr') \<le> g
    \<and> (paid \<longrightarrow> (\<exists>cost st'. S (g - cost) L st' fr' \<and> cost \<le> g \<and> gas_post op ms st cost st'))"
proof -
  have p: "\<forall>x \<in> set st. 0 \<le> x" using at_stack_nonneg [OF assms(2)] by blast
  have g: "Gas (fr_contract fr) = g" using assms(2) by (simp add: at_stack_def)
  have metered: "\<not> DisableGasMetering (vm_config E)" using ins_env [OF assms(1)] by (simp add: env_ok_def)
  have "ve E stat R (S g L st) (gasCost E op ms) (\<lambda>c fr. \<exists>st'. S g L st' fr \<and> gas_post op ms st c st')"
    using ve_gasCost [OF assms(3,4) p assms(5)] ve_gasCost_call [OF assms(4)] by (cases "is_call op") auto
  then show ?thesis
    using assms(1,2)
  proof (cases rule: veE)
    case (error e fr' v' A')
    then have "charge E op ms (fr, v) = (Inr False, fr', v')" using metered by (simp add: charge_def scatch_Inl sret_def)
    then show ?thesis using error g by auto
  next
    case (normal cost fr1 v1 A1)
    then obtain st' where st': "S g L st' fr1" "gas_post op ms st cost st'" by blast
    obtain good c where u: "UseGas cost (fr_contract fr1) = (good, c)" by fastforce
    have c: "charge E op ms (fr, v) = (Inr good, fr1\<lparr>fr_contract := c\<rparr>, v1)" using metered normal(1) u by (simp add: charge_def)
    have le: "Gas c \<le> g" using UseGas_le [OF u] normal(5) g by simp
    have "S (g - cost) L st' (fr1\<lparr>fr_contract := c\<rparr>)" "cost \<le> g" if good
      using u st'(1) that by (auto simp: UseGas_def at_stack_def good_frame_def contract_ok_def not_less split: if_splits)
    then show ?thesis using c le normal(2-4) st'(2) by (intro exI [of _ good] exI [of _ "fr1\<lparr>fr_contract := c\<rparr>"] exI [of _ v1] exI [of _ A1]) auto
  qed
qed

end

text \<open>How a step ends: with no more gas than before, and with less when the frame goes on.\<close>

definition step_post :: "(bytes \<Rightarrow> bytes) \<Rightarrow> u64 \<Rightarrow> outcome \<Rightarrow> frame \<Rightarrow> bool" where
  "step_post H g x fr \<longleftrightarrow> (case x of Halted r \<Rightarrow> Gas (fr_contract fr) \<le> g \<and> small_result (fst r) | Running \<Rightarrow> good_frame H fr \<and> Gas (fr_contract fr) < g)"

lemma resized:
  assumes "length (mem_store m) \<le> 0xffffffffe0" "ms \<le> 0xffffffffe0"
  shows "length (mem_store (mem_Resize ms m)) = max (length (mem_store m)) (unat ms)"
proof -
  have l: "unat (of_nat (length (mem_store m)) :: u64) = length (mem_store m)" by (rule unat_of_nat_u64) (use assms(1) in simp)
  show ?thesis
  proof (cases "of_nat (length (mem_store m)) < ms")
    case True
    then have "unat (ms - of_nat (length (mem_store m))) = unat ms - length (mem_store m)" using unat_sub [of "of_nat (length (mem_store m))" ms] l by simp
    moreover have "length (mem_store m) < unat ms" using True l by (simp add: word_less_nat_alt)
    ultimately show ?thesis using True by (simp add: mem_Resize_def)
  next
    case False
    then have "unat ms \<le> length (mem_store m)" using l by (simp add: word_less_nat_alt)
    then show ?thesis using False by (simp add: mem_Resize_def)
  qed
qed

lemma running_ops:
  assumes "op \<in> {STOP, RETURN, REVERT, SELFDESTRUCT}"
  shows "halts (homesteadInstructionSet op) \<or> reverts (homesteadInstructionSet op)"
  using assms by (auto simp: instruction_defs)

context machine
begin

lemma vt_after_execute:
  assumes "G \<le> unat g" "\<not> halts x \<Longrightarrow> \<not> reverts x \<Longrightarrow> G < unat g"
  shows "vt E stat R (gives (keccak E) G r) (after_execute x r) (\<lambda>y. step_post (keccak E) g y)"
proof (rule vtI)
  fix b fr v A assume i: "ins E stat b v A" and l: "gives (keccak E) G r fr"
  obtain res e where r: "r = (res, e)" by fastforce
  let ?v = "if returns x then v\<lparr>returnData := opt_bytes res\<rparr> else v"
  have small: "small_result res" using l by (simp add: gives_def r)
  have v: "ins E stat b ?v A" "rest ?v = rest v" using i small by (cases b; simp add: ins_def rest_def small_result_def)+
  have g: "Gas (fr_contract fr) \<le> g" "\<not> halts x \<Longrightarrow> \<not> reverts x \<Longrightarrow> Gas (fr_contract fr) < g" "good_frame (keccak E) fr"
    using l assms by (auto simp: gives_def leaves_def word_le_nat_alt word_less_nat_alt)
  have pc: "good_frame (keccak E) (fr\<lparr>fr_pc := k\<rparr>)" for k using g(3) by (simp add: good_frame_def)
  have "\<exists>y fr'. after_execute x r (fr, v) = (Inr y, fr', ?v) \<and> step_post (keccak E) g y fr'"
    using g pc small by (auto simp: after_execute_def r Let_def step_post_def small_result_None)
  then show "\<exists>y fr' v' A'. after_execute x r (fr, v) = (Inr y, fr', v') \<and> rest v' = rest v \<and> ins E stat b v' A' \<and> R A A' \<and> step_post (keccak E) g y fr'"
    using v R_refl by blast
qed

lemma vt_paid:
  assumes "runner_ok E stat R n loop" "valid (homesteadInstructionSet op)" "pop_items (homesteadInstructionSet op) \<le> length st"
    "stat \<Longrightarrow> \<not> writes (homesteadInstructionSet op)" "stat \<Longrightarrow> op = CALL \<Longrightarrow> st ! 2 = 0" "op \<noteq> DUP 0 \<and> (\<forall>k. op = PUSH k \<longrightarrow> k \<le> 32)" "unat g \<le> n"
    "gas_post op ms st cost st'" "cost \<le> g" "memory_args op st = [] \<longrightarrow> ms = 0"
    "\<forall>p \<in> set (memory_args op st). snd p = 0 \<or> fst p + snd p \<le> uint ms" "\<forall>x \<in> set st. 0 \<le> x"
  shows "vt E stat R (S (g - cost) L st') (sbind (mod_frame (\<lambda>fr. if ms > 0 then fr\<lparr>fr_mem := mem_Resize ms (fr_mem fr)\<rparr> else fr)) (\<lambda>_.
    sbind (execute E loop op) (after_execute (homesteadInstructionSet op)))) (\<lambda>y. step_post (keccak E) g y)"
proof (rule vt_assume)
  fix fr0 assume fr0: "S (g - cost) L st' fr0"
  have L: "L \<le> 0xffffffffe0" by (rule at_stack_mem [OF fr0])
  have ms: "ms \<le> 0xffffffffe0" using assms(8,10) by (auto simp: gas_post_def)
  let ?L = "max L (unat ms)"
  have len: "is_call op \<Longrightarrow> 6 \<le> length st" "op = CALL \<or> op = CALLCODE \<Longrightarrow> 7 \<le> length st" using assms(3) by (auto simp: is_call_def instruction_defs)
  have c: "\<exists>y. st' = y # tl st" "st \<noteq> []" if "is_call op" using assms(8) that len(1) [OF that] by (auto simp: gas_post_def)
  have nc: "st' = st" if "\<not> is_call op" using assms(8) that by (simp add: gas_post_def)
  have st': "length st' = length st" "\<And>i. 0 < i \<Longrightarrow> st' ! i = st ! i" using c nc by (cases "is_call op"; cases st; auto)+
  have same: "memory_args op st' = memory_args op st"
    using assms(8) st'(2) len by (cases op) (auto simp: gas_post_def is_call_def)
  have unat_ms: "uint ms \<le> int ?L" unfolding uint_nat of_nat_le_iff by (rule max.cobounded2)
  have nn: "0 \<le> st ! i" if "i < length st" for i using assms(12) nth_mem [OF that] by blast
  have nonneg: "\<forall>p \<in> set (memory_args op st). 0 \<le> fst p \<and> 0 \<le> snd p"
    using assms(3) by (cases op) (auto simp: instruction_defs intro!: nn)
  have cov: "\<forall>p \<in> set (memory_args op st'). covered ?L p"
    unfolding same using nonneg assms(11) unat_ms by (fastforce simp: covered_def)
  have cost: "unat (g - cost) = unat g - unat cost" "unat cost \<le> unat g" using unat_sub [OF assms(9)] assms(9) by (simp_all add: word_le_nat_alt)
  have pos: "1 \<le> unat cost" if "\<not> halts (homesteadInstructionSet op)" "\<not> reverts (homesteadInstructionSet op)"
    using assms(8) running_ops [of op] that by (auto simp: gas_post_def)
  have sub: "unat (sub_gas op st') < unat cost" if c: "is_call op"
  proof -
    obtain cg :: u64 where cg: "st' = uint cg # tl st" "unat cg + 40 + (if sends op st then 9000 else 0) \<le> unat cost" using assms(8) c by (auto simp: gas_post_def)
    have s: "sends op st' = sends op st" using st'(2) [of 2] len by (auto simp: sends_def)
    have "sub_gas op st' = cg + (if sends op st then CallStipend else 0)" by (simp add: sub_gas_def s) (simp add: cg(1) Uint64_def)
    then show ?thesis using cg(2) unat_plus_le [of cg "if sends op st then CallStipend else 0"] by (cases "sends op st") simp_all
  qed
  have B: "budget op st' (g - cost) \<le> unat g" "\<not> halts (homesteadInstructionSet op) \<Longrightarrow> \<not> reverts (homesteadInstructionSet op) \<Longrightarrow> budget op st' (g - cost) < unat g"
    using cost sub pos by (auto simp: budget_def)
  have z: "U256 (st' ! 2) = 0" if "stat" "op = CALL" using assms(5) [OF that] st'(2) [of 2] by (simp add: U256_mod)
  have items: "pop_items (homesteadInstructionSet op) \<le> length st'" using assms(3) st'(1) by simp
  have create: "unat (g - cost) < n" if "op = CREATE"
  proof -
    have "1 \<le> unat cost" using assms(8) that by (simp add: gas_post_def)
    then show ?thesis using cost assms(7) by linarith
  qed
  have ex: "vt E stat R (S (g - cost) ?L st') (execute E loop op) (gives (keccak E) (budget op st' (g - cost)))"
  proof (cases "is_call op")
    case True
    have "unat (sub_gas op st') < n" using sub [OF True] cost(2) assms(7) by linarith
    from vt_execute_call [OF assms(1,2) items cov z this True] show ?thesis .
  next
    case False
    show ?thesis by (rule vt_execute [OF assms(1,2) items cov assms(4) create False]) (use assms(6) in auto)
  qed
  show "vt E stat R (S (g - cost) L st') (sbind (mod_frame (\<lambda>fr. if ms > 0 then fr\<lparr>fr_mem := mem_Resize ms (fr_mem fr)\<rparr> else fr)) (\<lambda>_.
    sbind (execute E loop op) (after_execute (homesteadInstructionSet op)))) (\<lambda>y. step_post (keccak E) g y)"
  proof (rule vt_seq [where P' = "S (g - cost) ?L st'"])
    show "vt E stat R (S (g - cost) ?L st') (sbind (execute E loop op) (after_execute (homesteadInstructionSet op))) (\<lambda>y. step_post (keccak E) g y)"
      by (rule vt_bind [OF ex]) (rule vt_after_execute [OF B])
    fix fr v assume fr: "S (g - cost) L st' fr"
    let ?m = "if ms > 0 then fr\<lparr>fr_mem := mem_Resize ms (fr_mem fr)\<rparr> else fr"
    have "length (mem_store (fr_mem ?m)) = ?L" using resized [of "fr_mem fr" ms] fr L ms by (cases "ms = 0") (auto simp: at_stack_def word_neq_0_conv)
    then have "S (g - cost) ?L st' ?m" using fr L ms by (auto simp: at_stack_def good_frame_def word_le_nat_alt)
    then show "\<exists>fr'. mod_frame (\<lambda>fr. if ms > 0 then fr\<lparr>fr_mem := mem_Resize ms (fr_mem fr)\<rparr> else fr) (fr, v) = (Inr (), fr', v) \<and> S (g - cost) ?L st' fr'"
      by (simp add: mod_frame_def)
  qed
qed

lemma vt_step_ok:
  assumes "runner_ok E stat R n loop" "unat g \<le> n"
  shows "vt E stat R (S g L st) (step E loop) (\<lambda>y. step_post (keccak E) g y)"
proof (rule vtI)
  fix b fr v A assume i: "ins E stat b v A" and fr: "S g L st fr"
  let ?op = "GetOp (fr_contract fr) (fr_pc fr)" let ?x = "homesteadInstructionSet ?op"
  let ?goal = "\<lambda>r. \<exists>y fr' v' A'. r = (Inr y, fr', v') \<and> rest v' = rest v \<and> ins E stat b v' A' \<and> R A A' \<and> step_post (keccak E) g y fr'"
  have g: "Gas (fr_contract fr) = g" "fr_stack fr = st" using fr by (simp_all add: at_stack_def)
  have nn: "\<forall>x \<in> set st. 0 \<le> x" using at_stack_nonneg [OF fr] by blast
  have halt: "?goal (Inr (Halted (None, e)), fr', v')" if "rest v' = rest v" "ins E stat b v' A'" "R A A'" "Gas (fr_contract fr') \<le> g" for e fr' v' A'
    using that by (fastforce simp: step_post_def small_result_None)
  have same: "?goal (Inr (Halted (None, e)), fr, v)" for e by (rule halt) (use i R_refl g in auto)
  show "?goal (step E loop (fr, v))"
  proof (cases "abort v \<or> \<not> valid ?x \<or> validateStack ?x st \<noteq> None \<or> enforceRestrictions E ?op ?x st v \<noteq> None")
    case True
    then have "\<exists>e. step E loop (fr, v) = (Inr (Halted (None, e)), fr, v)" by (auto simp: step_def Let_def g(2) sret_def split: option.splits)
    then show ?thesis using same by metis
  next
    case False
    let ?fail = "\<lambda>e. sret (Halted (None, Some e))"
    let ?k = "\<lambda>ms. sbind (mod_frame (\<lambda>fr. if ms > 0 then fr\<lparr>fr_mem := mem_Resize ms (fr_mem fr)\<rparr> else fr)) (\<lambda>_. sbind (execute E loop ?op) (after_execute ?x))"
    have s: "step E loop (fr, v) = scatch (needed_memory ?op) ?fail (\<lambda>ms. sbind (charge E ?op ms) (\<lambda>paid. if \<not> paid then ?fail (ChainError ErrOutOfGas) else ?k ms)) (fr, v)"
      using False by (simp add: step_def Let_def g(2))
    have items: "pop_items ?x \<le> length st" using False by (simp add: validateStack_def stack_require_def split: if_splits)
    have ro: "readOnly v" "IsByzantium (chain_config E) (ctx_BlockNumber (context_of E))" if stat
      using i that by (cases b; simp add: ins_def env_ok_def)+
    have w: "\<not> writes ?x" if stat using False ro [OF that] by (simp add: enforceRestrictions_def split: if_splits)
    have c: "st ! 2 = 0" if stat "?op = CALL"
    proof -
      have "2 < length st" using items that(2) by (simp add: instruction_defs)
      moreover have "\<not> BitLen (st ! 2) > 0" using False that ro [OF that(1)] by (simp add: enforceRestrictions_def split: if_splits)
      moreover have "0 \<le> st ! 2" using nn nth_mem [of 2 st] calculation(1) by blast
      ultimately show ?thesis using BitLen_gt [of "st ! 2" 0] by simp
    qed
    from ve_needed_memory [OF items nn] i fr show ?thesis
    proof (cases rule: veE)
      case (error e fr' v' A')
      then have "step E loop (fr, v) = (Inr (Halted (None, Some e)), fr', v')" unfolding s by (simp add: scatch_Inl sret_def)
      then show ?thesis using halt error(2-5) g by simp
    next
      case (normal ms fr1 v1 A1)
      obtain paid fr2 v2 A2 where ch: "charge E ?op ms (fr1, v1) = (Inr paid, fr2, v2)" "rest v2 = rest v1" "ins E stat b v2 A2" "R A1 A2"
        "Gas (fr_contract fr2) \<le> g" "paid \<longrightarrow> (\<exists>cost st'. S (g - cost) L st' fr2 \<and> cost \<le> g \<and> gas_post ?op ms st cost st')"
        using charge_ok [OF normal(3) conjunct1 [OF normal(6)] _ items w] False by blast
      have R2: "R A A2" using R_trans [OF normal(4) ch(4)] .
      have st: "step E loop (fr, v) = (if \<not> paid then ?fail (ChainError ErrOutOfGas) else ?k ms) (fr2, v2)" unfolding s using normal(1) ch(1) by simp
      show ?thesis
      proof (cases paid)
        case False
        then show ?thesis unfolding st using halt ch(2,3,5) R2 normal(2) by (simp add: sret_def)
      next
        case True
        then obtain cost st' where k: "S (g - cost) L st' fr2" "cost \<le> g" "gas_post ?op ms st cost st'" using ch(6) by blast
        have "vt E stat R (S (g - cost) L st') (?k ms) (\<lambda>y. step_post (keccak E) g y)"
          by (rule vt_paid [OF assms(1) _ items w c _ assms(2) k(3,2)]) (use push_dup_range False normal(6) nn in auto)
        then obtain y fr3 v3 A3 where "?k ms (fr2, v2) = (Inr y, fr3, v3)" "rest v3 = rest v2" "ins E stat b v3 A3" "R A2 A3" "step_post (keccak E) g y fr3"
          using ch(3) k(1) by (rule vtE)
        then show ?thesis unfolding st using True R_trans [OF R2] ch(2) normal(2) by fastforce
      qed
    qed
  qed
qed

lemma run_loop_ok: "runner_ok E stat R n (run_loop E n)"
proof (induction n)
  case 0
  then show ?case by (simp add: runner_ok_def)
next
  case (Suc n)
  show ?case unfolding runner_ok_def
  proof (intro allI impI triI)
    fix fr b v A assume fr: "good_frame (keccak E) fr" "unat (Gas (fr_contract fr)) < Suc n" and i: "ins E stat b v A"
    let ?g = "Gas (fr_contract fr)"
    have s: "S ?g (length (mem_store (fr_mem fr))) (fr_stack fr) fr" using fr by (simp add: at_stack_def)
    have "vt E stat R (S ?g (length (mem_store (fr_mem fr))) (fr_stack fr)) (step E (run_loop E n)) (\<lambda>y. step_post (keccak E) ?g y)"
      by (rule vt_step_ok [OF Suc.IH]) (use fr in simp)
    then obtain y fr1 v1 A1 where y: "step E (run_loop E n) (fr, v) = (Inr y, fr1, v1)" "rest v1 = rest v" "ins E stat b v1 A1" "R A A1" "step_post (keccak E) ?g y fr1"
      using i s by (rule vtE)
    show "\<exists>x v' A'. run_loop E (Suc n) fr v = (Inr x, v') \<and> rest v' = rest v \<and> ins E stat b v' A' \<and> R A A'
      \<and> Gas (snd x) \<le> ?g \<and> small_result (fst (fst x))"
    proof (cases y)
      case (Halted r)
      then show ?thesis using y by (auto simp: step_post_def)
    next
      case Running
      then have f: "good_frame (keccak E) fr1" "Gas (fr_contract fr1) < ?g" using y(5) by (simp_all add: step_post_def)
      then have "unat (Gas (fr_contract fr1)) < n" using fr(2) by (simp add: word_less_nat_alt)
      then have "tri E stat R (\<lambda>_. True) (run_loop E n fr1) (\<lambda>x _. Gas (snd x) \<le> Gas (fr_contract fr1) \<and> small_result (fst (fst x)))" using Suc.IH f(1) by (simp add: runner_ok_def)
      then obtain x v2 A2 where "run_loop E n fr1 v1 = (Inr x, v2)" "rest v2 = rest v1" "ins E stat b v2 A2" "R A1 A2"
        "Gas (snd x) \<le> Gas (fr_contract fr1) \<and> small_result (fst (fst x))"
        using y(3) by (rule triE) simp
      then show ?thesis using y Running f(2) R_trans [OF y(4)] by (fastforce simp del: split_paired_Ex)
    qed
  qed
qed

end

end
