(* ===== verification/Evm_Fuel.thy ===== *)
theory Evm_Fuel
  imports Evm_Run
begin

text \<open>
  The fuel of the interpreter loop in \<open>Evm\<close> only bounds the recursion: a run of \<open>core/vm/interpreter.go\<close>, a call or a
  creation that ends with some fuel ends with the same result and the same state when there is more.
\<close>

section \<open>More fuel changes nothing\<close>

text \<open>An operation that does not run out of fuel has the same result in a machine with more of it.\<close>

definition fuel_le :: "('a, 's) op \<Rightarrow> ('a, 's) op \<Rightarrow> bool" where
  "fuel_le m m' \<longleftrightarrow> (\<forall>s. fst (m s) \<noteq> Inl OutOfFuel \<longrightarrow> m' s = m s)"

named_theorems fuel_rules

lemma fuel_le_refl [fuel_rules]: "fuel_le m m"
  by (simp add: fuel_le_def)

lemma fuel_le_trans: "fuel_le a b \<Longrightarrow> fuel_le b c \<Longrightarrow> fuel_le a c"
  by (simp add: fuel_le_def)

lemma fuel_le_bind [fuel_rules]: "fuel_le m m' \<Longrightarrow> (\<And>x. fuel_le (f x) (f' x)) \<Longrightarrow> fuel_le (sbind m f) (sbind m' f')"
  by (auto simp: fuel_le_def sbind_def split: prod.splits sum.splits)

lemma fuel_le_scatch [fuel_rules]: "(\<And>x. fuel_le (f x) (f' x)) \<Longrightarrow> fuel_le (scatch m h f) (scatch m h f')"
  by (auto simp: fuel_le_def scatch_def split: prod.splits sum.splits)

lemma fuel_le_if [fuel_rules]: "fuel_le m1 m1' \<Longrightarrow> fuel_le m2 m2' \<Longrightarrow> fuel_le (if c then m1 else m2) (if c then m1' else m2')"
  by simp

lemma fuel_le_choice [fuel_rules]:
  "fuel_le m1 m1' \<Longrightarrow> fuel_le m2 m2' \<Longrightarrow> fuel_le (\<lambda>v. if c v then m1 v else m2 v) (\<lambda>v. if c v then m1' v else m2' v)"
  by (simp add: fuel_le_def)

lemma fuel_le_case_prod [fuel_rules]: "(\<And>a b. fuel_le (f a b) (f' a b)) \<Longrightarrow> fuel_le (case p of (a, b) \<Rightarrow> f a b) (case p of (a, b) \<Rightarrow> f' a b)"
  by (simp split: prod.splits)

lemma fuel_le_in_evm [fuel_rules]: "fuel_le m m' \<Longrightarrow> fuel_le (in_evm m) (in_evm m')"
  by (auto simp: fuel_le_def in_evm_def split: prod.splits)

definition fuel_runs :: "runner \<Rightarrow> runner \<Rightarrow> bool" where
  "fuel_runs loop loop' \<longleftrightarrow> (\<forall>fr. fuel_le (loop fr) (loop' fr))"

lemma fuel_vm_run [fuel_rules]:
  assumes "fuel_runs loop loop'"
  shows "fuel_le (vm_run E loop c inp) (vm_run E loop' c inp)"
proof -
  have "fuel_le (Interpreter_Run loop c inp) (Interpreter_Run loop' c inp)"
    using assms by (auto simp: fuel_le_def fuel_runs_def Interpreter_Run_def Let_def split: prod.splits)
  then show ?thesis by (auto simp: vm_run_def fuel_le_refl split: option.splits)
qed

lemma fuel_finish_call [fuel_rules]: "fuel_runs loop loop' \<Longrightarrow> fuel_le (finish_call E loop i c inp) (finish_call E loop' i c inp)"
  unfolding finish_call_def by (intro fuel_rules)

lemma fuel_evm_Call [fuel_rules]:
  "fuel_runs loop loop' \<Longrightarrow> fuel_le (evm_Call E loop caller addr inp gas amount) (evm_Call E loop' caller addr inp gas amount)"
  unfolding evm_Call_def [abs_def] by (intro fuel_rules)

lemma fuel_evm_CallCode [fuel_rules]:
  "fuel_runs loop loop' \<Longrightarrow> fuel_le (evm_CallCode E loop caller addr inp gas amount) (evm_CallCode E loop' caller addr inp gas amount)"
  unfolding evm_CallCode_def [abs_def] by (intro fuel_rules)

lemma fuel_evm_DelegateCall [fuel_rules]:
  "fuel_runs loop loop' \<Longrightarrow> fuel_le (evm_DelegateCall E loop caller addr inp gas) (evm_DelegateCall E loop' caller addr inp gas)"
  unfolding evm_DelegateCall_def [abs_def] by (intro fuel_rules)

lemma fuel_read_only: "fuel_le m m' \<Longrightarrow> fuel_le (\<lambda>v. case m (v\<lparr>readOnly := True\<rparr>) of (r, v') \<Rightarrow> (r, if readOnly v then v' else v'\<lparr>readOnly := False\<rparr>))
    (\<lambda>v. case m' (v\<lparr>readOnly := True\<rparr>) of (r, v') \<Rightarrow> (r, if readOnly v then v' else v'\<lparr>readOnly := False\<rparr>))"
  by (auto simp: fuel_le_def split: prod.splits)

lemma fuel_evm_StaticCall [fuel_rules]:
  "fuel_runs loop loop' \<Longrightarrow> fuel_le (evm_StaticCall E loop caller addr inp gas) (evm_StaticCall E loop' caller addr inp gas)"
  unfolding evm_StaticCall_def [abs_def] by (intro fuel_read_only fuel_rules)

lemma fuel_evm_Create [fuel_rules]:
  "fuel_runs loop loop' \<Longrightarrow> fuel_le (evm_Create E loop caller code gas amount) (evm_Create E loop' caller code gas amount)"
  unfolding evm_Create_def [abs_def] finish_create_def Let_def by (intro fuel_rules)

lemma fuel_execute [fuel_rules]: "fuel_runs loop loop' \<Longrightarrow> fuel_le (execute E loop op) (execute E loop' op)"
  by (cases op) (simp_all add: execute_def fuel_le_refl opCreate_def opCall_def opCallCode_def opDelegateCall_def opStaticCall_def Let_def,
    (intro fuel_rules; assumption)+)

lemma fuel_step: "fuel_runs loop loop' \<Longrightarrow> fuel_le (step E loop) (step E loop')"
proof -
  assume f: "fuel_runs loop loop'"
  let ?fail = "\<lambda>e. sret (Halted (None, Some e))"
  let ?rest = "\<lambda>loop op x. scatch (needed_memory op) ?fail (\<lambda>ms. sbind (charge E op ms) (\<lambda>paid. if \<not> paid then ?fail (ChainError ErrOutOfGas)
    else sbind (mod_frame (\<lambda>fr. if ms > 0 then fr\<lparr>fr_mem := mem_Resize ms (fr_mem fr)\<rparr> else fr)) (\<lambda>_. sbind (execute E loop op) (after_execute x))))"
  have "fuel_le (?rest loop op x) (?rest loop' op x)" for op x by (intro fuel_rules f)
  then have "fst (?rest loop op x s) \<noteq> Inl OutOfFuel \<Longrightarrow> ?rest loop' op x s = ?rest loop op x s" for op x s unfolding fuel_le_def by blast
  then show ?thesis unfolding fuel_le_def step_def by (auto simp: Let_def simp del: not_gr_zero split: option.splits)
qed

lemma run_loop_step:
  "step E (run_loop E n) (fr, v) = (y, fr1, v1) \<Longrightarrow> run_loop E (Suc n) fr v =
    (case y of Inl e \<Rightarrow> (Inl e, v1) | Inr (Halted r) \<Rightarrow> (Inr (r, fr_contract fr1), v1) | Inr Running \<Rightarrow> run_loop E n fr1 v1)"
  by (simp split: sum.splits outcome.splits)

lemma fuel_run_loop_Suc: "fuel_runs (run_loop E n) (run_loop E (Suc n))"
proof (induction n)
  case (Suc n)
  have s: "step E (run_loop E (Suc n)) p = step E (run_loop E n) p" if "fst (step E (run_loop E n) p) \<noteq> Inl OutOfFuel" for p
    using fuel_step [OF Suc] that unfolding fuel_le_def by blast
  have r: "run_loop E (Suc n) fr v = run_loop E n fr v" if "fst (run_loop E n fr v) \<noteq> Inl OutOfFuel" for fr v
    using Suc that unfolding fuel_runs_def fuel_le_def by blast
  have "run_loop E (Suc (Suc n)) fr v = run_loop E (Suc n) fr v" if f: "fst (run_loop E (Suc n) fr v) \<noteq> Inl OutOfFuel" for fr v
  proof -
    obtain y fr1 v1 where y: "step E (run_loop E n) (fr, v) = (y, fr1, v1)" by (metis prod_cases3)
    note 1 = run_loop_step [OF y]
    then have "y \<noteq> Inl OutOfFuel" using f by auto
    then have "step E (run_loop E (Suc n)) (fr, v) = (y, fr1, v1)" using s y by simp
    note 2 = run_loop_step [OF this]
    have "run_loop E (Suc n) fr1 v1 = run_loop E n fr1 v1" if "y = Inr Running" using f r that unfolding 1 by simp
    then show ?thesis unfolding 1 2 by (simp split: sum.splits outcome.splits)
  qed
  then show ?case unfolding fuel_runs_def fuel_le_def by blast
qed (simp add: fuel_runs_def fuel_le_def)

lemma fuel_run_loop: "n \<le> m \<Longrightarrow> fuel_runs (run_loop E n) (run_loop E m)"
proof (induction m rule: nat_induct_at_least)
  case base
  show ?case by (simp add: fuel_runs_def fuel_le_refl)
next
  case (Suc m)
  then show ?case using fuel_run_loop_Suc [of E m] fuel_le_trans unfolding fuel_runs_def by blast
qed

text \<open>An operation that returns with some fuel returns the same with more.\<close>

lemma enough_fuel:
  assumes "\<And>loop loop'. fuel_runs loop loop' \<Longrightarrow> fuel_le (m loop) (m loop')" "m (run_loop E (Suc g)) v = (Inr x, v')" "g < n"
  shows "m (run_loop E n) v = (Inr x, v')"
  using assms(1) [OF fuel_run_loop [of "Suc g" n E]] assms(2,3) by (simp add: fuel_le_def)

end
