(* ===== verification/Evm_Safe.thy ===== *)
theory Evm_Safe
  imports Evm_Fuel
begin

text \<open>
  What holds of every run of the virtual machine (\<open>core/vm\<close>). The rules of \<open>machine\<close> are used twice: for ordinary
  execution with the relation that the supply does not grow, and for write-protected execution with the relation that
  nothing observable changes. The properties are about \<open>EVM.Call\<close>, \<open>CallCode\<close>, \<open>StaticCall\<close> and \<open>Create\<close> over the interpreter
  loop, for any code and any nesting of calls.
\<close>


section \<open>Machines in order\<close>

text \<open>A machine between two steps. Its state database represents a world whose balances fit 256 bits together, and the
  environment gives values of their documented sizes.\<close>

definition machine_ok :: "environment \<Rightarrow> EVM \<Rightarrow> world \<Rightarrow> bool" where
  "machine_ok E v A \<longleftrightarrow> represents (keccak E) UNIV (disk E) (evm_state v) A \<and> wok (keccak E) A \<and> dests_fit (keccak E) (jumpdests v)
     \<and> small_code (returnData v) \<and> env_ok E False"

lemma machine_ins: "machine_ok E v A \<longleftrightarrow> (\<exists>b. ins E False b v A)"
proof
  assume m: "machine_ok E v A"
  then obtain f J where "inside (keccak E) UNIV (disk E) f J (validRevisions (evm_state v)) A (evm_state v) A"
    unfolding machine_ok_def represents_inside by blast
  then have "ins E False (f, J, validRevisions (evm_state v), A) v A" using m by (simp add: ins_def machine_ok_def)
  then show "\<exists>b. ins E False b v A" by blast
next
  assume "\<exists>b. ins E False b v A"
  then show "machine_ok E v A" by (auto simp: ins_def machine_ok_def intro: represents_of_inside)
qed

text \<open>The relations between the worlds before and after a run.\<close>

definition gains_nothing :: "world \<Rightarrow> world \<Rightarrow> bool" where
  "gains_nothing A A' \<longleftrightarrow> (\<forall>T. supply_le T A \<longrightarrow> supply_le T A') \<and> w_refund A \<le> w_refund A'"

definition same_world :: "world \<Rightarrow> world \<Rightarrow> bool" where
  "same_world A A' \<longleftrightarrow> w_balance A' = w_balance A \<and> w_nonce A' = w_nonce A \<and> w_code A' = w_code A \<and> w_state A' = w_state A
     \<and> w_suicided A' = w_suicided A \<and> w_logs A' = w_logs A \<and> w_refund A' = w_refund A"

lemma w_balance_accts: "accts A' = accts A \<Longrightarrow> supply_le T A' = supply_le T A"
  by (simp add: supply_le_def w_balance_def)

lemma accts_other: "accts (w_AddPreimage h b A) = accts A" "accts (w_AddLog h l A) = accts A" "accts (A\<lparr>w_refund := n\<rparr>) = accts A"
  by (simp_all add: w_AddPreimage_def w_AddLog_def)

lemma w_refund_world [simp]:
  "w_refund (w_mod H addr g A) = w_refund A" "w_refund (w_Create H addr A) = w_refund A" "w_refund (w_Transfer H src dst n A) = w_refund A"
  "w_refund (w_Destroy H self dst A) = w_refund A" "w_refund (w_AddPreimage h b A) = w_refund A" "w_refund (w_AddLog h l A) = w_refund A"
  by (simp_all add: w_mod_def w_Create_def w_Transfer_def w_Destroy_def w_Suicide_def w_AddPreimage_def w_AddLog_def put_acct_def split: option.splits)

interpretation conserve: machine E False gains_nothing for E
  by unfold_locales (auto simp: gains_nothing_def supply_mod supply_Create supply_Transfer supply_Destroy w_balance_accts [OF accts_other(1)]
    w_balance_accts [OF accts_other(2)] w_balance_accts [OF accts_other(3)])

lemma same_world_put:
  assumes "w_acct H addr A = a" 
  shows "same_world A (put_acct addr a A)"
  using assms by (auto simp: same_world_def fun_eq_iff w_balance_def w_nonce_def w_code_def w_state_def w_suicided_def put_acct_def w_acct_def
    fresh_account_def split: option.splits)

lemma same_world_trans: "same_world A B \<Longrightarrow> same_world B C \<Longrightarrow> same_world A C"
  by (simp add: same_world_def)

lemma same_world_zero: "same_world A (w_AddBalance H addr 0 A)"
  unfolding w_mod_def by (rule same_world_put [of H]) simp

interpretation static: machine E True same_world for E
proof unfold_locales
  show "same_world A A" for A by (simp add: same_world_def)
  show "same_world A C" if "same_world A B" "same_world B C" for A B C using that by (rule same_world_trans)
  show "same_world A (w_AddPreimage h b A)" for A h b
    by (simp add: same_world_def w_AddPreimage_def fun_eq_iff w_balance_def w_nonce_def w_code_def w_state_def w_suicided_def)
  show "same_world A (w_Create (keccak E) addr A)" if "True \<Longrightarrow> accts A addr = None" for A addr
    unfolding w_Create_def by (rule same_world_put [of "keccak E"]) (use that in \<open>simp add: w_acct_def\<close>)
  show "same_world A (w_Transfer (keccak E) src dst n A)" if "True \<Longrightarrow> n = 0" for A n src dst
    using that same_world_zero same_world_trans unfolding w_Transfer_def by fastforce
qed simp_all

section \<open>Results of the calls\<close>

lemma run_post:
  assumes "tri E False gains_nothing P m Q" "machine_ok E v A" "P A"
  shows "\<exists>x v' A'. m v = (Inr x, v') \<and> depth v' = depth v \<and> readOnly v' = readOnly v \<and> abort v' = abort v
    \<and> machine_ok E v' A' \<and> gains_nothing A A' \<and> Q x A'"
  using assms conserve.triE [of E P m Q _ v A] unfolding machine_ins rest_def by (smt (verit) prod.inject)

lemmas run_call = conserve.tri_evm_Call [OF conserve.run_loop_ok]
lemmas run_create = conserve.tri_evm_Create [OF conserve.run_loop_ok]
lemmas run_static = static.tri_evm_StaticCall [OF static.run_loop_ok]



text \<open>The machine a transaction starts with.\<close>

definition NewEVM :: "StateDB \<Rightarrow> EVM" where
  "NewEVM statedb = \<lparr>evm_state = statedb, depth = 0, readOnly = False, returnData = [], jumpdests = [], abort = False\<rparr>"

text \<open>Arguments of the types the Go code gives them.\<close>

definition call_args :: "ContractRef \<Rightarrow> address \<Rightarrow> bytes \<Rightarrow> int \<Rightarrow> bool" where
  "call_args caller addr inp amount \<longleftrightarrow> length (ref_address caller) = 20 \<and> length addr = 20 \<and> small_code inp \<and> in_word amount"

lemma call_result:
  assumes "machine_ok E v A" "call_args caller addr inp amount" "unat gas < n" "W A"
  shows "\<exists>r v' A'. evm_Call E (run_loop E n) caller addr inp gas amount v = (Inr r, v') \<and> depth v' = depth v \<and> readOnly v' = readOnly v
    \<and> abort v' = abort v \<and> machine_ok E v' A' \<and> gains_nothing A A' \<and> call_post gas W r A'"
  by (rule run_post [where P = W, OF run_call]) (use assms in \<open>auto simp: call_args_def\<close>)

lemma call_code_result:
  assumes "machine_ok E v A" "call_args caller addr inp amount" "unat gas < n" "W A"
  shows "\<exists>r v' A'. evm_CallCode E (run_loop E n) caller addr inp gas amount v = (Inr r, v') \<and> depth v' = depth v \<and> readOnly v' = readOnly v
    \<and> abort v' = abort v \<and> machine_ok E v' A' \<and> gains_nothing A A' \<and> call_post gas W r A'"
  by (rule run_post [where P = W, OF conserve.tri_evm_CallCode [OF conserve.run_loop_ok]]) (use assms in \<open>auto simp: call_args_def\<close>)

lemma static_result:
  assumes "machine_ok E v A" "call_args caller addr inp 0" "unat gas < n" "W A"
  shows "\<exists>r v' A'. evm_StaticCall E (run_loop E n) caller addr inp gas v = (Inr r, v') \<and> depth v' = depth v \<and> readOnly v' = readOnly v
    \<and> abort v' = abort v \<and> machine_ok E v' A' \<and> gains_nothing A A' \<and> call_post gas W r A'"
  by (rule run_post [where P = W, OF conserve.tri_evm_StaticCall [OF conserve.run_loop_ok]]) (use assms in \<open>auto simp: call_args_def\<close>)

lemma create_result:
  assumes "machine_ok E v A" "call_args caller addr code amount" "unat gas < n"
  shows "\<exists>r v' A'. evm_Create E (run_loop E n) caller code gas amount v = (Inr r, v') \<and> depth v' = depth v \<and> readOnly v' = readOnly v
    \<and> abort v' = abort v \<and> machine_ok E v' A' \<and> gains_nothing A A' \<and> create_post gas r"
  by (rule run_post [where P = "\<lambda>_. True", OF run_create]) (use assms in \<open>auto simp: call_args_def\<close>)

section \<open>A machine over an empty state\<close>

text \<open>A hash that keeps the length of its argument, and an environment with it.\<close>

definition size_hash :: "bytes \<Rightarrow> bytes" where
  "size_hash b = BytesToHash (nat_be (length b))"

definition example_env :: environment where
  "example_env =
     \<lparr>context_of = \<lparr>Origin = zero_address, GasPrice = 1, Coinbase = zero_address, ctx_GasLimit = 4712388, ctx_BlockNumber = 1, ctx_Time = 1,
        ctx_Difficulty = 1, GetHash = (\<lambda>_. zero_hash)\<rparr>,
      chain_config = \<lparr>ChainId = Some 8888, HomesteadBlock = Some 0, EIP150Block = Some 0, EIP155Block = Some 0, EIP158Block = Some 0, ByzantiumBlock = Some 0\<rparr>,
      vm_config = \<lparr>NoRecursion = False, DisableGasMetering = False, EnablePreimageRecording = False\<rparr>,
      keccak = size_hash, disk = Map.empty, code_sizes = (\<lambda>_. None), sha256_sum = (\<lambda>_. zero_hash), ripemd160_sum = (\<lambda>_. zero_address),
      recover_pubkey = (\<lambda>_ _. None)\<rparr>"

lemma size_hash_lengths: "hash_lengths size_hash"
proof -
  have "be_nat (size_hash x) = length x" if "small_code x" for x
  proof -
    have "length x < 256 ^ 32" using that by (simp add: small_code_def)
    then have "length (nat_be (length x)) \<le> 32" by (rule length_nat_be_le)
    moreover have "be_nat (replicate k 0 @ b) = be_nat b" for k b by (induction k) (simp_all add: be_nat_Cons)
    ultimately show ?thesis by (simp add: size_hash_def BytesToHash_def SetBytes_def zero_hash_def Let_def)
  qed
  then show ?thesis unfolding hash_lengths_def by metis
qed

lemma example_env_ok: "env_ok example_env False"
  using size_hash_lengths by (simp add: env_ok_def example_env_def in_word_def zero_hash_def zero_address_def) (simp add: size_hash_def)

lemma example_machine:
  "\<exists>s. state_New size_hash Map.empty zero_hash [] = (Inr s, []) \<and> machine_ok example_env (NewEVM s) empty_world"
proof -
  have "hash32 size_hash" by (simp add: hash32_def size_hash_def)
  then obtain s where s: "state_New size_hash Map.empty zero_hash [] = (Inr s, [])" "represents size_hash UNIV Map.empty s empty_world"
    using state_New_empty by blast
  have "wok size_hash empty_world" by (simp add: wok_def supply_le_def w_balance_def empty_world_def max_supply_def)
  then have "machine_ok example_env (NewEVM s) empty_world"
    using s(2) example_env_ok by (simp add: machine_ok_def NewEVM_def dests_fit_def small_code_def) (simp add: example_env_def)
  then show ?thesis using s(1) by blast
qed

lemma example_args: "call_args (AccountRef zero_address) zero_address [0x5b, 0x60, 0, 0x56] 0" "call_args (AccountRef zero_address) zero_address [] 5"
  by (simp_all add: call_args_def zero_address_def small_code_def in_word_def)

section \<open>Properties\<close>

text \<open>C3. Every call and every creation ends. Whatever code runs, in whatever nesting of calls, \<open>EVM.Call\<close> and \<open>EVM.Create\<close>
  return a result, and no index is out of range on the way: the loop of \<open>Interpreter.Run\<close> pays for every round, so a
  fuel above the gas is enough, and the result does not depend on how much more there is.\<close>

theorem calls_terminate:
  assumes "machine_ok E v A" "call_args caller addr inp amount"
  shows "(\<exists>r v'. \<forall>n > unat gas. evm_Call E (run_loop E n) caller addr inp gas amount v = (Inr r, v'))
    \<and> (\<exists>r v'. \<forall>n > unat gas. evm_Create E (run_loop E n) caller inp gas amount v = (Inr r, v'))"
proof
  obtain r v' where r: "evm_Call E (run_loop E (Suc (unat gas))) caller addr inp gas amount v = (Inr r, v')"
    using call_result [OF assms lessI TrueI, of gas] by blast
  have "evm_Call E (run_loop E n) caller addr inp gas amount v = (Inr r, v')" if "unat gas < n" for n
    by (rule enough_fuel [where m = "\<lambda>loop. evm_Call E loop caller addr inp gas amount", OF fuel_evm_Call r that])
  then show "\<exists>r v'. \<forall>n > unat gas. evm_Call E (run_loop E n) caller addr inp gas amount v = (Inr r, v')" by blast
  obtain r v' where r: "evm_Create E (run_loop E (Suc (unat gas))) caller inp gas amount v = (Inr r, v')"
    using create_result [OF assms lessI] by blast
  have "evm_Create E (run_loop E n) caller inp gas amount v = (Inr r, v')" if "unat gas < n" for n
    by (rule enough_fuel [where m = "\<lambda>loop. evm_Create E loop caller inp gas amount", OF fuel_evm_Create r that])
  then show "\<exists>r v'. \<forall>n > unat gas. evm_Create E (run_loop E n) caller inp gas amount v = (Inr r, v')" by blast
qed

theorem calls_terminate_witness:
  "\<exists>s r v'. state_New size_hash Map.empty zero_hash [] = (Inr s, [])
     \<and> (\<forall>n > 90000. evm_Create example_env (run_loop example_env n) (AccountRef zero_address) [0x5b, 0x60, 0, 0x56] 90000 0 (NewEVM s) = (Inr r, v'))"
proof -
  obtain s where s: "state_New size_hash Map.empty zero_hash [] = (Inr s, [])" "machine_ok example_env (NewEVM s) empty_world"
    using example_machine by blast
  have "unat (90000 :: u64) = 90000" by simp
  then show ?thesis using s(1) calls_terminate [OF s(2) example_args(1), of 90000, THEN conjunct2] by auto
qed

text \<open>C5. Types of the machine are preserved and a step never goes wrong. Take a frame whose stack holds numbers of 256
  bits, whose memory is below the size the gas schedule allows, and whose contract has addresses of 20 bytes and a code that
  belongs to its hash. One round of the loop of \<open>Interpreter.Run\<close>, with every call made in it, ends without a panic. When
  the frame goes on it has these types again and less gas.\<close>

theorem step_type_safe:
  assumes "machine_ok E v A" "good_frame (keccak E) fr" "unat (Gas (fr_contract fr)) \<le> n"
  shows "\<exists>y fr' v' A'. step E (run_loop E n) (fr, v) = (Inr y, fr', v') \<and> machine_ok E v' A' \<and> Gas (fr_contract fr') \<le> Gas (fr_contract fr)
    \<and> (y = Running \<longrightarrow> good_frame (keccak E) fr' \<and> Gas (fr_contract fr') < Gas (fr_contract fr))"
proof -
  let ?S = "at_stack (keccak E) (Gas (fr_contract fr)) (length (mem_store (fr_mem fr))) (fr_stack fr)"
  have s: "?S fr" using assms(2) by (simp add: at_stack_def)
  obtain b where b: "ins E False b v A" using assms(1) by (auto simp: machine_ins)
  obtain y fr' v' A' where y: "step E (run_loop E n) (fr, v) = (Inr y, fr', v')" "ins E False b v' A'" "step_post (keccak E) (Gas (fr_contract fr)) y fr'"
    by (rule conserve.vtE [OF conserve.vt_step_ok [OF conserve.run_loop_ok assms(3)] b s])
  then have "machine_ok E v' A'" unfolding machine_ins by blast
  then show ?thesis using y(1,3) by (cases y) (auto simp: step_post_def intro: less_imp_le)
qed

theorem step_type_safe_witness:
  "\<exists>s fr' v'. state_New size_hash Map.empty zero_hash [] = (Inr s, [])
     \<and> step example_env (run_loop example_env 100)
         (new_frame ((NewContract (AccountRef zero_address) zero_address 0 100)\<lparr>Code := [0x60, 7], Contract_CodeHash := size_hash [0x60, 7]\<rparr>), NewEVM s)
       = (Inr Running, fr', v') \<and> fr_stack fr' = [7] \<and> good_frame size_hash fr' \<and> Gas (fr_contract fr') < 100"
proof -
  let ?c = "(NewContract (AccountRef zero_address) zero_address 0 100)\<lparr>Code := [0x60, 7], Contract_CodeHash := size_hash [0x60, 7]\<rparr>"
  obtain s where s: "state_New size_hash Map.empty zero_hash [] = (Inr s, [])" "machine_ok example_env (NewEVM s) empty_world"
    using example_machine by blast
  have k: "keccak example_env = size_hash" by (simp add: example_env_def)
  have "good_frame (keccak example_env) (new_frame ?c)"
    unfolding k by (simp add: good_frame_def new_frame_def NewMemory_def contract_ok_def NewContract_def in_word_def zero_address_def small_code_def)
  note t = step_type_safe [OF s(2) this, of 100]
  have op: "GetOp ?c 0 = PUSH 1" by (simp add: GetOp_def GetByte_def opcode_of_def opcodes_def NewContract_def)
  have "step example_env (run_loop example_env 100) (new_frame ?c, NewEVM s) =
      (Inr Running, (new_frame (?c\<lparr>Gas := 97\<rparr>))\<lparr>fr_pc := 2, fr_stack := [7]\<rparr>, NewEVM s)"
    using op by (simp add: step_def Let_def new_frame_def NewEVM_def instruction_defs validateStack_def stack_require_def enforceRestrictions_def
      needed_memory_def scatch_def charge_def gasCost_def UseGas_def mod_frame_def sbind_def sret_def execute_def makePush_def get_frame_def lift_res_def
      go_slice_def push_def RightPadBytes_def big_SetBytes_def be_nat_def after_execute_def NewContract_def example_env_def)
  then show ?thesis using s(1) t k by (auto simp: new_frame_def NewContract_def)
qed

text \<open>C9. Gas cannot be made. A call and a creation hand back at most the gas they were given, whatever was called inside,
  and leave the depth of the call stack, the write protection and the cancellation flag as they found them.\<close>

theorem gas_never_grows:
  assumes "machine_ok E v A" "call_args caller addr inp amount" "unat gas < n"
  shows "(\<exists>ret left e v'. evm_Call E (run_loop E n) caller addr inp gas amount v = (Inr (ret, left, e), v') \<and> left \<le> gas
      \<and> depth v' = depth v \<and> readOnly v' = readOnly v \<and> abort v' = abort v)
    \<and> (\<exists>ret contractAddr left e v'. evm_Create E (run_loop E n) caller inp gas amount v = (Inr (ret, contractAddr, left, e), v') \<and> left \<le> gas
      \<and> depth v' = depth v \<and> readOnly v' = readOnly v \<and> abort v' = abort v)"
  using call_result [OF assms TrueI] create_result [OF assms] by (auto simp: call_post_def create_post_def)

theorem gas_never_grows_witness:
  "\<exists>s ret contractAddr left e v'. state_New size_hash Map.empty zero_hash [] = (Inr s, [])
     \<and> evm_Create example_env (run_loop example_env 90001) (AccountRef zero_address) [0x5b, 0x60, 0, 0x56] 90000 0 (NewEVM s)
       = (Inr (ret, contractAddr, left, e), v') \<and> left \<le> 90000 \<and> depth v' = 0"
proof -
  obtain s where s: "state_New size_hash Map.empty zero_hash [] = (Inr s, [])" "machine_ok example_env (NewEVM s) empty_world"
    using example_machine by blast
  have "unat (90000 :: u64) < 90001" by simp
  from gas_never_grows [OF s(2) example_args(1) this, THEN conjunct2] show ?thesis using s(1) by (auto simp: NewEVM_def)
qed

text \<open>C6. A call that fails has no effect. When \<open>EVM.Call\<close>, \<open>CallCode\<close> or \<open>StaticCall\<close> returns an error, for lack of gas or
  balance, by an invalid instruction or jump, by reverting or by depth, the state database represents the world it
  represented before, whatever the callee and the contracts it called had done.\<close>

theorem failed_call_undone:
  assumes "machine_ok E v A" "call_args caller addr inp amount" "unat gas < n"
  shows "(evm_Call E (run_loop E n) caller addr inp gas amount v = (Inr (ret, left, Some e), v') \<longrightarrow> machine_ok E v' A)
    \<and> (evm_CallCode E (run_loop E n) caller addr inp gas amount v = (Inr (ret, left, Some e), v') \<longrightarrow> machine_ok E v' A)
    \<and> (evm_StaticCall E (run_loop E n) caller addr inp gas v = (Inr (ret, left, Some e), v') \<longrightarrow> machine_ok E v' A)"
proof -
  have "call_args caller addr inp 0" using assms(2) by (simp add: call_args_def in_word_def)
  then show ?thesis
    using call_result [OF assms, of "(=) A"] call_code_result [OF assms, of "(=) A"] static_result [OF assms(1) _ assms(3), of caller addr inp "(=) A"]
    by (auto simp: call_post_def)
qed

theorem failed_call_undone_witness:
  "\<exists>s v'. state_New size_hash Map.empty zero_hash [] = (Inr s, [])
     \<and> evm_Call example_env (run_loop example_env 101) (AccountRef zero_address) zero_address [] 100 5 (NewEVM s)
       = (Inr (None, 100, Some (ChainError ErrInsufficientBalance)), v') \<and> machine_ok example_env v' empty_world"
proof -
  obtain s where s: "state_New size_hash Map.empty zero_hash [] = (Inr s, [])" "machine_ok example_env (NewEVM s) empty_world"
    using example_machine by blast
  obtain can v' where "on_db (CanTransfer example_env zero_address 5) (NewEVM s) = (Inr can, v')" "can \<longleftrightarrow> 5 \<le> w_balance empty_world zero_address"
    using run_post [OF conserve.tri_CanTransfer [of example_env "\<lambda>A. A = empty_world"] s(2) refl, of zero_address 5] by blast
  then have "evm_Call example_env (run_loop example_env 101) (AccountRef zero_address) zero_address [] 100 5 (NewEVM s)
      = (Inr (None, 100, Some (ChainError ErrInsufficientBalance)), v')"
    by (simp add: evm_Call_def NewEVM_def sret_def w_balance_def empty_world_def del: run_loop.simps)
  moreover from failed_call_undone [OF s(2) example_args(2), of 100 101, THEN conjunct1] this have "machine_ok example_env v' empty_world" by simp
  ultimately show ?thesis using s(1) by blast
qed

text \<open>C8. Execution creates no money. If no set of accounts owns more than \<open>T\<close> before a call or a creation, none does after it:
  transfers move balances, self-destruction moves or burns them, and nothing else changes a balance. So every balance
  stays a number of 256 bits.\<close>

theorem supply_never_grows:
  assumes "machine_ok E v A" "call_args caller addr inp amount" "unat gas < n"
  shows "(\<exists>r v' A'. evm_Call E (run_loop E n) caller addr inp gas amount v = (Inr r, v') \<and> machine_ok E v' A'
      \<and> (\<forall>T. supply_le T A \<longrightarrow> supply_le T A') \<and> (\<forall>a. 0 \<le> w_balance A' a \<and> w_balance A' a < 2 ^ 256))
    \<and> (\<exists>r v' A'. evm_Create E (run_loop E n) caller inp gas amount v = (Inr r, v') \<and> machine_ok E v' A'
      \<and> (\<forall>T. supply_le T A \<longrightarrow> supply_le T A') \<and> (\<forall>a. 0 \<le> w_balance A' a \<and> w_balance A' a < 2 ^ 256))"
proof -
  have w: "\<forall>a. 0 \<le> w_balance A' a \<and> w_balance A' a < 2 ^ 256" if "machine_ok E v' A'" for v' A'
    using that wok_word unfolding machine_ok_def in_word_def by blast
  then show ?thesis
    using call_result [OF assms TrueI] create_result [OF assms] unfolding gains_nothing_def by meson
qed

theorem supply_never_grows_witness:
  "\<exists>s r v' A'. state_New size_hash Map.empty zero_hash [] = (Inr s, [])
     \<and> evm_Create example_env (run_loop example_env 90001) (AccountRef zero_address) [0x5b, 0x60, 0, 0x56] 90000 0 (NewEVM s) = (Inr r, v')
     \<and> machine_ok example_env v' A' \<and> (\<forall>a. w_balance A' a = 0)"
proof -
  obtain s where s: "state_New size_hash Map.empty zero_hash [] = (Inr s, [])" "machine_ok example_env (NewEVM s) empty_world"
    using example_machine by blast
  have "unat (90000 :: u64) < 90001" by simp
  from supply_never_grows [OF s(2) example_args(1) this, THEN conjunct2]
  obtain r v' A' where r: "evm_Create example_env (run_loop example_env 90001) (AccountRef zero_address) [0x5b, 0x60, 0, 0x56] 90000 0 (NewEVM s) = (Inr r, v')"
    "machine_ok example_env v' A'" "supply_le 0 empty_world \<longrightarrow> supply_le 0 A'" "\<forall>a. 0 \<le> w_balance A' a" by blast
  have "supply_le 0 empty_world" by (simp add: supply_le_def w_balance_def empty_world_def)
  then have "w_balance A' a = 0" for a using supply_balance [of 0 A' a] r(3,4) by (simp add: order_antisym)
  then show ?thesis using s(1) r(1,2) by blast
qed

lemma static_call_inner:
  "evm_StaticCall E loop caller addr inp gas v =
     (case evm_StaticCall E loop caller addr inp gas (v\<lparr>readOnly := True\<rparr>) of (r, v') \<Rightarrow> (r, if readOnly v then v' else v'\<lparr>readOnly := False\<rparr>))"
  by (cases "readOnly v") (auto simp: evm_StaticCall_def split: prod.splits)

text \<open>C7. A static call is read-only. Under the Byzantium rules \<open>EVM.StaticCall\<close> changes no balance, nonce, code, storage
  slot, self-destruction mark, log or refund, whatever the callee and the contracts it calls try to do.\<close>

theorem static_call_preserves:
  assumes "machine_ok E v A" "call_args caller addr inp 0" "unat gas < n" "IsByzantium (chain_config E) (ctx_BlockNumber (context_of E))"
  shows "\<exists>r v' A'. evm_StaticCall E (run_loop E n) caller addr inp gas v = (Inr r, v') \<and> machine_ok E v' A' \<and> same_world A A'"
proof -
  let ?v = "v\<lparr>readOnly := True\<rparr>"
  obtain b where "ins E False b v A" using assms(1) unfolding machine_ins by blast
  then have b: "ins E True b ?v A" using assms(4) by (cases b) (simp add: ins_def env_ok_def)
  obtain r v' A' where r: "evm_StaticCall E (run_loop E n) caller addr inp gas ?v = (Inr r, v')" "ins E True b v' A'" "same_world A A'"
    using static.triE [OF run_static [OF assms(3), of caller addr inp E "\<lambda>_. True"] b TrueI] assms(2) unfolding call_args_def by blast
  let ?v' = "if readOnly v then v' else v'\<lparr>readOnly := False\<rparr>"
  have "ins E False b ?v' A'" using r(2) by (cases b) (simp add: ins_def env_ok_def)
  moreover have "evm_StaticCall E (run_loop E n) caller addr inp gas v = (Inr r, ?v')" using static_call_inner [of E "run_loop E n" caller addr inp gas v] r(1) by simp
  ultimately show ?thesis using r(3) unfolding machine_ins by blast
qed

theorem static_call_preserves_witness:
  "\<exists>s r v' A'. state_New size_hash Map.empty zero_hash [] = (Inr s, [])
     \<and> evm_StaticCall example_env (run_loop example_env 101) (AccountRef zero_address) zero_address [] 100 (NewEVM s) = (Inr r, v')
     \<and> machine_ok example_env v' A' \<and> same_world empty_world A'"
proof -
  obtain s where s: "state_New size_hash Map.empty zero_hash [] = (Inr s, [])" "machine_ok example_env (NewEVM s) empty_world"
    using example_machine by blast
  have "call_args (AccountRef zero_address) zero_address [] 0" "unat (100 :: u64) < 101"
    "IsByzantium (chain_config example_env) (ctx_BlockNumber (context_of example_env))"
    using example_args(2) by (simp_all add: call_args_def in_word_def IsByzantium_def isForked_def example_env_def)
  from static_call_preserves [OF s(2) this] show ?thesis using s(1) by blast
qed

end
