(* ===== verification/Protocol.thy ===== *)
theory Protocol
  imports Strconv
begin

text \<open>
  Constants and data types of the chain's protocol, \<open>src/chain/boker/protocol/protocol.go\<close>: sizes
  and intervals, transaction types (bytes in the code), the prefixes of the context tries and the
  stock account record. The error values are in theory Prelude.
\<close>

named_theorems protocol_simps

section \<open>Sizes and intervals\<close>

definition ExtraVanity :: nat where [protocol_simps]: "ExtraVanity = 32"
definition ExtraSeal :: nat where [protocol_simps]: "ExtraSeal = 65"
definition MaxValidatorSize :: nat where [protocol_simps]: "MaxValidatorSize = 1"
definition ConsensusSize :: nat where [protocol_simps]: "ConsensusSize = 1"
definition EpochInterval :: int where [protocol_simps]: "EpochInterval = 86400"
definition BlockInterval :: int where [protocol_simps]: "BlockInterval = 5"
definition TinaUnit :: int where [protocol_simps]: "TinaUnit = 10 ^ 12"
definition SetValidatorVotes_const :: int where [protocol_simps]: "SetValidatorVotes_const = 10000"
definition MaxGasPrice :: int where [protocol_simps]: "MaxGasPrice = 0xffffffffffffffff"
definition MaxBlockSize :: int where [protocol_simps]: "MaxBlockSize = 5 * 1024 * 1024"

section \<open>Transaction types\<close>

type_synonym TxMajor = byte
type_synonym TxMinor = byte

definition Normal :: TxMajor where [protocol_simps]: "Normal = 0"
definition SystemBase :: TxMajor where [protocol_simps]: "SystemBase = 1"
definition UserBase :: TxMajor where [protocol_simps]: "UserBase = 2"
definition Extra :: TxMajor where [protocol_simps]: "Extra = 3"
definition Stock :: TxMajor where [protocol_simps]: "Stock = 4"

definition SetValidator :: TxMinor where [protocol_simps]: "SetValidator = 1"
definition SetSystemContract_minor :: TxMinor where [protocol_simps]: "SetSystemContract_minor = 2"
definition RegisterCandidate :: TxMinor where [protocol_simps]: "RegisterCandidate = 3"
definition VoteUser :: TxMinor where [protocol_simps]: "VoteUser = 4"
definition VoteCancel :: TxMinor where [protocol_simps]: "VoteCancel = 5"
definition VoteEpoch :: TxMinor where [protocol_simps]: "VoteEpoch = 6"

definition StockManager :: TxMinor where [protocol_simps]: "StockManager = 0"
definition StockSet :: TxMinor where [protocol_simps]: "StockSet = 1"
definition StockTransfer :: TxMinor where [protocol_simps]: "StockTransfer = 2"
definition StockClean :: TxMinor where [protocol_simps]: "StockClean = 3"
definition StockFrozen :: TxMinor where [protocol_simps]: "StockFrozen = 4"
definition StockUnFrozen :: TxMinor where [protocol_simps]: "StockUnFrozen = 5"
definition StockAssignGas :: TxMinor where [protocol_simps]: "StockAssignGas = 6"

section \<open>Contracts and stock\<close>

type_synonym BaseContractType = byte

definition System :: BaseContractType where [protocol_simps]: "System = 0"
definition User :: BaseContractType where [protocol_simps]: "User = 1"

type_synonym StockState = byte

definition Run :: StockState where [protocol_simps]: "Run = 0"
definition Frozen :: StockState where [protocol_simps]: "Frozen = 1"

record StockAccount =
  Account :: address
  Number :: u64
  State :: StockState

section \<open>Prefixes of the context tries\<close>

definition EpochPrefix :: bytes where "EpochPrefix = str_bytes ''epoch''"
definition ValidatorPrefix :: bytes where "ValidatorPrefix = str_bytes ''validator''"
definition VotePrefix :: bytes where "VotePrefix = str_bytes ''vote''"
definition ValidatorsPrefix :: bytes where "ValidatorsPrefix = str_bytes ''validators''"
definition SingleContractPrefix :: bytes where "SingleContractPrefix = str_bytes ''single''"
definition ContractsPrefix :: bytes where "ContractsPrefix = str_bytes ''contracts''"
definition SingleStockPrefix :: bytes where "SingleStockPrefix = str_bytes ''stock''"
definition StocksPrefix :: bytes where "StocksPrefix = str_bytes ''stocks''"
definition OwnerPrefix :: bytes where "OwnerPrefix = str_bytes ''owner''"
definition GasPoolPrefix :: bytes where "GasPoolPrefix = str_bytes ''gasPool''"
definition ConfirmedBlockHead :: bytes where "ConfirmedBlockHead = str_bytes ''confirmed-block-head''"

lemmas prefix_defs = EpochPrefix_def ValidatorPrefix_def VotePrefix_def ValidatorsPrefix_def
  SingleContractPrefix_def ContractsPrefix_def SingleStockPrefix_def StocksPrefix_def OwnerPrefix_def
  GasPoolPrefix_def ConfirmedBlockHead_def

lemma length_prefixes [simp]:
  "length EpochPrefix = 5" "length ValidatorPrefix = 9" "length VotePrefix = 4" "length ValidatorsPrefix = 10"
  "length SingleContractPrefix = 6" "length ContractsPrefix = 9" "length SingleStockPrefix = 5"
  "length StocksPrefix = 6" "length OwnerPrefix = 5" "length GasPoolPrefix = 7"
  by (simp_all add: prefix_defs)

end
