(* ===== verification/Dpos_Context.thy ===== *)
theory Dpos_Context
  imports Trie_View Rlp_Stream Protocol
begin

text \<open>
  The consensus context, \<open>src/chain/core/types/dpos_context.go\<close>: three prefixed tries with the current
  validators (\<open>epochTrie\<close>), their votes (\<open>validatorTrie\<close>) and the number of blocks each has minted
  (\<open>voteTrie\<close>). Each operation of the code is one definition on the context; the database that
  the tries read is the argument \<open>d\<close>, the clock is the argument \<open>now\<close> and Keccak-256 is \<open>H\<close>.

  Shown: the validator list that is stored is the one that is read; the producer of a slot is the one
  the round-robin schedule says, with every error branch; every validator gets a slot in every epoch;
  replacing the validators leaves exactly the new one; a committed context can be reopened.
\<close>

section \<open>The context\<close>

record DposContext =
  epochTrie :: trie
  validatorTrie :: trie
  voteTrie :: trie
  dc_hasdb :: bool

record DposContextProto =
  EpochHash :: hash
  ValidatorHash :: hash
  VoteHash :: hash

definition NewEpochTrie :: "hash \<Rightarrow> bool \<Rightarrow> database \<Rightarrow> trie res" where
  "NewEpochTrie root hasdb d = NewTrieWithPrefix root EpochPrefix hasdb d"

definition NewValidatorTrie :: "hash \<Rightarrow> bool \<Rightarrow> database \<Rightarrow> trie res" where
  "NewValidatorTrie root hasdb d = NewTrieWithPrefix root ValidatorPrefix hasdb d"

definition NewVoteTrie :: "hash \<Rightarrow> bool \<Rightarrow> database \<Rightarrow> trie res" where
  "NewVoteTrie root hasdb d = NewTrieWithPrefix root VotePrefix hasdb d"

definition NewDposContext :: "bool \<Rightarrow> database \<Rightarrow> DposContext res" where
  "NewDposContext hasdb d =
     rbind (NewEpochTrie zero_hash hasdb d) (\<lambda>e.
     rbind (NewValidatorTrie zero_hash hasdb d) (\<lambda>v.
     rbind (NewVoteTrie zero_hash hasdb d) (\<lambda>t.
       Inr \<lparr>epochTrie = e, validatorTrie = v, voteTrie = t, dc_hasdb = hasdb\<rparr>)))"

definition NewDposContextFromProto :: "bool \<Rightarrow> database \<Rightarrow> DposContextProto \<Rightarrow> DposContext res" where
  "NewDposContextFromProto hasdb d p =
     rbind (NewEpochTrie (EpochHash p) hasdb d) (\<lambda>e.
     rbind (NewValidatorTrie (ValidatorHash p) hasdb d) (\<lambda>v.
     rbind (NewVoteTrie (VoteHash p) hasdb d) (\<lambda>t.
       Inr \<lparr>epochTrie = e, validatorTrie = v, voteTrie = t, dc_hasdb = hasdb\<rparr>)))"

text \<open>\<open>Copy\<close> copies the three trie objects and leaves the database field of the copy nil.\<close>

definition dpos_Copy :: "DposContext \<Rightarrow> DposContext" where
  "dpos_Copy dc = dc\<lparr>dc_hasdb := False\<rparr>"

definition dpos_Snapshot :: "DposContext \<Rightarrow> DposContext" where
  "dpos_Snapshot dc = dpos_Copy dc"

definition dpos_RevertToSnapShot :: "DposContext \<Rightarrow> DposContext \<Rightarrow> DposContext" where
  "dpos_RevertToSnapShot snapshot dc =
     dc\<lparr>epochTrie := epochTrie snapshot, validatorTrie := validatorTrie snapshot,
        voteTrie := voteTrie snapshot\<rparr>"

text \<open>A failed open assigns nil to the field, which is not representable; the error ends the call and
  the context is not used again. Fields opened before stay assigned.\<close>

definition dpos_FromProto :: "database \<Rightarrow> DposContextProto \<Rightarrow> (unit, DposContext) op" where
  "dpos_FromProto d p dc =
     (case NewEpochTrie (EpochHash p) (dc_hasdb dc) d of
        Inl e \<Rightarrow> (Inl e, dc)
      | Inr te \<Rightarrow>
          let dc = dc\<lparr>epochTrie := te\<rparr>
          in case NewValidatorTrie (ValidatorHash p) (dc_hasdb dc) d of
               Inl e \<Rightarrow> (Inl e, dc)
             | Inr tv \<Rightarrow>
                 let dc = dc\<lparr>validatorTrie := tv\<rparr>
                 in case NewVoteTrie (VoteHash p) (dc_hasdb dc) d of
                      Inl e \<Rightarrow> (Inl e, dc)
                    | Inr tm \<Rightarrow> (Inr (), dc\<lparr>voteTrie := tm\<rparr>))"

definition on_epochTrie :: "('a, trie) op \<Rightarrow> ('a, DposContext) op" where
  "on_epochTrie f dc = (let (r, t) = f (epochTrie dc) in (r, dc\<lparr>epochTrie := t\<rparr>))"

definition on_validatorTrie :: "('a, trie) op \<Rightarrow> ('a, DposContext) op" where
  "on_validatorTrie f dc = (let (r, t) = f (validatorTrie dc) in (r, dc\<lparr>validatorTrie := t\<rparr>))"

definition on_voteTrie :: "('a, trie) op \<Rightarrow> ('a, DposContext) op" where
  "on_voteTrie f dc = (let (r, t) = f (voteTrie dc) in (r, dc\<lparr>voteTrie := t\<rparr>))"

definition dpos_ToProto :: "(bytes \<Rightarrow> bytes) \<Rightarrow> (DposContextProto, DposContext) op" where
  "dpos_ToProto H =
     sbind (on_epochTrie (trie_Hash H)) (\<lambda>e.
     sbind (on_validatorTrie (trie_Hash H)) (\<lambda>v.
     sbind (on_voteTrie (trie_Hash H)) (\<lambda>t.
       sret \<lparr>EpochHash = e, ValidatorHash = v, VoteHash = t\<rparr>)))"

text \<open>The hasher receives the RLP encodings of the three roots one after the other.\<close>

definition DposContextProto_Root :: "(bytes \<Rightarrow> bytes) \<Rightarrow> DposContextProto \<Rightarrow> hash" where
  "DposContextProto_Root H p =
     H (EncodeToBytes (Str (EpochHash p)) @ EncodeToBytes (Str (ValidatorHash p)) @ EncodeToBytes (Str (VoteHash p)))"

definition dpos_Root :: "(bytes \<Rightarrow> bytes) \<Rightarrow> (hash, DposContext) op" where
  "dpos_Root H =
     sbind (on_epochTrie (trie_Hash H)) (\<lambda>e.
     sbind (on_validatorTrie (trie_Hash H)) (\<lambda>v.
     sbind (on_voteTrie (trie_Hash H)) (\<lambda>t.
       sret (H (EncodeToBytes (Str e) @ EncodeToBytes (Str v) @ EncodeToBytes (Str t))))))"

text \<open>\<open>CommitTo\<close> writes the tries to the database one after the other, and stops at the first error.\<close>

definition dpos_CommitTo :: "(bytes \<Rightarrow> bytes) \<Rightarrow> (DposContextProto, DposContext \<times> database) op" where
  "dpos_CommitTo H = (\<lambda>(dc, d).
     case CommitTo H (epochTrie dc) d of
       (Inl e, te, d) \<Rightarrow> (Inl e, dc\<lparr>epochTrie := te\<rparr>, d)
     | (Inr he, te, d) \<Rightarrow>
         let dc = dc\<lparr>epochTrie := te\<rparr>
         in case CommitTo H (validatorTrie dc) d of
              (Inl e, tv, d) \<Rightarrow> (Inl e, dc\<lparr>validatorTrie := tv\<rparr>, d)
            | (Inr hv, tv, d) \<Rightarrow>
                let dc = dc\<lparr>validatorTrie := tv\<rparr>
                in case CommitTo H (voteTrie dc) d of
                     (Inl e, tm, d) \<Rightarrow> (Inl e, dc\<lparr>voteTrie := tm\<rparr>, d)
                   | (Inr hm, tm, d) \<Rightarrow>
                       (Inr \<lparr>EpochHash = he, ValidatorHash = hv, VoteHash = hm\<rparr>, dc\<lparr>voteTrie := tm\<rparr>, d))"

section \<open>Validators\<close>

definition encode_addresses :: "address list \<Rightarrow> bytes" where
  "encode_addresses vs = EncodeToBytes (Lst (map Str vs))"

fun val_bytes :: "val \<Rightarrow> bytes" where
  "val_bytes (VBytes b) = b"
| "val_bytes _ = []"

fun val_list :: "val \<Rightarrow> val list" where
  "val_list (VList vs) = vs"
| "val_list (VStruct vs) = vs"
| "val_list _ = []"

definition decode_addresses :: "bytes \<Rightarrow> address list res" where
  "decode_addresses b = rbind (DecodeBytes (TList (TArray 20)) b) (\<lambda>v. Inr (map val_bytes (val_list v)))"

definition GetEpochTrie :: "database \<Rightarrow> (address list, DposContext) op" where
  "GetEpochTrie d =
     sbind (on_epochTrie (\<lambda>t. trie_Get t d ValidatorsPrefix)) (\<lambda>v.
       case decode_addresses (opt_bytes v) of
         Inl e \<Rightarrow> sthrow (if crash e then e else ProtocolError ErrDecodeValidators)
       | Inr vs \<Rightarrow> sret vs)"

definition SetEpochTrie :: "database \<Rightarrow> address list \<Rightarrow> (unit, DposContext) op" where
  "SetEpochTrie d validators =
     on_epochTrie (\<lambda>t. trie_Update t d ValidatorsPrefix (encode_addresses validators))"

fun isMissingNode :: "err \<Rightarrow> bool" where
  "isMissingNode (MissingNodeError h p) = True"
| "isMissingNode _ = False"

fun delete_validators :: "database \<Rightarrow> address list \<Rightarrow> (unit, DposContext) op" where
  "delete_validators d [] = sret ()"
| "delete_validators d (v # vs) =
     scatch (on_validatorTrie (\<lambda>t. TryDelete t d v))
       (\<lambda>e. if isMissingNode e then delete_validators d vs else sthrow e)
       (\<lambda>_. delete_validators d vs)"

definition dpos_Clean :: "database \<Rightarrow> (unit, DposContext) op" where
  "dpos_Clean d =
     sbind (GetEpochTrie d) (\<lambda>validators.
     sbind (delete_validators d validators) (\<lambda>_.
       on_epochTrie (\<lambda>t. trie_Update t d ValidatorsPrefix (encode_addresses []))))"

text \<open>The votes are stored as an RLP string holding the decimal text. The check after the second
  encoding tests the error of the first one, which is nil there.\<close>

definition InsertValidator :: "database \<Rightarrow> address \<Rightarrow> int \<Rightarrow> (unit, DposContext) op" where
  "InsertValidator d validator votes =
     sbind (GetEpochTrie d) (\<lambda>validators.
       if length validators \<ge> MaxValidatorSize then sthrow (ProtocolError ErrValidatorsIsFull)
       else
         sbind (on_validatorTrie (\<lambda>t. TryUpdate t d validator (EncodeToBytes (Str (str_bytes (Itoa votes)))))) (\<lambda>_.
           on_epochTrie (\<lambda>t. trie_Update t d ValidatorsPrefix (encode_addresses (validators @ [validator])))))"

text \<open>\<open>GetValidatorCnt\<close> looks the validator up in the epoch trie, and drops the error of \<open>Atoi\<close>.\<close>

definition GetValidatorCnt :: "database \<Rightarrow> address \<Rightarrow> (int, DposContext) op" where
  "GetValidatorCnt d validator =
     sbind (on_epochTrie (\<lambda>t. TryGet t d validator)) (\<lambda>v. sret (fst (Atoi (bytes_str (opt_bytes v)))))"

fun put_votes :: "database \<Rightarrow> address list \<Rightarrow> int list \<Rightarrow> (unit, DposContext) op" where
  "put_votes d [] votes = sret ()"
| "put_votes d (v # vs) [] = sthrow (Panic ''index out of range'')"
| "put_votes d (v # vs) (c # cs) =
     scatch (on_validatorTrie (\<lambda>t. TryUpdate t d v (str_bytes (Itoa (i64 c)))))
       (\<lambda>e. sthrow (errorf ''failed to TryUpdate validator: '' e))
       (\<lambda>_. put_votes d vs cs)"

definition SetValidatorVotes :: "database \<Rightarrow> address list \<Rightarrow> int list \<Rightarrow> (unit, DposContext) op" where
  "SetValidatorVotes d validators votes =
     sbind (signore (dpos_Clean d)) (\<lambda>_.
     sbind (put_votes d validators votes) (\<lambda>_.
       SetEpochTrie d validators))"

definition IsValidator :: "database \<Rightarrow> address \<Rightarrow> (bool, DposContext) op" where
  "IsValidator d a = scatch (GetEpochTrie d) (\<lambda>_. sret False) (\<lambda>vs. sret (a \<in> set vs))"

definition IsValidatorFull :: "database \<Rightarrow> (bool, DposContext) op" where
  "IsValidatorFull d = scatch (GetEpochTrie d) (\<lambda>_. sret True) (\<lambda>vs. sret (length vs \<ge> MaxValidatorSize))"

section \<open>Producers\<close>

text \<open>Go's \<open>%\<close> and \<open>/\<close> on \<open>int64\<close> truncate towards zero, and a negative index panics.\<close>

definition index_producers :: "address list \<Rightarrow> int \<Rightarrow> address res" where
  "index_producers ps i =
     (if 0 \<le> i \<and> nat i < length ps then Inr (ps ! nat i) else Inl (Panic ''index out of range''))"

definition slot_offset :: "int \<Rightarrow> int \<Rightarrow> int" where
  "slot_offset now firstTimer = i64 (now - firstTimer) smod EpochInterval"

definition current_producers :: "database \<Rightarrow> (address list, DposContext) op" where
  "current_producers d =
     scatch (GetEpochTrie d) (\<lambda>_. sthrow (TextError ''failed to GetValidators''))
       (\<lambda>ps. if length ps = 0 then sthrow (ProtocolError ErrEpochTrieNil) else sret ps)"

definition GetCurrentNowProducer :: "database \<Rightarrow> int \<Rightarrow> int \<Rightarrow> (address, DposContext) op" where
  "GetCurrentNowProducer d firstTimer now =
     sbind (current_producers d) (\<lambda>ps.
       case index_producers ps (slot_offset now firstTimer sdiv BlockInterval smod int (length ps)) of
         Inl e \<Rightarrow> sthrow e | Inr a \<Rightarrow> sret a)"

text \<open>\<open>GetCurrentProducer\<close> is the same with the clock read inside; here the clock is an argument.\<close>

definition GetCurrentProducer :: "database \<Rightarrow> int \<Rightarrow> int \<Rightarrow> (address, DposContext) op" where
  "GetCurrentProducer d firstTimer clock = GetCurrentNowProducer d firstTimer clock"

definition GetLastProducer :: "database \<Rightarrow> int \<Rightarrow> int \<Rightarrow> int \<Rightarrow> (address, DposContext) op" where
  "GetLastProducer d indexOffset firstTimer clock =
     sbind (current_producers d) (\<lambda>ps.
       let offset = slot_offset clock firstTimer sdiv BlockInterval smod int (length ps)
       in case (if i64 (offset + indexOffset) < 0 then index_producers ps (int (length ps) - 1)
                else index_producers ps (i64 (offset + indexOffset))) of
            Inl e \<Rightarrow> sthrow e | Inr a \<Rightarrow> sret a)"

definition GetProducer :: "database \<Rightarrow> int \<Rightarrow> int \<Rightarrow> (address, DposContext) op" where
  "GetProducer d now firstTimer =
     (let offset = slot_offset now firstTimer
      in if offset smod BlockInterval \<noteq> 0 then sthrow (ProtocolError ErrInvalidProducerTime)
         else sbind (GetEpochTrie d) (\<lambda>ps.
           if length ps = 0 then sthrow (ProtocolError ErrInvalidProducer)
           else case index_producers ps (offset sdiv BlockInterval smod int (length ps)) of
                  Inl e \<Rightarrow> sthrow e | Inr a \<Rightarrow> sret a))"

section \<open>The validator list\<close>

definition valid_addresses :: "address list \<Rightarrow> bool" where
  "valid_addresses vs \<longleftrightarrow> (\<forall>v \<in> set vs. is_address v) \<and> length vs < 2 ^ 20"

lemma encode_address_length: "is_address v \<Longrightarrow> length (encode_item (Str v)) = 21"
  by (simp add: encodeString_def encodeStringHeader_def)

lemma length_encode_addresses:
  assumes "\<forall>v \<in> set vs. is_address v"
  shows "length (concat (map encode_item (map Str vs))) = 21 * length vs"
  using assms encode_address_length by (induction vs) auto

lemma valid_addresses_item:
  assumes "valid_addresses vs"
  shows "length (encode_item (Lst (map Str vs))) < 2 ^ 30" "encode_item (Lst (map Str vs)) \<noteq> []"
proof -
  let ?n = "length (concat (map encode_item (map Str vs)))"
  have "?n < 2 ^ 25" using assms length_encode_addresses [of vs] by (simp add: valid_addresses_def)
  moreover have "length (puthead 0xC0 0xF7 (of_nat ?n)) \<le> 9" by (rule length_puthead_le)
  ultimately show "length (encode_item (Lst (map Str vs))) < 2 ^ 30" by simp
  show "encode_item (Lst (map Str vs)) \<noteq> []" using length_enc_pos [of "Lst (map Str vs)"] by auto
qed

lemma encode_addresses_item: "valid_addresses vs \<Longrightarrow> encode_addresses vs = encode_item (Lst (map Str vs))"
  using valid_addresses_item(1) [of vs] EncodeToBytes_reference(1) [of "Lst (map Str vs)"] by (simp add: encode_addresses_def)

lemma encode_addresses_small:
  "valid_addresses vs \<Longrightarrow> small_value (encode_addresses vs) \<and> encode_addresses vs \<noteq> []"
  using valid_addresses_item [of vs] encode_addresses_item [of vs] by (simp add: small_value_def)

lemma decode_encode_addresses:
  assumes "valid_addresses vs"
  shows "decode_addresses (encode_addresses vs) = Inr vs"
proof -
  let ?v = "VList (map VBytes vs)"
  have i: "val_item ?v = Lst (map Str vs)" by simp
  have "DecodeBytes (TList (TArray 20)) (EncodeToBytes (val_item ?v)) = Inr ?v"
    by (rule DecodeBytes_encoded)
      (use assms valid_addresses_item(1) [OF assms] i in \<open>auto simp: valid_addresses_def simp del: val_item.simps encode_item.simps\<close>)
  then have "DecodeBytes (TList (TArray 20)) (encode_addresses vs) = Inr ?v"
    unfolding i encode_addresses_def .
  then show ?thesis by (simp add: decode_addresses_def comp_def)
qed

lemma decode_addresses_empty: "decode_addresses [] = Inl (RlpError EOF)"
  by (simp add: decode_addresses_def DecodeBytes_def NewStream_def sbind_def wrap_def stream_List_def stream_Kind_def
    stream_readKind_def readByte_def willRead_def Let_def)

definition epoch_is :: "(bytes \<rightharpoonup> bytes) \<Rightarrow> address list \<Rightarrow> bool" where
  "epoch_is E vs \<longleftrightarrow> E ValidatorsPrefix = Some (encode_addresses vs) \<and> valid_addresses vs"

text \<open>The maps that the three tries hold.\<close>

definition dpos_view :: "(bytes \<Rightarrow> bytes) \<Rightarrow> database \<Rightarrow> DposContext \<Rightarrow> (bytes \<rightharpoonup> bytes) \<Rightarrow> (bytes \<rightharpoonup> bytes)
    \<Rightarrow> (bytes \<rightharpoonup> bytes) \<Rightarrow> bool" where
  "dpos_view H d dc E V M \<longleftrightarrow>
     stores H d EpochPrefix (epochTrie dc) E \<and> stores H d ValidatorPrefix (validatorTrie dc) V
     \<and> stores H d VotePrefix (voteTrie dc) M"

lemma on_epochTrie_view:
  assumes "dpos_view H d dc E V M" "\<And>t. stores H d EpochPrefix t E \<Longrightarrow> \<exists>t'. f t = (r, t') \<and> stores H d EpochPrefix t' E'"
  shows "\<exists>dc'. on_epochTrie f dc = (r, dc') \<and> dpos_view H d dc' E' V M \<and> dc_hasdb dc' = dc_hasdb dc"
  using assms by (fastforce simp: on_epochTrie_def dpos_view_def)

lemma on_validatorTrie_view:
  assumes "dpos_view H d dc E V M" "\<And>t. stores H d ValidatorPrefix t V \<Longrightarrow> \<exists>t'. f t = (r, t') \<and> stores H d ValidatorPrefix t' V'"
  shows "\<exists>dc'. on_validatorTrie f dc = (r, dc') \<and> dpos_view H d dc' E V' M \<and> dc_hasdb dc' = dc_hasdb dc"
  using assms by (fastforce simp: on_validatorTrie_def dpos_view_def)

lemma on_voteTrie_view:
  assumes "dpos_view H d dc E V M" "\<And>t. stores H d VotePrefix t M \<Longrightarrow> \<exists>t'. f t = (r, t') \<and> stores H d VotePrefix t' M'"
  shows "\<exists>dc'. on_voteTrie f dc = (r, dc') \<and> dpos_view H d dc' E V M' \<and> dc_hasdb dc' = dc_hasdb dc"
  using assms by (fastforce simp: on_voteTrie_def dpos_view_def)

lemma short_keys [simp]: "short_key ValidatorsPrefix" "is_address a \<Longrightarrow> short_key a"
  by (simp_all add: short_key_def)

lemma GetEpochTrie_view:
  assumes "dpos_view H d dc E V M"
  shows "\<exists>dc'. GetEpochTrie d dc =
      (case decode_addresses (opt_bytes (E ValidatorsPrefix)) of
         Inl e \<Rightarrow> Inl (if crash e then e else ProtocolError ErrDecodeValidators) | Inr vs \<Rightarrow> Inr vs, dc')
    \<and> dpos_view H d dc' E V M \<and> dc_hasdb dc' = dc_hasdb dc"
proof -
  obtain dc' where dc': "on_epochTrie (\<lambda>t. trie_Get t d ValidatorsPrefix) dc = (Inr (E ValidatorsPrefix), dc')"
    "dpos_view H d dc' E V M" "dc_hasdb dc' = dc_hasdb dc"
    using on_epochTrie_view [OF assms, of "\<lambda>t. trie_Get t d ValidatorsPrefix"] trie_Get_stores by meson
  then have "GetEpochTrie d dc = (case decode_addresses (opt_bytes (E ValidatorsPrefix)) of
         Inl e \<Rightarrow> Inl (if crash e then e else ProtocolError ErrDecodeValidators) | Inr vs \<Rightarrow> Inr vs, dc')"
    by (auto simp: GetEpochTrie_def sret_def sthrow_def split: sum.split)
  with dc' show ?thesis by blast
qed

lemma GetEpochTrie_epoch:
  assumes "dpos_view H d dc E V M" "epoch_is E vs"
  shows "\<exists>dc'. GetEpochTrie d dc = (Inr vs, dc') \<and> dpos_view H d dc' E V M \<and> dc_hasdb dc' = dc_hasdb dc"
  using GetEpochTrie_view [OF assms(1)] assms(2) decode_encode_addresses [of vs]
  by (auto simp: epoch_is_def opt_bytes_def)

lemma GetEpochTrie_none:
  assumes "dpos_view H d dc E V M" "E ValidatorsPrefix = None"
  shows "\<exists>dc'. GetEpochTrie d dc = (Inl (ProtocolError ErrDecodeValidators), dc')
    \<and> dpos_view H d dc' E V M \<and> dc_hasdb dc' = dc_hasdb dc"
  using GetEpochTrie_view [OF assms(1)] assms(2) decode_addresses_empty by (auto simp: opt_bytes_def)

text \<open>Writing the list: the epoch entry changes and nothing else.\<close>

lemma put_epoch_view:
  assumes "dpos_view H d dc E V M" "valid_addresses vs"
  shows "\<exists>dc'. on_epochTrie (\<lambda>t. trie_Update t d ValidatorsPrefix (encode_addresses vs)) dc = (Inr (), dc')
    \<and> dpos_view H d dc' (E(ValidatorsPrefix \<mapsto> encode_addresses vs)) V M
    \<and> epoch_is (E(ValidatorsPrefix \<mapsto> encode_addresses vs)) vs \<and> dc_hasdb dc' = dc_hasdb dc"
  using on_epochTrie_view [OF assms(1) trie_Update_stores] encode_addresses_small [OF assms(2)] assms(2)
  by (simp add: epoch_is_def)

lemma delete_validators_view:
  assumes "dpos_view H d dc E V M"
  shows "\<exists>dc'. delete_validators d vs dc = (Inr (), dc') \<and> dpos_view H d dc' E (V |` (- set vs)) M
    \<and> dc_hasdb dc' = dc_hasdb dc"
  using assms
proof (induction vs arbitrary: dc V)
  case Nil
  then show ?case by (simp add: sret_def restrict_map_def)
next
  case (Cons v vs)
  obtain dc1 where dc1: "on_validatorTrie (\<lambda>t. TryDelete t d v) dc = (Inr (), dc1)"
    "dpos_view H d dc1 E (V(v := None)) M" "dc_hasdb dc1 = dc_hasdb dc"
    using on_validatorTrie_view [OF Cons.prems, of "\<lambda>t. TryDelete t d v"] TryDelete_stores by meson
  have r: "(V(v := None)) |` (- set vs) = V |` (- set (v # vs))" by (auto simp: restrict_map_def fun_eq_iff)
  obtain dc2 where "delete_validators d vs dc1 = (Inr (), dc2)" "dpos_view H d dc2 E (V |` (- set (v # vs))) M"
    "dc_hasdb dc2 = dc_hasdb dc"
    using Cons.IH [OF dc1(2)] dc1(3) unfolding r by auto
  then show ?case using dc1(1) by simp
qed

lemma Clean_view:
  assumes "dpos_view H d dc E V M" "epoch_is E vs"
  shows "\<exists>dc'. dpos_Clean d dc = (Inr (), dc')
    \<and> dpos_view H d dc' (E(ValidatorsPrefix \<mapsto> encode_addresses [])) (V |` (- set vs)) M \<and> dc_hasdb dc' = dc_hasdb dc"
proof -
  obtain dc1 where 1: "GetEpochTrie d dc = (Inr vs, dc1)" "dpos_view H d dc1 E V M" "dc_hasdb dc1 = dc_hasdb dc"
    using GetEpochTrie_epoch [OF assms] by blast
  obtain dc2 where 2: "delete_validators d vs dc1 = (Inr (), dc2)" "dpos_view H d dc2 E (V |` (- set vs)) M"
    "dc_hasdb dc2 = dc_hasdb dc1"
    using delete_validators_view [OF 1(2)] by blast
  show ?thesis using put_epoch_view [OF 2(2), of "[]"] 1 2 by (auto simp: dpos_Clean_def valid_addresses_def)
qed

definition votes_rlp :: "int \<Rightarrow> bytes" where
  "votes_rlp n = EncodeToBytes (Str (str_bytes (Itoa n)))"

lemma length_nat_str: "n < 10 ^ Suc k \<Longrightarrow> length (nat_str n) \<le> Suc k"
proof (induction k arbitrary: n)
  case 0
  then show ?case by (simp add: nat_str.simps [of n])
next
  case (Suc k)
  then have "n div 10 < 10 ^ Suc k" by (simp add: less_mult_imp_div_less mult.commute)
  from Suc.IH [OF this] show ?case by (simp add: nat_str.simps [of n])
qed

lemma votes_rlp_small:
  assumes "0 \<le> n" "n < 2 ^ 64"
  shows "small_value (votes_rlp n)" "votes_rlp n \<noteq> []"
proof -
  have "length (nat_str (nat n)) \<le> Suc 19" using assms by (intro length_nat_str) simp
  then have l: "length (str_bytes (Itoa n)) \<le> 20" using assms(1) by (simp add: Itoa_def)
  then have "length (encodeString (str_bytes (Itoa n))) \<le> 21"
    by (auto simp: encodeString_def encodeStringHeader_def)
  moreover have "votes_rlp n = encodeString (str_bytes (Itoa n))"
    unfolding votes_rlp_def using EncodeToBytes_reference(1) [of "Str (str_bytes (Itoa n))"] calculation by simp
  ultimately show "small_value (votes_rlp n)" "votes_rlp n \<noteq> []"
    using length_enc_pos [of "Str (str_bytes (Itoa n))"] by (auto simp: small_value_def)
qed

lemma InsertValidator_view:
  assumes "dpos_view H d dc E V M" "epoch_is E []" "is_address v" "0 \<le> n" "n < 2 ^ 64"
  shows "\<exists>dc'. InsertValidator d v n dc = (Inr (), dc')
    \<and> dpos_view H d dc' (E(ValidatorsPrefix \<mapsto> encode_addresses [v])) (V(v \<mapsto> votes_rlp n)) M
    \<and> epoch_is (E(ValidatorsPrefix \<mapsto> encode_addresses [v])) [v]"
proof -
  obtain dc1 where 1: "GetEpochTrie d dc = (Inr [], dc1)" "dpos_view H d dc1 E V M"
    using GetEpochTrie_epoch [OF assms(1,2)] by blast
  obtain dc2 where 2: "on_validatorTrie (\<lambda>t. TryUpdate t d v (votes_rlp n)) dc1 = (Inr (), dc2)"
    "dpos_view H d dc2 E (V(v \<mapsto> votes_rlp n)) M"
    using on_validatorTrie_view [OF 1(2), of "\<lambda>t. TryUpdate t d v (votes_rlp n)"]
      TryUpdate_stores [OF _ short_keys(2) [OF assms(3)] votes_rlp_small [OF assms(4,5)]] by meson
  have "valid_addresses [v]" using assms(3) by (simp add: valid_addresses_def)
  from put_epoch_view [OF 2(2) this] show ?thesis
    using 1(1) 2(1) by (auto simp: InsertValidator_def votes_rlp_def protocol_simps)
qed

lemma InsertValidator_full:
  assumes "dpos_view H d dc E V M" "epoch_is E vs" "length vs \<ge> MaxValidatorSize"
  shows "\<exists>dc'. InsertValidator d v n dc = (Inl (ProtocolError ErrValidatorsIsFull), dc') \<and> dpos_view H d dc' E V M"
  using GetEpochTrie_epoch [OF assms(1,2)] assms(3) by (auto simp: InsertValidator_def sthrow_def)

lemma InsertValidator_unset:
  assumes "dpos_view H d dc E V M" "E ValidatorsPrefix = None"
  shows "\<exists>dc'. InsertValidator d v n dc = (Inl (ProtocolError ErrDecodeValidators), dc') \<and> dpos_view H d dc' E V M"
  using GetEpochTrie_none [OF assms] by (auto simp: InsertValidator_def sbind_Inl)

section \<open>The schedule\<close>

lemma i64_id: "- (2 ^ 63) \<le> x \<Longrightarrow> x < 2 ^ 63 \<Longrightarrow> i64 x = x"
  by (simp add: i64_def signed_take_bit_int_eq_self)

lemma smod_nonneg: "0 \<le> (x::int) \<Longrightarrow> 0 < y \<Longrightarrow> x smod y = x mod y"
  by (cases "x = 0") (simp_all add: smod_int_alt_def)

lemma sdiv_nonneg: "0 \<le> (x::int) \<Longrightarrow> 0 < y \<Longrightarrow> x sdiv y = x div y"
  by (cases "x = 0") (simp_all add: signed_divide_int_def)

text \<open>The validator whose turn it is at a time after the first block.\<close>

definition turn :: "address list \<Rightarrow> int \<Rightarrow> address" where
  "turn vs t = vs ! nat (t mod EpochInterval div BlockInterval mod int (length vs))"

lemma index_turn:
  assumes "0 \<le> now - first" "now - first < 2 ^ 63" "vs \<noteq> []"
  shows "index_producers vs (slot_offset now first sdiv BlockInterval smod int (length vs)) = Inr (turn vs (now - first))"
proof -
  let ?t = "now - first" let ?o = "?t mod EpochInterval"
  have t: "i64 ?t = ?t" using assms(1,2) by (intro i64_id) simp_all
  have "slot_offset now first = ?o" unfolding slot_offset_def t using assms(1) by (simp add: smod_nonneg protocol_simps)
  moreover have "?o \<ge> 0" by (simp add: protocol_simps)
  ultimately have "slot_offset now first sdiv BlockInterval smod int (length vs) = ?o div BlockInterval mod int (length vs)"
    using assms(3) by (simp add: sdiv_nonneg smod_nonneg protocol_simps)
  moreover have "0 \<le> ?o div BlockInterval mod int (length vs)" "?o div BlockInterval mod int (length vs) < int (length vs)"
    using assms(3) by simp_all
  ultimately show ?thesis by (simp add: index_producers_def turn_def nat_less_iff)
qed

lemma slot_aligned:
  assumes "0 \<le> now - first" "now - first < 2 ^ 63"
  shows "slot_offset now first smod BlockInterval = (now - first) mod BlockInterval"
proof -
  have t: "i64 (now - first) = now - first" using assms by (intro i64_id) simp_all
  have "slot_offset now first = (now - first) mod 86400"
    unfolding slot_offset_def t using assms(1) by (simp add: smod_nonneg protocol_simps)
  then show ?thesis by (simp add: smod_nonneg protocol_simps mod_mod_cancel)
qed

lemma GetProducer_view:
  assumes "dpos_view H d dc E V M" "epoch_is E vs" "0 \<le> now - first" "now - first < 2 ^ 63"
  shows "\<exists>dc'. GetProducer d now first dc =
      (if (now - first) mod BlockInterval \<noteq> 0 then Inl (ProtocolError ErrInvalidProducerTime)
       else if vs = [] then Inl (ProtocolError ErrInvalidProducer)
       else Inr (turn vs (now - first)), dc') \<and> dpos_view H d dc' E V M"
proof -
  obtain dc1 where 1: "GetEpochTrie d dc = (Inr vs, dc1)" "dpos_view H d dc1 E V M"
    using GetEpochTrie_epoch [OF assms(1,2)] by blast
  have e: "GetProducer d now first dc =
      (if (now - first) mod BlockInterval \<noteq> 0 then (Inl (ProtocolError ErrInvalidProducerTime), dc)
       else if vs = [] then (Inl (ProtocolError ErrInvalidProducer), dc1)
       else (Inr (turn vs (now - first)), dc1))"
    using slot_aligned [OF assms(3,4)] index_turn [OF assms(3,4)] 1(1)
    by (simp add: GetProducer_def Let_def sthrow_def sret_def)
  show ?thesis unfolding e using assms(1) 1(2) by auto
qed

lemma GetCurrentNowProducer_view:
  assumes "dpos_view H d dc E V M" "epoch_is E vs" "0 \<le> now - first" "now - first < 2 ^ 63"
  shows "\<exists>dc'. GetCurrentNowProducer d first now dc =
      (if vs = [] then Inl (ProtocolError ErrEpochTrieNil) else Inr (turn vs (now - first)), dc') \<and> dpos_view H d dc' E V M"
proof -
  obtain dc1 where 1: "GetEpochTrie d dc = (Inr vs, dc1)" "dpos_view H d dc1 E V M"
    using GetEpochTrie_epoch [OF assms(1,2)] by blast
  then have "current_producers d dc = (if vs = [] then Inl (ProtocolError ErrEpochTrieNil) else Inr vs, dc1)"
    by (simp add: current_producers_def sthrow_def sret_def)
  then show ?thesis
    using index_turn [OF assms(3,4)] 1(2) by (auto simp: GetCurrentNowProducer_def sbind_def sret_def split: if_splits)
qed

text \<open>The same for any two times: before the first block the remainders are negative, and only the first validator can
  be indexed.\<close>

lemma smod_neg: "0 < y \<Longrightarrow> (- x :: int) smod y = - (x smod y)" and sdiv_neg: "0 < y \<Longrightarrow> (- x :: int) sdiv y = - (x sdiv y)"
  by (simp_all add: smod_int_alt_def signed_divide_int_def sgn_minus)

definition slot_turn :: "address list \<Rightarrow> int \<Rightarrow> address res" where
  "slot_turn vs t =
     (let k = \<bar>t\<bar> mod EpochInterval div BlockInterval mod int (length vs)
      in if t \<ge> 0 \<or> k = 0 then Inr (vs ! nat k) else Inl (Panic ''index out of range''))"

lemma index_slot_turn:
  assumes "vs \<noteq> []"
  shows "index_producers vs (slot_offset now first sdiv BlockInterval smod int (length vs)) = slot_turn vs (i64 (now - first))"
proof -
  define t where "t = i64 (now - first)"
  let ?k = "\<bar>t\<bar> mod 86400 div 5 mod int (length vs)"
  have l: "0 < int (length vs)" using assms by simp
  have "t smod 86400 sdiv 5 smod int (length vs) = (if 0 \<le> t then ?k else - ?k)"
  proof (cases "0 \<le> t")
    case True
    then show ?thesis using l by (simp add: smod_nonneg sdiv_nonneg)
  next
    case False
    then have "t smod 86400 = - (\<bar>t\<bar> mod 86400)" using smod_neg [of 86400 "- t"] smod_nonneg [of "- t" 86400] by simp
    then show ?thesis using False l by (simp add: smod_neg sdiv_neg smod_nonneg sdiv_nonneg)
  qed
  then have i: "slot_offset now first sdiv BlockInterval smod int (length vs) = (if 0 \<le> t then ?k else - ?k)"
    by (simp add: slot_offset_def protocol_simps t_def)
  define k where "k = ?k"
  have "0 \<le> k" "nat k < length vs" using l by (simp_all add: k_def nat_less_iff)
  moreover have "slot_turn vs t = (if t \<ge> 0 \<or> k = 0 then Inr (vs ! nat k) else Inl (Panic ''index out of range''))"
    unfolding slot_turn_def Let_def EpochInterval_def BlockInterval_def k_def ..
  ultimately show ?thesis unfolding index_producers_def i t_def [symmetric] k_def [symmetric] by auto
qed

lemma slot_grid: "slot_offset now first smod BlockInterval = 0 \<longleftrightarrow> i64 (now - first) mod BlockInterval = 0"
proof -
  have "t smod 86400 smod 5 = 0 \<longleftrightarrow> t mod 5 = 0" for t :: int
  proof (cases "0 \<le> t")
    case True
    then show ?thesis by (simp add: smod_nonneg mod_mod_cancel)
  next
    case False
    then have "t smod 86400 = - ((- t) mod 86400)" using smod_neg [of 86400 "- t"] smod_nonneg [of "- t" 86400] by simp
    then have "t smod 86400 smod 5 = - ((- t) mod 5)" using False by (simp add: smod_neg smod_nonneg mod_mod_cancel)
    then show ?thesis by (simp add: mod_eq_0_iff_dvd)
  qed
  then show ?thesis by (simp add: slot_offset_def protocol_simps)
qed

lemma producers_view:
  assumes "dpos_view H d dc E V M" "decode_addresses (opt_bytes (E ValidatorsPrefix)) = r"
  shows "fst (GetProducer d now first dc) =
      (if i64 (now - first) mod BlockInterval \<noteq> 0 then Inl (ProtocolError ErrInvalidProducerTime)
       else case r of Inl e \<Rightarrow> Inl (if crash e then e else ProtocolError ErrDecodeValidators)
         | Inr vs \<Rightarrow> if vs = [] then Inl (ProtocolError ErrInvalidProducer) else slot_turn vs (i64 (now - first)))"
    "fst (GetCurrentNowProducer d first now dc) =
      (case r of Inl e \<Rightarrow> Inl (if crash e then e else TextError ''failed to GetValidators'')
       | Inr vs \<Rightarrow> if vs = [] then Inl (ProtocolError ErrEpochTrieNil) else slot_turn vs (i64 (now - first)))"
proof -
  obtain dc1 where g: "GetEpochTrie d dc = (case r of Inl e \<Rightarrow> Inl (if crash e then e else ProtocolError ErrDecodeValidators) | Inr vs \<Rightarrow> Inr vs, dc1)"
    using GetEpochTrie_view [OF assms(1)] assms(2) by auto
  have i: "fst ((case slot_turn vs t of Inl e \<Rightarrow> sthrow e | Inr a \<Rightarrow> sret a) s) = slot_turn vs t" for vs t and s :: DposContext
    by (simp add: sthrow_def sret_def split: sum.split)
  show "fst (GetProducer d now first dc) =
      (if i64 (now - first) mod BlockInterval \<noteq> 0 then Inl (ProtocolError ErrInvalidProducerTime)
       else case r of Inl e \<Rightarrow> Inl (if crash e then e else ProtocolError ErrDecodeValidators)
         | Inr vs \<Rightarrow> if vs = [] then Inl (ProtocolError ErrInvalidProducer) else slot_turn vs (i64 (now - first)))"
    using g index_slot_turn [of _ now first] i
    by (cases r) (auto simp: GetProducer_def Let_def slot_grid sbind_def sthrow_def)
  show "fst (GetCurrentNowProducer d first now dc) =
      (case r of Inl e \<Rightarrow> Inl (if crash e then e else TextError ''failed to GetValidators'')
       | Inr vs \<Rightarrow> if vs = [] then Inl (ProtocolError ErrEpochTrieNil) else slot_turn vs (i64 (now - first)))"
    using g index_slot_turn [of _ now first] i
    by (cases r) (auto simp: GetCurrentNowProducer_def current_producers_def scatch_def sbind_def sthrow_def sret_def)
qed

text \<open>Every validator has a slot in every epoch, if there are at most as many validators as slots.\<close>

lemma turn_of_validator:
  assumes "i < length vs" "length vs \<le> 17280"
  shows "turn vs (k * EpochInterval + int i * BlockInterval) = vs ! i"
proof -
  have "(k * 86400 + int i * 5) mod 86400 = int i * 5" using assms by simp
  then show ?thesis using assms(1) by (simp add: turn_def protocol_simps)
qed

section \<open>Opening and commit\<close>

lemma NewDposContext_view:
  assumes "hash32 H"
  shows "\<exists>dc. NewDposContext True d = Inr dc \<and> dpos_view H d dc Map.empty Map.empty Map.empty \<and> dc_hasdb dc"
  using New_prefix_empty [OF assms, of EpochPrefix True d] New_prefix_empty [OF assms, of ValidatorPrefix True d]
    New_prefix_empty [OF assms, of VotePrefix True d]
  by (auto simp: NewDposContext_def NewEpochTrie_def NewValidatorTrie_def NewVoteTrie_def dpos_view_def)

lemma SetEpochTrie_view:
  assumes "dpos_view H d dc E V M" "valid_addresses vs"
  shows "\<exists>dc'. SetEpochTrie d vs dc = (Inr (), dc')
    \<and> dpos_view H d dc' (E(ValidatorsPrefix \<mapsto> encode_addresses vs)) V M
    \<and> epoch_is (E(ValidatorsPrefix \<mapsto> encode_addresses vs)) vs"
  using put_epoch_view [OF assms] by (auto simp: SetEpochTrie_def)

lemma dpos_CommitTo_view:
  assumes "dpos_view H d dc E V M" "sound_db H U d"
    and "covers H U EpochPrefix E" "covers H U ValidatorPrefix V" "covers H U VotePrefix M"
  shows "\<exists>p dc' d'. dpos_CommitTo H (dc, d) = (Inr p, dc', d') \<and> dpos_view H d' dc' E V M \<and> sound_db H U d' \<and> d \<subseteq>\<^sub>m d'
    \<and> (\<exists>dc2. NewDposContextFromProto True d' p = Inr dc2 \<and> dpos_view H d' dc2 E V M)"
proof -
  note v = assms(1) [unfolded dpos_view_def]
  obtain h1 t1 d1 where 1: "CommitTo H (epochTrie dc) d = (Inr h1, t1, d1)" "d \<subseteq>\<^sub>m d1" "sound_db H U d1"
    "stores H d1 EpochPrefix t1 E"
    "\<And>e. d1 \<subseteq>\<^sub>m e \<Longrightarrow> \<exists>tr2. NewTrieWithPrefix h1 EpochPrefix True e = Inr tr2 \<and> stores H e EpochPrefix tr2 E"
    using CommitTo_stores [OF conjunct1 [OF v] assms(2,3)] by blast
  have v2: "stores H d1 ValidatorPrefix (validatorTrie dc) V" "stores H d1 VotePrefix (voteTrie dc) M"
    using v stores_mono [OF 1(2)] by blast+
  obtain h2 t2 d2 where 2: "CommitTo H (validatorTrie dc) d1 = (Inr h2, t2, d2)" "d1 \<subseteq>\<^sub>m d2" "sound_db H U d2"
    "stores H d2 ValidatorPrefix t2 V"
    "\<And>e. d2 \<subseteq>\<^sub>m e \<Longrightarrow> \<exists>tr2. NewTrieWithPrefix h2 ValidatorPrefix True e = Inr tr2 \<and> stores H e ValidatorPrefix tr2 V"
    using CommitTo_stores [OF v2(1) 1(3) assms(4)] by blast
  obtain h3 t3 d3 where 3: "CommitTo H (voteTrie dc) d2 = (Inr h3, t3, d3)" "d2 \<subseteq>\<^sub>m d3" "sound_db H U d3"
    "stores H d3 VotePrefix t3 M"
    "\<And>e. d3 \<subseteq>\<^sub>m e \<Longrightarrow> \<exists>tr2. NewTrieWithPrefix h3 VotePrefix True e = Inr tr2 \<and> stores H e VotePrefix tr2 M"
    using CommitTo_stores [OF stores_mono [OF 2(2) v2(2)] 2(3) assms(5)] by blast
  have le: "d2 \<subseteq>\<^sub>m d3" "d1 \<subseteq>\<^sub>m d3" "d \<subseteq>\<^sub>m d3" using 1(2) 2(2) 3(2) map_le_trans by blast+
  let ?p = "\<lparr>EpochHash = h1, ValidatorHash = h2, VoteHash = h3\<rparr>"
  let ?dc = "dc\<lparr>epochTrie := t1, validatorTrie := t2, voteTrie := t3\<rparr>"
  have "dpos_CommitTo H (dc, d) = (Inr ?p, ?dc, d3)" using 1(1) 2(1) 3(1) by (simp add: dpos_CommitTo_def)
  moreover have "dpos_view H d3 ?dc E V M"
    using stores_mono [OF le(2) 1(4)] stores_mono [OF le(1) 2(4)] 3(4) by (simp add: dpos_view_def)
  moreover have "\<exists>dc2. NewDposContextFromProto True d3 ?p = Inr dc2 \<and> dpos_view H d3 dc2 E V M"
    using 1(5) [OF le(2)] 2(5) [OF le(1)] 3(5) [OF map_le_refl]
    by (auto simp: NewDposContextFromProto_def NewEpochTrie_def NewValidatorTrie_def NewVoteTrie_def dpos_view_def)
  ultimately show ?thesis using 3(3) le(3) by blast
qed

section \<open>The validator set as a state machine\<close>

text \<open>The operations that change the validators, from the context of the genesis block with its empty list. \<open>K\<close> bounds the
  lists that the base contract hands to \<open>SetValidatorVotes\<close>, with as many votes as validators (its caller checks this).
  A context can also be set back to an earlier one.\<close>

inductive dpos_reachable :: "database \<Rightarrow> nat \<Rightarrow> DposContext \<Rightarrow> bool" for d K where
  start: "NewDposContext True d = Inr dc \<Longrightarrow> SetEpochTrie d [] dc = (r, dc') \<Longrightarrow> dpos_reachable d K dc'"
| clean: "dpos_reachable d K dc \<Longrightarrow> dpos_Clean d dc = (r, dc') \<Longrightarrow> dpos_reachable d K dc'"
| insert: "dpos_reachable d K dc \<Longrightarrow> is_address v \<Longrightarrow> 0 \<le> n \<Longrightarrow> n < 2 ^ 64 \<Longrightarrow>
    InsertValidator d v n dc = (r, dc') \<Longrightarrow> dpos_reachable d K dc'"
| votes: "dpos_reachable d K dc \<Longrightarrow> \<forall>v \<in> set vs. is_address v \<Longrightarrow> length vs \<le> K \<Longrightarrow> length ns = length vs \<Longrightarrow>
    SetValidatorVotes d vs ns dc = (r, dc') \<Longrightarrow> dpos_reachable d K dc'"
| read: "dpos_reachable d K dc \<Longrightarrow> GetEpochTrie d dc = (q, dc') \<Longrightarrow> dpos_reachable d K dc'"
| revert: "dpos_reachable d K dc \<Longrightarrow> dpos_reachable d K dc1 \<Longrightarrow> dpos_reachable d K (dpos_RevertToSnapShot (dpos_Snapshot dc1) dc)"

definition dpos_inv :: "(bytes \<Rightarrow> bytes) \<Rightarrow> database \<Rightarrow> nat \<Rightarrow> DposContext \<Rightarrow> bool" where
  "dpos_inv H d K dc \<longleftrightarrow> (\<exists>E V M vs. dpos_view H d dc E V M \<and> epoch_is E vs
     \<and> length vs \<le> max MaxValidatorSize K \<and> dom V = set vs)"

lemma epoch_nil: "epoch_is (E(ValidatorsPrefix \<mapsto> encode_addresses [])) []"
  by (simp add: epoch_is_def valid_addresses_def)

lemma dpos_inv_Clean: "dpos_inv H d K dc \<Longrightarrow> dpos_inv H d K (snd (dpos_Clean d dc))"
  using Clean_view epoch_nil unfolding dpos_inv_def
  by (fastforce simp: protocol_simps)

lemma dpos_inv_Insert:
  assumes "dpos_inv H d K dc" "is_address v" "0 \<le> n" "n < 2 ^ 64"
  shows "dpos_inv H d K (snd (InsertValidator d v n dc))"
proof -
  obtain E V M vs where i: "dpos_view H d dc E V M" "epoch_is E vs" "length vs \<le> max MaxValidatorSize K" "dom V = set vs"
    using assms(1) by (auto simp: dpos_inv_def)
  show ?thesis
  proof (cases "vs = []")
    case True
    obtain dc' where "InsertValidator d v n dc = (Inr (), dc')"
      "dpos_view H d dc' (E(ValidatorsPrefix \<mapsto> encode_addresses [v])) (V(v \<mapsto> votes_rlp n)) M"
      "epoch_is (E(ValidatorsPrefix \<mapsto> encode_addresses [v])) [v]"
      using InsertValidator_view [OF i(1) _ assms(2-4)] i(2) True by auto
    moreover have "dom (V(v \<mapsto> votes_rlp n)) = set [v]" "length [v] \<le> max MaxValidatorSize K"
      using i(4) True by (simp_all add: protocol_simps)
    ultimately show ?thesis unfolding dpos_inv_def by (metis snd_conv)
  next
    case False
    then have "length vs \<ge> MaxValidatorSize" by (cases vs) (simp_all add: protocol_simps)
    from InsertValidator_full [OF i(1,2) this, of v n] i show ?thesis unfolding dpos_inv_def by (metis snd_conv)
  qed
qed

lemma votes_text_small: "small_value (str_bytes (Itoa (i64 n)))" "str_bytes (Itoa (i64 n)) \<noteq> []"
proof -
  have "- (2 ^ 63) \<le> i64 n" "i64 n < 2 ^ 63" using signed_take_bit_int_greater_eq_minus_exp [of 63 n] signed_take_bit_int_less_exp [of 63 n] by (simp_all add: i64_def)
  then have "length (nat_str (nat (- i64 n))) \<le> Suc 19" "length (nat_str (nat (i64 n))) \<le> Suc 19" by (intro length_nat_str; simp)+
  then have "length (Itoa (i64 n)) \<le> 21" by (simp add: Itoa_def)
  then show "small_value (str_bytes (Itoa (i64 n)))" by (simp add: small_value_def)
  have "Itoa (i64 n) \<noteq> []" by (simp add: Itoa_def)
  then show "str_bytes (Itoa (i64 n)) \<noteq> []" by (metis length_0_conv length_str_bytes)
qed

lemma put_votes_view:
  assumes "dpos_view H d dc E V M" "length ns = length vs" "\<forall>v \<in> set vs. is_address v"
  shows "\<exists>dc' V'. put_votes d vs ns dc = (Inr (), dc') \<and> dpos_view H d dc' E V' M \<and> dom V' = dom V \<union> set vs"
  using assms
proof (induction vs arbitrary: ns dc V)
  case Nil
  then show ?case by (auto simp: sret_def)
next
  case (Cons v vs)
  then obtain n ms where ns: "ns = n # ms" "length ms = length vs" by (cases ns) auto
  let ?t = "str_bytes (Itoa (i64 n))"
  obtain dc1 where dc1: "on_validatorTrie (\<lambda>t. TryUpdate t d v ?t) dc = (Inr (), dc1)" "dpos_view H d dc1 E (V(v \<mapsto> ?t)) M"
    using on_validatorTrie_view [OF Cons.prems(1), of "\<lambda>t. TryUpdate t d v ?t"]
      TryUpdate_stores [OF _ short_keys(2) votes_text_small] Cons.prems(3) by (meson list.set_intros(1))
  have "\<forall>v \<in> set vs. is_address v" using Cons.prems(3) by simp
  from Cons.IH [OF dc1(2) ns(2) this] obtain dc' V' where "put_votes d vs ms dc1 = (Inr (), dc')"
    "dpos_view H d dc' E V' M" "dom V' = dom (V(v \<mapsto> ?t)) \<union> set vs" by blast
  then show ?case using dc1(1) ns(1) by auto
qed

lemma SetValidatorVotes_view:
  assumes "dpos_view H d dc E V M" "epoch_is E us" "dom V = set us" "length ns = length vs" "valid_addresses vs"
  shows "\<exists>dc' E' V'. SetValidatorVotes d vs ns dc = (Inr (), dc') \<and> dpos_view H d dc' E' V' M \<and> epoch_is E' vs \<and> dom V' = set vs"
proof -
  obtain dc1 where 1: "dpos_Clean d dc = (Inr (), dc1)"
    "dpos_view H d dc1 (E(ValidatorsPrefix \<mapsto> encode_addresses [])) (V |` (- set us)) M" using Clean_view [OF assms(1,2)] by blast
  have "\<forall>v \<in> set vs. is_address v" using assms(5) by (simp add: valid_addresses_def)
  from put_votes_view [OF 1(2) assms(4) this] obtain dc2 V2 where 2: "put_votes d vs ns dc1 = (Inr (), dc2)"
    "dpos_view H d dc2 (E(ValidatorsPrefix \<mapsto> encode_addresses [])) V2 M" "dom V2 = dom (V |` (- set us)) \<union> set vs" by blast
  have "dom V2 = set vs" using 2(3) assms(3) by auto
  then show ?thesis using SetEpochTrie_view [OF 2(2) assms(5)] 1(1) 2(1) by (auto simp: SetValidatorVotes_def)
qed

lemma dpos_inv_votes:
  assumes "dpos_inv H d K dc" "\<forall>v \<in> set vs. is_address v" "length vs \<le> K" "length ns = length vs" "K < 2 ^ 20"
  shows "dpos_inv H d K (snd (SetValidatorVotes d vs ns dc))"
proof -
  obtain E V M us where i: "dpos_view H d dc E V M" "epoch_is E us" "dom V = set us" using assms(1) by (auto simp: dpos_inv_def)
  have "valid_addresses vs" using assms(2,3,5) by (simp add: valid_addresses_def)
  moreover have "length vs \<le> max MaxValidatorSize K" using assms(3) by simp
  ultimately show ?thesis using SetValidatorVotes_view [OF i assms(4)] unfolding dpos_inv_def by fastforce
qed

lemma dpos_inv_reachable:
  assumes "hash32 H" "K < 2 ^ 20" "dpos_reachable d K dc"
  shows "dpos_inv H d K dc"
  using assms(3)
proof (induction rule: dpos_reachable.induct)
  case (start dc r dc')
  obtain dc0 where 0: "NewDposContext True d = Inr dc0" "dpos_view H d dc0 Map.empty Map.empty Map.empty"
    using NewDposContext_view [OF assms(1)] by blast
  have "dc0 = dc" using 0(1) start(1) by simp
  with SetEpochTrie_view [OF 0(2), of "[]"] start(2) obtain E where "dpos_view H d dc' E Map.empty Map.empty" "epoch_is E []"
    by (auto simp: valid_addresses_def)
  then show ?case unfolding dpos_inv_def by (intro exI [of _ E] exI [of _ Map.empty] exI [of _ "[]"]) simp
next
  case (clean dc r dc')
  then show ?case using dpos_inv_Clean by (metis snd_conv)
next
  case (insert dc v n r dc')
  then show ?case using dpos_inv_Insert by (metis snd_conv)
next
  case (votes dc vs ns r dc')
  then show ?case using dpos_inv_votes [OF _ _ _ _ assms(2)] by (metis snd_conv)
next
  case (read dc q dc')
  then show ?case unfolding dpos_inv_def by (metis GetEpochTrie_epoch Pair_inject)
next
  case (revert dc dc1)
  then show ?case by (simp add: dpos_inv_def dpos_view_def dpos_RevertToSnapShot_def dpos_Snapshot_def dpos_Copy_def)
qed

lemma IsValidator_view:
  assumes "dpos_view H d dc E V M" "epoch_is E vs"
  shows "fst (IsValidator d a dc) = Inr (a \<in> set vs)" "fst (IsValidatorFull d dc) = Inr (length vs \<ge> MaxValidatorSize)"
  using GetEpochTrie_epoch [OF assms] by (auto simp: IsValidator_def IsValidatorFull_def sret_def)

lemma votes_view:
  assumes "dpos_view H d dc E V M"
  shows "fst (on_validatorTrie (\<lambda>t. TryGet t d a) dc) = Inr (V a)"
  using on_validatorTrie_view [OF assms, of "\<lambda>t. TryGet t d a"] TryGet_stores by (metis fst_conv)

section \<open>Properties\<close>

text \<open>C17. The producer of a slot, for any clock and any stored list. \<open>GetProducer\<close> refuses a time off the slot grid, an
  unreadable list of validators and an empty one, in this order; otherwise it answers the validator whose turn it is in
  the round-robin schedule (seconds since the first block, within the epoch, divided by the block interval, modulo the
  number of validators). Before the first block it panics, except in the slots of the first validator. Between slots
  \<open>GetCurrentNowProducer\<close> answers the producer of the running slot.\<close>

theorem producer_schedule:
  assumes "dpos_view H d dc E V M"
  shows "let t = i64 (now - first); stored = decode_addresses (opt_bytes (E ValidatorsPrefix));
         turn = (\<lambda>vs. let k = \<bar>t\<bar> mod EpochInterval div BlockInterval mod int (length vs)
                      in if t \<ge> 0 \<or> k = 0 then Inr (vs ! nat k) else Inl (Panic ''index out of range''))
    in fst (GetProducer d now first dc) =
        (if t mod BlockInterval \<noteq> 0 then Inl (ProtocolError ErrInvalidProducerTime)
         else case stored of
           Inl e \<Rightarrow> Inl (if crash e then e else ProtocolError ErrDecodeValidators)
         | Inr vs \<Rightarrow> if vs = [] then Inl (ProtocolError ErrInvalidProducer) else turn vs)
      \<and> fst (GetCurrentNowProducer d first now dc) =
        (case stored of
           Inl e \<Rightarrow> Inl (if crash e then e else TextError ''failed to GetValidators'')
         | Inr vs \<Rightarrow> if vs = [] then Inl (ProtocolError ErrEpochTrieNil) else turn vs)"
  using producers_view [OF assms refl, where now = now and first = first] unfolding slot_turn_def Let_def by blast

text \<open>A context with two validators, for the witnesses.\<close>

lemma context_with_validators:
  assumes "valid_addresses vs"
  obtains dc0 dc E where "NewDposContext True d = Inr dc0" "SetEpochTrie d vs dc0 = (Inr (), dc)"
    "dpos_view pad_hash d dc E Map.empty Map.empty" "epoch_is E vs" "\<And>a. is_address a \<Longrightarrow> E a = None"
proof -
  obtain dc0 where 0: "NewDposContext True d = Inr dc0" "dpos_view pad_hash d dc0 Map.empty Map.empty Map.empty"
    using NewDposContext_view [OF hash32_pad] by blast
  have "(Map.empty(ValidatorsPrefix \<mapsto> encode_addresses vs)) a = None" if "is_address a" for a
    using that length_prefixes(4) by (auto simp del: length_prefixes)
  with SetEpochTrie_view [OF 0(2) assms] 0(1) that show thesis by blast
qed

theorem producer_schedule_witness:
  "\<exists>dc0 dc. NewDposContext True Map.empty = Inr dc0
     \<and> fst (GetProducer Map.empty 115 100 dc0) = Inl (ProtocolError ErrDecodeValidators)
     \<and> SetEpochTrie Map.empty [replicate 20 1, replicate 20 2] dc0 = (Inr (), dc)
     \<and> fst (GetProducer Map.empty 115 100 dc) = Inr (replicate 20 2)
     \<and> fst (GetProducer Map.empty 116 100 dc) = Inl (ProtocolError ErrInvalidProducerTime)
     \<and> fst (GetProducer Map.empty 95 100 dc) = Inl (Panic ''index out of range'')
     \<and> fst (GetCurrentNowProducer Map.empty 100 117 dc) = Inr (replicate 20 2)"
proof -
  let ?vs = "[replicate 20 1, replicate 20 2] :: address list"
  have va: "valid_addresses ?vs" by (simp add: valid_addresses_def)
  from context_with_validators [OF this, of Map.empty] obtain dc0 dc E where
    n: "NewDposContext True Map.empty = Inr dc0" "SetEpochTrie Map.empty ?vs dc0 = (Inr (), dc)"
    and v: "dpos_view pad_hash Map.empty dc E Map.empty Map.empty" "epoch_is E ?vs" by metis
  have v0: "dpos_view pad_hash Map.empty dc0 Map.empty Map.empty Map.empty" using NewDposContext_view [OF hash32_pad, of Map.empty] n(1) by auto
  have r: "decode_addresses (opt_bytes (E ValidatorsPrefix)) = Inr ?vs"
    using v(2) decode_encode_addresses [OF va] by (simp add: epoch_is_def opt_bytes_def)
  have i: "i64 15 = 15" "i64 16 = 16" "i64 17 = 17" "i64 (- 5) = - 5" by (simp_all add: i64_id)
  have "fst (GetProducer Map.empty 115 100 dc0) = Inl (ProtocolError ErrDecodeValidators)"
    using producer_schedule [OF v0, of 115 100] i by (simp add: opt_bytes_def decode_addresses_empty protocol_simps)
  moreover have "fst (GetProducer Map.empty 115 100 dc) = Inr (replicate 20 2)"
    using producer_schedule [OF v(1), of 115 100] r i by (simp add: protocol_simps)
  moreover have "fst (GetProducer Map.empty 116 100 dc) = Inl (ProtocolError ErrInvalidProducerTime)"
    using producer_schedule [OF v(1), of 116 100] r i by (simp add: protocol_simps)
  moreover have "fst (GetProducer Map.empty 95 100 dc) = Inl (Panic ''index out of range'')"
    using producer_schedule [OF v(1), of 95 100] r i by (simp add: protocol_simps)
  moreover have "fst (GetCurrentNowProducer Map.empty 100 117 dc) = Inr (replicate 20 2)"
    using producer_schedule [OF v(1), of 117 100] r i by (simp add: protocol_simps)
  ultimately show ?thesis using n by blast
qed

text \<open>C18. Every validator gets its turn: in every epoch after the first block there is a slot in which
  \<open>GetProducer\<close> answers the validator, as long as there are no more validators than slots in an epoch.\<close>

theorem every_validator_produces:
  assumes "dpos_view H d dc E V M" and "epoch_is E vs" and "v \<in> set vs" and "int (length vs) \<le> EpochInterval div BlockInterval"
    and "0 \<le> k" and "(k + 1) * EpochInterval < 2 ^ 63"
  shows "\<exists>t. k * EpochInterval \<le> t \<and> t < (k + 1) * EpochInterval \<and> fst (GetProducer d (first + t) first dc) = Inr v"
proof -
  obtain i where i: "i < length vs" "vs ! i = v" using assms(3) by (auto simp: in_set_conv_nth)
  let ?t = "k * EpochInterval + int i * BlockInterval"
  have l: "length vs \<le> 17280" using assms(4) by (simp add: protocol_simps)
  have b: "k * EpochInterval \<le> ?t" "?t < (k + 1) * EpochInterval" using i l by (simp_all add: protocol_simps)
  have r: "0 \<le> (first + ?t) - first" "(first + ?t) - first < 2 ^ 63"
    using b assms(5,6) by (simp_all add: protocol_simps)
  have "(first + ?t - first) mod BlockInterval = 0" "vs \<noteq> []" using i by (auto simp: protocol_simps)
  then have "fst (GetProducer d (first + ?t) first dc) = Inr v"
    using GetProducer_view [OF assms(1,2) r] turn_of_validator [OF i(1) l] i(2) by auto
  then show ?thesis using b by blast
qed

theorem every_validator_produces_witness:
  "\<exists>dc0 dc t. NewDposContext True Map.empty = Inr dc0
     \<and> SetEpochTrie Map.empty [replicate 20 1, replicate 20 2] dc0 = (Inr (), dc)
     \<and> 3 * EpochInterval \<le> t \<and> t < 4 * EpochInterval \<and> fst (GetProducer Map.empty (1000 + t) 1000 dc) = Inr (replicate 20 2)"
proof -
  let ?vs = "[replicate 20 1, replicate 20 2] :: address list"
  have "valid_addresses ?vs" by (simp add: valid_addresses_def)
  from context_with_validators [OF this, of Map.empty] obtain dc0 dc E where
    "NewDposContext True Map.empty = Inr dc0" "SetEpochTrie Map.empty ?vs dc0 = (Inr (), dc)"
    and v: "dpos_view pad_hash Map.empty dc E Map.empty Map.empty" "epoch_is E ?vs" by metis
  moreover have "\<exists>t. 3 * EpochInterval \<le> t \<and> t < 4 * EpochInterval
      \<and> fst (GetProducer Map.empty (1000 + t) 1000 dc) = Inr (replicate 20 2)"
    using every_validator_produces [OF v, of "replicate 20 2" 3 1000] by (simp add: protocol_simps)
  ultimately show ?thesis by blast
qed



text \<open>C20. Replacing the validators, as a validator transaction does: cleaning and then inserting one validator
  succeeds, leaves exactly that validator in the list with its votes stored, removes the votes of
  the previous validators and keeps every other entry and all mint counts.\<close>

theorem replace_validators:
  assumes "dpos_view H d dc E V M" and "epoch_is E vs" and "is_address v"
  shows "\<exists>dc1 dc2. dpos_Clean d dc = (Inr (), dc1) \<and> InsertValidator d v SetValidatorVotes_const dc1 = (Inr (), dc2)
    \<and> fst (GetEpochTrie d dc2) = Inr [v]
    \<and> (\<forall>a. fst (on_validatorTrie (\<lambda>t. TryGet t d a) dc2) =
          Inr (if a = v then Some (EncodeToBytes (Str (str_bytes ''10000''))) else if a \<in> set vs then None else V a))
    \<and> (\<forall>a. fst (on_voteTrie (\<lambda>t. TryGet t d a) dc2) = Inr (M a))"
proof -
  obtain dc1 where 1: "dpos_Clean d dc = (Inr (), dc1)"
    "dpos_view H d dc1 (E(ValidatorsPrefix \<mapsto> encode_addresses [])) (V |` (- set vs)) M"
    using Clean_view [OF assms(1,2)] by blast
  have n: "0 \<le> SetValidatorVotes_const" "SetValidatorVotes_const < 2 ^ 64" by (simp_all add: protocol_simps)
  let ?E2 = "E(ValidatorsPrefix \<mapsto> encode_addresses [], ValidatorsPrefix \<mapsto> encode_addresses [v])"
  obtain dc2 where 2: "InsertValidator d v SetValidatorVotes_const dc1 = (Inr (), dc2)"
    "dpos_view H d dc2 ?E2 ((V |` (- set vs))(v \<mapsto> votes_rlp SetValidatorVotes_const)) M" "epoch_is ?E2 [v]"
    using InsertValidator_view [OF 1(2) epoch_nil assms(3) n] by (elim exE conjE) (rule that)
  have "Itoa SetValidatorVotes_const = ''10000''" 
    by (simp add: protocol_simps Itoa_def nat_str.simps char_of_def bit_Suc_0_iff)
  then have "votes_rlp SetValidatorVotes_const = EncodeToBytes (Str (str_bytes ''10000''))" by (simp add: votes_rlp_def)
  moreover have "fst (on_voteTrie (\<lambda>t. TryGet t d a) dc2) = Inr (M a)" for a
    using on_voteTrie_view [OF 2(2), of "\<lambda>t. TryGet t d a"] TryGet_stores by (metis fst_conv)
  ultimately show ?thesis
    using 1(1) 2(1) GetEpochTrie_epoch [OF 2(2,3)] votes_view [OF 2(2)] by (auto simp: restrict_map_def)
qed

theorem replace_validators_witness:
  "\<exists>dc0 dc dc1 dc2. NewDposContext True Map.empty = Inr dc0
     \<and> SetEpochTrie Map.empty [replicate 20 1] dc0 = (Inr (), dc) \<and> dpos_Clean Map.empty dc = (Inr (), dc1)
     \<and> InsertValidator Map.empty (replicate 20 2) SetValidatorVotes_const dc1 = (Inr (), dc2)
     \<and> fst (GetEpochTrie Map.empty dc2) = Inr [replicate 20 2]"
proof -
  have "valid_addresses [replicate 20 1]" by (simp add: valid_addresses_def)
  from context_with_validators [OF this, of Map.empty] obtain dc0 dc E where
    "NewDposContext True Map.empty = Inr dc0" "SetEpochTrie Map.empty [replicate 20 1] dc0 = (Inr (), dc)"
    and v: "dpos_view pad_hash Map.empty dc E Map.empty Map.empty" "epoch_is E [replicate 20 1]" by metis
  then show ?thesis using replace_validators [OF v, of "replicate 20 2"] by fastforce
qed

text \<open>The stored votes are never reported: \<open>GetValidatorCnt\<close> reads the epoch trie, which has no entry under an
  address, and the error of \<open>Atoi\<close> on the empty text is dropped.\<close>

lemma GetValidatorCnt_ignores_votes:
  assumes "dpos_view H d dc E V M" "epoch_is E []" "E v = None" "is_address v" "0 \<le> n" "n < 2 ^ 64"
  shows "fst (GetValidatorCnt d v (snd (InsertValidator d v n dc))) = Inr 0"
proof -
  obtain dc' where dc': "InsertValidator d v n dc = (Inr (), dc')"
    "dpos_view H d dc' (E(ValidatorsPrefix \<mapsto> encode_addresses [v])) (V(v \<mapsto> votes_rlp n)) M"
    using InsertValidator_view [OF assms(1,2,4,5,6)] by blast
  have "v \<noteq> ValidatorsPrefix" using assms(4) length_prefixes(4) by (auto simp del: length_prefixes)
  then have "(E(ValidatorsPrefix \<mapsto> encode_addresses [v])) v = None" using assms(3) by simp
  then obtain dc2 where "on_epochTrie (\<lambda>t. TryGet t d v) dc' = (Inr None, dc2)"
    using on_epochTrie_view [OF dc'(2), of "\<lambda>t. TryGet t d v"] TryGet_stores by metis
  then show ?thesis using dc'(1) by (simp add: GetValidatorCnt_def opt_bytes_def bytes_str_def sret_def)
qed

text \<open>C21. A committed context can be reopened: committing the three tries succeeds, keeps everything the
  database held, and a context opened from the returned roots holds the same validators, votes and
  mint counts as the committed object.\<close>

theorem dpos_commit_reopens:
  assumes "dpos_view H d dc E V M" and "sound_db H U d"
    and "covers H U EpochPrefix E" and "covers H U ValidatorPrefix V" and "covers H U VotePrefix M"
  shows "\<exists>p dc1 d1 dc2. dpos_CommitTo H (dc, d) = (Inr p, dc1, d1) \<and> d \<subseteq>\<^sub>m d1 \<and> dpos_view H d1 dc1 E V M
    \<and> NewDposContextFromProto True d1 p = Inr dc2 \<and> dpos_view H d1 dc2 E V M"
  using dpos_CommitTo_view [OF assms] by blast

theorem dpos_commit_reopens_witness:
  "\<exists>dc0 dc p dc1 d1 dc2. NewDposContext True Map.empty = Inr dc0
     \<and> SetEpochTrie Map.empty [] dc0 = (Inr (), dc) \<and> dpos_CommitTo pad_hash (dc, Map.empty) = (Inr p, dc1, d1)
     \<and> NewDposContextFromProto True d1 p = Inr dc2 \<and> fst (GetEpochTrie d1 dc2) = Inr []"
proof -
  let ?v = "encode_addresses []"
  let ?E = "[ValidatorsPrefix \<mapsto> ?v]" let ?U = "{leaf_enc (EpochPrefix @ ValidatorsPrefix) ?v}"
  have va: "valid_addresses []" by (simp add: valid_addresses_def)
  obtain dc0 where 0: "NewDposContext True Map.empty = Inr dc0" "dpos_view pad_hash Map.empty dc0 Map.empty Map.empty Map.empty"
    using NewDposContext_view [OF hash32_pad] by blast
  obtain dc where dc: "SetEpochTrie Map.empty [] dc0 = (Inr (), dc)" "dpos_view pad_hash Map.empty dc ?E Map.empty Map.empty"
    using SetEpochTrie_view [OF 0(2) va] by blast
  have "sound_db pad_hash ?U Map.empty" by (rule pad_hash_sound) auto
  moreover have "covers pad_hash ?U EpochPrefix ?E"
    using encode_addresses_small [OF va] by (simp add: covers_single)
  ultimately obtain p dc1 d1 dc2 where c: "dpos_CommitTo pad_hash (dc, Map.empty) = (Inr p, dc1, d1)"
    "NewDposContextFromProto True d1 p = Inr dc2" "dpos_view pad_hash d1 dc2 ?E Map.empty Map.empty"
    using dpos_commit_reopens [OF dc(2), of ?U] by (auto simp: covers_empty)
  have "fst (GetEpochTrie d1 dc2) = Inr []" using GetEpochTrie_epoch [OF c(3), of "[]"] va by (auto simp: epoch_is_def)
  then show ?thesis using 0(1) dc(1) c by blast
qed

end
