(* ===== verification/Boker_Context.thy ===== *)
theory Boker_Context
  imports Dpos_Context
begin

text \<open>
  The application context, \<open>src/chain/core/types/boker_context.go\<close>: six prefixed tries with the base
  contracts and their types, the stock accounts, the stock manager and the pool of gas to be
  assigned to stock holders. The setters commit their trie to the database as they go, so the
  state of an operation is the context together with the database.

  \<open>bk_abs\<close> is the abstract state: lists, finite maps, an owner and a number. \<open>bk_view\<close> relates it to a
  context, and each operation of the code is shown to carry out its counterpart on the abstract state.
\<close>

section \<open>The context\<close>

record BokerContext =
  singleContractsTrie :: trie
  contractsTrie :: trie
  singleStockTrie :: trie
  stocksTrie :: trie
  ownerTrie :: trie
  gasPoolTrie :: trie
  bc_hasdb :: bool

record BokerBackendProto =
  SingleHash :: hash
  ContractsHash :: hash
  SingleStockHash :: hash
  StocksHash :: hash
  OwnerHash :: hash
  GasPoolHash :: hash

text \<open>The encodings of the six roots are hashed one after the other.\<close>

definition BokerBackendProto_Root :: "(bytes \<Rightarrow> bytes) \<Rightarrow> BokerBackendProto \<Rightarrow> hash" where
  "BokerBackendProto_Root H p =
     H (concat (map (\<lambda>h. EncodeToBytes (Str h))
          [SingleHash p, ContractsHash p, SingleStockHash p, StocksHash p, OwnerHash p, GasPoolHash p]))"

definition NewSingleContractTrie :: "hash \<Rightarrow> bool \<Rightarrow> database \<Rightarrow> trie res" where
  "NewSingleContractTrie root hasdb d = NewTrieWithPrefix root SingleContractPrefix hasdb d"

definition NewContractsTrie :: "hash \<Rightarrow> bool \<Rightarrow> database \<Rightarrow> trie res" where
  "NewContractsTrie root hasdb d = NewTrieWithPrefix root ContractsPrefix hasdb d"

definition NewSingleStockTrie :: "hash \<Rightarrow> bool \<Rightarrow> database \<Rightarrow> trie res" where
  "NewSingleStockTrie root hasdb d = NewTrieWithPrefix root SingleStockPrefix hasdb d"

definition NewStocksTrie :: "hash \<Rightarrow> bool \<Rightarrow> database \<Rightarrow> trie res" where
  "NewStocksTrie root hasdb d = NewTrieWithPrefix root StocksPrefix hasdb d"

definition NewOwnerTrie :: "hash \<Rightarrow> bool \<Rightarrow> database \<Rightarrow> trie res" where
  "NewOwnerTrie root hasdb d = NewTrieWithPrefix root OwnerPrefix hasdb d"

definition NewGasPoolTrie :: "hash \<Rightarrow> bool \<Rightarrow> database \<Rightarrow> trie res" where
  "NewGasPoolTrie root hasdb d = NewTrieWithPrefix root GasPoolPrefix hasdb d"

definition NewBokerContextFromProto :: "bool \<Rightarrow> database \<Rightarrow> BokerBackendProto \<Rightarrow> BokerContext res" where
  "NewBokerContextFromProto hasdb d p =
     rbind (NewSingleContractTrie (SingleHash p) hasdb d) (\<lambda>sc.
     rbind (NewContractsTrie (ContractsHash p) hasdb d) (\<lambda>c.
     rbind (NewSingleStockTrie (SingleStockHash p) hasdb d) (\<lambda>ss.
     rbind (NewStocksTrie (StocksHash p) hasdb d) (\<lambda>s.
     rbind (NewOwnerTrie (OwnerHash p) hasdb d) (\<lambda>ow.
     rbind (NewGasPoolTrie (GasPoolHash p) hasdb d) (\<lambda>g.
       Inr \<lparr>singleContractsTrie = sc, contractsTrie = c, singleStockTrie = ss, stocksTrie = s,
            ownerTrie = ow, gasPoolTrie = g, bc_hasdb = hasdb\<rparr>))))))"

definition NewBokerContext :: "bool \<Rightarrow> database \<Rightarrow> BokerContext res" where
  "NewBokerContext hasdb d =
     rbind (NewSingleContractTrie zero_hash hasdb d) (\<lambda>sc.
     rbind (NewContractsTrie zero_hash hasdb d) (\<lambda>c.
     rbind (NewSingleStockTrie zero_hash hasdb d) (\<lambda>ss.
     rbind (NewStocksTrie zero_hash hasdb d) (\<lambda>s.
     rbind (NewOwnerTrie zero_hash hasdb d) (\<lambda>ow.
     rbind (NewGasPoolTrie zero_hash hasdb d) (\<lambda>g.
       Inr \<lparr>singleContractsTrie = sc, contractsTrie = c, singleStockTrie = ss, stocksTrie = s,
            ownerTrie = ow, gasPoolTrie = g, bc_hasdb = hasdb\<rparr>))))))"

definition boker_Copy :: "BokerContext \<Rightarrow> BokerContext" where
  "boker_Copy bc = bc\<lparr>bc_hasdb := False\<rparr>"

definition boker_RevertToSnapShot :: "BokerContext \<Rightarrow> BokerContext \<Rightarrow> BokerContext" where
  "boker_RevertToSnapShot snapshot bc =
     bc\<lparr>singleContractsTrie := singleContractsTrie snapshot, contractsTrie := contractsTrie snapshot,
        singleStockTrie := singleStockTrie snapshot, stocksTrie := stocksTrie snapshot,
        ownerTrie := ownerTrie snapshot, gasPoolTrie := gasPoolTrie snapshot\<rparr>"

section \<open>Operations on one of the tries\<close>

datatype bk_trie = SingleContracts | Contracts | SingleStock | Stocks | Owner | GasPool

fun bk_get :: "bk_trie \<Rightarrow> BokerContext \<Rightarrow> trie" where
  "bk_get SingleContracts bc = singleContractsTrie bc"
| "bk_get Contracts bc = contractsTrie bc"
| "bk_get SingleStock bc = singleStockTrie bc"
| "bk_get Stocks bc = stocksTrie bc"
| "bk_get Owner bc = ownerTrie bc"
| "bk_get GasPool bc = gasPoolTrie bc"

fun bk_put :: "bk_trie \<Rightarrow> trie \<Rightarrow> BokerContext \<Rightarrow> BokerContext" where
  "bk_put SingleContracts t bc = bc\<lparr>singleContractsTrie := t\<rparr>"
| "bk_put Contracts t bc = bc\<lparr>contractsTrie := t\<rparr>"
| "bk_put SingleStock t bc = bc\<lparr>singleStockTrie := t\<rparr>"
| "bk_put Stocks t bc = bc\<lparr>stocksTrie := t\<rparr>"
| "bk_put Owner t bc = bc\<lparr>ownerTrie := t\<rparr>"
| "bk_put GasPool t bc = bc\<lparr>gasPoolTrie := t\<rparr>"

fun bk_prefix :: "bk_trie \<Rightarrow> bytes" where
  "bk_prefix SingleContracts = SingleContractPrefix"
| "bk_prefix Contracts = ContractsPrefix"
| "bk_prefix SingleStock = SingleStockPrefix"
| "bk_prefix Stocks = StocksPrefix"
| "bk_prefix Owner = OwnerPrefix"
| "bk_prefix GasPool = GasPoolPrefix"

type_synonym bstate = "BokerContext \<times> database"

definition on_bk :: "bk_trie \<Rightarrow> ('a, trie \<times> database) op \<Rightarrow> ('a, bstate) op" where
  "on_bk i f = (\<lambda>(bc, d). let (r, t, d') = f (bk_get i bc, d) in (r, bk_put i t bc, d'))"

definition td_get :: "bytes \<Rightarrow> (bytes option, trie \<times> database) op" where
  "td_get k = (\<lambda>(t, d). let (r, t') = TryGet t d k in (r, t', d))"

definition td_update :: "bytes \<Rightarrow> bytes \<Rightarrow> (unit, trie \<times> database) op" where
  "td_update k v = (\<lambda>(t, d). let (r, t') = TryUpdate t d k v in (r, t', d))"

definition td_delete :: "bytes \<Rightarrow> (unit, trie \<times> database) op" where
  "td_delete k = (\<lambda>(t, d). let (r, t') = TryDelete t d k in (r, t', d))"

definition td_commit :: "(bytes \<Rightarrow> bytes) \<Rightarrow> (hash, trie \<times> database) op" where
  "td_commit H = (\<lambda>(t, d). Commit H t d)"

text \<open>\<open>Update\<close> followed by \<open>Commit\<close>, both logging or dropping their errors, and the variants that return
  the error of the update or deletion.\<close>

definition log_put :: "(bytes \<Rightarrow> bytes) \<Rightarrow> bk_trie \<Rightarrow> bytes \<Rightarrow> bytes \<Rightarrow> (unit, bstate) op" where
  "log_put H i k v = on_bk i (sbind (signore (td_update k v)) (\<lambda>_. signore (td_commit H)))"

definition try_put :: "(bytes \<Rightarrow> bytes) \<Rightarrow> bk_trie \<Rightarrow> bytes \<Rightarrow> bytes \<Rightarrow> (unit, bstate) op" where
  "try_put H i k v = on_bk i (sbind (td_update k v) (\<lambda>_. signore (td_commit H)))"

definition try_del :: "(bytes \<Rightarrow> bytes) \<Rightarrow> bk_trie \<Rightarrow> bytes \<Rightarrow> (unit, bstate) op" where
  "try_del H i k = on_bk i (sbind (td_delete k) (\<lambda>_. signore (td_commit H)))"

definition res_op :: "'a res \<Rightarrow> ('a, 's) op" where
  "res_op r s = (r, s)"

section \<open>Opening, hashing and commit of the whole context\<close>

text \<open>\<open>FromProto\<close> opens the two contract tries with the prefixes of the stock tries.\<close>

definition boker_FromProto :: "database \<Rightarrow> BokerBackendProto \<Rightarrow> (unit, BokerContext) op" where
  "boker_FromProto d p bc =
     (let opn = (\<lambda>i h (mk :: hash \<Rightarrow> bool \<Rightarrow> database \<Rightarrow> trie res) bc.
            case mk h (bc_hasdb bc) d of Inl e \<Rightarrow> (Inl e, bc) | Inr t \<Rightarrow> (Inr (), bk_put i t bc))
      in sbind (opn SingleContracts (SingleHash p) NewSingleStockTrie) (\<lambda>_.
         sbind (opn Contracts (ContractsHash p) NewStocksTrie) (\<lambda>_.
         sbind (opn SingleStock (SingleStockHash p) NewSingleStockTrie) (\<lambda>_.
         sbind (opn Stocks (StocksHash p) NewStocksTrie) (\<lambda>_.
         sbind (opn Owner (OwnerHash p) NewOwnerTrie) (\<lambda>_.
           opn GasPool (GasPoolHash p) NewGasPoolTrie))))) bc)"

definition on_bc :: "bk_trie \<Rightarrow> ('a, trie) op \<Rightarrow> ('a, BokerContext) op" where
  "on_bc i f bc = (let (r, t) = f (bk_get i bc) in (r, bk_put i t bc))"

definition boker_ToProto :: "(bytes \<Rightarrow> bytes) \<Rightarrow> (BokerBackendProto, BokerContext) op" where
  "boker_ToProto H =
     sbind (on_bc SingleContracts (trie_Hash H)) (\<lambda>sc.
     sbind (on_bc Contracts (trie_Hash H)) (\<lambda>c.
     sbind (on_bc SingleStock (trie_Hash H)) (\<lambda>ss.
     sbind (on_bc Stocks (trie_Hash H)) (\<lambda>s.
     sbind (on_bc Owner (trie_Hash H)) (\<lambda>ow.
     sbind (on_bc GasPool (trie_Hash H)) (\<lambda>g.
       sret \<lparr>SingleHash = sc, ContractsHash = c, SingleStockHash = ss, StocksHash = s, OwnerHash = ow, GasPoolHash = g\<rparr>))))))"

definition boker_Root :: "(bytes \<Rightarrow> bytes) \<Rightarrow> (hash, BokerContext) op" where
  "boker_Root H =
     sbind (on_bc SingleContracts (trie_Hash H)) (\<lambda>sc.
     sbind (on_bc Contracts (trie_Hash H)) (\<lambda>c.
     sbind (on_bc SingleStock (trie_Hash H)) (\<lambda>ss.
     sbind (on_bc Stocks (trie_Hash H)) (\<lambda>s.
     sbind (on_bc Owner (trie_Hash H)) (\<lambda>ow.
     sbind (on_bc GasPool (trie_Hash H)) (\<lambda>g.
       sret (H (concat (map (\<lambda>h. EncodeToBytes (Str h)) [sc, c, ss, s, ow, g])))))))))"

definition td_commitTo :: "(bytes \<Rightarrow> bytes) \<Rightarrow> (hash, trie \<times> database) op" where
  "td_commitTo H = (\<lambda>(t, d). CommitTo H t d)"

definition boker_CommitTo :: "(bytes \<Rightarrow> bytes) \<Rightarrow> (BokerBackendProto, bstate) op" where
  "boker_CommitTo H =
     sbind (on_bk SingleContracts (td_commitTo H)) (\<lambda>sc.
     sbind (on_bk Contracts (td_commitTo H)) (\<lambda>c.
     sbind (on_bk SingleStock (td_commitTo H)) (\<lambda>ss.
     sbind (on_bk Stocks (td_commitTo H)) (\<lambda>s.
     sbind (on_bk Owner (td_commitTo H)) (\<lambda>ow.
     sbind (on_bk GasPool (td_commitTo H)) (\<lambda>g.
       sret \<lparr>SingleHash = sc, ContractsHash = c, SingleStockHash = ss, StocksHash = s, OwnerHash = ow, GasPoolHash = g\<rparr>))))))"

section \<open>Accessors of the tries\<close>

text \<open>Common to the list-valued entries: an absent or empty value is the empty list.\<close>

definition read_addresses :: "bytes option \<Rightarrow> address list res" where
  "read_addresses v = (if opt_bytes v \<noteq> [] then decode_addresses (opt_bytes v) else Inr [])"

definition setContractsTrie :: "(bytes \<Rightarrow> bytes) \<Rightarrow> address list \<Rightarrow> (unit, bstate) op" where
  "setContractsTrie H contracts = log_put H Contracts ContractsPrefix (encode_addresses contracts)"

definition getContractsTrie :: "(address list, bstate) op" where
  "getContractsTrie = sbind (on_bk Contracts (td_get ContractsPrefix)) (\<lambda>v. res_op (read_addresses v))"

definition setSingleContractsTrie :: "(bytes \<Rightarrow> bytes) \<Rightarrow> address \<Rightarrow> BaseContractType \<Rightarrow> (unit, bstate) op" where
  "setSingleContractsTrie H a ty = try_put H SingleContracts a (str_bytes (Itoa (uint ty)))"

text \<open>The error of \<open>Atoi\<close> is dropped, so an absent entry reads as 0, the type of system contracts.\<close>

definition getSingleContractsTrie :: "address \<Rightarrow> (BaseContractType, bstate) op" where
  "getSingleContractsTrie a =
     sbind (on_bk SingleContracts (td_get a)) (\<lambda>v. sret (of_int (fst (Atoi (bytes_str (opt_bytes v))))))"

definition deleteSingleContractsTrie :: "(bytes \<Rightarrow> bytes) \<Rightarrow> address \<Rightarrow> (unit, bstate) op" where
  "deleteSingleContractsTrie H a = try_del H SingleContracts a"

definition getStocksTrie :: "(address list, bstate) op" where
  "getStocksTrie =
     scatch (on_bk Stocks (td_get StocksPrefix)) (\<lambda>_. sret [])
       (\<lambda>v. scatch (res_op (read_addresses v)) (\<lambda>_. sret []) sret)"

definition setStocksTrie :: "(bytes \<Rightarrow> bytes) \<Rightarrow> address list \<Rightarrow> (unit, bstate) op" where
  "setStocksTrie H accounts = log_put H Stocks StocksPrefix (encode_addresses accounts)"

definition stock_val :: "StockAccount \<Rightarrow> val" where
  "stock_val s = VStruct [VBytes (Account s), VUint (Number s), VUint (ucast (State s))]"

definition stock_ty :: ty where
  "stock_ty = TStruct [TArray 20, TUint 64, TUint 8]"

fun val_stock :: "val \<Rightarrow> StockAccount res" where
  "val_stock (VStruct [VBytes a, VUint n, VUint s]) = Inr \<lparr>Account = a, Number = n, State = ucast s\<rparr>"
| "val_stock _ = Inl (Panic ''unexpected value'')"

definition setSingleStockTrie :: "(bytes \<Rightarrow> bytes) \<Rightarrow> StockAccount \<Rightarrow> (unit, bstate) op" where
  "setSingleStockTrie H stock = try_put H SingleStock (Account stock) (EncodeToBytes (val_item (stock_val stock)))"

definition getSingleStockTrie :: "address \<Rightarrow> (StockAccount, bstate) op" where
  "getSingleStockTrie a =
     sbind (on_bk SingleStock (td_get a)) (\<lambda>v.
       if opt_bytes v = [] then sthrow (TextError ''Stock Account is Nil'')
       else res_op (rbind (DecodeBytes stock_ty (opt_bytes v)) val_stock))"

text \<open>\<open>stockExists\<close> decodes into a nil pointer, which \<open>Stream.Decode\<close> refuses for every input.\<close>

definition decode_into_nil :: "bytes \<Rightarrow> unit res" where
  "decode_into_nil b = Inl (RlpError ErrDecodeIntoNil)"

definition stockExists :: "address \<Rightarrow> (bool, bstate) op" where
  "stockExists a =
     scatch (on_bk SingleStock (td_get a)) (\<lambda>_. sret False)
       (\<lambda>v. if opt_bytes v = [] then sret False
            else scatch (res_op (decode_into_nil (opt_bytes v))) (\<lambda>_. sret False) (\<lambda>_. sret True))"

definition deleteSingleStockTrie :: "(bytes \<Rightarrow> bytes) \<Rightarrow> address \<Rightarrow> (unit, bstate) op" where
  "deleteSingleStockTrie H a = try_del H SingleStock a"

definition getGasPoolTrie :: "(u64, bstate) op" where
  "getGasPoolTrie =
     sbind (on_bk GasPool (td_get GasPoolPrefix)) (\<lambda>v.
       if opt_bytes v = [] then sret 0
       else res_op (rbind (DecodeBytes TBig (opt_bytes v))
              (\<lambda>x. case x of VBig n \<Rightarrow> Inr (of_nat n) | _ \<Rightarrow> Inl (Panic ''unexpected value''))))"

text \<open>When reading the pool back fails, \<open>setGasPoolTrie\<close> returns the error of the encoder, which is nil.\<close>

definition setGasPoolTrie :: "(bytes \<Rightarrow> bytes) \<Rightarrow> u64 \<Rightarrow> (unit, bstate) op" where
  "setGasPoolTrie H gas =
     sbind (log_put H GasPool GasPoolPrefix (EncodeToBytes (Str (nat_be (unat gas))))) (\<lambda>_. signore getGasPoolTrie)"

definition setOwnerTrie :: "(bytes \<Rightarrow> bytes) \<Rightarrow> address \<Rightarrow> (unit, bstate) op" where
  "setOwnerTrie H a = log_put H Owner OwnerPrefix (EncodeToBytes (Str a))"

definition getOwnerTrie :: "(address, bstate) op" where
  "getOwnerTrie =
     sbind (on_bk Owner (td_get OwnerPrefix)) (\<lambda>v.
       if opt_bytes v = [] then sret zero_address
       else res_op (rbind (DecodeBytes (TArray 20) (opt_bytes v)) (\<lambda>x. Inr (val_bytes x))))"

section \<open>The gas pool and the stock manager\<close>

definition GetGasPool :: "(u64, bstate) op" where
  "GetGasPool = scatch getGasPoolTrie (\<lambda>_. sret 0) sret"

definition AddGasPool :: "(bytes \<Rightarrow> bytes) \<Rightarrow> u64 \<Rightarrow> (u64, bstate) op" where
  "AddGasPool H gas =
     sbind GetGasPool (\<lambda>pool. sbind (signore (setGasPoolTrie H (pool + gas))) (\<lambda>_. sret (pool + gas)))"

definition GetStockManager :: "(address, bstate) op" where
  "GetStockManager = scatch getOwnerTrie (\<lambda>_. sret zero_address) sret"

text \<open>\<open>SetStockManager\<close> also reads the consensus context.\<close>

definition on_boker :: "('a, bstate) op \<Rightarrow> ('a, bstate \<times> DposContext) op" where
  "on_boker f = (\<lambda>(s, dc). let (r, s') = f s in (r, s', dc))"

definition on_dpos :: "(database \<Rightarrow> ('a, DposContext) op) \<Rightarrow> ('a, bstate \<times> DposContext) op" where
  "on_dpos f = (\<lambda>((bc, d), dc). let (r, dc') = f d dc in (r, (bc, d), dc'))"

definition SetStockManager :: "(bytes \<Rightarrow> bytes) \<Rightarrow> address \<Rightarrow> address \<Rightarrow> int \<Rightarrow> (unit, bstate \<times> DposContext) op" where
  "SetStockManager H operation a now =
     sbind (on_boker GetStockManager) (\<lambda>owner.
     sbind (if owner = zero_address then
              scatch (on_dpos (\<lambda>d. GetCurrentNowProducer d 0 now)) (\<lambda>_. sthrow (ProtocolError ErrInvalidProducer))
                (\<lambda>producer. if producer \<noteq> operation then sthrow (ProtocolError ErrInvalidProducer)
                             else on_boker (signore (setOwnerTrie H a)))
            else on_boker (signore (setOwnerTrie H a))) (\<lambda>_.
       on_boker (sbind GetStockManager (\<lambda>_. sret ()))))"

section \<open>Stock\<close>

text \<open>\<open>GetStock\<close> returns nil on any error.\<close>

definition GetStock :: "address \<Rightarrow> (StockAccount option, bstate) op" where
  "GetStock a = scatch (getSingleStockTrie a) (\<lambda>_. sret None) (\<lambda>s. sret (Some s))"

fun get_stocks :: "address list \<Rightarrow> (StockAccount list, bstate) op" where
  "get_stocks [] = sret []"
| "get_stocks (a # as) =
     sbind (GetStock a) (\<lambda>s. sbind (get_stocks as) (\<lambda>ss.
       sret (case s of None \<Rightarrow> ss | Some x \<Rightarrow> x # ss)))"

definition GetStocks :: "(StockAccount list, bstate) op" where
  "GetStocks = sbind getStocksTrie get_stocks"

abbreviation fails :: "('a, 's) op \<Rightarrow> string \<Rightarrow> ('a, 's) op" where
  "fails m msg \<equiv> scatch m (\<lambda>_. sthrow (TextError msg)) sret"

definition SetStock :: "(bytes \<Rightarrow> bytes) \<Rightarrow> address \<Rightarrow> address \<Rightarrow> u64 \<Rightarrow> (unit, bstate) op" where
  "SetStock H operation a number =
     sbind GetStockManager (\<lambda>owner.
       if owner \<noteq> operation then sthrow (TextError ''Operation Account Is not Owner'')
       else sbind (stockExists a) (\<lambda>exists.
         if exists then sthrow (TextError ''Stock Account is not Nil'')
         else sbind getStocksTrie (\<lambda>stockAccounts.
              sbind (fails (setStocksTrie H (stockAccounts @ [a])) ''Stock Account is not Nil'') (\<lambda>_.
              sbind getStocksTrie (\<lambda>_.
              sbind (fails (setSingleStockTrie H \<lparr>Account = a, Number = number, State = Run\<rparr>) ''Stock Account is not Nil'') (\<lambda>_.
              sbind (fails (getSingleStockTrie a) ''Stock Account is not Nil'') (\<lambda>_. sret ())))))))"

text \<open>The reduced \<open>fromStock\<close> is a local copy that is not stored, the result of \<open>SetStock\<close> is dropped, and nothing
  happens when the receiver already holds stock.\<close>

definition TransferStock :: "(bytes \<Rightarrow> bytes) \<Rightarrow> address \<Rightarrow> address \<Rightarrow> u64 \<Rightarrow> (unit, bstate) op" where
  "TransferStock H from to number =
     sbind (GetStock from) (\<lambda>fromStock.
       case fromStock of
         None \<Rightarrow> sthrow (TextError ''From Account Not Found Stock'')
       | Some f \<Rightarrow>
           if State f = Frozen then sthrow (TextError ''From Stock State Frozen'')
           else if Number f < number then sthrow (TextError ''From Stock Number Too Low'')
           else sbind (GetStock to) (\<lambda>toStock.
                  if toStock = None then signore (SetStock H from to number) else sret ()))"

text \<open>The position defaults to 0 when the account is not in the list; slicing an empty list panics.\<close>

fun position_of :: "address \<Rightarrow> address list \<Rightarrow> nat option" where
  "position_of a [] = None"
| "position_of a (x # xs) = (if x = a then Some 0 else map_option Suc (position_of a xs))"

definition remove_at :: "nat \<Rightarrow> address list \<Rightarrow> address list res" where
  "remove_at p xs =
     (if p + 1 \<le> length xs then Inr (take p xs @ drop (p + 1) xs) else Inl (Panic ''slice bounds out of range''))"

definition CleanStock :: "(bytes \<Rightarrow> bytes) \<Rightarrow> address \<Rightarrow> address \<Rightarrow> (unit, bstate) op" where
  "CleanStock H operation from =
     sbind GetStockManager (\<lambda>owner.
       if owner \<noteq> operation then sthrow (TextError ''Operation Account Is not Owner'')
       else sbind (GetStock from) (\<lambda>fromStock.
         if fromStock = None then sthrow (TextError ''From Account Not Found Stock'')
         else sbind (signore (deleteSingleStockTrie H from)) (\<lambda>_.
              sbind getStocksTrie (\<lambda>stockAccounts.
              sbind (res_op (remove_at (case position_of from stockAccounts of Some p \<Rightarrow> p | None \<Rightarrow> 0) stockAccounts)) (\<lambda>rest.
                signore (setStocksTrie H rest))))))"

definition FrozenStock :: "(bytes \<Rightarrow> bytes) \<Rightarrow> address \<Rightarrow> address \<Rightarrow> (unit, bstate) op" where
  "FrozenStock H operation from =
     sbind GetStockManager (\<lambda>owner.
       if owner \<noteq> operation then sthrow (TextError ''Operation Account Is not Owner'')
       else sbind (GetStock from) (\<lambda>fromStock.
         case fromStock of None \<Rightarrow> sthrow (TextError ''From Account Not Found Stock'')
         | Some f \<Rightarrow> signore (setSingleStockTrie H (f\<lparr>State := Frozen\<rparr>))))"

definition UnFrozenStock :: "(bytes \<Rightarrow> bytes) \<Rightarrow> address \<Rightarrow> address \<Rightarrow> (unit, bstate) op" where
  "UnFrozenStock H operation from =
     sbind GetStockManager (\<lambda>owner.
       if owner \<noteq> operation then sthrow (TextError ''Operation Account Is not Owner'')
       else sbind (GetStock from) (\<lambda>fromStock.
         case fromStock of None \<Rightarrow> sthrow (TextError ''From Account Not Found Stock'')
         | Some f \<Rightarrow> signore (setSingleStockTrie H (f\<lparr>State := Run\<rparr>))))"

section \<open>Base contracts\<close>

definition existContract :: "address \<Rightarrow> (bool, bstate) op" where
  "existContract a =
     scatch getContractsTrie (\<lambda>_. sthrow (ProtocolError ErrNotFoundContract))
       (\<lambda>contracts. if a \<in> set contracts then sret True else sthrow (ProtocolError ErrNotFoundContract))"

fun first_system :: "address list \<Rightarrow> (address, bstate) op" where
  "first_system [] = sthrow (ProtocolError ErrNotFoundContract)"
| "first_system (v # vs) =
     sbind (getSingleContractsTrie v) (\<lambda>ty. if ty = System then sret v else first_system vs)"

definition GetSystemContractAddress :: "(address, bstate) op" where
  "GetSystemContractAddress = sbind getContractsTrie first_system"

definition SetSystemContract :: "(bytes \<Rightarrow> bytes) \<Rightarrow> address \<Rightarrow> address \<Rightarrow> (unit, bstate) op" where
  "SetSystemContract H a from =
     sbind getContractsTrie (\<lambda>contracts.
       if a \<in> set contracts then sthrow (ProtocolError ErrContractExist)
       else sbind (scatch (getSingleContractsTrie a) (\<lambda>_. sret System) sret) (\<lambda>ty.
         if ty = System then sthrow (ProtocolError ErrContractExist)
         else sbind (setSingleContractsTrie H a System) (\<lambda>_. setContractsTrie H (contracts @ [a]))))"

definition SetUserBaseContract :: "(bytes \<Rightarrow> bytes) \<Rightarrow> address \<Rightarrow> address \<Rightarrow> (unit, bstate) op" where
  "SetUserBaseContract H a from =
     sbind getContractsTrie (\<lambda>contracts.
       if a \<in> set contracts then sthrow (ProtocolError ErrContractExist)
       else sbind (setSingleContractsTrie H a User) (\<lambda>_. setContractsTrie H (contracts @ [a])))"

definition CancelUserBaseContract :: "(bytes \<Rightarrow> bytes) \<Rightarrow> address \<Rightarrow> address \<Rightarrow> (unit, bstate) op" where
  "CancelUserBaseContract H a from =
     sbind getContractsTrie (\<lambda>contracts.
       case position_of a contracts of
         None \<Rightarrow> sthrow (ProtocolError ErrNotFoundContract)
       | Some p \<Rightarrow>
           sbind (scatch (getSingleContractsTrie a) (\<lambda>_. sret System) sret) (\<lambda>ty.
             if ty \<noteq> User then sthrow (ProtocolError ErrNotFoundContract)
             else sbind (deleteSingleContractsTrie H a) (\<lambda>_.
                  sbind (res_op (remove_at p contracts)) (\<lambda>rest. setContractsTrie H rest))))"

section \<open>The abstract state\<close>

record bk_abs =
  a_ctype :: "address \<rightharpoonup> BaseContractType"
  a_contracts :: "address list option"
  a_stock :: "address \<rightharpoonup> u64 \<times> StockState"
  a_stocks :: "address list option"
  a_owner :: "address option"
  a_pool :: "u64 option"

definition bk_empty :: bk_abs where
  "bk_empty = \<lparr>a_ctype = Map.empty, a_contracts = None, a_stock = Map.empty, a_stocks = None, a_owner = None, a_pool = None\<rparr>"

definition contracts_of :: "bk_abs \<Rightarrow> address list" where
  "contracts_of a = (case a_contracts a of None \<Rightarrow> [] | Some l \<Rightarrow> l)"

definition stocks_of :: "bk_abs \<Rightarrow> address list" where
  "stocks_of a = (case a_stocks a of None \<Rightarrow> [] | Some l \<Rightarrow> l)"

definition owner_of :: "bk_abs \<Rightarrow> address" where
  "owner_of a = (case a_owner a of None \<Rightarrow> zero_address | Some x \<Rightarrow> x)"

definition pool_of :: "bk_abs \<Rightarrow> u64" where
  "pool_of a = (case a_pool a of None \<Rightarrow> 0 | Some n \<Rightarrow> n)"

definition stock_of :: "bk_abs \<Rightarrow> address \<Rightarrow> StockAccount option" where
  "stock_of a x = map_option (\<lambda>(n, st). \<lparr>Account = x, Number = n, State = st\<rparr>) (a_stock a x)"

definition type_rlp :: "BaseContractType \<Rightarrow> bytes" where
  "type_rlp ty = str_bytes (Itoa (uint ty))"

definition stock_rlp :: "StockAccount \<Rightarrow> bytes" where
  "stock_rlp s = EncodeToBytes (val_item (stock_val s))"

definition pool_rlp :: "u64 \<Rightarrow> bytes" where
  "pool_rlp n = EncodeToBytes (Str (nat_be (unat n)))"

definition owner_rlp :: "address \<Rightarrow> bytes" where
  "owner_rlp x = EncodeToBytes (Str x)"

definition entry :: "bytes \<Rightarrow> bytes option \<Rightarrow> (bytes \<rightharpoonup> bytes)" where
  "entry k v = Map.empty(k := v)"

text \<open>What each trie holds for an abstract state.\<close>

fun bk_map :: "bk_abs \<Rightarrow> bk_trie \<Rightarrow> (bytes \<rightharpoonup> bytes)" where
  "bk_map a SingleContracts = (\<lambda>x. map_option type_rlp (a_ctype a x))"
| "bk_map a Contracts = entry ContractsPrefix (map_option encode_addresses (a_contracts a))"
| "bk_map a SingleStock = (\<lambda>x. map_option stock_rlp (stock_of a x))"
| "bk_map a Stocks = entry StocksPrefix (map_option encode_addresses (a_stocks a))"
| "bk_map a Owner = entry OwnerPrefix (map_option owner_rlp (a_owner a))"
| "bk_map a GasPool = entry GasPoolPrefix (map_option pool_rlp (a_pool a))"

definition abs_ok :: "bk_abs \<Rightarrow> bool" where
  "abs_ok a \<longleftrightarrow> (\<forall>x \<in> dom (a_ctype a). is_address x) \<and> (\<forall>x \<in> dom (a_stock a). is_address x)
     \<and> valid_addresses (contracts_of a) \<and> valid_addresses (stocks_of a) \<and> is_address (owner_of a)"

definition covers_abs :: "(bytes \<Rightarrow> bytes) \<Rightarrow> bytes set \<Rightarrow> bk_abs \<Rightarrow> bool" where
  "covers_abs H U a \<longleftrightarrow> (\<forall>i. covers H U (bk_prefix i) (bk_map a i))"

definition bk_view :: "(bytes \<Rightarrow> bytes) \<Rightarrow> bytes set \<Rightarrow> bstate \<Rightarrow> bk_abs \<Rightarrow> bool" where
  "bk_view H U s a \<longleftrightarrow> sound_db H U (snd s) \<and> abs_ok a \<and> covers_abs H U a
     \<and> (\<forall>i. stores H (snd s) (bk_prefix i) (bk_get i (fst s)) (bk_map a i))"

section \<open>Reading and writing one trie\<close>

lemma bk_get_put [simp]: "bk_get j (bk_put i t bc) = (if j = i then t else bk_get j bc)"
  by (cases i; cases j) simp_all

lemma on_bk_get:
  assumes "bk_view H U s a"
  shows "\<exists>s'. on_bk i (td_get k) s = (Inr (bk_map a i k), s') \<and> bk_view H U s' a \<and> snd s' = snd s"
proof -
  obtain bc d where s: "s = (bc, d)" by (cases s)
  obtain t where "TryGet (bk_get i bc) d k = (Inr (bk_map a i k), t)" "stores H d (bk_prefix i) t (bk_map a i)"
    using TryGet_stores [of H d "bk_prefix i" "bk_get i bc" "bk_map a i" k] assms s by (auto simp: bk_view_def)
  then show ?thesis using assms s by (auto simp: on_bk_def td_get_def bk_view_def)
qed

lemma view_after_commit:
  assumes "bk_view H U (bc, d) a" "abs_ok a'" "covers_abs H U a'"
    and "stores H d (bk_prefix i) t (bk_map a' i)" "\<And>j. j \<noteq> i \<Longrightarrow> bk_map a' j = bk_map a j"
  shows "\<exists>h t' d'. Commit H t d = (Inr h, t', d') \<and> bk_view H U (bk_put i t' bc, d') a' \<and> d \<subseteq>\<^sub>m d'"
proof -
  have "sound_db H U d" "covers H U (bk_prefix i) (bk_map a' i)"
    using assms(1,3) by (simp_all add: bk_view_def covers_abs_def)
  from CommitTo_stores [OF assms(4) this] obtain h t' d' where
    c: "Commit H t d = (Inr h, t', d')" "d \<subseteq>\<^sub>m d'" "sound_db H U d'" "stores H d' (bk_prefix i) t' (bk_map a' i)" by blast
  have "stores H d' (bk_prefix j) (bk_get j bc) (bk_map a' j)" if "j \<noteq> i" for j
    using assms(1) assms(5) [OF that] stores_mono [OF c(2)] by (auto simp: bk_view_def)
  then have "bk_view H U (bk_put i t' bc, d') a'"
    using c(3,4) assms(2,3) by (simp add: bk_view_def)
  then show ?thesis using c(1,2) by blast
qed

definition sets :: "bk_abs \<Rightarrow> bk_trie \<Rightarrow> bytes \<Rightarrow> bytes option \<Rightarrow> bk_abs \<Rightarrow> bool" where
  "sets a i k v a' \<longleftrightarrow> bk_map a' i = (bk_map a i)(k := v) \<and> (\<forall>j. j \<noteq> i \<longrightarrow> bk_map a' j = bk_map a j)"

lemma put_view:
  assumes "bk_view H U s a" "abs_ok a'" "covers_abs H U a'" "sets a i k (Some v) a'"
    and "short_key k" "small_value v" "v \<noteq> []"
  shows "\<exists>s'. log_put H i k v s = (Inr (), s') \<and> try_put H i k v s = (Inr (), s') \<and> bk_view H U s' a' \<and> snd s \<subseteq>\<^sub>m snd s'"
proof -
  obtain bc d where s: "s = (bc, d)" by (cases s)
  have st: "stores H d (bk_prefix i) (bk_get i bc) (bk_map a i)" using assms(1) s by (simp add: bk_view_def)
  obtain t where t: "TryUpdate (bk_get i bc) d k v = (Inr (), t)" "stores H d (bk_prefix i) t (bk_map a' i)"
    using TryUpdate_stores [OF st assms(5-7)] assms(4) by (auto simp: sets_def)
  obtain h t' d' where c: "Commit H t d = (Inr h, t', d')" "bk_view H U (bk_put i t' bc, d') a'" "d \<subseteq>\<^sub>m d'"
    using view_after_commit [OF assms(1) [unfolded s] assms(2,3) t(2)] assms(4) by (auto simp: sets_def)
  have u: "td_update k v (bk_get i bc, d) = (Inr (), t, d)" "td_commit H (t, d) = (Inr h, t', d')"
    using t(1) c(1) by (simp_all add: td_update_def td_commit_def)
  have "sbind (td_update k v) (\<lambda>_. signore (td_commit H)) (bk_get i bc, d) = (Inr (), t', d')"
    "sbind (signore (td_update k v)) (\<lambda>_. signore (td_commit H)) (bk_get i bc, d) = (Inr (), t', d')"
    using u by simp_all
  then show ?thesis using c(2,3) s by (auto simp: log_put_def try_put_def on_bk_def)
qed

lemma del_view:
  assumes "bk_view H U s a" "abs_ok a'" "covers_abs H U a'" "sets a i k None a'"
  shows "\<exists>s'. try_del H i k s = (Inr (), s') \<and> bk_view H U s' a' \<and> snd s \<subseteq>\<^sub>m snd s'"
proof -
  obtain bc d where s: "s = (bc, d)" by (cases s)
  have st: "stores H d (bk_prefix i) (bk_get i bc) (bk_map a i)" using assms(1) s by (simp add: bk_view_def)
  obtain t where t: "TryDelete (bk_get i bc) d k = (Inr (), t)" "stores H d (bk_prefix i) t (bk_map a' i)"
    using TryDelete_stores [OF st, of k] assms(4) by (auto simp: sets_def)
  obtain h t' d' where c: "Commit H t d = (Inr h, t', d')" "bk_view H U (bk_put i t' bc, d') a'" "d \<subseteq>\<^sub>m d'"
    using view_after_commit [OF assms(1) [unfolded s] assms(2,3) t(2)] assms(4) by (auto simp: sets_def)
  have "td_delete k (bk_get i bc, d) = (Inr (), t, d)" "td_commit H (t, d) = (Inr h, t', d')"
    using t(1) c(1) by (simp_all add: td_delete_def td_commit_def)
  then have "sbind (td_delete k) (\<lambda>_. signore (td_commit H)) (bk_get i bc, d) = (Inr (), t', d')" by simp
  then show ?thesis using c(2,3) s by (auto simp: try_del_def on_bk_def)
qed

section \<open>Stored values read back\<close>

lemma bytes_str_Nil [simp]: "bytes_str [] = []"
  by (simp add: bytes_str_def)

lemma length_encodeString_small: "length b \<le> 20 \<Longrightarrow> length (encodeString b) \<le> 21"
  by (auto simp: encodeString_def encodeStringHeader_def)

lemma length_nat_be_u64: "length (nat_be (unat (n::u64))) \<le> 20"
  using length_nat_be_le [of "unat n" 8] unat_lt_64 [of n] by simp

lemma encoded_string:
  assumes "length b \<le> 20"
  shows "EncodeToBytes (Str b) = encodeString b" "small_value (EncodeToBytes (Str b))" "EncodeToBytes (Str b) \<noteq> []"
proof -
  have l: "length (encode_item (Str b)) \<le> 21" using length_encodeString_small [OF assms] by simp
  then show e: "EncodeToBytes (Str b) = encodeString b" using EncodeToBytes_reference(1) [of "Str b"] by simp
  show "small_value (EncodeToBytes (Str b))" "EncodeToBytes (Str b) \<noteq> []"
    using l length_enc_pos [of "Str b"] unfolding e by (auto simp: small_value_def)
qed

lemma pool_roundtrip: "DecodeBytes TBig (pool_rlp n) = Inr (VBig (unat n))"
  using DecodeBytes_encoded [of TBig "VBig (unat n)"] length_encodeString_small [OF length_nat_be_u64 [of n]]
  by (simp add: pool_rlp_def)

lemma owner_roundtrip: "is_address x \<Longrightarrow> DecodeBytes (TArray 20) (owner_rlp x) = Inr (VBytes x)"
  using DecodeBytes_encoded [of "TArray 20" "VBytes x"] length_encodeString_small [of x]
  by (simp add: owner_rlp_def)

lemma stock_item_length:
  assumes "is_address (Account s)"
  shows "length (encode_item (val_item (stock_val s))) \<le> 72"
proof -
  let ?p = "concat (map encode_item (map val_item [VBytes (Account s), VUint (Number s), VUint (ucast (State s))]))"
  have "length ?p \<le> 63"
    using assms length_encodeString_small [of "Account s"] length_encodeString_small [OF length_nat_be_u64 [of "Number s"]]
      length_encodeString_small [OF length_nat_be_u64 [of "ucast (State s)"]] by simp
  moreover have "encode_item (val_item (stock_val s)) = puthead 0xC0 0xF7 (of_nat (length ?p)) @ ?p"
    by (simp add: stock_val_def)
  moreover have "length (puthead 0xC0 0xF7 (of_nat (length ?p))) \<le> 9" by (rule length_puthead_le)
  ultimately show ?thesis by (simp only: length_append)
qed

lemma stock_roundtrip:
  assumes "is_address (Account s)"
  shows "DecodeBytes stock_ty (stock_rlp s) = Inr (stock_val s)" "small_value (stock_rlp s)" "stock_rlp s \<noteq> []"
proof -
  have l: "length (encode_item (val_item (stock_val s))) \<le> 72" by (rule stock_item_length [OF assms])
  have "unat (Number s) < 2 ^ 64" "unat (ucast (State s) :: u64) < 2 ^ 8"
    using unat_lt_64 [of "Number s"] unat_byte_less [of "State s"] by simp_all
  then have "has_ty stock_ty (stock_val s)" using assms by (simp add: stock_ty_def stock_val_def)
  then show "DecodeBytes stock_ty (stock_rlp s) = Inr (stock_val s)"
    unfolding stock_rlp_def by (rule DecodeBytes_encoded) (use l in simp)
  show "small_value (stock_rlp s)" "stock_rlp s \<noteq> []"
    using l length_enc_pos [of "val_item (stock_val s)"] EncodeToBytes_reference(1) [of "val_item (stock_val s)"]
    by (auto simp: stock_rlp_def small_value_def)
qed

lemma ucast_byte_u64: "ucast (ucast (b::byte) :: u64) = b"
  using unat_byte_less [of b] by (simp add: word_unat_eq_iff unat_ucast_u64_byte)

lemma val_stock_val: "val_stock (stock_val s) = Inr s"
  by (cases s) (simp add: stock_val_def ucast_byte_u64)

lemma type_roundtrip: "of_int (fst (Atoi (bytes_str (type_rlp ty)))) = ty" "type_rlp ty \<noteq> []" "small_value (type_rlp ty)"
proof -
  have r: "0 \<le> uint ty" "uint ty < 256" using uint_lt2p [of ty] by simp_all
  have "- (2 ^ 63) \<le> (0::int)" "(256::int) < 2 ^ 63" by simp_all
  with r have "- (2 ^ 63) \<le> uint ty" "uint ty < 2 ^ 63" by (blast intro: order_trans less_trans)+
  then have "Atoi (Itoa (uint ty)) = (uint ty, None)" by (rule Atoi_Itoa)
  then show "of_int (fst (Atoi (bytes_str (type_rlp ty)))) = ty" by (simp add: type_rlp_def)
  have "length (Itoa (uint ty)) \<le> Suc 2" unfolding Itoa_def using r length_nat_str [of "unat ty" 2] unat_byte_less [of ty] by auto
  then show "type_rlp ty \<noteq> []" "small_value (type_rlp ty)" by (simp_all add: type_rlp_def small_value_def)
qed

lemma read_addresses_entry:
  assumes "valid_addresses (case l of None \<Rightarrow> [] | Some x \<Rightarrow> x)"
  shows "read_addresses (map_option encode_addresses l) = Inr (case l of None \<Rightarrow> [] | Some x \<Rightarrow> x)"
  using assms decode_encode_addresses encode_addresses_small
  by (auto simp: read_addresses_def opt_bytes_def split: option.splits)

section \<open>The accessors on the abstract state\<close>

lemma sbind_read:
  assumes "\<exists>s'. m s = (Inr x, s') \<and> P s'" "\<And>s'. P s' \<Longrightarrow> \<exists>s''. f x s' = (r, s'') \<and> Q s''"
  shows "\<exists>s''. sbind m f s = (r, s'') \<and> Q s''"
  using assms by fastforce

lemma getContractsTrie_view:
  assumes "bk_view H U s a"
  shows "\<exists>s'. getContractsTrie s = (Inr (contracts_of a), s') \<and> bk_view H U s' a"
proof -
  have "valid_addresses (contracts_of a)" using assms by (simp add: bk_view_def abs_ok_def)
  then have r: "read_addresses (bk_map a Contracts ContractsPrefix) = Inr (contracts_of a)"
    using read_addresses_entry [of "a_contracts a"] by (simp add: contracts_of_def entry_def)
  from on_bk_get [OF assms, of Contracts ContractsPrefix] obtain s' where
    "on_bk Contracts (td_get ContractsPrefix) s = (Inr (bk_map a Contracts ContractsPrefix), s')" "bk_view H U s' a" by blast
  then show ?thesis by (simp add: getContractsTrie_def res_op_def r del: bk_map.simps)
qed

lemma getStocksTrie_view:
  assumes "bk_view H U s a"
  shows "\<exists>s'. getStocksTrie s = (Inr (stocks_of a), s') \<and> bk_view H U s' a"
proof -
  have "valid_addresses (stocks_of a)" using assms by (simp add: bk_view_def abs_ok_def)
  then have r: "read_addresses (bk_map a Stocks StocksPrefix) = Inr (stocks_of a)"
    using read_addresses_entry [of "a_stocks a"] by (simp add: stocks_of_def entry_def)
  from on_bk_get [OF assms, of Stocks StocksPrefix] obtain s' where
    "on_bk Stocks (td_get StocksPrefix) s = (Inr (bk_map a Stocks StocksPrefix), s')" "bk_view H U s' a" by blast
  then show ?thesis by (simp add: getStocksTrie_def res_op_def scatch_def sret_def r del: bk_map.simps)
qed

lemma getSingleContractsTrie_view:
  assumes "bk_view H U s a"
  shows "\<exists>s'. getSingleContractsTrie x s = (Inr (case a_ctype a x of None \<Rightarrow> System | Some ty \<Rightarrow> ty), s') \<and> bk_view H U s' a"
proof -
  from on_bk_get [OF assms, of SingleContracts x] obtain s' where
    "on_bk SingleContracts (td_get x) s = (Inr (map_option type_rlp (a_ctype a x)), s')" "bk_view H U s' a" by auto
  then show ?thesis
    by (cases "a_ctype a x") (auto simp: getSingleContractsTrie_def sret_def opt_bytes_def type_roundtrip protocol_simps
        intro: exI [of _ s'])
qed

lemma stock_of_address: "bk_view H U s a \<Longrightarrow> stock_of a x = Some f \<Longrightarrow> is_address x \<and> Account f = x"
  by (auto simp: bk_view_def abs_ok_def stock_of_def dom_def)

lemma GetStock_view:
  assumes "bk_view H U s a"
  shows "\<exists>s'. getSingleStockTrie x s = (case stock_of a x of None \<Rightarrow> Inl (TextError ''Stock Account is Nil'') | Some f \<Rightarrow> Inr f, s')
    \<and> GetStock x s = (Inr (stock_of a x), s') \<and> bk_view H U s' a"
proof -
  from on_bk_get [OF assms, of SingleStock x] obtain s' where
    g: "on_bk SingleStock (td_get x) s = (Inr (map_option stock_rlp (stock_of a x)), s')" "bk_view H U s' a" by auto
  show ?thesis
  proof (cases "stock_of a x")
    case None
    then have "getSingleStockTrie x s = (Inl (TextError ''Stock Account is Nil''), s')"
      using g by (simp add: getSingleStockTrie_def opt_bytes_def sthrow_def)
    then show ?thesis using g(2) None by (simp add: GetStock_def scatch_Inl sret_def)
  next
    case (Some f)
    have "is_address (Account f)" using stock_of_address [OF assms Some] by simp
    then have "getSingleStockTrie x s = (Inr f, s')"
      using g Some stock_roundtrip [of f] by (simp add: getSingleStockTrie_def opt_bytes_def res_op_def val_stock_val)
    then show ?thesis using g(2) Some by (simp add: GetStock_def sret_def)
  qed
qed

lemma stockExists_False:
  assumes "bk_view H U s a"
  shows "\<exists>s'. stockExists x s = (Inr False, s') \<and> bk_view H U s' a"
proof -
  from on_bk_get [OF assms, of SingleStock x] obtain s' where
    "on_bk SingleStock (td_get x) s = (Inr (map_option stock_rlp (stock_of a x)), s')" "bk_view H U s' a" by auto
  then show ?thesis
    by (intro exI [of _ s']) (simp add: stockExists_def sret_def scatch_def res_op_def decode_into_nil_def)
qed

lemma GetGasPool_view:
  assumes "bk_view H U s a"
  shows "\<exists>s'. getGasPoolTrie s = (Inr (pool_of a), s') \<and> GetGasPool s = (Inr (pool_of a), s') \<and> bk_view H U s' a"
proof -
  from on_bk_get [OF assms, of GasPool GasPoolPrefix] obtain s' where
    g: "on_bk GasPool (td_get GasPoolPrefix) s = (Inr (map_option pool_rlp (a_pool a)), s')" "bk_view H U s' a"
    by (auto simp: entry_def)
  have "pool_rlp n \<noteq> []" for n using encoded_string(3) [OF length_nat_be_u64] by (simp add: pool_rlp_def)
  then have "getGasPoolTrie s = (Inr (pool_of a), s')"
    using g by (cases "a_pool a") (simp_all add: getGasPoolTrie_def opt_bytes_def pool_of_def sret_def res_op_def pool_roundtrip)
  then show ?thesis using g(2) by (simp add: GetGasPool_def sret_def)
qed

lemma GetStockManager_view:
  assumes "bk_view H U s a"
  shows "\<exists>s'. GetStockManager s = (Inr (owner_of a), s') \<and> bk_view H U s' a"
proof -
  from on_bk_get [OF assms, of Owner OwnerPrefix] obtain s' where
    g: "on_bk Owner (td_get OwnerPrefix) s = (Inr (map_option owner_rlp (a_owner a)), s')" "bk_view H U s' a"
    by (auto simp: entry_def)
  have ad: "is_address (owner_of a)" using assms by (simp add: bk_view_def abs_ok_def)
  have "getOwnerTrie s = (Inr (owner_of a), s')"
    using g ad owner_roundtrip encoded_string(3)
    by (cases "a_owner a") (simp_all add: getOwnerTrie_def opt_bytes_def owner_of_def sret_def res_op_def owner_rlp_def)
  then show ?thesis using g(2) by (simp add: GetStockManager_def sret_def)
qed

section \<open>The setters on the abstract state\<close>

lemma stock_of_update [simp]:
  "stock_of (a\<lparr>a_ctype := c\<rparr>) = stock_of a" "stock_of (a\<lparr>a_contracts := l\<rparr>) = stock_of a"
  "stock_of (a\<lparr>a_stocks := l\<rparr>) = stock_of a" "stock_of (a\<lparr>a_owner := w\<rparr>) = stock_of a" "stock_of (a\<lparr>a_pool := g\<rparr>) = stock_of a"
  by (simp_all add: stock_of_def fun_eq_iff)

lemma entry_upd: "(entry k v)(k := w) = entry k w"
  by (simp add: entry_def)

lemma all_bk_trie: "(\<forall>i. P i) \<longleftrightarrow> P SingleContracts \<and> P Contracts \<and> P SingleStock \<and> P Stocks \<and> P Owner \<and> P GasPool"
  by (metis bk_trie.exhaust)

lemma sets_fields:
  "sets a Stocks StocksPrefix (Some (encode_addresses l)) (a\<lparr>a_stocks := Some l\<rparr>)"
  "sets a Contracts ContractsPrefix (Some (encode_addresses l)) (a\<lparr>a_contracts := Some l\<rparr>)"
  "sets a Owner OwnerPrefix (Some (owner_rlp x)) (a\<lparr>a_owner := Some x\<rparr>)"
  "sets a GasPool GasPoolPrefix (Some (pool_rlp n)) (a\<lparr>a_pool := Some n\<rparr>)"
  "sets a SingleContracts x (map_option type_rlp ty) (a\<lparr>a_ctype := (a_ctype a)(x := ty)\<rparr>)"
  "sets a SingleStock x (map_option (\<lambda>(n, st). stock_rlp \<lparr>Account = x, Number = n, State = st\<rparr>) nst)
     (a\<lparr>a_stock := (a_stock a)(x := nst)\<rparr>)"
  by (simp_all add: sets_def all_bk_trie entry_upd, auto simp: stock_of_def fun_eq_iff option.map_comp comp_def split_def)

lemma abs_ok_fields:
  assumes "abs_ok a"
  shows "valid_addresses l \<Longrightarrow> abs_ok (a\<lparr>a_stocks := Some l\<rparr>)" "valid_addresses l \<Longrightarrow> abs_ok (a\<lparr>a_contracts := Some l\<rparr>)"
    "is_address x \<Longrightarrow> abs_ok (a\<lparr>a_owner := Some x\<rparr>)" "abs_ok (a\<lparr>a_pool := g\<rparr>)"
    "is_address x \<or> ty = None \<Longrightarrow> abs_ok (a\<lparr>a_ctype := (a_ctype a)(x := ty)\<rparr>)"
    "is_address x \<or> nst = None \<Longrightarrow> abs_ok (a\<lparr>a_stock := (a_stock a)(x := nst)\<rparr>)"
  using assms by (auto simp: abs_ok_def contracts_of_def stocks_of_def owner_of_def)

text \<open>Between two covered states, each trie being that of one of them, everything is covered.\<close>

lemma covers_between:
  assumes "covers_abs H U a" "covers_abs H U c" "\<And>i. bk_map b i = bk_map a i \<or> bk_map b i = bk_map c i"
  shows "covers_abs H U b"
  using assms unfolding covers_abs_def by metis

lemma short_key_prefix [simp]: "short_key ContractsPrefix" "short_key StocksPrefix" "short_key OwnerPrefix" "short_key GasPoolPrefix"
  by (simp_all add: short_key_def)

lemma setStocksTrie_view:
  assumes "bk_view H U s a" "valid_addresses l" "covers_abs H U (a\<lparr>a_stocks := Some l\<rparr>)"
  shows "\<exists>s'. setStocksTrie H l s = (Inr (), s') \<and> bk_view H U s' (a\<lparr>a_stocks := Some l\<rparr>)"
  using put_view [OF assms(1) _ assms(3) sets_fields(1)] abs_ok_fields(1) assms encode_addresses_small [OF assms(2)]
  by (auto simp: setStocksTrie_def bk_view_def [of H U s a])

lemma setContractsTrie_view:
  assumes "bk_view H U s a" "valid_addresses l" "covers_abs H U (a\<lparr>a_contracts := Some l\<rparr>)"
  shows "\<exists>s'. setContractsTrie H l s = (Inr (), s') \<and> bk_view H U s' (a\<lparr>a_contracts := Some l\<rparr>)"
  using put_view [OF assms(1) _ assms(3) sets_fields(2)] abs_ok_fields(2) assms encode_addresses_small [OF assms(2)]
  by (auto simp: setContractsTrie_def bk_view_def [of H U s a])

lemma setOwnerTrie_view:
  assumes "bk_view H U s a" "is_address x" "covers_abs H U (a\<lparr>a_owner := Some x\<rparr>)"
  shows "\<exists>s'. setOwnerTrie H x s = (Inr (), s') \<and> bk_view H U s' (a\<lparr>a_owner := Some x\<rparr>)"
  using put_view [OF assms(1) _ assms(3) sets_fields(3)] abs_ok_fields(3) assms encoded_string [of x]
  by (auto simp: setOwnerTrie_def owner_rlp_def bk_view_def [of H U s a])

lemma setSingleContractsTrie_view:
  assumes "bk_view H U s a" "is_address x" "covers_abs H U (a\<lparr>a_ctype := (a_ctype a)(x \<mapsto> ty)\<rparr>)"
  shows "\<exists>s'. setSingleContractsTrie H x ty s = (Inr (), s') \<and> bk_view H U s' (a\<lparr>a_ctype := (a_ctype a)(x \<mapsto> ty)\<rparr>)"
  using put_view [OF assms(1) _ assms(3) sets_fields(5) [of a x "Some ty", simplified]] abs_ok_fields(5) assms type_roundtrip [of ty]
  by (auto simp: setSingleContractsTrie_def type_rlp_def bk_view_def [of H U s a])

lemma setSingleStockTrie_view:
  assumes "bk_view H U s a" "is_address x" "covers_abs H U (a\<lparr>a_stock := (a_stock a)(x \<mapsto> (n, st))\<rparr>)"
  shows "\<exists>s'. setSingleStockTrie H \<lparr>Account = x, Number = n, State = st\<rparr> s = (Inr (), s')
    \<and> bk_view H U s' (a\<lparr>a_stock := (a_stock a)(x \<mapsto> (n, st))\<rparr>)"
  using put_view [OF assms(1) _ assms(3) sets_fields(6) [of a x "Some (n, st)", simplified]] abs_ok_fields(6) assms
    stock_roundtrip [of "\<lparr>Account = x, Number = n, State = st\<rparr>"]
  by (auto simp: setSingleStockTrie_def stock_rlp_def bk_view_def [of H U s a])

lemma deleteSingleStockTrie_view:
  assumes "bk_view H U s a" "covers_abs H U (a\<lparr>a_stock := (a_stock a)(x := None)\<rparr>)"
  shows "\<exists>s'. deleteSingleStockTrie H x s = (Inr (), s') \<and> bk_view H U s' (a\<lparr>a_stock := (a_stock a)(x := None)\<rparr>)"
  using del_view [OF assms(1) _ assms(2) sets_fields(6) [of a x None, simplified]] abs_ok_fields(6) assms
  by (auto simp: deleteSingleStockTrie_def bk_view_def [of H U s a])

lemma deleteSingleContractsTrie_view:
  assumes "bk_view H U s a" "covers_abs H U (a\<lparr>a_ctype := (a_ctype a)(x := None)\<rparr>)"
  shows "\<exists>s'. deleteSingleContractsTrie H x s = (Inr (), s') \<and> bk_view H U s' (a\<lparr>a_ctype := (a_ctype a)(x := None)\<rparr>)"
  using del_view [OF assms(1) _ assms(2) sets_fields(5) [of a x None, simplified]] abs_ok_fields(5) assms
  by (auto simp: deleteSingleContractsTrie_def bk_view_def [of H U s a])

lemma setGasPoolTrie_view:
  assumes "bk_view H U s a" "covers_abs H U (a\<lparr>a_pool := Some n\<rparr>)"
  shows "\<exists>s'. setGasPoolTrie H n s = (Inr (), s') \<and> bk_view H U s' (a\<lparr>a_pool := Some n\<rparr>)"
proof -
  have "abs_ok (a\<lparr>a_pool := Some n\<rparr>)" using assms(1) abs_ok_fields(4) by (simp add: bk_view_def)
  then obtain s1 where s1: "log_put H GasPool GasPoolPrefix (pool_rlp n) s = (Inr (), s1)" "bk_view H U s1 (a\<lparr>a_pool := Some n\<rparr>)"
    using put_view [OF assms(1) _ assms(2) sets_fields(4)] encoded_string [OF length_nat_be_u64 [of n]]
    by (auto simp: pool_rlp_def)
  obtain s2 where "getGasPoolTrie s1 = (Inr (pool_of (a\<lparr>a_pool := Some n\<rparr>)), s2)" "bk_view H U s2 (a\<lparr>a_pool := Some n\<rparr>)"
    using GetGasPool_view [OF s1(2)] by blast
  then show ?thesis using s1(1) by (auto simp: setGasPoolTrie_def pool_rlp_def)
qed

lemma AddGasPool_view:
  assumes "bk_view H U s a" "covers_abs H U (a\<lparr>a_pool := Some (pool_of a + gas)\<rparr>)"
  shows "\<exists>s'. AddGasPool H gas s = (Inr (pool_of a + gas), s') \<and> bk_view H U s' (a\<lparr>a_pool := Some (pool_of a + gas)\<rparr>)"
proof -
  obtain s1 where s1: "GetGasPool s = (Inr (pool_of a), s1)" "bk_view H U s1 a" using GetGasPool_view [OF assms(1)] by blast
  from setGasPoolTrie_view [OF s1(2) assms(2)] s1(1) show ?thesis by (auto simp: AddGasPool_def sret_def)
qed

section \<open>The stock operations on the abstract state\<close>

definition abs_SetStock :: "address \<Rightarrow> u64 \<Rightarrow> bk_abs \<Rightarrow> bk_abs" where
  "abs_SetStock x n a = a\<lparr>a_stocks := Some (stocks_of a @ [x]), a_stock := (a_stock a)(x \<mapsto> (n, Run))\<rparr>"

definition abs_CleanStock :: "address \<Rightarrow> bk_abs \<Rightarrow> bk_abs" where
  "abs_CleanStock x a = a\<lparr>a_stocks := Some (remove1 x (stocks_of a)), a_stock := (a_stock a)(x := None)\<rparr>"

definition abs_SetState :: "address \<Rightarrow> StockState \<Rightarrow> bk_abs \<Rightarrow> bk_abs" where
  "abs_SetState x st a = a\<lparr>a_stock := (a_stock a)(x := map_option (\<lambda>(n, _). (n, st)) (a_stock a x))\<rparr>"

lemma bk_viewD: "bk_view H U s a \<Longrightarrow> abs_ok a \<and> covers_abs H U a"
  by (simp add: bk_view_def)

lemma valid_addresses_snoc:
  "valid_addresses l \<Longrightarrow> is_address x \<Longrightarrow> length l + 1 < 2 ^ 20 \<Longrightarrow> valid_addresses (l @ [x])"
  by (auto simp: valid_addresses_def)

lemma valid_addresses_remove1: "valid_addresses l \<Longrightarrow> valid_addresses (remove1 x l)"
  using set_remove1_subset [of x l] by (auto simp: valid_addresses_def length_remove1)

lemma fails_Inr [simp]: "m s = (Inr x, s') \<Longrightarrow> fails m msg s = (Inr x, s')"
  by (simp add: sret_def)

lemma SetStock_view:
  assumes "bk_view H U s a" "is_address x" "length (stocks_of a) + 1 < 2 ^ 20" "covers_abs H U (abs_SetStock x n a)"
  shows "\<exists>s'. SetStock H (owner_of a) x n s = (Inr (), s') \<and> bk_view H U s' (abs_SetStock x n a)"
proof -
  let ?b = "a\<lparr>a_stocks := Some (stocks_of a @ [x])\<rparr>"
  obtain s1 where 1: "GetStockManager s = (Inr (owner_of a), s1)" "bk_view H U s1 a" using GetStockManager_view [OF assms(1)] by blast
  obtain s2 where 2: "stockExists x s1 = (Inr False, s2)" "bk_view H U s2 a" using stockExists_False [OF 1(2)] by blast
  obtain s3 where 3: "getStocksTrie s2 = (Inr (stocks_of a), s3)" "bk_view H U s3 a" using getStocksTrie_view [OF 2(2)] by blast
  have v: "valid_addresses (stocks_of a @ [x])"
    using bk_viewD [OF assms(1)] assms(2,3) valid_addresses_snoc by (simp add: abs_ok_def)
  have c: "covers_abs H U ?b"
  proof (rule covers_between [of H U a "abs_SetStock x n a"])
    show "bk_map ?b i = bk_map a i \<or> bk_map ?b i = bk_map (abs_SetStock x n a) i" for i
      by (cases i) (simp_all add: abs_SetStock_def)
  qed (use bk_viewD [OF assms(1)] assms(4) in auto)
  obtain s4 where 4: "setStocksTrie H (stocks_of a @ [x]) s3 = (Inr (), s4)" "bk_view H U s4 ?b"
    using setStocksTrie_view [OF 3(2) v c] by blast
  obtain s5 l where 5: "getStocksTrie s4 = (Inr l, s5)" "bk_view H U s5 ?b" using getStocksTrie_view [OF 4(2)] by blast
  have e: "abs_SetStock x n a = ?b\<lparr>a_stock := (a_stock ?b)(x \<mapsto> (n, Run))\<rparr>" by (simp add: abs_SetStock_def)
  obtain s6 where 6: "setSingleStockTrie H \<lparr>Account = x, Number = n, State = Run\<rparr> s5 = (Inr (), s6)" "bk_view H U s6 (abs_SetStock x n a)"
    using setSingleStockTrie_view [OF 5(2) assms(2), of n Run] assms(4) unfolding e by blast
  have "stock_of (abs_SetStock x n a) x = Some \<lparr>Account = x, Number = n, State = Run\<rparr>" by (simp add: stock_of_def abs_SetStock_def)
  then obtain s7 f where 7: "getSingleStockTrie x s6 = (Inr f, s7)" "bk_view H U s7 (abs_SetStock x n a)"
    using GetStock_view [OF 6(2), of x] by auto
  have "SetStock H (owner_of a) x n s = (Inr (), s7)"
    using 1(1) 2(1) 3(1) 4(1) 5(1) 6(1) 7(1) by (simp add: SetStock_def sbind_def scatch_def sret_def)
  then show ?thesis using 7(2) by blast
qed

text \<open>An operation that is not the owner's fails and changes nothing.\<close>

lemma owner_only:
  assumes "bk_view H U s a" "operation \<noteq> owner_of a"
  shows "\<exists>s'. SetStock H operation x n s = (Inl (TextError ''Operation Account Is not Owner''), s')
      \<and> CleanStock H operation x s = (Inl (TextError ''Operation Account Is not Owner''), s')
      \<and> FrozenStock H operation x s = (Inl (TextError ''Operation Account Is not Owner''), s')
      \<and> UnFrozenStock H operation x s = (Inl (TextError ''Operation Account Is not Owner''), s') \<and> bk_view H U s' a"
proof -
  obtain s1 where "GetStockManager s = (Inr (owner_of a), s1)" "bk_view H U s1 a" using GetStockManager_view [OF assms(1)] by blast
  then show ?thesis
    using assms(2) by (intro exI [of _ s1]) (simp add: SetStock_def CleanStock_def FrozenStock_def UnFrozenStock_def sthrow_def)
qed

lemma position_of_remove: "x \<in> set xs \<Longrightarrow> \<exists>p. position_of x xs = Some p \<and> p < length xs \<and> take p xs @ drop (p + 1) xs = remove1 x xs"
proof (induction xs)
  case (Cons y ys)
  then show ?case by (cases "y = x") auto
qed simp

lemma position_of_None: "position_of x xs = None \<longleftrightarrow> x \<notin> set xs"
  by (induction xs) auto

lemma CleanStock_view:
  assumes "bk_view H U s a" "stock_of a x \<noteq> None" "x \<in> set (stocks_of a)" "covers_abs H U (abs_CleanStock x a)"
  shows "\<exists>s'. CleanStock H (owner_of a) x s = (Inr (), s') \<and> bk_view H U s' (abs_CleanStock x a)"
proof -
  let ?b = "a\<lparr>a_stock := (a_stock a)(x := None)\<rparr>"
  obtain s1 where 1: "GetStockManager s = (Inr (owner_of a), s1)" "bk_view H U s1 a" using GetStockManager_view [OF assms(1)] by blast
  obtain s2 where 2: "GetStock x s1 = (Inr (stock_of a x), s2)" "bk_view H U s2 a" using GetStock_view [OF 1(2)] by blast
  have c: "covers_abs H U ?b"
  proof (rule covers_between [of H U a "abs_CleanStock x a"])
    show "bk_map ?b i = bk_map a i \<or> bk_map ?b i = bk_map (abs_CleanStock x a) i" for i
      by (cases i) (simp_all add: abs_CleanStock_def stock_of_def fun_eq_iff)
  qed (use bk_viewD [OF assms(1)] assms(4) in auto)
  obtain s3 where 3: "deleteSingleStockTrie H x s2 = (Inr (), s3)" "bk_view H U s3 ?b"
    using deleteSingleStockTrie_view [OF 2(2) c] by blast
  obtain s4 where 4: "getStocksTrie s3 = (Inr (stocks_of a), s4)" "bk_view H U s4 ?b"
    using getStocksTrie_view [OF 3(2)] by (auto simp: stocks_of_def)
  obtain p where p: "position_of x (stocks_of a) = Some p" "remove_at p (stocks_of a) = Inr (remove1 x (stocks_of a))"
    using position_of_remove [OF assms(3)] by (auto simp: remove_at_def)
  have "valid_addresses (remove1 x (stocks_of a))" using bk_viewD [OF assms(1)] valid_addresses_remove1 by (simp add: abs_ok_def)
  moreover have e: "abs_CleanStock x a = ?b\<lparr>a_stocks := Some (remove1 x (stocks_of a))\<rparr>" by (simp add: abs_CleanStock_def)
  ultimately obtain s5 where 5: "setStocksTrie H (remove1 x (stocks_of a)) s4 = (Inr (), s5)" "bk_view H U s5 (abs_CleanStock x a)"
    using setStocksTrie_view [OF 4(2), of "remove1 x (stocks_of a)"] assms(4) unfolding e by blast
  have "CleanStock H (owner_of a) x s = (Inr (), s5)"
    using 1(1) 2(1) 3(1) 4(1) 5(1) p assms(2) by (auto simp: CleanStock_def res_op_def)
  then show ?thesis using 5(2) by blast
qed

lemma SetState_view:
  assumes "bk_view H U s a" "stock_of a x = Some f" "covers_abs H U (abs_SetState x st a)"
  shows "\<exists>s1 s2. GetStockManager s = (Inr (owner_of a), s1) \<and> (\<exists>s1'. GetStock x s1 = (Inr (Some f), s1')
    \<and> setSingleStockTrie H (f\<lparr>State := st\<rparr>) s1' = (Inr (), s2)) \<and> bk_view H U s2 (abs_SetState x st a)"
proof -
  obtain s1 where 1: "GetStockManager s = (Inr (owner_of a), s1)" "bk_view H U s1 a" using GetStockManager_view [OF assms(1)] by blast
  obtain s1' where 2: "GetStock x s1 = (Inr (Some f), s1')" "bk_view H U s1' a" using GetStock_view [OF 1(2), of x] assms(2) by auto
  obtain n st0 where n: "a_stock a x = Some (n, st0)" "f\<lparr>State := st\<rparr> = \<lparr>Account = x, Number = n, State = st\<rparr>"
    using assms(2) by (auto simp: stock_of_def)
  then have e: "abs_SetState x st a = a\<lparr>a_stock := (a_stock a)(x \<mapsto> (n, st))\<rparr>" by (simp add: abs_SetState_def)
  have "is_address x" using stock_of_address [OF assms(1,2)] by simp
  then obtain s2 where "setSingleStockTrie H (f\<lparr>State := st\<rparr>) s1' = (Inr (), s2)" "bk_view H U s2 (abs_SetState x st a)"
    using setSingleStockTrie_view [OF 2(2), of x n st] assms(3) unfolding e n(2) by blast
  then show ?thesis using 1(1) 2(1) by blast
qed

lemma Frozen_view:
  assumes "bk_view H U s a" "stock_of a x \<noteq> None"
  shows "covers_abs H U (abs_SetState x Frozen a) \<Longrightarrow>
      \<exists>s'. FrozenStock H (owner_of a) x s = (Inr (), s') \<and> bk_view H U s' (abs_SetState x Frozen a)"
    "covers_abs H U (abs_SetState x Run a) \<Longrightarrow>
      \<exists>s'. UnFrozenStock H (owner_of a) x s = (Inr (), s') \<and> bk_view H U s' (abs_SetState x Run a)"
proof -
  obtain f where f: "stock_of a x = Some f" using assms(2) by auto
  show "\<exists>s'. FrozenStock H (owner_of a) x s = (Inr (), s') \<and> bk_view H U s' (abs_SetState x Frozen a)"
    if c: "covers_abs H U (abs_SetState x Frozen a)"
    using SetState_view [OF assms(1) f c] by (auto simp: FrozenStock_def)
  show "\<exists>s'. UnFrozenStock H (owner_of a) x s = (Inr (), s') \<and> bk_view H U s' (abs_SetState x Run a)"
    if c: "covers_abs H U (abs_SetState x Run a)"
    using SetState_view [OF assms(1) f c] by (auto simp: UnFrozenStock_def)
qed

text \<open>A transfer: the receiver is credited only if it holds no stock and the sender is the manager; the sender is
  never debited.\<close>

definition abs_TransferStock :: "address \<Rightarrow> address \<Rightarrow> u64 \<Rightarrow> bk_abs \<Rightarrow> bk_abs" where
  "abs_TransferStock from to n a =
     (if stock_of a to = None \<and> owner_of a = from then abs_SetStock to n a else a)"

lemma TransferStock_view:
  assumes "bk_view H U s a" "stock_of a from = Some f" "State f \<noteq> Frozen" "n \<le> Number f" "is_address to"
    and "length (stocks_of a) + 1 < 2 ^ 20" "covers_abs H U (abs_TransferStock from to n a)"
  shows "\<exists>s'. TransferStock H from to n s = (Inr (), s') \<and> bk_view H U s' (abs_TransferStock from to n a)"
proof -
  obtain s1 where 1: "GetStock from s = (Inr (Some f), s1)" "bk_view H U s1 a" using GetStock_view [OF assms(1), of "from"] assms(2) by auto
  obtain s2 where 2: "GetStock to s1 = (Inr (stock_of a to), s2)" "bk_view H U s2 a" using GetStock_view [OF 1(2), of to] by auto
  have t: "TransferStock H from to n s = (if stock_of a to = None then signore (SetStock H from to n) s2 else (Inr (), s2))"
    using 1(1) 2(1) assms(3) leD [OF assms(4)] by (simp add: TransferStock_def sret_def del: signore_Inr)
  show ?thesis
  proof (cases "stock_of a to = None \<and> owner_of a = from")
    case True
    then have "covers_abs H U (abs_SetStock to n a)" using assms(7) by (simp add: abs_TransferStock_def)
    from SetStock_view [OF 2(2) assms(5,6) this] True t show ?thesis by (auto simp: abs_TransferStock_def)
  next
    case False
    show ?thesis
    proof (cases "stock_of a to = None")
      case True
      then have "from \<noteq> owner_of a" using False by auto
      from owner_only [OF 2(2) this] obtain s3 where
        "SetStock H from to n s2 = (Inl (TextError ''Operation Account Is not Owner''), s3)" "bk_view H U s3 a" by blast
      then show ?thesis using t True False by (auto simp: abs_TransferStock_def signore_Inl)
    next
      case False
      then show ?thesis using t 2(2) by (intro exI [of _ s2]) (auto simp: abs_TransferStock_def)
    qed
  qed
qed

section \<open>The contract registry\<close>

definition abs_SetUser :: "address \<Rightarrow> bk_abs \<Rightarrow> bk_abs" where
  "abs_SetUser x a = a\<lparr>a_ctype := (a_ctype a)(x \<mapsto> User), a_contracts := Some (contracts_of a @ [x])\<rparr>"

definition abs_CancelUser :: "address \<Rightarrow> bk_abs \<Rightarrow> bk_abs" where
  "abs_CancelUser x a = a\<lparr>a_ctype := (a_ctype a)(x := None), a_contracts := Some (remove1 x (contracts_of a))\<rparr>"

definition registry_ok :: "bk_abs \<Rightarrow> bool" where
  "registry_ok a \<longleftrightarrow> distinct (contracts_of a) \<and> set (contracts_of a) = dom (a_ctype a) \<and> ran (a_ctype a) \<subseteq> {User}"

lemma registry_type: "registry_ok a \<Longrightarrow> a_ctype a x = (if x \<in> set (contracts_of a) then Some User else None)"
  by (auto simp: registry_ok_def ran_def dom_def)

lemma SetUserBaseContract_view:
  assumes "bk_view H U s a" "is_address x" "length (contracts_of a) + 1 < 2 ^ 20" "covers_abs H U (abs_SetUser x a)" "x \<notin> set (contracts_of a)"
  shows "\<exists>s'. SetUserBaseContract H x from s = (Inr (), s') \<and> bk_view H U s' (abs_SetUser x a)"
proof -
  let ?b = "a\<lparr>a_ctype := (a_ctype a)(x \<mapsto> User)\<rparr>"
  obtain s1 where 1: "getContractsTrie s = (Inr (contracts_of a), s1)" "bk_view H U s1 a" using getContractsTrie_view [OF assms(1)] by blast
  have c: "covers_abs H U ?b"
  proof (rule covers_between [of H U a "abs_SetUser x a"])
    show "bk_map ?b i = bk_map a i \<or> bk_map ?b i = bk_map (abs_SetUser x a) i" for i
      by (cases i) (simp_all add: abs_SetUser_def)
  qed (use bk_viewD [OF assms(1)] assms(4) in auto)
  obtain s2 where 2: "setSingleContractsTrie H x User s1 = (Inr (), s2)" "bk_view H U s2 ?b"
    using setSingleContractsTrie_view [OF 1(2) assms(2) c] by blast
  have "valid_addresses (contracts_of a @ [x])"
    using bk_viewD [OF assms(1)] assms(2,3) valid_addresses_snoc by (simp add: abs_ok_def)
  moreover have e: "abs_SetUser x a = ?b\<lparr>a_contracts := Some (contracts_of a @ [x])\<rparr>" by (simp add: abs_SetUser_def)
  ultimately obtain s3 where 3: "setContractsTrie H (contracts_of a @ [x]) s2 = (Inr (), s3)" "bk_view H U s3 (abs_SetUser x a)"
    using setContractsTrie_view [OF 2(2), of "contracts_of a @ [x]"] assms(4) unfolding e by blast
  have "SetUserBaseContract H x from s = (Inr (), s3)" using 1(1) 2(1) 3(1) assms(5) by (simp add: SetUserBaseContract_def)
  then show ?thesis using 3(2) by blast
qed

lemma SetUserBaseContract_exists:
  assumes "bk_view H U s a" "x \<in> set (contracts_of a)"
  shows "\<exists>s'. SetUserBaseContract H x from s = (Inl (ProtocolError ErrContractExist), s') \<and> bk_view H U s' a"
proof -
  obtain s1 where 1: "getContractsTrie s = (Inr (contracts_of a), s1)" "bk_view H U s1 a" using getContractsTrie_view [OF assms(1)] by blast
  then show ?thesis using assms(2) by (intro exI [of _ s1]) (simp add: SetUserBaseContract_def sthrow_def)
qed

lemma CancelUserBaseContract_view:
  assumes "bk_view H U s a" "covers_abs H U (abs_CancelUser x a)" "x \<in> set (contracts_of a)" "a_ctype a x = Some User"
  shows "\<exists>s'. CancelUserBaseContract H x from s = (Inr (), s') \<and> bk_view H U s' (abs_CancelUser x a)"
proof -
  let ?b = "a\<lparr>a_ctype := (a_ctype a)(x := None)\<rparr>"
  obtain s1 where 1: "getContractsTrie s = (Inr (contracts_of a), s1)" "bk_view H U s1 a" using getContractsTrie_view [OF assms(1)] by blast
  obtain s2 where 2: "getSingleContractsTrie x s1 = (Inr User, s2)" "bk_view H U s2 a"
    using getSingleContractsTrie_view [OF 1(2), of x] assms(4) by auto
  have c: "covers_abs H U ?b"
  proof (rule covers_between [of H U a "abs_CancelUser x a"])
    show "bk_map ?b i = bk_map a i \<or> bk_map ?b i = bk_map (abs_CancelUser x a) i" for i
      by (cases i) (simp_all add: abs_CancelUser_def)
  qed (use bk_viewD [OF assms(1)] assms(2) in auto)
  obtain s3 where 3: "deleteSingleContractsTrie H x s2 = (Inr (), s3)" "bk_view H U s3 ?b"
    using deleteSingleContractsTrie_view [OF 2(2) c] by blast
  obtain p where p: "position_of x (contracts_of a) = Some p" "remove_at p (contracts_of a) = Inr (remove1 x (contracts_of a))"
    using position_of_remove [OF assms(3)] by (auto simp: remove_at_def)
  have "valid_addresses (remove1 x (contracts_of a))" using bk_viewD [OF assms(1)] valid_addresses_remove1 by (simp add: abs_ok_def)
  moreover have e: "abs_CancelUser x a = ?b\<lparr>a_contracts := Some (remove1 x (contracts_of a))\<rparr>" by (simp add: abs_CancelUser_def)
  ultimately obtain s4 where 4: "setContractsTrie H (remove1 x (contracts_of a)) s3 = (Inr (), s4)" "bk_view H U s4 (abs_CancelUser x a)"
    using setContractsTrie_view [OF 3(2), of "remove1 x (contracts_of a)"] assms(2) unfolding e by blast
  have "CancelUserBaseContract H x from s = (Inr (), s4)"
    using 1(1) 2(1) 3(1) 4(1) p by (simp add: CancelUserBaseContract_def res_op_def sret_def)
  then show ?thesis using 4(2) by blast
qed

lemma CancelUserBaseContract_missing:
  assumes "bk_view H U s a" "x \<notin> set (contracts_of a)"
  shows "\<exists>s'. CancelUserBaseContract H x from s = (Inl (ProtocolError ErrNotFoundContract), s') \<and> bk_view H U s' a"
proof -
  obtain s1 where 1: "getContractsTrie s = (Inr (contracts_of a), s1)" "bk_view H U s1 a" using getContractsTrie_view [OF assms(1)] by blast
  have "position_of x (contracts_of a) = None" using assms(2) by (simp add: position_of_None)
  then show ?thesis using 1 by (intro exI [of _ s1]) (simp add: CancelUserBaseContract_def sthrow_def)
qed

lemma SetSystemContract_view:
  assumes "bk_view H U s a" "registry_ok a"
  shows "\<exists>s'. SetSystemContract H x from s = (Inl (ProtocolError ErrContractExist), s') \<and> bk_view H U s' a"
proof -
  obtain s1 where 1: "getContractsTrie s = (Inr (contracts_of a), s1)" "bk_view H U s1 a" using getContractsTrie_view [OF assms(1)] by blast
  show ?thesis
  proof (cases "x \<in> set (contracts_of a)")
    case True
    then show ?thesis using 1 by (intro exI [of _ s1]) (simp add: SetSystemContract_def sthrow_def)
  next
    case False
    then obtain s2 where "getSingleContractsTrie x s1 = (Inr System, s2)" "bk_view H U s2 a"
      using getSingleContractsTrie_view [OF 1(2), of x] registry_type [OF assms(2), of x] by auto
    then show ?thesis using 1(1) False by (intro exI [of _ s2]) (simp add: SetSystemContract_def sthrow_def sret_def)
  qed
qed

lemma first_system_none:
  assumes "bk_view H U s a" "registry_ok a" "set l \<subseteq> set (contracts_of a)"
  shows "\<exists>s'. first_system l s = (Inl (ProtocolError ErrNotFoundContract), s') \<and> bk_view H U s' a"
  using assms
proof (induction l arbitrary: s)
  case Nil
  then show ?case by (intro exI [of _ s]) (simp add: sthrow_def)
next
  case (Cons v vs)
  then obtain s2 where 2: "getSingleContractsTrie v s = (Inr User, s2)" "bk_view H U s2 a"
    using getSingleContractsTrie_view [OF Cons.prems(1), of v] registry_type [OF assms(2), of v] by auto
  have "(User :: byte) \<noteq> System" by (simp add: protocol_simps)
  then show ?case using Cons.IH [OF 2(2) assms(2)] Cons.prems(3) 2(1) by auto
qed

lemma registry_ok_ops:
  assumes "registry_ok a"
  shows "x \<notin> set (contracts_of a) \<Longrightarrow> registry_ok (abs_SetUser x a)" "registry_ok (abs_CancelUser x a)"
    "contracts_of (abs_SetUser x a) = contracts_of a @ [x]" "contracts_of (abs_CancelUser x a) = remove1 x (contracts_of a)"
  using assms by (auto simp: registry_ok_def abs_SetUser_def abs_CancelUser_def contracts_of_def ran_def split: if_splits)

section \<open>New contexts\<close>

lemma NewBokerContext_view:
  assumes "hash32 H" "sound_db H U d"
  shows "\<exists>bc. NewBokerContext True d = Inr bc \<and> bk_view H U (bc, d) bk_empty"
proof -
  have m: "bk_map bk_empty i = Map.empty" for i by (cases i) (simp_all add: bk_empty_def stock_of_def entry_def fun_eq_iff)
  have l: "length (bk_prefix i) \<le> 64" for i by (cases i) simp_all
  have "\<exists>t. NewTrieWithPrefix zero_hash (bk_prefix i) True d = Inr t \<and> stores H d (bk_prefix i) t Map.empty" for i
    using New_prefix_empty [OF assms(1) l, of i True d] by auto
  then obtain t where t: "NewTrieWithPrefix zero_hash (bk_prefix i) True d = Inr (t i)" "stores H d (bk_prefix i) (t i) Map.empty" for i
    by metis
  let ?bc = "\<lparr>singleContractsTrie = t SingleContracts, contractsTrie = t Contracts, singleStockTrie = t SingleStock, stocksTrie = t Stocks,
            ownerTrie = t Owner, gasPoolTrie = t GasPool, bc_hasdb = True\<rparr>"
  have "NewBokerContext True d = Inr ?bc"
    using t(1) [of SingleContracts] t(1) [of Contracts] t(1) [of SingleStock] t(1) [of Stocks] t(1) [of Owner] t(1) [of GasPool]
    by (simp add: NewBokerContext_def NewSingleContractTrie_def NewContractsTrie_def NewSingleStockTrie_def NewStocksTrie_def
        NewOwnerTrie_def NewGasPoolTrie_def)
  moreover have "bk_get i ?bc = t i" for i by (cases i) simp_all
  then have "bk_view H U (?bc, d) bk_empty"
    using t(2) assms(2) by (simp add: bk_view_def covers_abs_def m covers_empty)
      (simp add: abs_ok_def bk_empty_def contracts_of_def stocks_of_def owner_of_def valid_addresses_def)
  ultimately show ?thesis by blast
qed

section \<open>Commit of the whole context\<close>

lemma commit_one:
  assumes "bk_view H U (bc, d) a"
  shows "\<exists>h bc' d'. on_bk i (td_commitTo H) (bc, d) = (Inr h, bc', d') \<and> bk_view H U (bc', d') a \<and> d \<subseteq>\<^sub>m d'
    \<and> (\<forall>e. d' \<subseteq>\<^sub>m e \<longrightarrow> (\<exists>t. NewTrieWithPrefix h (bk_prefix i) True e = Inr t \<and> stores H e (bk_prefix i) t (bk_map a i)))"
proof -
  have st: "stores H d (bk_prefix i) (bk_get i bc) (bk_map a i)" "sound_db H U d" "covers H U (bk_prefix i) (bk_map a i)"
    using assms by (simp_all add: bk_view_def covers_abs_def)
  from CommitTo_stores [OF st] obtain h t d' where
    c: "CommitTo H (bk_get i bc) d = (Inr h, t, d')" "d \<subseteq>\<^sub>m d'" "sound_db H U d'" "stores H d' (bk_prefix i) t (bk_map a i)"
    "\<forall>e. d' \<subseteq>\<^sub>m e \<longrightarrow> (\<exists>t. NewTrieWithPrefix h (bk_prefix i) True e = Inr t \<and> stores H e (bk_prefix i) t (bk_map a i))" by blast
  have "bk_view H U (bk_put i t bc, d') a"
    using assms c(3,4) stores_mono [OF c(2)] by (auto simp: bk_view_def)
  then show ?thesis using c(1,2,5) by (auto simp: on_bk_def td_commitTo_def)
qed

definition proto_of :: "(bk_trie \<Rightarrow> hash) \<Rightarrow> BokerBackendProto" where
  "proto_of h = \<lparr>SingleHash = h SingleContracts, ContractsHash = h Contracts, SingleStockHash = h SingleStock,
     StocksHash = h Stocks, OwnerHash = h Owner, GasPoolHash = h GasPool\<rparr>"

lemma NewBokerContextFromProto_view:
  assumes "\<And>i. \<exists>t. NewTrieWithPrefix (h i) (bk_prefix i) True d = Inr t \<and> stores H d (bk_prefix i) t (bk_map a i)"
    and "sound_db H U d" "abs_ok a" "covers_abs H U a"
  shows "\<exists>bc. NewBokerContextFromProto True d (proto_of h) = Inr bc \<and> bk_view H U (bc, d) a"
proof -
  obtain t where t: "NewTrieWithPrefix (h i) (bk_prefix i) True d = Inr (t i)" "stores H d (bk_prefix i) (t i) (bk_map a i)" for i
    using assms(1) by metis
  let ?bc = "\<lparr>singleContractsTrie = t SingleContracts, contractsTrie = t Contracts, singleStockTrie = t SingleStock, stocksTrie = t Stocks,
            ownerTrie = t Owner, gasPoolTrie = t GasPool, bc_hasdb = True\<rparr>"
  have "NewBokerContextFromProto True d (proto_of h) = Inr ?bc"
    using t(1) [of SingleContracts] t(1) [of Contracts] t(1) [of SingleStock] t(1) [of Stocks] t(1) [of Owner] t(1) [of GasPool]
    by (simp add: NewBokerContextFromProto_def NewSingleContractTrie_def NewContractsTrie_def NewSingleStockTrie_def NewStocksTrie_def
        NewOwnerTrie_def NewGasPoolTrie_def proto_of_def)
  moreover have "bk_get i ?bc = t i" for i by (cases i) simp_all
  then have "bk_view H U (?bc, d) a" using t(2) assms(2-4) by (simp add: bk_view_def)
  ultimately show ?thesis by blast
qed

lemma boker_CommitTo_view:
  assumes "bk_view H U (bc, d) a"
  shows "\<exists>p bc' d' bc2. boker_CommitTo H (bc, d) = (Inr p, bc', d') \<and> bk_view H U (bc', d') a \<and> d \<subseteq>\<^sub>m d'
    \<and> NewBokerContextFromProto True d' p = Inr bc2 \<and> bk_view H U (bc2, d') a"
proof -
  let ?ok = "\<lambda>h i d'. \<forall>e. d' \<subseteq>\<^sub>m e \<longrightarrow>
    (\<exists>t. NewTrieWithPrefix h (bk_prefix i) True e = Inr t \<and> stores H e (bk_prefix i) t (bk_map a i))"
  obtain h1 b1 d1 where 1: "on_bk SingleContracts (td_commitTo H) (bc, d) = (Inr h1, b1, d1)" "bk_view H U (b1, d1) a" "d \<subseteq>\<^sub>m d1" "?ok h1 SingleContracts d1"
    using commit_one [OF assms] by blast
  obtain h2 b2 d2 where 2: "on_bk Contracts (td_commitTo H) (b1, d1) = (Inr h2, b2, d2)" "bk_view H U (b2, d2) a" "d1 \<subseteq>\<^sub>m d2" "?ok h2 Contracts d2"
    using commit_one [OF 1(2)] by blast
  obtain h3 b3 d3 where 3: "on_bk SingleStock (td_commitTo H) (b2, d2) = (Inr h3, b3, d3)" "bk_view H U (b3, d3) a" "d2 \<subseteq>\<^sub>m d3" "?ok h3 SingleStock d3"
    using commit_one [OF 2(2)] by blast
  obtain h4 b4 d4 where 4: "on_bk Stocks (td_commitTo H) (b3, d3) = (Inr h4, b4, d4)" "bk_view H U (b4, d4) a" "d3 \<subseteq>\<^sub>m d4" "?ok h4 Stocks d4"
    using commit_one [OF 3(2)] by blast
  obtain h5 b5 d5 where 5: "on_bk Owner (td_commitTo H) (b4, d4) = (Inr h5, b5, d5)" "bk_view H U (b5, d5) a" "d4 \<subseteq>\<^sub>m d5" "?ok h5 Owner d5"
    using commit_one [OF 4(2)] by blast
  obtain h6 b6 d6 where 6: "on_bk GasPool (td_commitTo H) (b5, d5) = (Inr h6, b6, d6)" "bk_view H U (b6, d6) a" "d5 \<subseteq>\<^sub>m d6" "?ok h6 GasPool d6"
    using commit_one [OF 5(2)] by blast
  let ?h = "\<lambda>i. case i of SingleContracts \<Rightarrow> h1 | Contracts \<Rightarrow> h2 | SingleStock \<Rightarrow> h3 | Stocks \<Rightarrow> h4 | Owner \<Rightarrow> h5 | GasPool \<Rightarrow> h6"
  have le: "d5 \<subseteq>\<^sub>m d6" "d4 \<subseteq>\<^sub>m d6" "d3 \<subseteq>\<^sub>m d6" "d2 \<subseteq>\<^sub>m d6" "d1 \<subseteq>\<^sub>m d6" "d \<subseteq>\<^sub>m d6"
    using 1(3) 2(3) 3(3) 4(3) 5(3) 6(3) map_le_trans by blast+
  have "\<exists>t. NewTrieWithPrefix (?h i) (bk_prefix i) True d6 = Inr t \<and> stores H d6 (bk_prefix i) t (bk_map a i)" for i
    using 1(4) 2(4) 3(4) 4(4) 5(4) 6(4) le map_le_refl by (cases i) (simp_all del: bk_prefix.simps bk_map.simps)
  moreover have "boker_CommitTo H (bc, d) = (Inr (proto_of ?h), b6, d6)"
    using 1(1) 2(1) 3(1) 4(1) 5(1) 6(1) by (simp add: boker_CommitTo_def proto_of_def sret_def)
  moreover have "sound_db H U d6" "abs_ok a" "covers_abs H U a" using 6(2) by (simp_all add: bk_view_def)
  ultimately show ?thesis using NewBokerContextFromProto_view [of ?h d6 H a U] 6(2) le(6) by blast
qed

section \<open>Witness states\<close>

lemma inj_on_pad_hash:
  assumes "inj_on hd U" "[] \<notin> U"
  shows "inj_on pad_hash U"
  using assms hd_pad_hash unfolding inj_on_def by metis

lemma covers_entry: "covers H U p (entry k (Some v)) \<longleftrightarrow> leaf_enc (p @ k) v \<in> U" if "v \<noteq> []"
  using covers_single [OF that, of H U p k] by (simp add: entry_def)

lemma covers_entry_None: "covers H U p (entry k None)"
  using covers_empty by (simp add: entry_def)

abbreviation addr1 :: address where
  "addr1 \<equiv> replicate 20 1"

definition wit_stock :: StockAccount where
  "wit_stock = \<lparr>Account = addr1, Number = 7, State = Run\<rparr>"

definition wit_U :: "bytes set" where
  "wit_U = {leaf_enc (SingleStockPrefix @ addr1) (stock_rlp wit_stock), leaf_enc (StocksPrefix @ StocksPrefix) (encode_addresses [addr1]),
    leaf_enc (GasPoolPrefix @ GasPoolPrefix) (pool_rlp 5), leaf_enc (SingleContractPrefix @ addr1) (type_rlp User),
    leaf_enc (ContractsPrefix @ ContractsPrefix) (encode_addresses [addr1]), leaf_enc (ContractsPrefix @ ContractsPrefix) (encode_addresses [])}"

lemma wit_heads:
  "map hd [leaf_enc (SingleStockPrefix @ addr1) (stock_rlp wit_stock), leaf_enc (StocksPrefix @ StocksPrefix) (encode_addresses [addr1]),
    leaf_enc (GasPoolPrefix @ GasPoolPrefix) (pool_rlp 5), leaf_enc (SingleContractPrefix @ addr1) (type_rlp User),
    leaf_enc (ContractsPrefix @ ContractsPrefix) (encode_addresses [addr1]), leaf_enc (ContractsPrefix @ ContractsPrefix) (encode_addresses [])] = [244, 229, 209, 221, 235, 214]"
  by code_simp

lemma wit_sound: "sound_db pad_hash wit_U Map.empty"
proof (rule pad_hash_sound)
  have "inj_on hd wit_U" using wit_heads by (simp add: wit_U_def inj_on_def)
  moreover have "[] \<noteq> leaf_enc k v" for k v using hd_leaf_enc [of k v] by auto
  then have "[] \<notin> wit_U" by (simp add: wit_U_def)
  ultimately show "inj_on pad_hash wit_U" by (rule inj_on_pad_hash)
qed (auto simp: wit_U_def)

lemma wit_context: obtains bc where "NewBokerContext True Map.empty = Inr bc" "bk_view pad_hash wit_U (bc, Map.empty) bk_empty"
  using NewBokerContext_view [OF hash32_pad wit_sound] by blast

lemma wit_nonempty: "stock_rlp wit_stock \<noteq> []" "encode_addresses [addr1] \<noteq> []" "encode_addresses [] \<noteq> []" "pool_rlp n \<noteq> []"
  using stock_roundtrip(3) [of wit_stock] encode_addresses_small [of "[addr1]"] encode_addresses_small [of "[]"]
    encoded_string(3) [OF length_nat_be_u64 [of n]]
  by (auto simp: wit_stock_def valid_addresses_def pool_rlp_def)

lemma bk_map_empty: "bk_map bk_empty i = Map.empty"
  by (cases i) (auto simp: bk_empty_def stock_of_def entry_def)

lemma wit_maps:
  "bk_map (abs_SetStock addr1 7 bk_empty) i = (case i of SingleStock \<Rightarrow> entry addr1 (Some (stock_rlp wit_stock))
     | Stocks \<Rightarrow> entry StocksPrefix (Some (encode_addresses [addr1])) | _ \<Rightarrow> Map.empty)"
  "bk_map (bk_empty\<lparr>a_pool := Some n\<rparr>) i = (case i of GasPool \<Rightarrow> entry GasPoolPrefix (Some (pool_rlp n)) | _ \<Rightarrow> Map.empty)"
  "bk_map (abs_SetUser addr1 bk_empty) i = (case i of SingleContracts \<Rightarrow> entry addr1 (Some (type_rlp User))
     | Contracts \<Rightarrow> entry ContractsPrefix (Some (encode_addresses [addr1])) | _ \<Rightarrow> Map.empty)"
  "bk_map (abs_CancelUser addr1 bk_empty) i =
     (case i of Contracts \<Rightarrow> entry ContractsPrefix (Some (encode_addresses [])) | _ \<Rightarrow> Map.empty)"
  by (cases i; auto simp: abs_SetStock_def abs_SetUser_def abs_CancelUser_def bk_empty_def stock_of_def entry_def wit_stock_def
      stocks_of_def contracts_of_def)+

lemma wit_covers:
  "covers_abs pad_hash wit_U (abs_SetStock addr1 7 bk_empty)" "covers_abs pad_hash wit_U (bk_empty\<lparr>a_pool := Some 5\<rparr>)"
  "covers_abs pad_hash wit_U (abs_SetUser addr1 bk_empty)" "covers_abs pad_hash wit_U (abs_CancelUser addr1 bk_empty)"
  unfolding covers_abs_def wit_maps
  by (simp_all add: all_bk_trie covers_entry covers_empty wit_nonempty type_roundtrip(2)) (simp_all add: wit_U_def)

lemma TransferStock_refused:
  assumes "bk_view H U s a"
  shows "stock_of a from = None \<Longrightarrow> \<exists>s'. TransferStock H from to n s = (Inl (TextError ''From Account Not Found Stock''), s') \<and> bk_view H U s' a"
    and "stock_of a from = Some f \<Longrightarrow> State f = Frozen \<Longrightarrow>
      \<exists>s'. TransferStock H from to n s = (Inl (TextError ''From Stock State Frozen''), s') \<and> bk_view H U s' a"
    and "stock_of a from = Some f \<Longrightarrow> State f \<noteq> Frozen \<Longrightarrow> Number f < n \<Longrightarrow>
      \<exists>s'. TransferStock H from to n s = (Inl (TextError ''From Stock Number Too Low''), s') \<and> bk_view H U s' a"
  using GetStock_view [OF assms, of "from"] by (auto simp: TransferStock_def sthrow_def)

lemma TransferStock_refines:
  assumes "bk_view H U s a"
  shows "is_address y \<and> length (stocks_of a) + 1 < 2 ^ 20 \<and> covers_abs H U (abs_SetStock y n a) \<longrightarrow>
      (\<exists>s'. case stock_of a x of
          None \<Rightarrow> TransferStock H x y n s = (Inl (TextError ''From Account Not Found Stock''), s') \<and> bk_view H U s' a
        | Some f \<Rightarrow>
            if State f = Frozen then TransferStock H x y n s = (Inl (TextError ''From Stock State Frozen''), s') \<and> bk_view H U s' a
            else if Number f < n then TransferStock H x y n s = (Inl (TextError ''From Stock Number Too Low''), s') \<and> bk_view H U s' a
            else TransferStock H x y n s = (Inr (), s')
              \<and> bk_view H U s' (if stock_of a y = None \<and> x = owner_of a then abs_SetStock y n a else a))"
proof (intro impI, elim conjE)
  assume y: "is_address y" "length (stocks_of a) + 1 < 2 ^ 20" "covers_abs H U (abs_SetStock y n a)"
  have c: "covers_abs H U (abs_TransferStock x y n a)" using y(3) bk_viewD [OF assms] by (simp add: abs_TransferStock_def)
  have e: "abs_TransferStock x y n a = (if stock_of a y = None \<and> x = owner_of a then abs_SetStock y n a else a)"
    by (auto simp: abs_TransferStock_def)
  note v = TransferStock_view [OF assms _ _ _ y(1,2) c, unfolded e]
  note r = TransferStock_refused [OF assms]
  show "\<exists>s'. case stock_of a x of
          None \<Rightarrow> TransferStock H x y n s = (Inl (TextError ''From Account Not Found Stock''), s') \<and> bk_view H U s' a
        | Some f \<Rightarrow>
            if State f = Frozen then TransferStock H x y n s = (Inl (TextError ''From Stock State Frozen''), s') \<and> bk_view H U s' a
            else if Number f < n then TransferStock H x y n s = (Inl (TextError ''From Stock Number Too Low''), s') \<and> bk_view H U s' a
            else TransferStock H x y n s = (Inr (), s')
              \<and> bk_view H U s' (if stock_of a y = None \<and> x = owner_of a then abs_SetStock y n a else a)"
  proof (cases "stock_of a x")
    case None
    then show ?thesis using r(1) by simp
  next
    case (Some f)
    consider "State f = Frozen" | "State f \<noteq> Frozen" "Number f < n" | "State f \<noteq> Frozen" "\<not> Number f < n" by blast
    then show ?thesis
    proof cases
      case 3
      obtain s' where "TransferStock H x y n s = (Inr (), s')"
        "bk_view H U s' (if stock_of a y = None \<and> x = owner_of a then abs_SetStock y n a else a)"
        using v [OF Some 3(1) leI [OF 3(2)]] by blast
      then show ?thesis using Some 3 by (intro exI [of _ s']) simp
    qed (use Some r(2,3) [OF Some] in simp_all)
  qed
qed

section \<open>Properties\<close>

text \<open>C22. The stock operations refine operations on finite maps. For the manager \<open>SetStock\<close> appends the account to
  the list and sets its number, running; \<open>CleanStock\<close> removes both; \<open>FrozenStock\<close> and \<open>UnFrozenStock\<close> change
  only the state; \<open>GetStock\<close> returns what is recorded. \<open>TransferStock\<close> refuses a sender without stock, with frozen
  stock and with too little of it, each with its error, and otherwise reports success: then it has issued the number to a
  receiver without stock if the sender is the manager, and nothing else. Afterwards the context, its tries committed,
  holds exactly the new abstract state.\<close>

theorem stock_operations_refine:
  assumes "bk_view H U s a"
  shows "(\<exists>s'. GetStock x s = (Inr (stock_of a x), s') \<and> bk_view H U s' a)
    \<and> (is_address x \<and> length (stocks_of a) + 1 < 2 ^ 20 \<and> covers_abs H U (abs_SetStock x n a) \<longrightarrow>
      (\<exists>s'. SetStock H (owner_of a) x n s = (Inr (), s') \<and> bk_view H U s' (abs_SetStock x n a)))
    \<and> (stock_of a x \<noteq> None \<and> x \<in> set (stocks_of a) \<and> covers_abs H U (abs_CleanStock x a) \<longrightarrow>
      (\<exists>s'. CleanStock H (owner_of a) x s = (Inr (), s') \<and> bk_view H U s' (abs_CleanStock x a)))
    \<and> (stock_of a x \<noteq> None \<and> covers_abs H U (abs_SetState x Frozen a) \<longrightarrow>
      (\<exists>s'. FrozenStock H (owner_of a) x s = (Inr (), s') \<and> bk_view H U s' (abs_SetState x Frozen a)))
    \<and> (stock_of a x \<noteq> None \<and> covers_abs H U (abs_SetState x Run a) \<longrightarrow>
      (\<exists>s'. UnFrozenStock H (owner_of a) x s = (Inr (), s') \<and> bk_view H U s' (abs_SetState x Run a)))
    \<and> (is_address y \<and> length (stocks_of a) + 1 < 2 ^ 20 \<and> covers_abs H U (abs_SetStock y n a) \<longrightarrow>
      (\<exists>s'. case stock_of a x of
          None \<Rightarrow> TransferStock H x y n s = (Inl (TextError ''From Account Not Found Stock''), s') \<and> bk_view H U s' a
        | Some f \<Rightarrow>
            if State f = Frozen then TransferStock H x y n s = (Inl (TextError ''From Stock State Frozen''), s') \<and> bk_view H U s' a
            else if Number f < n then TransferStock H x y n s = (Inl (TextError ''From Stock Number Too Low''), s') \<and> bk_view H U s' a
            else TransferStock H x y n s = (Inr (), s')
              \<and> bk_view H U s' (if stock_of a y = None \<and> x = owner_of a then abs_SetStock y n a else a)))"
  using GetStock_view [OF assms, of x] SetStock_view [OF assms] CleanStock_view [OF assms] Frozen_view [OF assms]
    TransferStock_refines [OF assms, of y n x] by blast

theorem stock_operations_refine_witness:
  "\<exists>bc s'. NewBokerContext True Map.empty = Inr bc
     \<and> SetStock pad_hash zero_address addr1 7 (bc, Map.empty) = (Inr (), s')
     \<and> fst (GetStock addr1 s') = Inr (Some \<lparr>Account = addr1, Number = 7, State = Run\<rparr>)"
proof -
  obtain bc where bc: "NewBokerContext True Map.empty = Inr bc" "bk_view pad_hash wit_U (bc, Map.empty) bk_empty" by (rule wit_context)
  have "owner_of bk_empty = zero_address" by (simp add: owner_of_def bk_empty_def)
  then obtain s' where s': "SetStock pad_hash zero_address addr1 7 (bc, Map.empty) = (Inr (), s')"
    "bk_view pad_hash wit_U s' (abs_SetStock addr1 7 bk_empty)"
    using stock_operations_refine [OF bc(2), of addr1 7 addr1] wit_covers(1) by (auto simp: stocks_of_def bk_empty_def)
  have "stock_of (abs_SetStock addr1 7 bk_empty) addr1 = Some \<lparr>Account = addr1, Number = 7, State = Run\<rparr>"
    by (simp add: stock_of_def abs_SetStock_def)
  then have "fst (GetStock addr1 s') = Inr (Some \<lparr>Account = addr1, Number = 7, State = Run\<rparr>)"
    using conjunct1 [OF stock_operations_refine [OF s'(2), of addr1 0]] by auto
  then show ?thesis using bc(1) s'(1) by blast
qed

text \<open>C23. Only the stock manager changes stock: for any other account \<open>SetStock\<close>, \<open>CleanStock\<close>, \<open>FrozenStock\<close> and
  \<open>UnFrozenStock\<close> return an error and leave the recorded state as it was.\<close>

theorem stock_manager_only:
  assumes "bk_view H U s a" and "operation \<noteq> owner_of a"
  shows "\<exists>s'. SetStock H operation x n s = (Inl (TextError ''Operation Account Is not Owner''), s')
      \<and> CleanStock H operation x s = (Inl (TextError ''Operation Account Is not Owner''), s')
      \<and> FrozenStock H operation x s = (Inl (TextError ''Operation Account Is not Owner''), s')
      \<and> UnFrozenStock H operation x s = (Inl (TextError ''Operation Account Is not Owner''), s') \<and> bk_view H U s' a"
  by (rule owner_only [OF assms])

theorem stock_manager_only_witness:
  "\<exists>bc. NewBokerContext True Map.empty = Inr bc
     \<and> fst (SetStock pad_hash addr1 addr1 7 (bc, Map.empty)) = Inl (TextError ''Operation Account Is not Owner'')"
proof -
  obtain bc where bc: "NewBokerContext True Map.empty = Inr bc" "bk_view pad_hash wit_U (bc, Map.empty) bk_empty" by (rule wit_context)
  have "hd addr1 \<noteq> hd zero_address" by (simp add: zero_address_def)
  then have "addr1 \<noteq> zero_address" by metis
  then have "addr1 \<noteq> owner_of bk_empty" by (simp add: owner_of_def bk_empty_def)
  from stock_manager_only [OF bc(2) this, of addr1 7] bc(1) show ?thesis by auto
qed

text \<open>C24. The gas pool wraps around: \<open>AddGasPool\<close> returns and stores the sum of the pool and the gas modulo
  \<open>2 ^ 64\<close>, and that is what \<open>GetGasPool\<close> reads afterwards.\<close>

theorem gas_pool_wraps:
  assumes "bk_view H U s a" and "covers_abs H U (a\<lparr>a_pool := Some (pool_of a + gas)\<rparr>)"
  shows "\<exists>p s' p'. AddGasPool H gas s = (Inr p', s') \<and> fst (GetGasPool s) = Inr p \<and> fst (GetGasPool s') = Inr p'
    \<and> unat p' = (unat p + unat gas) mod 2 ^ 64 \<and> bk_view H U s' (a\<lparr>a_pool := Some p'\<rparr>)"
proof -
  obtain s' where s': "AddGasPool H gas s = (Inr (pool_of a + gas), s')" "bk_view H U s' (a\<lparr>a_pool := Some (pool_of a + gas)\<rparr>)"
    using AddGasPool_view [OF assms] by blast
  have "fst (GetGasPool s) = Inr (pool_of a)" "fst (GetGasPool s') = Inr (pool_of a + gas)"
    using GetGasPool_view [OF assms(1)] GetGasPool_view [OF s'(2)] by (auto simp: pool_of_def)
  moreover have "unat (pool_of a + gas) = (unat (pool_of a) + unat gas) mod 2 ^ 64" by (simp add: unat_word_ariths)
  ultimately show ?thesis using s' by blast
qed

theorem gas_pool_wraps_witness:
  "\<exists>bc s'. NewBokerContext True Map.empty = Inr bc \<and> AddGasPool pad_hash 5 (bc, Map.empty) = (Inr 5, s')
     \<and> fst (GetGasPool s') = Inr 5"
proof -
  obtain bc where bc: "NewBokerContext True Map.empty = Inr bc" "bk_view pad_hash wit_U (bc, Map.empty) bk_empty" by (rule wit_context)
  have z: "pool_of bk_empty = 0" by (simp add: pool_of_def bk_empty_def)
  then have "covers_abs pad_hash wit_U (bk_empty\<lparr>a_pool := Some (pool_of bk_empty + 5)\<rparr>)" using wit_covers(2) by simp
  from gas_pool_wraps [OF bc(2) this] obtain p s' p' where p: "AddGasPool pad_hash 5 (bc, Map.empty) = (Inr p', s')"
    "fst (GetGasPool (bc, Map.empty)) = Inr p" "fst (GetGasPool s') = Inr p'" "unat p' = (unat p + 5) mod 2 ^ 64" by auto
  have "p = 0" using p(2) GetGasPool_view [OF bc(2)] z by auto
  then have "p' = 5" using p(4) by (simp add: word_unat_eq_iff)
  then show ?thesis using bc(1) p by blast
qed

text \<open>C25. The registry of base contracts stays consistent. If the list has no duplicates, has exactly the addresses
  with a type, and all types are \<open>User\<close>, then so it is after \<open>SetUserBaseContract\<close> and
  \<open>CancelUserBaseContract\<close>, which add and remove exactly the address and report an existing or
  missing one.\<close>

theorem contract_registry_invariant:
  assumes "bk_view H U s a" and "registry_ok a" and "is_address x" and "length (contracts_of a) + 1 < 2 ^ 20"
    and "covers_abs H U (abs_SetUser x a)" and "covers_abs H U (abs_CancelUser x a)"
  shows "(\<exists>s' a'. SetUserBaseContract H x from s =
        (if x \<in> set (contracts_of a) then Inl (ProtocolError ErrContractExist) else Inr (), s')
      \<and> bk_view H U s' a' \<and> registry_ok a' \<and> set (contracts_of a') = insert x (set (contracts_of a)))
    \<and> (\<exists>s' a'. CancelUserBaseContract H x from s =
        (if x \<in> set (contracts_of a) then Inr () else Inl (ProtocolError ErrNotFoundContract), s')
      \<and> bk_view H U s' a' \<and> registry_ok a' \<and> set (contracts_of a') = set (contracts_of a) - {x})"
proof (cases "x \<in> set (contracts_of a)")
  case True
  have e: "set (contracts_of a) = insert x (set (contracts_of a))" using True by blast
  have r: "set (contracts_of (abs_CancelUser x a)) = set (contracts_of a) - {x}"
    using registry_ok_ops(4) [OF assms(2)] assms(2) by (simp add: registry_ok_def)
  have "a_ctype a x = Some User" using registry_type [OF assms(2)] True by simp
  then obtain s2 where 2: "CancelUserBaseContract H x from s = (Inr (), s2)" "bk_view H U s2 (abs_CancelUser x a)"
    using CancelUserBaseContract_view [OF assms(1,6) True] by blast
  obtain s1 where 1: "SetUserBaseContract H x from s = (Inl (ProtocolError ErrContractExist), s1)" "bk_view H U s1 a"
    using SetUserBaseContract_exists [OF assms(1) True] by blast
  show ?thesis
    using True e r 1 2 assms(2) registry_ok_ops(2) [OF assms(2), of x]
    by (intro conjI exI [of _ s1] exI [of _ s2] exI [of _ a] exI [of _ "abs_CancelUser x a"]) simp_all
next
  case False
  have r: "set (contracts_of (abs_SetUser x a)) = insert x (set (contracts_of a))" "set (contracts_of a) = set (contracts_of a) - {x}"
    using registry_ok_ops(3) [OF assms(2)] False by auto
  obtain s1 where 1: "SetUserBaseContract H x from s = (Inr (), s1)" "bk_view H U s1 (abs_SetUser x a)"
    using SetUserBaseContract_view [OF assms(1,3,4,5) False] by blast
  obtain s2 where 2: "CancelUserBaseContract H x from s = (Inl (ProtocolError ErrNotFoundContract), s2)" "bk_view H U s2 a"
    using CancelUserBaseContract_missing [OF assms(1) False] by blast
  show ?thesis
    using False r 1 2 assms(2) registry_ok_ops(1) [OF assms(2) False]
    by (intro conjI exI [of _ s1] exI [of _ s2] exI [of _ a] exI [of _ "abs_SetUser x a"]) simp_all
qed

lemma registry_ok_empty: "registry_ok bk_empty" "contracts_of bk_empty = []"
  by (simp_all add: registry_ok_def bk_empty_def contracts_of_def)

theorem contract_registry_invariant_witness:
  "\<exists>bc s'. NewBokerContext True Map.empty = Inr bc \<and> SetUserBaseContract pad_hash addr1 addr1 (bc, Map.empty) = (Inr (), s')"
proof -
  obtain bc where bc: "NewBokerContext True Map.empty = Inr bc" "bk_view pad_hash wit_U (bc, Map.empty) bk_empty" by (rule wit_context)
  from contract_registry_invariant [OF bc(2) registry_ok_empty(1), of addr1 addr1] wit_covers(3,4) bc(1)
  show ?thesis by (auto simp: registry_ok_empty(2))
qed

text \<open>C27. No system contract can ever be registered: in a consistent registry \<open>SetSystemContract\<close> refuses every
  address, because an address without an entry already reads as a system contract, and
  \<open>GetSystemContractAddress\<close> never finds one.\<close>

theorem system_contract_never_set:
  assumes "bk_view H U s a" and "registry_ok a"
  shows "fst (SetSystemContract H x from s) = Inl (ProtocolError ErrContractExist)
    \<and> fst (GetSystemContractAddress s) = Inl (ProtocolError ErrNotFoundContract)"
proof -
  obtain s1 where 1: "getContractsTrie s = (Inr (contracts_of a), s1)" "bk_view H U s1 a" using getContractsTrie_view [OF assms(1)] by blast
  have "fst (first_system (contracts_of a) s1) = Inl (ProtocolError ErrNotFoundContract)"
    using first_system_none [OF 1(2) assms(2)] by (metis fst_conv order_refl)
  then show ?thesis using SetSystemContract_view [OF assms, of x "from"] 1(1) by (auto simp: GetSystemContractAddress_def)
qed

theorem system_contract_never_set_witness:
  "\<exists>bc. NewBokerContext True Map.empty = Inr bc
     \<and> fst (SetSystemContract pad_hash addr1 addr1 (bc, Map.empty)) = Inl (ProtocolError ErrContractExist)"
proof -
  obtain bc where bc: "NewBokerContext True Map.empty = Inr bc" "bk_view pad_hash wit_U (bc, Map.empty) bk_empty" by (rule wit_context)
  then show ?thesis using system_contract_never_set [OF bc(2) registry_ok_empty(1)] by blast
qed

text \<open>C28. A transfer of stock never debits the sender. Whenever \<open>TransferStock\<close> accepts a transfer, it reports success
  and the sender still holds exactly the stock it held before.\<close>

theorem transfer_never_debits:
  assumes "bk_view H U s a" and "stock_of a from = Some f" and "State f \<noteq> Frozen" and "n \<le> Number f" and "is_address to"
    and "length (stocks_of a) + 1 < 2 ^ 20" and "covers_abs H U (abs_TransferStock from to n a)"
  shows "\<exists>s'. TransferStock H from to n s = (Inr (), s') \<and> fst (GetStock from s') = Inr (Some f)"
proof -
  obtain s' where s': "TransferStock H from to n s = (Inr (), s')" "bk_view H U s' (abs_TransferStock from to n a)"
    using TransferStock_view [OF assms] by blast
  have "stock_of (abs_TransferStock from to n a) from = Some f"
    using assms(2) by (cases "to = from") (auto simp: abs_TransferStock_def abs_SetStock_def stock_of_def)
  then show ?thesis using s' GetStock_view [OF s'(2), of "from"] by auto
qed

theorem transfer_never_debits_witness:
  "\<exists>bc s1 s2. NewBokerContext True Map.empty = Inr bc
     \<and> SetStock pad_hash zero_address addr1 7 (bc, Map.empty) = (Inr (), s1)
     \<and> TransferStock pad_hash addr1 (replicate 20 2) 3 s1 = (Inr (), s2)
     \<and> fst (GetStock addr1 s2) = Inr (Some \<lparr>Account = addr1, Number = 7, State = Run\<rparr>)"
proof -
  let ?a = "abs_SetStock addr1 7 bk_empty" let ?f = "\<lparr>Account = addr1, Number = 7, State = Run\<rparr>"
  obtain bc where bc: "NewBokerContext True Map.empty = Inr bc" "bk_view pad_hash wit_U (bc, Map.empty) bk_empty" by (rule wit_context)
  have o: "owner_of bk_empty = zero_address" "owner_of ?a = zero_address" by (simp_all add: owner_of_def bk_empty_def abs_SetStock_def)
  obtain s1 where s1: "SetStock pad_hash zero_address addr1 7 (bc, Map.empty) = (Inr (), s1)" "bk_view pad_hash wit_U s1 ?a"
    using SetStock_view [OF bc(2), of addr1 7] wit_covers(1) o by (auto simp: stocks_of_def bk_empty_def)
  have "hd addr1 \<noteq> hd zero_address" by (simp add: zero_address_def)
  then have "addr1 \<noteq> zero_address" by metis
  then have t: "abs_TransferStock addr1 (replicate 20 2) 3 ?a = ?a" using o(2) by (auto simp: abs_TransferStock_def)
  have "stock_of ?a addr1 = Some ?f" by (simp add: stock_of_def abs_SetStock_def)
  moreover have "(3::u64) \<le> Number ?f" "State ?f \<noteq> Frozen" by (simp_all add: protocol_simps)
  moreover have "length (stocks_of ?a) + 1 < 2 ^ 20" by (simp add: stocks_of_def abs_SetStock_def bk_empty_def)
  moreover have "covers_abs pad_hash wit_U (abs_TransferStock addr1 (replicate 20 2) 3 ?a)" unfolding t by (rule wit_covers(1))
  moreover have "is_address (replicate 20 2)" by simp
  ultimately have "\<exists>s2. TransferStock pad_hash addr1 (replicate 20 2) 3 s1 = (Inr (), s2) \<and> fst (GetStock addr1 s2) = Inr (Some ?f)"
    by (intro transfer_never_debits [OF s1(2)])
  then show ?thesis using bc(1) s1(1) by blast
qed

text \<open>C29. Once a stock manager is set, any account can replace it: \<open>SetStockManager\<close> checks the operating account only
  while no manager is recorded.\<close>

theorem stock_manager_replaceable:
  assumes "bk_view H U s a" and "owner_of a \<noteq> zero_address" and "is_address x" and "covers_abs H U (a\<lparr>a_owner := Some x\<rparr>)"
  shows "\<exists>s'. SetStockManager H operation x now (s, dc) = (Inr (), s', dc) \<and> fst (GetStockManager s') = Inr x"
proof -
  let ?a = "a\<lparr>a_owner := Some x\<rparr>"
  obtain s1 where 1: "GetStockManager s = (Inr (owner_of a), s1)" "bk_view H U s1 a" using GetStockManager_view [OF assms(1)] by blast
  obtain s2 where 2: "setOwnerTrie H x s1 = (Inr (), s2)" "bk_view H U s2 ?a" using setOwnerTrie_view [OF 1(2) assms(3,4)] by blast
  have o: "owner_of ?a = x" by (simp add: owner_of_def)
  obtain s3 where 3: "GetStockManager s2 = (Inr x, s3)" "bk_view H U s3 ?a" using GetStockManager_view [OF 2(2)] o by auto
  have "SetStockManager H operation x now (s, dc) = (Inr (), s3, dc)"
    using 1(1) 2(1) 3(1) assms(2) by (simp add: SetStockManager_def on_boker_def sbind_def signore_def scatch_def sret_def)
  moreover have "fst (GetStockManager s3) = Inr x" using GetStockManager_view [OF 3(2)] o by auto
  ultimately show ?thesis by blast
qed

theorem stock_manager_replaceable_witness:
  "\<exists>bc s1 dc s2. NewBokerContext True Map.empty = Inr bc \<and> setOwnerTrie pad_hash addr1 (bc, Map.empty) = (Inr (), s1)
     \<and> NewDposContext True Map.empty = Inr dc
     \<and> SetStockManager pad_hash (replicate 20 2) addr1 0 (s1, dc) = (Inr (), s2, dc) \<and> fst (GetStockManager s2) = Inr addr1"
proof -
  let ?U = "{leaf_enc (OwnerPrefix @ OwnerPrefix) (owner_rlp addr1)}" let ?a = "bk_empty\<lparr>a_owner := Some addr1\<rparr>"
  have s: "sound_db pad_hash ?U Map.empty" by (rule pad_hash_sound) auto
  obtain bc where bc: "NewBokerContext True Map.empty = Inr bc" "bk_view pad_hash ?U (bc, Map.empty) bk_empty"
    using NewBokerContext_view [OF hash32_pad s] by blast
  have "bk_map ?a i = (case i of Owner \<Rightarrow> entry OwnerPrefix (Some (owner_rlp addr1)) | _ \<Rightarrow> Map.empty)" for i
    using bk_map_empty [of i] by (cases i) simp_all
  then have c: "covers_abs pad_hash ?U ?a"
    using encoded_string(3) [of addr1] by (simp add: covers_abs_def all_bk_trie covers_entry covers_empty owner_rlp_def)
  obtain s1 where s1: "setOwnerTrie pad_hash addr1 (bc, Map.empty) = (Inr (), s1)" "bk_view pad_hash ?U s1 ?a"
    using setOwnerTrie_view [OF bc(2) _ c] by auto
  obtain dc where "NewDposContext True Map.empty = Inr dc" using NewDposContext_view [OF hash32_pad, of Map.empty] by blast
  moreover have "hd addr1 \<noteq> hd zero_address" by (simp add: zero_address_def)
  then have "owner_of ?a \<noteq> zero_address" by (metis bk_abs.select_convs(5) bk_abs.surjective bk_abs.update_convs(5) option.simps(5) owner_of_def)
  moreover have "is_address addr1" "covers_abs pad_hash ?U (?a\<lparr>a_owner := Some addr1\<rparr>)" using c by simp_all
  ultimately show ?thesis
    using stock_manager_replaceable [OF s1(2), of addr1 "replicate 20 2" 0 dc] bc(1) s1(1) by blast
qed

text \<open>C26. A committed application context can be reopened: \<open>CommitTo\<close> writes the six tries, and
  \<open>NewBokerContextFromProto\<close> on the returned roots gives a context with the same contracts, stock,
  manager and gas pool.\<close>

theorem boker_commit_reopens:
  assumes "bk_view H U (bc, d) a"
  shows "\<exists>p bc1 d1 bc2. boker_CommitTo H (bc, d) = (Inr p, bc1, d1) \<and> d \<subseteq>\<^sub>m d1 \<and> bk_view H U (bc1, d1) a
    \<and> NewBokerContextFromProto True d1 p = Inr bc2 \<and> bk_view H U (bc2, d1) a"
  using boker_CommitTo_view [OF assms] by blast

theorem boker_commit_reopens_witness:
  "\<exists>bc s p bc1 d1 bc2. NewBokerContext True Map.empty = Inr bc
     \<and> SetStock pad_hash zero_address addr1 7 (bc, Map.empty) = (Inr (), s)
     \<and> boker_CommitTo pad_hash s = (Inr p, bc1, d1) \<and> NewBokerContextFromProto True d1 p = Inr bc2
     \<and> fst (GetStock addr1 (bc2, d1)) = Inr (Some \<lparr>Account = addr1, Number = 7, State = Run\<rparr>)"
proof -
  let ?a = "abs_SetStock addr1 7 bk_empty"
  obtain bc where bc: "NewBokerContext True Map.empty = Inr bc" "bk_view pad_hash wit_U (bc, Map.empty) bk_empty" by (rule wit_context)
  have "owner_of bk_empty = zero_address" by (simp add: owner_of_def bk_empty_def)
  then obtain b d where s: "SetStock pad_hash zero_address addr1 7 (bc, Map.empty) = (Inr (), b, d)" "bk_view pad_hash wit_U (b, d) ?a"
    using SetStock_view [OF bc(2), of addr1 7] wit_covers(1) by (auto simp: stocks_of_def bk_empty_def)
  obtain p bc1 d1 bc2 where c: "boker_CommitTo pad_hash (b, d) = (Inr p, bc1, d1)" "NewBokerContextFromProto True d1 p = Inr bc2"
    "bk_view pad_hash wit_U (bc2, d1) ?a" using boker_commit_reopens [OF s(2)] by blast
  have "stock_of ?a addr1 = Some \<lparr>Account = addr1, Number = 7, State = Run\<rparr>" by (simp add: stock_of_def abs_SetStock_def)
  then have "fst (GetStock addr1 (bc2, d1)) = Inr (Some \<lparr>Account = addr1, Number = 7, State = Run\<rparr>)"
    using GetStock_view [OF c(3), of addr1] by auto
  then show ?thesis using bc(1) s(1) c(1,2) by blast
qed

end
