(* ===== verification/State_Transition.thy ===== *)
theory State_Transition
  imports Evm_Safe Boker_Context
begin

text \<open>
  Model of \<open>core/state_transition.go\<close> and \<open>core/gaspool.go\<close>: how a transaction pays for its gas, runs in the virtual machine
  and is refunded, for each of the kinds of transactions of this chain. A state transition carries the virtual machine,
  whose state database it shares; the theorems are in \<open>Transition_Safe\<close>.
\<close>

section \<open>Messages and the gas pool\<close>

record Message =
  msg_To :: "address option"
  msg_From :: address
  msg_Nonce :: u64
  msg_Value :: int
  msg_GasPrice :: int
  msg_Gas :: int
  msg_Data :: bytes
  msg_Extra :: bytes
  CheckNonce :: bool
  msg_Major :: TxMajor
  msg_Minor :: TxMinor

definition AddGas :: "int \<Rightarrow> int \<Rightarrow> int" where
  "AddGas amount gp = gp + amount"

definition SubGas :: "int \<Rightarrow> int \<Rightarrow> int res" where
  "SubGas amount gp = (if gp < amount then Inl (ChainError ErrGasLimitReached) else Inr (gp - amount))"

record StateTransition =
  st_gp :: int
  st_sp :: int
  st_msg :: Message
  st_gas :: u64
  st_gasPrice :: int
  initialGas :: int
  st_value :: int
  st_data :: bytes
  st_extra :: bytes
  st_evm :: EVM

type_synonym 'a tx = "('a, StateTransition) op"

abbreviation (input) TxGas :: int where "TxGas \<equiv> 21000"
abbreviation (input) TxGasContractCreation :: int where "TxGasContractCreation \<equiv> 53000"
abbreviation (input) TxDataZeroGas :: int where "TxDataZeroGas \<equiv> 4"
abbreviation (input) TxDataNonZeroGas :: int where "TxDataNonZeroGas \<equiv> 68"

definition IntrinsicGas :: "bytes \<Rightarrow> bool \<Rightarrow> bool \<Rightarrow> int" where
  "IntrinsicGas data contractCreation homestead =
     (let igas = (if contractCreation \<and> homestead then TxGasContractCreation else TxGas);
          nz = int (length (filter (\<lambda>byt. byt \<noteq> 0) data))
      in if length data > 0 then igas + nz * TxDataNonZeroGas + (int (length data) - nz) * TxDataZeroGas else igas)"

definition NewStateTransition :: "EVM \<Rightarrow> Message \<Rightarrow> int \<Rightarrow> int \<Rightarrow> StateTransition" where
  "NewStateTransition evm msg gp sp =
     \<lparr>st_gp = gp, st_sp = sp, st_msg = msg, st_gas = 0, st_gasPrice = msg_GasPrice msg, initialGas = 0, st_value = msg_Value msg,
      st_data = msg_Data msg, st_extra = msg_Extra msg, st_evm = evm\<rparr>"

section \<open>Paying for gas\<close>

definition in_vm :: "('a, EVM) op \<Rightarrow> 'a tx" where
  "in_vm m st = (case m (st_evm st) of (r, v) \<Rightarrow> (r, st\<lparr>st_evm := v\<rparr>))"

definition get_tx :: "StateTransition tx" where
  "get_tx st = (Inr st, st)"

definition mod_tx :: "(StateTransition \<Rightarrow> StateTransition) \<Rightarrow> unit tx" where
  "mod_tx f st = (Inr (), f st)"

text \<open>\<open>from\<close> and \<open>to\<close> create the account they name.\<close>

definition ensure_account :: "environment \<Rightarrow> address \<Rightarrow> address tx" where
  "ensure_account E a =
     sbind (in_vm (on_db (Exist (keccak E) (disk E) a))) (\<lambda>exists.
     sbind (if \<not> exists then in_vm (on_db (CreateAccount (keccak E) (disk E) a)) else sret ()) (\<lambda>_. sret a))"

definition tx_from :: "environment \<Rightarrow> address tx" where
  "tx_from E = sbind get_tx (\<lambda>st. ensure_account E (msg_From (st_msg st)))"

definition tx_to :: "environment \<Rightarrow> address tx" where
  "tx_to E = sbind get_tx (\<lambda>st. case msg_To (st_msg st) of None \<Rightarrow> sret zero_address | Some a \<Rightarrow> ensure_account E a)"

definition useGas :: "u64 \<Rightarrow> unit tx" where
  "useGas amount = sbind get_tx (\<lambda>st.
     if st_gas st < amount then sthrow (ChainError ErrOutOfGas) else mod_tx (\<lambda>st. st\<lparr>st_gas := st_gas st - amount\<rparr>))"

definition gasUsed :: "StateTransition \<Rightarrow> int" where
  "gasUsed st = initialGas st - uint (st_gas st)"

definition buyGas :: "environment \<Rightarrow> unit tx" where
  "buyGas E = sbind get_tx (\<lambda>st.
     let mgas = msg_Gas (st_msg st); mgval = mgas * st_gasPrice st
     in if BitLen mgas > 64 then sthrow (ChainError ErrOutOfGas)
        else sbind (tx_from E) (\<lambda>sender.
             sbind (in_vm (on_db (GetBalance (keccak E) (disk E) sender))) (\<lambda>balance.
             if balance < mgval then sthrow (ChainError errInsufficientBalanceForGas)
             else sbind (lift_res (SubGas mgas (st_gp st))) (\<lambda>gp.
                  sbind (mod_tx (\<lambda>st. st\<lparr>st_gp := gp, st_gas := st_gas st + Uint64 mgas, initialGas := mgas\<rparr>)) (\<lambda>_.
                  in_vm (on_db (SubBalance (keccak E) (disk E) sender mgval)))))))"

definition preCheck :: "environment \<Rightarrow> unit tx" where
  "preCheck E = sbind get_tx (\<lambda>st.
     sbind (tx_from E) (\<lambda>sender.
     sbind (if CheckNonce (st_msg st) then
              sbind (in_vm (on_db (GetNonce (keccak E) (disk E) sender))) (\<lambda>nonce.
                if nonce < msg_Nonce (st_msg st) then sthrow (ChainError ErrNonceTooHigh)
                else if nonce > msg_Nonce (st_msg st) then sthrow (ChainError ErrNonceTooLow)
                else sret ())
            else sret ()) (\<lambda>_. buyGas E)))"

text \<open>The smaller of the two numbers in \<open>refundGas\<close> is multiplied in place. When it is the counter of the state database,
  the product stays there.\<close>

definition refundGas :: "environment \<Rightarrow> unit tx" where
  "refundGas E =
     sbind (tx_from E) (\<lambda>sender. sbind get_tx (\<lambda>st.
     let price = st_gasPrice st; uhalf = gasUsed st div 2
     in sbind (in_vm (on_db (State_Db.AddBalance (keccak E) (disk E) sender (uint (st_gas st) * price)))) (\<lambda>_.
        sbind get_tx (\<lambda>st.
        let counter = GetRefund (evm_state (st_evm st)); refund = BigMin uhalf counter
        in sbind (mod_tx (\<lambda>st. st\<lparr>st_gas := st_gas st + Uint64 refund\<rparr>)) (\<lambda>_.
           sbind (if uhalf > counter then in_vm (db_do (\<lambda>s. s\<lparr>refund := counter * price\<rparr>)) else sret ()) (\<lambda>_.
           sbind (in_vm (on_db (State_Db.AddBalance (keccak E) (disk E) sender (refund * price)))) (\<lambda>_.
           mod_tx (\<lambda>st. st\<lparr>st_gp := AddGas (uint (st_gas st)) (st_gp st)\<rparr>))))))))"

section \<open>The transitions\<close>

text \<open>A result is the returned data, the gas before and after the refund, and whether the machine reported an error.\<close>

type_synonym tx_result = "bytes option \<times> int \<times> int \<times> bool"

definition call_message :: "environment \<Rightarrow> runner \<Rightarrow> address \<Rightarrow> (bytes option \<times> err option) tx" where
  "call_message E loop sender =
     sbind (tx_to E) (\<lambda>to. sbind get_tx (\<lambda>st.
     sbind (in_vm (evm_Call E loop (AccountRef sender) to (st_data st) (st_gas st) (st_value st))) (\<lambda>(ret, gas, vmerr).
     sbind (mod_tx (\<lambda>st. st\<lparr>st_gas := gas\<rparr>)) (\<lambda>_. sret (ret, vmerr)))))"

definition create_message :: "environment \<Rightarrow> runner \<Rightarrow> address \<Rightarrow> (bytes option \<times> err option) tx" where
  "create_message E loop sender =
     sbind get_tx (\<lambda>st.
     sbind (in_vm (evm_Create E loop (AccountRef sender) (st_data st) (st_gas st) (st_value st))) (\<lambda>(ret, _, gas, vmerr).
     sbind (mod_tx (\<lambda>st. st\<lparr>st_gas := gas\<rparr>)) (\<lambda>_. sret (ret, vmerr))))"

definition NormalTransitionDb :: "environment \<Rightarrow> runner \<Rightarrow> tx_result tx" where
  "NormalTransitionDb E loop =
     sbind (preCheck E) (\<lambda>_. sbind (tx_from E) (\<lambda>sender. sbind get_tx (\<lambda>st.
     let contractCreation = (msg_To (st_msg st) = None); intrinsicGas = IntrinsicGas (st_data st) contractCreation True
     in if BitLen intrinsicGas > 64 then sthrow (ChainError ErrOutOfGas)
        else sbind (useGas (Uint64 intrinsicGas)) (\<lambda>_.
             sbind (if contractCreation then create_message E loop sender
                    else sbind (in_vm (on_db (GetNonce (keccak E) (disk E) sender))) (\<lambda>nonce.
                         sbind (in_vm (on_db (SetNonce (keccak E) (disk E) sender (nonce + 1)))) (\<lambda>_.
                         call_message E loop sender))) (\<lambda>(ret, vmerr).
             if vmerr = Some (ChainError ErrInsufficientBalance) then sthrow (ChainError ErrInsufficientBalance)
             else sbind get_tx (\<lambda>st1.
                  sbind (refundGas E) (\<lambda>_. sbind get_tx (\<lambda>st2.
                  sret (ret, gasUsed st1, gasUsed st2, vmerr \<noteq> None)))))))))"

text \<open>The body of \<open>ExtraTransitionDb\<close> is the same.\<close>

definition ExtraTransitionDb :: "environment \<Rightarrow> runner \<Rightarrow> tx_result tx" where
  "ExtraTransitionDb E loop = NormalTransitionDb E loop"

definition bump_nonce :: "environment \<Rightarrow> unit tx" where
  "bump_nonce E =
     sbind (tx_from E) (\<lambda>a. sbind (tx_from E) (\<lambda>b.
     sbind (in_vm (on_db (GetNonce (keccak E) (disk E) b))) (\<lambda>nonce. in_vm (on_db (SetNonce (keccak E) (disk E) a (nonce + 1))))))"

text \<open>Transactions to base contracts run with the largest amount of gas there is, whatever the sender paid for.\<close>

definition SystemBaseTransitionDb :: "environment \<Rightarrow> runner \<Rightarrow> tx_result tx" where
  "SystemBaseTransitionDb E loop =
     sbind (preCheck E) (\<lambda>_. sbind get_tx (\<lambda>st.
     if BitLen (IntrinsicGas (st_data st) False True) > 64 then sthrow (ChainError ErrOutOfGas)
     else sbind (bump_nonce E) (\<lambda>_.
          sbind (mod_tx (\<lambda>st. st\<lparr>st_gas := Uint64 MaxGasPrice\<rparr>)) (\<lambda>_.
          sbind (tx_from E) (\<lambda>sender.
          sbind (call_message E loop sender) (\<lambda>(ret, vmerr).
          if vmerr = Some (ChainError ErrInsufficientBalance) then sthrow (ChainError ErrInsufficientBalance)
          else sret (ret, 0, 0, vmerr \<noteq> None)))))))"

definition UserBaseTransitionDb :: "environment \<Rightarrow> runner \<Rightarrow> tx_result tx" where
  "UserBaseTransitionDb E loop = SystemBaseTransitionDb E loop"

definition ValidatorTransitionDb :: "environment \<Rightarrow> tx_result tx" where
  "ValidatorTransitionDb E = sbind (preCheck E) (\<lambda>_. sbind (bump_nonce E) (\<lambda>_. sret (Some [], 0, 0, False)))"

definition VoteTransitionDb :: "environment \<Rightarrow> tx_result tx" where
  "VoteTransitionDb E = sbind (preCheck E) (\<lambda>_. sbind (bump_nonce E) (\<lambda>_. sret (Some [], 0, 0, False)))"

section \<open>Transitions on the contexts\<close>

type_synonym 'a ctx = "('a, StateTransition \<times> bstate \<times> DposContext) op"

definition on_tx :: "'a tx \<Rightarrow> 'a ctx" where
  "on_tx m = (\<lambda>(st, c). case m st of (r, st') \<Rightarrow> (r, st', c))"

definition on_ctx :: "('a, bstate \<times> DposContext) op \<Rightarrow> 'a ctx" where
  "on_ctx m = (\<lambda>(st, c). case m c of (r, c') \<Rightarrow> (r, st, c'))"

text \<open>\<open>*st.msg.To()\<close>.\<close>

definition the_to :: "address ctx" where
  "the_to = sbind (on_tx get_tx) (\<lambda>st. case msg_To (st_msg st) of
     None \<Rightarrow> sthrow (Panic ''nil pointer dereference'') | Some a \<Rightarrow> sret a)"

text \<open>Sharing out the gas pool: the sum of the stock, the share of one, and the payments.\<close>

fun total_stock :: "u64 \<Rightarrow> StockAccount list \<Rightarrow> u64" where
  "total_stock t [] = t"
| "total_stock t (v # vs) = total_stock (if State v \<noteq> Frozen then t + Number v else t) vs"

fun assign_shares :: "u64 \<Rightarrow> u64 \<Rightarrow> u64 \<Rightarrow> StockAccount list \<Rightarrow> (address \<times> u64) list" where
  "assign_shares singleGas gas curGas [] = []"
| "assign_shares singleGas gas curGas (v # vs) =
     (let userGas = singleGas * Number v; totalGas = curGas + userGas;
          userGas = (if totalGas > gas then gas - curGas else userGas)
      in (Account v, userGas) # assign_shares singleGas gas (curGas + userGas) vs)"

fun pay_shares :: "environment \<Rightarrow> (address \<times> u64) list \<Rightarrow> unit tx" where
  "pay_shares E [] = sret ()"
| "pay_shares E ((a, g) # ps) = sbind (in_vm (on_db (State_Db.AddBalance (keccak E) (disk E) a (uint g)))) (\<lambda>_. pay_shares E ps)"

definition bokerAssignGas :: "environment \<Rightarrow> address \<Rightarrow> int \<Rightarrow> unit ctx" where
  "bokerAssignGas E operation now =
     sbind (on_ctx (on_dpos (\<lambda>d. GetCurrentNowProducer d 0 now))) (\<lambda>producer.
     if producer \<noteq> operation then sthrow (TextError ''Operation Account Is not Producer'')
     else sbind (on_ctx (on_boker GetGasPool)) (\<lambda>gas.
          if gas \<le> 0 then sret ()
          else sbind (on_ctx (on_boker GetStocks)) (\<lambda>stocks.
               let totalStock = total_stock 0 stocks
               in if totalStock = 0 then sthrow (Panic ''integer divide by zero'')
                  else on_tx (pay_shares E (assign_shares (gas div totalStock) gas 0 stocks)))))"

definition StockTransitionDb :: "environment \<Rightarrow> (bytes \<Rightarrow> bytes) \<Rightarrow> TxMinor \<Rightarrow> int \<Rightarrow> tx_result ctx" where
  "StockTransitionDb E H txMinor timer =
     sbind (on_tx (preCheck E)) (\<lambda>_. sbind (on_tx (tx_from E)) (\<lambda>sender. sbind (on_tx (bump_nonce E)) (\<lambda>_. sbind (on_tx get_tx) (\<lambda>st.
     let number = Uint64 (msg_Value (st_msg st)); done = sret (Some [], 0, 0, False)
     in if txMinor = StockManager then sbind the_to (\<lambda>a. sbind (signore (on_ctx (SetStockManager H sender a timer))) (\<lambda>_. done))
        else if txMinor = StockSet then sbind the_to (\<lambda>a. sbind (signore (on_ctx (on_boker (SetStock H sender a number)))) (\<lambda>_. done))
        else if txMinor = StockTransfer then sbind the_to (\<lambda>a. sbind (signore (on_ctx (on_boker (TransferStock H sender a number)))) (\<lambda>_. done))
        else if txMinor = StockClean then sbind the_to (\<lambda>a. sbind (signore (on_ctx (on_boker (CleanStock H sender a)))) (\<lambda>_. done))
        else if txMinor = StockFrozen then sbind the_to (\<lambda>a. sbind (signore (on_ctx (on_boker (FrozenStock H sender a)))) (\<lambda>_. done))
        else if txMinor = StockUnFrozen then sbind the_to (\<lambda>a. sbind (signore (on_ctx (on_boker (UnFrozenStock H sender a)))) (\<lambda>_. done))
        else if txMinor = StockAssignGas then sbind (signore (bokerAssignGas E sender timer)) (\<lambda>_. done)
        else sthrow (TextError ''not know protocol type'')))))"

definition UserContractTransitionDb :: "environment \<Rightarrow> (bytes \<Rightarrow> bytes) \<Rightarrow> TxMinor \<Rightarrow> tx_result ctx" where
  "UserContractTransitionDb E H txMinor =
     sbind (on_tx (preCheck E)) (\<lambda>_.
     sbind (if txMinor = SetSystemContract_minor then
              sbind the_to (\<lambda>a. sbind (on_tx (tx_from E)) (\<lambda>from. signore (on_ctx (on_boker (SetUserBaseContract H a from)))))
            else sret ()) (\<lambda>_.
     sbind (on_tx (bump_nonce E)) (\<lambda>_. sret (Some [], 0, 0, False))))"

section \<open>Messages\<close>

text \<open>What the block processor sees: the data, the gas it records as used, and whether the machine failed. The state
  transition is created here and holds the gas pool, which is passed on.\<close>

definition NormalMessage :: "environment \<Rightarrow> runner \<Rightarrow> Message \<Rightarrow> int \<Rightarrow> int \<Rightarrow> EVM \<Rightarrow> (bytes option \<times> int \<times> bool) res \<times> StateTransition" where
  "NormalMessage E loop msg gp sp evm =
     sbind (NormalTransitionDb E loop) (\<lambda>(ret, _, gasUsed, failed). sret (ret, gasUsed, failed)) (NewStateTransition evm msg gp sp)"

definition SystemBaseMessage :: "environment \<Rightarrow> runner \<Rightarrow> Message \<Rightarrow> int \<Rightarrow> int \<Rightarrow> EVM \<Rightarrow> (bytes option \<times> int \<times> bool) res \<times> StateTransition" where
  "SystemBaseMessage E loop msg gp sp evm =
     sbind (SystemBaseTransitionDb E loop) (\<lambda>(ret, _, _, failed). sret (ret, 0, failed)) (NewStateTransition evm msg gp sp)"

definition UserBaseMessage :: "environment \<Rightarrow> runner \<Rightarrow> Message \<Rightarrow> int \<Rightarrow> int \<Rightarrow> EVM \<Rightarrow> (bytes option \<times> int \<times> bool) res \<times> StateTransition" where
  "UserBaseMessage E loop msg gp sp evm =
     sbind (UserBaseTransitionDb E loop) (\<lambda>(ret, _, _, failed). sret (ret, 0, failed)) (NewStateTransition evm msg gp sp)"

definition ExtraMessage :: "environment \<Rightarrow> runner \<Rightarrow> Message \<Rightarrow> int \<Rightarrow> int \<Rightarrow> EVM \<Rightarrow> (bytes option \<times> int \<times> bool) res \<times> StateTransition" where
  "ExtraMessage E loop msg gp sp evm =
     sbind (ExtraTransitionDb E loop) (\<lambda>(ret, _, _, failed). sret (ret, 90000 * (50 * 1000000000), failed)) (NewStateTransition evm msg gp sp)"

end
