(* ===== verification/Transition_Safe.thy ===== *)
theory Transition_Safe
  imports State_Transition
begin

text \<open>
  Properties of \<open>core/state_transition.go\<close>. Triples over transitions rest on the rules of the virtual machine and follow a
  transaction through its phases: gas not yet bought, bought, partly spent, returned and settled. They account for the gas
  pool, for the gas of the sender and for what all accounts own together.
\<close>

section \<open>Triples over transitions\<close>

text \<open>An operation on a transition does not panic and leaves a machine in order. \<open>B\<close> bounds the supply where it ends with
  an error.\<close>

definition tx_end :: "environment \<Rightarrow> int \<Rightarrow> ('a \<Rightarrow> StateTransition \<Rightarrow> world \<Rightarrow> bool) \<Rightarrow> 'a res \<times> StateTransition \<Rightarrow> bool" where
  "tx_end E B Q r \<longleftrightarrow> (\<exists>A'. machine_ok E (st_evm (snd r)) A' \<and> (case fst r of Inl e \<Rightarrow> \<not> crash e \<and> supply_le B A' | Inr x \<Rightarrow> Q x (snd r) A'))"

definition txh :: "environment \<Rightarrow> int \<Rightarrow> (StateTransition \<Rightarrow> world \<Rightarrow> bool) \<Rightarrow> 'a tx \<Rightarrow> ('a \<Rightarrow> StateTransition \<Rightarrow> world \<Rightarrow> bool) \<Rightarrow> bool" where
  "txh E B P m Q \<longleftrightarrow> (\<forall>st A. machine_ok E (st_evm st) A \<longrightarrow> P st A \<longrightarrow> tx_end E B Q (m st))"

lemma txhD: "txh E B P m Q \<Longrightarrow> machine_ok E (st_evm st) A \<Longrightarrow> P st A \<Longrightarrow> tx_end E B Q (m st)"
  by (simp add: txh_def)

lemma txh_bind:
  assumes "txh E B P m Q'" "\<And>x. txh E B (Q' x) (f x) Q"
  shows "txh E B P (sbind m f) Q"
  unfolding txh_def
proof (intro allI impI)
  fix st A assume *: "machine_ok E (st_evm st) A" "P st A"
  obtain r st1 where r: "m st = (r, st1)" by fastforce
  note m = txhD [OF assms(1) *, unfolded r tx_end_def fst_conv snd_conv]
  show "tx_end E B Q (sbind m f st)"
  proof (cases r)
    case (Inl e)
    then show ?thesis using m r by (auto simp: sbind_def tx_end_def)
  next
    case (Inr x)
    then obtain A1 where "machine_ok E (st_evm st1) A1" "Q' x st1 A1" using m by auto
    from txhD [where P = "Q' x", OF assms(2) this] show ?thesis using r Inr by (simp add: sbind_def)
  qed
qed

lemma txh_pre: "txh E B P' m Q \<Longrightarrow> (\<And>st A. machine_ok E (st_evm st) A \<Longrightarrow> P st A \<Longrightarrow> P' st A) \<Longrightarrow> txh E B P m Q"
  unfolding txh_def by blast

lemma txh_post:
  assumes "txh E B P m Q'" "\<And>x st A. Q' x st A \<Longrightarrow> Q x st A"
  shows "txh E B P m Q"
proof -
  have "tx_end E B Q' r \<Longrightarrow> tx_end E B Q r" for r using assms(2) unfolding tx_end_def by (auto split: sum.splits)
  then show ?thesis using assms(1) unfolding txh_def by blast
qed

lemma txh_assume: "(\<And>st A. machine_ok E (st_evm st) A \<Longrightarrow> P st A \<Longrightarrow> txh E B P m Q) \<Longrightarrow> txh E B P m Q"
  unfolding txh_def by blast

lemma txh_ret: "(\<And>st A. P st A \<Longrightarrow> Q x st A) \<Longrightarrow> txh E B P (sret x) Q"
  unfolding txh_def sret_def tx_end_def by auto

lemma txh_throw: "\<not> crash e \<Longrightarrow> (\<And>st A. P st A \<Longrightarrow> supply_le B A) \<Longrightarrow> txh E B P (sthrow e) Q"
  unfolding txh_def sthrow_def tx_end_def by auto

lemma txh_mod: "(\<And>st A. P st A \<Longrightarrow> Q () (f st) A) \<Longrightarrow> (\<And>st. st_evm (f st) = st_evm st) \<Longrightarrow> txh E B P (mod_tx f) Q"
  unfolding txh_def mod_tx_def tx_end_def by auto

lemma txh_get: "(\<And>s. txh E B (\<lambda>st A. st = s \<and> P st A) (f s) Q) \<Longrightarrow> txh E B P (sbind get_tx f) Q"
  unfolding txh_def get_tx_def sbind_def by simp

lemma txh_if: "(c \<Longrightarrow> txh E B P m1 Q) \<Longrightarrow> (\<not> c \<Longrightarrow> txh E B P m2 Q) \<Longrightarrow> txh E B P (if c then m1 else m2) Q"
  by simp

text \<open>An operation of the machine, by the rules of \<open>machine\<close>.\<close>

lemma txh_vm:
  assumes "tri E False gains_nothing P' m Q'" "\<And>st A. P st A \<Longrightarrow> P' A"
    "\<And>st A x v' A'. P st A \<Longrightarrow> gains_nothing A A' \<Longrightarrow> Q' x A' \<Longrightarrow> Q x (st\<lparr>st_evm := v'\<rparr>) A'"
  shows "txh E B P (in_vm m) Q"
  unfolding txh_def
proof (intro allI impI)
  fix st A assume *: "machine_ok E (st_evm st) A" "P st A"
  obtain x v' A' where "m (st_evm st) = (Inr x, v')" "machine_ok E v' A'" "gains_nothing A A'" "Q' x A'"
    using run_post [OF assms(1) *(1) assms(2) [OF *(2)]] by blast
  then show "tx_end E B Q (in_vm m st)" using assms(3) [OF *(2)] by (auto simp: in_vm_def tx_end_def)
qed

section \<open>Credits and debits\<close>

lemma supply_debit:
  assumes "wok H A" "supply_le T A" "0 \<le> n" "n \<le> w_balance A addr"
  shows "supply_le (T - n) (w_AddBalance H addr (- n) A)"
  unfolding supply_le_def
proof (intro allI impI)
  fix X :: "address set" assume X: "finite X"
  define F where "F = w_balance (w_AddBalance H addr (- n) A)"
  have f: "F a = w_balance A a - (if a = addr then n else 0)" for a unfolding F_def by (simp only: w_balance_AddBalance) simp
  have "(\<Sum>a\<in>X. F a) \<le> (\<Sum>a\<in>insert addr X. F a)" by (rule sum_mono2) (use X f assms(4) in auto)
  also have "\<dots> = (\<Sum>a\<in>insert addr X. w_balance A a) - (\<Sum>a\<in>insert addr X. if a = addr then n else 0)" by (simp only: f sum_subtractf)
  also have "(\<Sum>a\<in>insert addr X. if a = addr then n else 0) = n" using X by simp
  also have "(\<Sum>a\<in>insert addr X. w_balance A a) \<le> T" using assms(2) X unfolding supply_le_def by blast
  finally show "(\<Sum>a\<in>X. w_balance (w_AddBalance H addr (- n) A) a) \<le> T - n" by (simp add: F_def)
qed

lemma supply_credit:
  assumes "supply_le T A" "0 \<le> n"
  shows "supply_le (T + n) (w_AddBalance H addr n A)"
  unfolding supply_le_def
proof (intro allI impI)
  fix X :: "address set" assume X: "finite X"
  have "(\<Sum>a\<in>X. w_balance (w_AddBalance H addr n A) a) = (\<Sum>a\<in>X. w_balance A a) + (\<Sum>a\<in>X. if a = addr then n else 0)"
    by (simp only: w_balance_AddBalance sum.distrib)
  also have "(\<Sum>a\<in>X. if a = addr then n else 0) \<le> n" using X assms(2) by simp
  also have "(\<Sum>a\<in>X. w_balance A a) \<le> T" using assms(1) X unfolding supply_le_def by blast
  finally show "(\<Sum>a\<in>X. w_balance (w_AddBalance H addr n A) a) \<le> T + n" by simp
qed

lemma supply_le_mono: "supply_le T A \<Longrightarrow> T \<le> T' \<Longrightarrow> supply_le T' A"
  unfolding supply_le_def by (meson order_trans)

lemma machine_evolves:
  assumes "machine_ok E v A" "wok (keccak E) A'"
    "\<And>f J. sim (keccak E) UNIV (disk E) f (evm_state v) A J \<Longrightarrow> \<exists>s' K. m (evm_state v) = (Inr x, s') \<and> evolves (keccak E) UNIV (disk E) f (evm_state v) A J s' A' K"
  shows "\<exists>v'. on_db m v = (Inr x, v') \<and> machine_ok E v' A'"
proof -
  have "represents (keccak E) UNIV (disk E) (evm_state v) A" using assms(1) by (simp add: machine_ok_def)
  from represents_evolves [OF this assms(3)] obtain s' where "m (evm_state v) = (Inr x, s')" "represents (keccak E) UNIV (disk E) s' A'" by blast
  then show ?thesis using assms(1,2) by (auto simp: on_db_def machine_ok_def)
qed

lemma machine_wok: "machine_ok E v A \<Longrightarrow> wok (keccak E) A"
  by (simp add: machine_ok_def)

lemma wok_AddBalance:
  assumes "wok H A" "supply_le max_supply (w_AddBalance H addr n A)" "0 \<le> w_balance A addr + n"
  shows "wok H (w_AddBalance H addr n A)"
proof (rule wok_balances [OF assms(2) _ codes_AddBalance [OF wok_codes [OF assms(1)]]])
  show "0 \<le> w_balance (w_AddBalance H addr n A) a" for a using wok_balance [OF assms(1), of a] assms(3) by (simp only: w_balance_AddBalance) simp
qed

lemma txh_credit:
  assumes "\<And>st A. P st A \<Longrightarrow> 0 \<le> n \<and> supply_le (max_supply - n) A"
    "\<And>st A v'. P st A \<Longrightarrow> Q () (st\<lparr>st_evm := v'\<rparr>) (w_AddBalance (keccak E) addr n A)"
  shows "txh E B P (in_vm (on_db (AddBalance (keccak E) (disk E) addr n))) Q"
  unfolding txh_def
proof (intro allI impI)
  fix st A assume *: "machine_ok E (st_evm st) A" "P st A"
  let ?A = "w_AddBalance (keccak E) addr n A"
  have n: "0 \<le> n" "supply_le (max_supply - n) A" using assms(1) [OF *(2)] by auto
  have "supply_le max_supply ?A" using supply_credit [OF n(2,1)] by simp
  then have "wok (keccak E) ?A" by (rule wok_AddBalance [OF machine_wok [OF *(1)]]) (use wok_balance [OF machine_wok [OF *(1)], of addr] n in simp)
  from machine_evolves [OF *(1) this, of "AddBalance (keccak E) (disk E) addr n" "()"]
  obtain v' where "on_db (AddBalance (keccak E) (disk E) addr n) (st_evm st) = (Inr (), v')" "machine_ok E v' ?A"
    using setters_evolve(1) [of "keccak E" UNIV "disk E" _ "evm_state (st_evm st)" A _ addr n] by auto
  then show "tx_end E B Q (in_vm (on_db (AddBalance (keccak E) (disk E) addr n)) st)"
    using assms(2) [OF *(2), of v'] by (auto simp: in_vm_def tx_end_def)
qed

lemma txh_debit:
  assumes "\<And>st A. P st A \<Longrightarrow> 0 \<le> n \<and> n \<le> w_balance A addr"
    "\<And>st A v'. P st A \<Longrightarrow> wok (keccak E) A \<Longrightarrow> Q () (st\<lparr>st_evm := v'\<rparr>) (w_AddBalance (keccak E) addr (- n) A)"
  shows "txh E B P (in_vm (on_db (SubBalance (keccak E) (disk E) addr n))) Q"
  unfolding txh_def
proof (intro allI impI)
  fix st A assume *: "machine_ok E (st_evm st) A" "P st A"
  let ?A = "w_AddBalance (keccak E) addr (- n) A"
  have n: "0 \<le> n" "n \<le> w_balance A addr" using assms(1) [OF *(2)] by auto
  have "supply_le (max_supply - n) ?A" by (rule supply_debit [OF machine_wok [OF *(1)] wok_supply [OF machine_wok [OF *(1)]] n])
  then have "supply_le max_supply ?A" by (rule supply_le_mono) (use n in simp)
  then have "wok (keccak E) ?A" by (rule wok_AddBalance [OF machine_wok [OF *(1)]]) (use n in simp)
  from machine_evolves [OF *(1) this, of "SubBalance (keccak E) (disk E) addr n" "()"]
  obtain v' where "on_db (SubBalance (keccak E) (disk E) addr n) (st_evm st) = (Inr (), v')" "machine_ok E v' ?A"
    using setters_evolve(2) [of "keccak E" UNIV "disk E" _ "evm_state (st_evm st)" A _ addr n] by auto
  then show "tx_end E B Q (in_vm (on_db (SubBalance (keccak E) (disk E) addr n)) st)"
    using assms(2) [OF *(2) machine_wok [OF *(1)], of v'] by (auto simp: in_vm_def tx_end_def)
qed

text \<open>Writing the refund counter.\<close>

lemma txh_refund_counter:
  assumes "\<And>st A v'. P st A \<Longrightarrow> Q () (st\<lparr>st_evm := v'\<rparr>) (A\<lparr>w_refund := n\<rparr>)"
  shows "txh E B P (in_vm (db_do (\<lambda>s. s\<lparr>refund := n\<rparr>))) Q"
  unfolding txh_def
proof (intro allI impI)
  fix st A assume *: "machine_ok E (st_evm st) A" "P st A"
  let ?A = "A\<lparr>w_refund := n\<rparr>" let ?v = "(st_evm st)\<lparr>evm_state := (evm_state (st_evm st))\<lparr>refund := n\<rparr>\<rparr>"
  have w: "wok (keccak E) ?A" by (rule wok_cong [OF _ machine_wok [OF *(1)]]) simp
  have "represents (keccak E) UNIV (disk E) (evm_state ?v) ?A"
    using *(1) by (auto simp: machine_ok_def represents_def sim_def db_rel_def extras_def peek_def load_def wf_objects_def GetLogs_def fun_eq_iff)
  then have "machine_ok E ?v ?A" using *(1) w by (simp add: machine_ok_def)
  then show "tx_end E B Q (in_vm (db_do (\<lambda>s. s\<lparr>refund := n\<rparr>)) st)"
    using assms [OF *(2), of ?v] by (auto simp: in_vm_def db_do_def tx_end_def)
qed

section \<open>Paying and refunding\<close>

definition msg_ok :: "Message \<Rightarrow> bool" where
  "msg_ok msg \<longleftrightarrow> 0 \<le> msg_Gas msg \<and> 0 \<le> msg_GasPrice msg \<and> in_word (msg_Value msg) \<and> length (msg_From msg) = 20
     \<and> (\<forall>a. msg_To msg = Some a \<longrightarrow> length a = 20) \<and> small_code (msg_Data msg)"

definition tx_fields :: "Message \<Rightarrow> StateTransition \<Rightarrow> bool" where
  "tx_fields msg st \<longleftrightarrow> st_msg st = msg \<and> st_gasPrice st = msg_GasPrice msg \<and> st_value st = msg_Value msg \<and> st_data st = msg_Data msg"

text \<open>Before gas is bought, and after it: \<open>T\<close> bounds the supply before the transaction and \<open>g0\<close> is the gas pool then.\<close>

definition unpaid :: "Message \<Rightarrow> int \<Rightarrow> int \<Rightarrow> StateTransition \<Rightarrow> world \<Rightarrow> bool" where
  "unpaid msg T g0 st A \<longleftrightarrow> tx_fields msg st \<and> st_gas st = 0 \<and> st_gp st = g0 \<and> supply_le T A \<and> 0 \<le> w_refund A"

definition bought :: "Message \<Rightarrow> int \<Rightarrow> int \<Rightarrow> StateTransition \<Rightarrow> world \<Rightarrow> bool" where
  "bought msg T g0 st A \<longleftrightarrow> tx_fields msg st \<and> initialGas st = msg_Gas msg \<and> msg_Gas msg < 2 ^ 64 \<and> msg_Gas msg \<le> g0 \<and> st_gp st = g0 - msg_Gas msg
     \<and> supply_le (T - msg_Gas msg * msg_GasPrice msg) A \<and> 0 \<le> w_refund A"

text \<open>At least \<open>k\<close> units of the gas bought have been used.\<close>

definition spent :: "int \<Rightarrow> Message \<Rightarrow> int \<Rightarrow> int \<Rightarrow> StateTransition \<Rightarrow> world \<Rightarrow> bool" where
  "spent k msg T g0 st A \<longleftrightarrow> bought msg T g0 st A \<and> uint (st_gas st) + k \<le> msg_Gas msg"

definition stable :: "Message \<Rightarrow> (StateTransition \<Rightarrow> world \<Rightarrow> bool) \<Rightarrow> bool" where
  "stable msg P \<longleftrightarrow> (\<forall>st A. P st A \<longrightarrow> tx_fields msg st \<and> (\<forall>v' A'. gains_nothing A A' \<longrightarrow> P (st\<lparr>st_evm := v'\<rparr>) A'))"

lemma stableD: "stable msg P \<Longrightarrow> P st A \<Longrightarrow> gains_nothing A A' \<Longrightarrow> P (st\<lparr>st_evm := v'\<rparr>) A'"
  by (simp add: stable_def)

lemma stable_phases: "stable msg (unpaid msg T g0)" "stable msg (bought msg T g0)" "stable msg (spent k msg T g0)"
  by (auto simp: stable_def unpaid_def bought_def spent_def tx_fields_def gains_nothing_def)

lemma txh_stable: "tri E False gains_nothing (\<lambda>_. True) m (\<lambda>x _. q x) \<Longrightarrow> stable msg P \<Longrightarrow> txh E B P (in_vm m) (\<lambda>x st A. P st A \<and> q x)"
  by (erule txh_vm) (auto dest: stableD)

lemma tri_any: "tri E stat R P m Q \<Longrightarrow> tri E stat R P m (\<lambda>_ _. True)"
  unfolding tri_def by meson

lemma txh_quiet: "tri E False gains_nothing (\<lambda>_. True) m Q \<Longrightarrow> stable msg P \<Longrightarrow> txh E B P (in_vm m) (\<lambda>x. P)"
  using txh_stable [of E m "\<lambda>_. True" msg P B] by (auto dest: tri_any)

lemma txh_ensure:
  assumes "stable msg P"
  shows "txh E B P (ensure_account E a) (\<lambda>x st A. P st A \<and> x = a)"
  unfolding ensure_account_def
proof (rule txh_bind [OF txh_quiet [OF conserve.tri_Exist assms]])
  have c: "tri E False gains_nothing (\<lambda>_. True) (on_db (CreateAccount (keccak E) (disk E) a)) (\<lambda>_ _. True)"
    by (rule conserve.tri_conseq [OF conserve.tri_CreateAccount [where Q = "\<lambda>_. True"]]) auto
  show "txh E B P (sbind (if \<not> x then in_vm (on_db (CreateAccount (keccak E) (disk E) a)) else sret ()) (\<lambda>_. sret a)) (\<lambda>x st A. P st A \<and> x = a)" for x
    by (rule txh_bind [where Q' = "\<lambda>_. P"], rule txh_if [OF txh_quiet [OF c assms] txh_ret], assumption, rule txh_ret, simp)
qed

lemma txh_from:
  assumes "stable msg P"
  shows "txh E B P (tx_from E) (\<lambda>x st A. P st A \<and> x = msg_From msg)"
  unfolding tx_from_def
proof (rule txh_get)
  fix s
  show "txh E B (\<lambda>st A. st = s \<and> P st A) (ensure_account E (msg_From (st_msg s))) (\<lambda>x st A. P st A \<and> x = msg_From msg)"
  proof (rule txh_assume)
    fix st A assume "st = s \<and> P st A"
    then have m: "st_msg s = msg" using assms by (auto simp: stable_def tx_fields_def)
    show "txh E B (\<lambda>st A. st = s \<and> P st A) (ensure_account E (msg_From (st_msg s))) (\<lambda>x st A. P st A \<and> x = msg_From msg)"
      unfolding m by (rule txh_pre [OF txh_ensure [OF assms]]) simp
  qed
qed

lemma txh_to:
  assumes "stable msg P"
  shows "txh E B P (tx_to E) (\<lambda>x st A. P st A \<and> x = (case msg_To msg of None \<Rightarrow> zero_address | Some a \<Rightarrow> a))"
  unfolding tx_to_def
proof (rule txh_get)
  fix s
  let ?Q = "\<lambda>x st A. P st A \<and> x = (case msg_To msg of None \<Rightarrow> zero_address | Some a \<Rightarrow> a)"
  have "txh E B P (case msg_To msg of None \<Rightarrow> sret zero_address | Some a \<Rightarrow> ensure_account E a) ?Q"
    using txh_ensure [OF assms] txh_ret [of P ?Q zero_address] by (cases "msg_To msg") auto
  moreover have "st_msg s = msg" if "P s A" for A using assms that by (auto simp: stable_def tx_fields_def)
  ultimately show "txh E B (\<lambda>st A. st = s \<and> P st A) (case msg_To (st_msg s) of None \<Rightarrow> sret zero_address | Some a \<Rightarrow> ensure_account E a) ?Q"
    unfolding txh_def by auto
qed

lemma uint_Uint64_BitLen:
  assumes "0 \<le> x" "\<not> BitLen x > 64"
  shows "uint (Uint64 x) = x"
  using uint_Uint64 [OF assms(1)] BitLen_gt [of x 64] assms by simp

lemma txh_buyGas:
  assumes "msg_ok msg"
  shows "txh E T (unpaid msg T g0) (buyGas E) (\<lambda>_. spent 0 msg T g0)"
  unfolding buyGas_def
proof (rule txh_get, rule txh_assume)
  fix s st A assume "st = s \<and> unpaid msg T g0 st A"
  then have s: "st_msg s = msg" "st_gasPrice s = msg_GasPrice msg" "st_gp s = g0" by (auto simp: unpaid_def tx_fields_def)
  let ?v = "msg_Gas msg * msg_GasPrice msg" let ?from = "msg_From msg"
  have v: "0 \<le> ?v" "0 \<le> msg_Gas msg" using assms by (auto simp: msg_ok_def)
  have bal: "txh E T (unpaid msg T g0) (in_vm (on_db (GetBalance (keccak E) (disk E) a))) (\<lambda>b st A. unpaid msg T g0 st A \<and> b = w_balance A a)" for a
    by (rule txh_vm [OF conserve.tri_GetBalance [where P = "\<lambda>_. True"]]) (use stableD [OF stable_phases(1)] in auto)
  have err: "txh E T (\<lambda>st A. unpaid msg T g0 st A \<and> Z st A) (sthrow (ChainError e)) Q" for Z e and Q :: "unit \<Rightarrow> StateTransition \<Rightarrow> world \<Rightarrow> bool"
    by (rule txh_throw) (auto simp: unpaid_def)
  have lift: "txh E T (\<lambda>st A. unpaid msg T g0 st A \<and> b = w_balance A a) (lift_res (SubGas (msg_Gas msg) g0))
      (\<lambda>gp st A. unpaid msg T g0 st A \<and> b = w_balance A a \<and> gp = g0 - msg_Gas msg \<and> msg_Gas msg \<le> g0)" for b a
    unfolding txh_def tx_end_def by (auto simp: lift_res_def SubGas_def unpaid_def)
  show "txh E T (\<lambda>st A. st = s \<and> unpaid msg T g0 st A)
     (let mgas = msg_Gas (st_msg s); mgval = mgas * st_gasPrice s
      in if BitLen mgas > 64 then sthrow (ChainError ErrOutOfGas)
        else sbind (tx_from E) (\<lambda>sender.
             sbind (in_vm (on_db (GetBalance (keccak E) (disk E) sender))) (\<lambda>balance.
             if balance < mgval then sthrow (ChainError errInsufficientBalanceForGas)
             else sbind (lift_res (SubGas mgas (st_gp s))) (\<lambda>gp.
                  sbind (mod_tx (\<lambda>st. st\<lparr>st_gp := gp, st_gas := st_gas st + Uint64 mgas, initialGas := mgas\<rparr>)) (\<lambda>_.
                  in_vm (on_db (SubBalance (keccak E) (disk E) sender mgval))))))) (\<lambda>_. spent 0 msg T g0)"
    unfolding s Let_def
  proof (rule txh_if, goal_cases)
    case 1
    show ?case by (rule txh_throw) (auto simp: unpaid_def)
  next
    case 2
    note g = uint_Uint64_BitLen [OF v(2) 2]
    have lt: "msg_Gas msg < 2 ^ 64" using BitLen_gt [OF v(2), of 64] 2 by simp
    show ?case
    proof (rule txh_pre [where P' = "unpaid msg T g0"], rule txh_bind [OF txh_from [OF stable_phases(1)]], goal_cases)
      case (1 a)
      show ?case
      proof (rule txh_pre [where P' = "unpaid msg T g0"], rule txh_bind [OF bal], rule txh_if [OF err], goal_cases)
        case (1 b)
        let ?mid = "\<lambda>st A. tx_fields msg st \<and> initialGas st = msg_Gas msg \<and> msg_Gas msg \<le> g0 \<and> st_gp st = g0 - msg_Gas msg \<and> supply_le T A
          \<and> 0 \<le> w_refund A \<and> uint (st_gas st) \<le> msg_Gas msg \<and> ?v \<le> w_balance A a"
        show ?case
        proof (rule txh_bind [OF lift], rule txh_bind [where Q' = "\<lambda>_. ?mid"], goal_cases)
          case (1 gp)
          show ?case by (rule txh_mod) (use \<open>\<not> b < ?v\<close> g in \<open>auto simp: unpaid_def tx_fields_def\<close>)
        next
          case (2 gp x)
          show ?case
          proof (rule txh_debit)
            fix st A v' assume m: "?mid st A" "wok (keccak E) A"
            have "supply_le (T - ?v) (w_AddBalance (keccak E) a (- ?v) A)" by (rule supply_debit [OF m(2)]) (use m v in auto)
            then show "spent 0 msg T g0 (st\<lparr>st_evm := v'\<rparr>) (w_AddBalance (keccak E) a (- ?v) A)"
              using m lt by (simp add: spent_def bought_def tx_fields_def)
          qed (use v in auto)
        qed
      qed auto
    qed auto
  qed
qed

lemma bought_supply: "msg_ok msg \<Longrightarrow> bought msg T g0 st A \<Longrightarrow> supply_le T A"
  by (rule supply_le_mono [of "T - msg_Gas msg * msg_GasPrice msg"]) (auto simp: bought_def msg_ok_def)

lemma txh_preCheck:
  assumes "msg_ok msg"
  shows "txh E T (unpaid msg T g0) (preCheck E) (\<lambda>_. spent 0 msg T g0)"
  unfolding preCheck_def
proof (rule txh_get, rule txh_pre [where P' = "unpaid msg T g0"], rule txh_bind [OF txh_from [OF stable_phases(1)]], goal_cases)
  case (1 s a)
  have err: "txh E T (unpaid msg T g0) (sthrow (ChainError e)) Q" for e and Q :: "unit \<Rightarrow> StateTransition \<Rightarrow> world \<Rightarrow> bool"
    by (rule txh_throw) (auto simp: unpaid_def)
  have "txh E T (unpaid msg T g0) (if CheckNonce (st_msg s) then
              sbind (in_vm (on_db (GetNonce (keccak E) (disk E) a))) (\<lambda>nonce.
                if nonce < msg_Nonce (st_msg s) then sthrow (ChainError ErrNonceTooHigh)
                else if nonce > msg_Nonce (st_msg s) then sthrow (ChainError ErrNonceTooLow)
                else sret ()) else sret ()) (\<lambda>_. unpaid msg T g0)"
    by (intro txh_if txh_bind [OF txh_quiet [OF conserve.tri_GetNonce stable_phases(1)]] err txh_ret)
  from txh_bind [OF this txh_buyGas [OF assms]] show ?case by (rule txh_pre) simp
qed simp

lemma txh_useGas:
  assumes "msg_ok msg"
  shows "txh E T (spent 0 msg T g0) (useGas k) (\<lambda>_. spent (uint k) msg T g0)"
  unfolding useGas_def
proof (rule txh_get, rule txh_if, goal_cases)
  case (1 s)
  show ?case by (rule txh_throw) (use bought_supply [OF assms] in \<open>auto simp: spent_def\<close>)
next
  case (2 s)
  then have "uint (st_gas s - k) = uint (st_gas s) - uint k" by (simp add: uint_sub_if_size word_less_def not_less uint_minus_simple_alt word_le_def)
  then show ?case by (intro txh_mod) (auto simp: spent_def bought_def tx_fields_def)
qed

text \<open>Predicates that do not mind if gas is used.\<close>

definition gas_down :: "(StateTransition \<Rightarrow> world \<Rightarrow> bool) \<Rightarrow> bool" where
  "gas_down P \<longleftrightarrow> (\<forall>st A g. P st A \<longrightarrow> g \<le> st_gas st \<longrightarrow> P (st\<lparr>st_gas := g\<rparr>) A)"

lemma gas_down_phases: "gas_down (bought msg T g0)" "gas_down (spent k msg T g0)"
  by (auto simp: gas_down_def bought_def spent_def tx_fields_def word_le_def)

lemma fuel_gas: "2 ^ 64 \<le> n \<Longrightarrow> unat (g :: u64) < n"
  using unat_u64 [of g] by (rule less_le_trans)

lemma txh_call_message:
  assumes "msg_ok msg" "2 ^ 64 \<le> n" "stable msg P" "gas_down P"
  shows "txh E B P (call_message E (run_loop E n) (msg_From msg)) (\<lambda>_. P)"
  unfolding call_message_def
proof (rule txh_bind [OF txh_to [OF assms(3)]], rule txh_get, rule txh_assume)
  fix a s st A assume "st = s \<and> P st A \<and> a = (case msg_To msg of None \<Rightarrow> zero_address | Some a \<Rightarrow> a)"
  then have s: "tx_fields msg s" "length a = 20" using assms(1,3) by (auto simp: stable_def msg_ok_def zero_address_def split: option.splits)
  have d: "in_word (st_value s)" "length (ref_address (AccountRef (msg_From msg))) = 20" "small_code (st_data s)"
    using s assms(1) by (auto simp: tx_fields_def msg_ok_def)
  have t: "tri E False gains_nothing (\<lambda>_. True) (evm_Call E (run_loop E n) (AccountRef (msg_From msg)) a (st_data s) (st_gas s) (st_value s))
      (call_post (st_gas s) (\<lambda>_. True))" by (rule run_call [OF fuel_gas [OF assms(2)] d(1) _ d(2) s(2) d(3)]) simp
  have v: "txh E B (\<lambda>st A. st = s \<and> P st A \<and> a = (case msg_To msg of None \<Rightarrow> zero_address | Some a \<Rightarrow> a))
      (in_vm (evm_Call E (run_loop E n) (AccountRef (msg_From msg)) a (st_data s) (st_gas s) (st_value s)))
      (\<lambda>x st A. P st A \<and> fst (snd x) \<le> st_gas st)"
    by (rule txh_vm [OF t]) (use stableD [OF assms(3)] in \<open>auto simp: call_post_def\<close>)
  show "txh E B (\<lambda>st A. st = s \<and> P st A \<and> a = (case msg_To msg of None \<Rightarrow> zero_address | Some a \<Rightarrow> a))
      (sbind (in_vm (evm_Call E (run_loop E n) (AccountRef (msg_From msg)) a (st_data s) (st_gas s) (st_value s))) (\<lambda>(ret, gas, vmerr).
        sbind (mod_tx (\<lambda>st. st\<lparr>st_gas := gas\<rparr>)) (\<lambda>_. sret (ret, vmerr)))) (\<lambda>_. P)"
  proof (rule txh_bind [OF v], clarify)
    fix ret gas vmerr
    show "txh E B (\<lambda>st A. P st A \<and> fst (snd (ret, gas, vmerr)) \<le> st_gas st) (sbind (mod_tx (\<lambda>st. st\<lparr>st_gas := gas\<rparr>)) (\<lambda>_. sret (ret, vmerr))) (\<lambda>_. P)"
      by (rule txh_bind [OF txh_mod [where Q = "\<lambda>_. P"] txh_ret]) (use assms(4) in \<open>auto simp: gas_down_def\<close>)
  qed
qed

lemma txh_create_message:
  assumes "msg_ok msg" "2 ^ 64 \<le> n" "stable msg P" "gas_down P"
  shows "txh E B P (create_message E (run_loop E n) (msg_From msg)) (\<lambda>_. P)"
  unfolding create_message_def
proof (rule txh_get, rule txh_assume)
  fix s st A assume "st = s \<and> P st A"
  then have s: "tx_fields msg s" using assms(3) by (auto simp: stable_def)
  have d: "in_word (st_value s)" "length (ref_address (AccountRef (msg_From msg))) = 20" "small_code (st_data s)"
    using s assms(1) by (auto simp: tx_fields_def msg_ok_def)
  have t: "tri E False gains_nothing (\<lambda>_. True) (evm_Create E (run_loop E n) (AccountRef (msg_From msg)) (st_data s) (st_gas s) (st_value s))
      (\<lambda>x _. create_post (st_gas s) x)" by (rule run_create [OF fuel_gas [OF assms(2)] d(1) _ d(3,2)]) simp
  have v: "txh E B (\<lambda>st A. st = s \<and> P st A) (in_vm (evm_Create E (run_loop E n) (AccountRef (msg_From msg)) (st_data s) (st_gas s) (st_value s)))
      (\<lambda>x st A. P st A \<and> fst (snd (snd x)) \<le> st_gas st)"
    by (rule txh_vm [OF t]) (use stableD [OF assms(3)] in \<open>auto simp: create_post_def\<close>)
  show "txh E B (\<lambda>st A. st = s \<and> P st A)
      (sbind (in_vm (evm_Create E (run_loop E n) (AccountRef (msg_From msg)) (st_data s) (st_gas s) (st_value s))) (\<lambda>(ret, _, gas, vmerr).
        sbind (mod_tx (\<lambda>st. st\<lparr>st_gas := gas\<rparr>)) (\<lambda>_. sret (ret, vmerr)))) (\<lambda>_. P)"
  proof (rule txh_bind [OF v], clarify)
    fix ret addr gas vmerr
    show "txh E B (\<lambda>st A. P st A \<and> fst (snd (snd (ret, addr, gas, vmerr))) \<le> st_gas st) (sbind (mod_tx (\<lambda>st. st\<lparr>st_gas := gas\<rparr>)) (\<lambda>_. sret (ret, vmerr))) (\<lambda>_. P)"
      by (rule txh_bind [OF txh_mod [where Q = "\<lambda>_. P"] txh_ret]) (use assms(4) in \<open>auto simp: gas_down_def\<close>)
  qed
qed

lemma machine_refund: "machine_ok E v A \<Longrightarrow> GetRefund (evm_state v) = w_refund A"
  by (auto simp: machine_ok_def represents_def sim_def db_rel_def extras_def GetRefund_def)

text \<open>What is settled at the end: the pool and the sender are charged for \<open>gasUsed\<close>, at least half of what was used before
  the refund.\<close>

definition settled :: "Message \<Rightarrow> int \<Rightarrow> int \<Rightarrow> int \<Rightarrow> StateTransition \<Rightarrow> world \<Rightarrow> bool" where
  "settled msg T g0 required st A \<longleftrightarrow> gasUsed st \<le> required \<and> required \<le> 2 * gasUsed st \<and> st_gp st = g0 - gasUsed st
     \<and> supply_le (T - gasUsed st * msg_GasPrice msg) A"

lemma uint_plus_le: "uint (a :: u64) + x < 2 ^ 64 \<Longrightarrow> 0 \<le> x \<Longrightarrow> uint (a + Uint64 x) = uint a + x"
  by (simp add: Uint64_def uint_word_ariths uint_word_of_int mod_simps)

text \<open>During the refund: the unused gas \<open>g\<close> has been paid back, and then \<open>r\<close> more units have been counted.\<close>

definition returned :: "Message \<Rightarrow> int \<Rightarrow> int \<Rightarrow> u64 \<Rightarrow> StateTransition \<Rightarrow> world \<Rightarrow> bool" where
  "returned msg T g0 g st A \<longleftrightarrow> initialGas st = msg_Gas msg \<and> st_gas st = g \<and> uint g \<le> msg_Gas msg \<and> st_gp st = g0 - msg_Gas msg
     \<and> supply_le (T - (msg_Gas msg - uint g) * msg_GasPrice msg) A \<and> 0 \<le> w_refund A"

definition counted :: "Message \<Rightarrow> int \<Rightarrow> int \<Rightarrow> u64 \<Rightarrow> int \<Rightarrow> int \<Rightarrow> StateTransition \<Rightarrow> world \<Rightarrow> bool" where
  "counted msg T g0 g r q st A \<longleftrightarrow> initialGas st = msg_Gas msg \<and> uint g \<le> msg_Gas msg \<and> uint (st_gas st) = uint g + r \<and> 0 \<le> r
     \<and> r \<le> (msg_Gas msg - uint g) div 2 \<and> st_gp st = g0 - msg_Gas msg \<and> supply_le (T - (msg_Gas msg - uint g - q) * msg_GasPrice msg) A"

lemma txh_return_unused:
  assumes "msg_ok msg" "T \<le> max_supply" "0 \<le> k"
  shows "txh E T (\<lambda>st A. spent k msg T g0 st A \<and> st_gas st = g) (in_vm (on_db (AddBalance (keccak E) (disk E) a (uint g * msg_GasPrice msg))))
    (\<lambda>_. returned msg T g0 g)"
proof (rule txh_credit)
  let ?p = "msg_GasPrice msg" let ?m = "msg_Gas msg"
  have p: "0 \<le> ?p" using assms(1) by (auto simp: msg_ok_def)
  fix st A assume "spent k msg T g0 st A \<and> st_gas st = g"
  then have b: "bought msg T g0 st A" "uint g + k \<le> ?m" "st_gas st = g" by (auto simp: spent_def)
  have "uint g * ?p \<le> ?m * ?p" using b(2) assms(3) p(1) by (intro mult_right_mono) auto
  then show "0 \<le> uint g * ?p \<and> supply_le (max_supply - uint g * ?p) A"
    using b(1) p(1) assms(2) supply_le_mono [of "T - ?m * ?p" A "max_supply - uint g * ?p"] by (auto simp: bought_def)
  have "supply_le (T - ?m * ?p + uint g * ?p) (w_AddBalance (keccak E) a (uint g * ?p) A)" by (rule supply_credit) (use b(1) p in \<open>auto simp: bought_def\<close>)
  then show "returned msg T g0 g (st\<lparr>st_evm := v'\<rparr>) (w_AddBalance (keccak E) a (uint g * ?p) A)" for v'
    using b assms(3) by (simp add: returned_def bought_def algebra_simps)
qed

lemma txh_pay_refund:
  assumes "msg_ok msg" "T \<le> max_supply"
  shows "txh E T (counted msg T g0 g r 0) (sbind (in_vm (on_db (AddBalance (keccak E) (disk E) a (r * msg_GasPrice msg)))) (\<lambda>_.
      mod_tx (\<lambda>st. st\<lparr>st_gp := AddGas (uint (st_gas st)) (st_gp st)\<rparr>))) (\<lambda>_. settled msg T g0 (msg_Gas msg - uint g))"
proof (rule txh_bind [OF txh_credit [where Q = "\<lambda>_. counted msg T g0 g r r"]], goal_cases)
  case (1 st A)
  then have "r * msg_GasPrice msg \<le> (msg_Gas msg - uint g) * msg_GasPrice msg" using assms(1) by (intro mult_right_mono) (auto simp: counted_def msg_ok_def)
  then show ?case using 1 assms supply_le_mono [of "T - (msg_Gas msg - uint g) * msg_GasPrice msg" A "max_supply - r * msg_GasPrice msg"]
    by (auto simp: counted_def msg_ok_def)
next
  case (2 st A v')
  then have "supply_le (T - (msg_Gas msg - uint g) * msg_GasPrice msg + r * msg_GasPrice msg) (w_AddBalance (keccak E) a (r * msg_GasPrice msg) A)"
    by (intro supply_credit) (use assms(1) in \<open>auto simp: counted_def msg_ok_def\<close>)
  then show ?case using 2 by (simp add: counted_def algebra_simps)
next
  case (3 x)
  show ?case by (rule txh_mod) (auto simp: counted_def settled_def gasUsed_def AddGas_def algebra_simps)
qed

lemma txh_count_refund:
  assumes "msg_ok msg" "msg_Gas msg < 2 ^ 64"
  shows "txh E T (\<lambda>st A. st = s \<and> returned msg T g0 g st A)
    (mod_tx (\<lambda>st. st\<lparr>st_gas := st_gas st + Uint64 (BigMin ((msg_Gas msg - uint g) div 2) (GetRefund (evm_state (st_evm s))))\<rparr>))
    (\<lambda>_. counted msg T g0 g (BigMin ((msg_Gas msg - uint g) div 2) (GetRefund (evm_state (st_evm s)))) 0)"
proof (rule txh_assume, rule txh_mod)
  let ?m = "msg_Gas msg" let ?c = "GetRefund (evm_state (st_evm s))" let ?r = "BigMin ((?m - uint g) div 2) ?c"
  have p: "0 \<le> ?m" "?m < 2 ^ 64" using assms by (auto simp: msg_ok_def)
  fix st A st' A' assume m: "machine_ok E (st_evm st) A" "st = s \<and> returned msg T g0 g st A" "st' = s \<and> returned msg T g0 g st' A'"
  have c: "0 \<le> ?c" "uint g \<le> ?m" using m machine_refund [OF m(1)] by (auto simp: returned_def)
  then have r: "0 \<le> ?r" "?r \<le> (?m - uint g) div 2" by (auto simp: BigMin_def)
  have "uint (g + Uint64 ?r) = uint g + ?r" by (rule uint_plus_le) (use r c p in auto)
  then show "counted msg T g0 g ?r 0 (st'\<lparr>st_gas := st_gas st' + Uint64 ?r\<rparr>) A'" using m(3) r by (auto simp: returned_def counted_def)
qed simp

lemma txh_refundGas:
  assumes "msg_ok msg" "T \<le> max_supply" "msg_Gas msg < 2 ^ 64" "0 \<le> k"
  shows "txh E T (\<lambda>st A. spent k msg T g0 st A \<and> st_gas st = g) (refundGas E) (\<lambda>_. settled msg T g0 (msg_Gas msg - uint g))"
  unfolding refundGas_def Let_def
proof (rule txh_bind [OF txh_from [of msg]], goal_cases)
  case 1
  show ?case using stable_phases(3) [of msg k T g0] by (auto simp: stable_def)
next
  case (2 a)
  show ?case
  proof (rule txh_get, rule txh_assume)
    fix s st A
    let ?P = "\<lambda>st A. st = s \<and> (spent k msg T g0 st A \<and> st_gas st = g) \<and> a = msg_From msg" let ?half = "(msg_Gas msg - uint g) div 2"
    assume "?P st A"
    then have s: "st_gas s = g" "st_gasPrice s = msg_GasPrice msg" "gasUsed s = msg_Gas msg - uint g" by (auto simp: spent_def bought_def tx_fields_def gasUsed_def)
    have credit: "txh E T ?P (in_vm (on_db (AddBalance (keccak E) (disk E) a (uint g * msg_GasPrice msg)))) (\<lambda>_. returned msg T g0 g)"
      by (rule txh_pre [OF txh_return_unused [OF assms(1,2,4)]]) auto
    have count: "txh E T (counted msg T g0 g r 0) (if c then in_vm (db_do (\<lambda>s. s\<lparr>refund := n\<rparr>)) else sret ()) (\<lambda>_. counted msg T g0 g r 0)" for r c n
      by (intro txh_if txh_refund_counter txh_ret) (auto simp: counted_def supply_le_def w_balance_def)
    show "txh E T ?P
      (sbind (in_vm (on_db (AddBalance (keccak E) (disk E) a (uint (st_gas s) * st_gasPrice s)))) (\<lambda>_. sbind get_tx (\<lambda>st.
        sbind (mod_tx (\<lambda>st'. st'\<lparr>st_gas := st_gas st' + Uint64 (BigMin (gasUsed s div 2) (GetRefund (evm_state (st_evm st))))\<rparr>)) (\<lambda>_.
        sbind (if gasUsed s div 2 > GetRefund (evm_state (st_evm st)) then in_vm (db_do (\<lambda>s'. s'\<lparr>refund := GetRefund (evm_state (st_evm st)) * st_gasPrice s\<rparr>)) else sret ()) (\<lambda>_.
        sbind (in_vm (on_db (AddBalance (keccak E) (disk E) a (BigMin (gasUsed s div 2) (GetRefund (evm_state (st_evm st))) * st_gasPrice s)))) (\<lambda>_.
        mod_tx (\<lambda>st. st\<lparr>st_gp := AddGas (uint (st_gas st)) (st_gp st)\<rparr>))))))) (\<lambda>_. settled msg T g0 (msg_Gas msg - uint g))"
      unfolding s by (rule txh_bind [OF credit], rule txh_get, rule txh_bind [OF txh_count_refund [OF assms(1,3)] txh_bind [OF count txh_pay_refund [OF assms(1,2)]]])
  qed
qed

lemma IntrinsicGas_ge: "21000 \<le> IntrinsicGas data c h"
proof -
  have "int (length (filter (\<lambda>byt. byt \<noteq> 0) data)) \<le> int (length data)" by simp
  then show ?thesis unfolding IntrinsicGas_def Let_def by (simp only: split: if_splits) auto
qed

definition normal_post :: "Message \<Rightarrow> int \<Rightarrow> int \<Rightarrow> tx_result \<Rightarrow> StateTransition \<Rightarrow> world \<Rightarrow> bool" where
  "normal_post msg T g0 = (\<lambda>(ret, required, used, failed) st A.
     IntrinsicGas (msg_Data msg) (msg_To msg = None) True \<le> required \<and> required \<le> msg_Gas msg \<and> msg_Gas msg \<le> g0 \<and> used = gasUsed st \<and> settled msg T g0 required st A)"

lemma txh_finish_normal:
  assumes "msg_ok msg" "T \<le> max_supply" "0 \<le> k" "IntrinsicGas (msg_Data msg) (msg_To msg = None) True = k"
  shows "txh E T (spent k msg T g0) (sbind get_tx (\<lambda>st1. sbind (refundGas E) (\<lambda>_. sbind get_tx (\<lambda>st2. sret (ret, gasUsed st1, gasUsed st2, failed)))))
    (normal_post msg T g0)"
proof (rule txh_get, rule txh_assume)
  fix s st A assume "st = s \<and> spent k msg T g0 st A"
  then have s: "msg_Gas msg < 2 ^ 64" "msg_Gas msg \<le> g0" "gasUsed s = msg_Gas msg - uint (st_gas s)" "k \<le> gasUsed s" by (auto simp: spent_def bought_def gasUsed_def)
  have "txh E T (\<lambda>st A. st = s \<and> spent k msg T g0 st A) (refundGas E) (\<lambda>_. settled msg T g0 (gasUsed s))"
    unfolding s(3) by (rule txh_pre [OF txh_refundGas [OF assms(1,2) s(1) assms(3)]]) auto
  then show "txh E T (\<lambda>st A. st = s \<and> spent k msg T g0 st A) (sbind (refundGas E) (\<lambda>_. sbind get_tx (\<lambda>st2. sret (ret, gasUsed s, gasUsed st2, failed)))) (normal_post msg T g0)"
    by (rule txh_bind, intro txh_get txh_ret) (use s assms(4) in \<open>auto simp: normal_post_def\<close>)
qed

lemma txh_NormalTransitionDb:
  assumes "msg_ok msg" "T \<le> max_supply" "2 ^ 64 \<le> n"
  shows "txh E T (unpaid msg T g0) (NormalTransitionDb E (run_loop E n)) (normal_post msg T g0)"
  unfolding NormalTransitionDb_def
proof (rule txh_bind [OF txh_preCheck [OF assms(1)] txh_bind [OF txh_from [OF stable_phases(3)]]], rule txh_get, rule txh_assume, goal_cases)
  case (1 u a s st A)
  let ?to = "msg_To msg = None" let ?i = "IntrinsicGas (msg_Data msg) ?to True"
  have s: "st_msg s = msg" "st_data s = msg_Data msg" "a = msg_From msg" using 1(2) by (auto simp: spent_def bought_def tx_fields_def)
  have i: "0 \<le> ?i" using IntrinsicGas_ge [of "msg_Data msg" ?to True] by simp
  have err: "txh E T (spent k msg T g0) (sthrow (ChainError e)) Q" for k e and Q :: "tx_result \<Rightarrow> StateTransition \<Rightarrow> world \<Rightarrow> bool"
    by (rule txh_throw) (use bought_supply [OF assms(1)] in \<open>auto simp: spent_def\<close>)
  show ?case unfolding s Let_def
  proof (rule txh_pre [where P' = "spent 0 msg T g0"], rule txh_if [OF err], goal_cases)
    case 1
    have k: "uint (Uint64 ?i) = ?i" using uint_Uint64_BitLen [OF i 1] .
    note phase = stable_phases(3) [of msg ?i T g0] gas_down_phases(2) [of ?i msg T g0]
    have nonce: "tri E False gains_nothing (\<lambda>_. True) (on_db (SetNonce (keccak E) (disk E) b m)) (\<lambda>_ _. True)" for b m
      by (rule conserve.tri_conseq [OF conserve.tri_SetNonce [where P = "\<lambda>_. True"]]) auto
    have run: "txh E T (spent ?i msg T g0) (if ?to then create_message E (run_loop E n) (msg_From msg)
        else sbind (in_vm (on_db (GetNonce (keccak E) (disk E) (msg_From msg)))) (\<lambda>nonce.
             sbind (in_vm (on_db (SetNonce (keccak E) (disk E) (msg_From msg) (nonce + 1)))) (\<lambda>_.
             call_message E (run_loop E n) (msg_From msg)))) (\<lambda>_. spent ?i msg T g0)"
      by (intro txh_if txh_create_message [OF assms(1,3) phase] txh_bind [OF txh_quiet [OF conserve.tri_GetNonce phase(1)]]
        txh_bind [OF txh_quiet [OF nonce phase(1)]] txh_call_message [OF assms(1,3) phase])
    show ?case
    proof (rule txh_bind [OF txh_useGas [OF assms(1)]], unfold k, rule txh_bind [OF run], clarify, rule txh_if [OF err])
      fix ret :: "bytes option" and e :: "err option"
      show "txh E T (spent ?i msg T g0) (sbind get_tx (\<lambda>st1. sbind (refundGas E) (\<lambda>_. sbind get_tx (\<lambda>st2. sret (ret, gasUsed st1, gasUsed st2, e \<noteq> None)))))
        (normal_post msg T g0)" by (rule txh_finish_normal [OF assms(1,2) i refl])
    qed
  qed auto
qed

lemma new_unpaid: "supply_le T A \<Longrightarrow> 0 \<le> w_refund A \<Longrightarrow> unpaid msg T g0 (NewStateTransition v msg g0 s0) A"
  by (simp add: unpaid_def tx_fields_def NewStateTransition_def)

lemma txh_bump_nonce:
  assumes "stable msg P"
  shows "txh E B P (bump_nonce E) (\<lambda>_. P)"
proof -
  have nonce: "tri E False gains_nothing (\<lambda>_. True) (on_db (SetNonce (keccak E) (disk E) b m)) (\<lambda>_ _. True)" for b m
    by (rule conserve.tri_conseq [OF conserve.tri_SetNonce [where P = "\<lambda>_. True"]]) auto
  have sender: "txh E B P (tx_from E) (\<lambda>_. P)" by (rule txh_post [OF txh_from [OF assms]]) simp
  show ?thesis unfolding bump_nonce_def
    by (intro txh_bind [OF sender] txh_bind [OF txh_quiet [OF conserve.tri_GetNonce assms]] txh_quiet [OF nonce assms])
qed

lemma txh_SystemBaseTransitionDb:
  assumes "msg_ok msg" "2 ^ 64 \<le> n"
  shows "txh E T (unpaid msg T g0) (SystemBaseTransitionDb E (run_loop E n)) (\<lambda>r st A. bought msg T g0 st A \<and> fst (snd (snd r)) = 0)"
  unfolding SystemBaseTransitionDb_def
proof (rule txh_bind [OF txh_preCheck [OF assms(1)]], rule txh_get, rule txh_pre [where P' = "bought msg T g0"], goal_cases)
  case (1 x s)
  have err: "txh E T (bought msg T g0) (sthrow (ChainError e)) Q" for e and Q :: "tx_result \<Rightarrow> StateTransition \<Rightarrow> world \<Rightarrow> bool"
    by (rule txh_throw) (use bought_supply [OF assms(1)] in auto)
  have gas: "txh E T (bought msg T g0) (mod_tx (\<lambda>st. st\<lparr>st_gas := g\<rparr>)) (\<lambda>_. bought msg T g0)" for g
    by (rule txh_mod) (auto simp: bought_def tx_fields_def)
  note phase = stable_phases(2) [of msg T g0] gas_down_phases(1) [of msg T g0]
  have call: "txh E T (\<lambda>st A. bought msg T g0 st A \<and> a = msg_From msg) (call_message E (run_loop E n) a) (\<lambda>_. bought msg T g0)" for a
    by (rule txh_assume) (use txh_pre [OF txh_call_message [OF assms phase]] in auto)
  show ?case
  proof (rule txh_if [OF err], rule txh_bind [OF txh_bump_nonce [OF phase(1)]], rule txh_bind [OF gas], rule txh_bind [OF txh_from [OF phase(1)]],
      rule txh_bind [OF call], clarify, rule txh_if [OF err], rule txh_ret)
  qed simp
qed (auto simp: spent_def)

section \<open>Properties\<close>


definition example_msg :: Message where
  "example_msg = \<lparr>msg_To = None, msg_From = zero_address, msg_Nonce = 0, msg_Value = 0, msg_GasPrice = 0, msg_Gas = 90000,
     msg_Data = [0x5b, 0x60, 0, 0x56], msg_Extra = [], CheckNonce = True, msg_Major = Normal, msg_Minor = 0\<rparr>"

lemma example_msg_ok: "msg_ok example_msg"
  by (simp add: msg_ok_def example_msg_def in_word_def zero_address_def small_code_def)

lemma empty_supply: "supply_le 0 empty_world" "0 \<le> max_supply" "0 \<le> w_refund empty_world"
  by (simp_all add: supply_le_def w_balance_def empty_world_def max_supply_def)




lemma total_stock_sum:
  assumes "\<forall>v \<in> set vs. State v \<noteq> Frozen" "unat t + (\<Sum>v\<leftarrow>vs. unat (Number v)) < 2 ^ 64"
  shows "unat (total_stock t vs) = unat t + (\<Sum>v\<leftarrow>vs. unat (Number v))"
  using assms
proof (induction vs arbitrary: t)
  case (Cons v vs)
  then have "unat (t + Number v) = unat t + unat (Number v)" by (simp add: unat_word_ariths)
  then show ?case using Cons by simp
qed simp

lemma assign_shares_even:
  assumes "unat cur + unat single * (\<Sum>v\<leftarrow>vs. unat (Number v)) \<le> unat gas"
  shows "assign_shares single gas cur vs = map (\<lambda>v. (Account v, single * Number v)) vs
    \<and> (\<Sum>v\<leftarrow>vs. unat (single * Number v)) = unat single * (\<Sum>v\<leftarrow>vs. unat (Number v))"
  using assms
proof (induction vs arbitrary: cur)
  case (Cons v vs)
  let ?u = "unat single * unat (Number v)"
  have b: "unat cur + (?u + unat single * (\<Sum>v\<leftarrow>vs. unat (Number v))) \<le> unat gas" using Cons.prems by (simp add: algebra_simps)
  have lt: "unat gas < 2 ^ 64" by (rule unat_u64)
  have u: "unat (single * Number v) = ?u" unfolding unat_word_ariths(2) by (rule mod_less) (use b lt in simp)
  have c: "unat (cur + single * Number v) = unat cur + ?u" unfolding unat_word_ariths(1) u by (rule mod_less) (use b lt in simp)
  then have le: "\<not> cur + single * Number v > gas" using b by (simp add: word_less_nat_alt)
  have "unat (cur + single * Number v) + unat single * (\<Sum>v\<leftarrow>vs. unat (Number v)) \<le> unat gas" unfolding c using b by linarith
  note IH = Cons.IH [OF this]
  show ?case using IH le by (simp add: Let_def u distrib_left)
qed simp



end
