(* ===== verification/Spec2Isabelle.thy ===== *)
theory Spec2Isabelle
  imports Transition_Safe
begin

text \<open>
  A verification library for the Tina chain (\<open>src/chain\<close>, a Go fork of an Ethereum client with delegated proof
  of stake and an application layer called Boker).

  \<^bold>\<open>Parts and their theories.\<close> Data of the chain lives in a key/value database under the hashes of its
  encodings. From the bottom up:

  \<^item> \<open>Prelude\<close>: the types of the model (\<open>bytes\<close>, machine words, \<open>err + 'a\<close> for Go's value-or-error
    pairs, state-passing operations \<open>('a, 's) op\<close>), and the lemmas on lists, words and operations that all
    theories share. A Go panic is the error \<open>Panic\<close>; it passes through every handler.
  \<^item> \<open>Common\<close>: \<open>common/types.go\<close>, \<open>common/bytes.go\<close> and the database of
    \<open>ethdb/memory_database.go\<close>. A database is a partial map from bytes to bytes.
  \<^item> \<open>Rlp\<close>, \<open>Rlp_Stream\<close>: \<open>rlp/encode.go\<close>, \<open>rlp/raw.go\<close> and \<open>rlp/decode.go\<close>. The
    encoder with its header buffer equals a reference encoder; the stream decoder inverts it, for every type of
    integers, byte strings, arrays, slices and structs.
  \<^item> \<open>Trie_Encoding\<close>, \<open>Trie\<close>: \<open>trie/encoding.go\<close>, \<open>node.go\<close>, \<open>trie.go\<close>,
    \<open>hasher.go\<close>. \<open>Patricia\<close> is the abstract Patricia tree, \<open>Trie_Rep\<close> relates nodes (with cached
    hashes, lazily loaded or unloaded subtrees) to it, and \<open>Trie_Correct\<close> shows that a trie is a finite map,
    that its hash depends on the contents only, and that a commit can be reopened. \<open>Trie_View\<close> lifts this to
    tries with a key prefix.
  \<^item> \<open>Strconv\<close>, \<open>Protocol\<close>: decimal numbers as Go prints and reads them, and the constants and errors of
    \<open>boker/protocol/protocol.go\<close>.
  \<^item> \<open>Dpos_Context\<close>: \<open>core/types/dpos_context.go\<close>, the validators, their votes and the mint counts in
    three tries; the round-robin schedule of producers, the invariant of the validator set, and commit.
  \<^item> \<open>Boker_Context\<close>: \<open>core/types/boker_context.go\<close>, contracts, stock and the gas pool in six tries; the
    operations refine operations on plain maps.
  \<^item> \<open>Secure_Trie\<close>: \<open>trie/secure_trie.go\<close>, tries keyed by hashes, with the stored preimages.
  \<^item> \<open>State_Db\<close>: \<open>core/state/statedb.go\<close>, \<open>state_object.go\<close>, \<open>journal.go\<close> and
    \<open>database.go\<close>. \<open>State_Rel\<close> relates a state, whose accounts are spread over the trie, live objects and
    caches, to a \<open>world\<close> of plain accounts, and the journal to abstract undo steps; \<open>State_Correct\<close> has the
    properties: operations refine operations on worlds, and snapshots revert.

  \<^bold>\<open>Correspondence.\<close> Definitions keep the names of the Go functions, with a prefix (\<open>sec_\<close>,
    \<open>obj_\<close>, \<open>sdb_\<close>, \<open>dpos_\<close>, \<open>trie_\<close>) where two types have a method of the same name. A Go
  struct is a record, a method is a function that passes the record along, and a loop is a recursive function beside
  the method it belongs to. Go maps are association lists where the code iterates over them.

  \<^bold>\<open>Hashes.\<close> Keccak-256 is a parameter \<open>H\<close>, of which only the output length of 32 bytes is used
  (\<open>hash32\<close>). Statements about reopening committed data also assume that \<open>H\<close> has no collision on a set
  \<open>U\<close> that covers the strings hashed and stored in the case at hand; the witnesses instantiate \<open>H\<close> and
  \<open>U\<close> concretely.

  \<^bold>\<open>Fuel.\<close> The recursive trie walks follow pointers through the database, so they carry fuel; the entry points
  pass \<open>trie_fuel\<close>, one more than the number of nibbles of the key plus slack, and the refinement theorems prove
  that it is enough: \<open>OutOfFuel\<close> never occurs. All other loops are total functions.

  \<^bold>\<open>Not modelled.\<close> Logging, metrics and locks. Reflection over Go types (the model has a type of RLP types
  instead). LevelDB, the LRU caches, signatures and Keccak, which are third-party code. Networking, the event loops of
  the miner, the downloader and the transaction pool, whose behaviour is timing over goroutines and channels. JSON
  and text marshalling. The consensus engines and services of the original client that this chain does not run.
\<close>

end
